(* ===== verification/Go_Prelude.thy ===== *)
theory Go_Prelude
  imports Complex_Main "HOL-Library.Word"
begin

text \<open>
  The part of the Go language that the components of failsafe-go rely on: the numeric types, the
  run-time panics, the truncating integer division, the slice accesses, and the rounding functions
  of package \<^verbatim>\<open>math\<close>. The unsigned counters of the program are machine words, on which
  \<open>+\<close> and \<open>-\<close> wrap around; signed 64-bit quantities (durations, points in time,
  \<^verbatim>\<open>int\<close> counters) are integers, and \<open>i64\<close> writes the wrap-around out wherever an
  operation of the source can leave the range; \<^verbatim>\<open>float64\<close> values are modelled by exact real
  numbers, so no rounding error of a floating point operation is modelled.
\<close>

section \<open>Numeric types and panics\<close>

type_synonym uint = "64 word"
type_synonym uint32 = "32 word"
type_synonym float64 = real
type_synonym duration = int
type_synonym nanotime = int

datatype go_panic =
    DivideByZero
  | IndexOutOfRange
  | NilDereference
  | Panic string

type_synonym 'a go = "go_panic + 'a"

fun go_bind :: "'a go \<Rightarrow> ('a \<Rightarrow> 'b go) \<Rightarrow> 'b go" where
  "go_bind (Inl p) f = Inl p"
| "go_bind (Inr x) f = f x"

definition Assert :: "bool \<Rightarrow> string \<Rightarrow> unit go" where
  "Assert condition message = (if \<not> condition then Inl (Panic message) else Inr ())"

section \<open>Signed 64-bit arithmetic\<close>

definition i64 :: "int \<Rightarrow> int" where
  "i64 x = (x + 2 ^ 63) mod 2 ^ 64 - 2 ^ 63"

definition in_i64 :: "int \<Rightarrow> bool" where
  "in_i64 x \<longleftrightarrow> - (2 ^ 63) \<le> x \<and> x < 2 ^ 63"

definition i32 :: "int \<Rightarrow> int" where
  "i32 x = (x + 2 ^ 31) mod 2 ^ 32 - 2 ^ 31"

definition in_i32 :: "int \<Rightarrow> bool" where
  "in_i32 x \<longleftrightarrow> - (2 ^ 31) \<le> x \<and> x < 2 ^ 31"

text \<open>Go's \<^verbatim>\<open>/\<close> and \<^verbatim>\<open>%\<close> truncate towards zero; the callers check for a zero divisor first.\<close>

definition go_quot :: "int \<Rightarrow> int \<Rightarrow> int" where
  "go_quot a b = sgn a * sgn b * (\<bar>a\<bar> div \<bar>b\<bar>)"

definition go_rem :: "int \<Rightarrow> int \<Rightarrow> int" where
  "go_rem a b = a - b * go_quot a b"

definition go_div :: "int \<Rightarrow> int \<Rightarrow> int go" where
  "go_div a b = (if b = 0 then Inl DivideByZero else Inr (i64 (go_quot a b)))"

definition go_mod :: "int \<Rightarrow> int \<Rightarrow> int go" where
  "go_mod a b = (if b = 0 then Inl DivideByZero else Inr (go_rem a b))"

section \<open>Slices\<close>

definition slice_index :: "'a list \<Rightarrow> int \<Rightarrow> nat go" where
  "slice_index xs k = (if 0 \<le> k \<and> k < int (length xs) then Inr (nat k) else Inl IndexOutOfRange)"

section \<open>Floating point functions\<close>

text \<open>\<^verbatim>\<open>math.Round\<close> rounds half away from zero, a conversion to an integer type truncates.\<close>

definition math_Round :: "float64 \<Rightarrow> float64" where
  "math_Round x = (if x < 0 then - of_int \<lfloor>- x + 1 / 2\<rfloor> else of_int \<lfloor>x + 1 / 2\<rfloor>)"

definition math_Ceil :: "float64 \<Rightarrow> float64" where
  "math_Ceil x = of_int \<lceil>x\<rceil>"

definition float_to_int :: "float64 \<Rightarrow> int" where
  "float_to_int x = (if x < 0 then \<lceil>x\<rceil> else \<lfloor>x\<rfloor>)"

definition float_of_uint :: "'a::len word \<Rightarrow> float64" where
  "float_of_uint x = real (unat x)"

section \<open>Shared lemmas\<close>

named_theorems wrap_simps \<open>rules that remove a wrap-around under a range hypothesis\<close>
named_theorems go_defs \<open>definitions of the Go operations\<close>

declare go_div_def [go_defs] go_mod_def [go_defs] slice_index_def [go_defs] Assert_def [go_defs]

lemma go_bind_Inr_iff:
  "go_bind m f = Inr y \<longleftrightarrow> (\<exists>x. m = Inr x \<and> f x = Inr y)"
  by (cases m) auto

lemma i64_id [wrap_simps]: "in_i64 x \<Longrightarrow> i64 x = x"
  by (simp add: i64_def in_i64_def)

lemma in_i64_i64 [simp]: "in_i64 (i64 x)"
proof -
  have "0 \<le> (x + 2 ^ 63) mod 2 ^ 64" "(x + 2 ^ 63) mod 2 ^ 64 < (2 ^ 64 :: int)"
    by simp_all
  then show ?thesis
    by (simp add: i64_def in_i64_def)
qed

lemma i32_id [wrap_simps]: "in_i32 x \<Longrightarrow> i32 x = x"
  by (simp add: i32_def in_i32_def)

lemma go_quot_nonneg: "0 \<le> a \<Longrightarrow> 0 < b \<Longrightarrow> go_quot a b = a div b"
  by (cases "a = 0") (simp_all add: go_quot_def)

lemma go_rem_nonneg: "0 \<le> a \<Longrightarrow> 0 < b \<Longrightarrow> go_rem a b = a mod b"
  by (simp add: go_rem_def go_quot_nonneg minus_mult_div_eq_mod)

lemma int_div_le: "0 \<le> a \<Longrightarrow> 0 < b \<Longrightarrow> a div b \<le> (a :: int)"
  using zdiv_mono2[of a 1 b] by simp

lemma slice_index_Inr [simp]: "k < length xs \<Longrightarrow> slice_index xs (int k) = Inr k"
  by (simp add: slice_index_def)

lemma sum_list_update_group:
  fixes xs :: "'a::ab_group_add list"
  shows "k < length xs \<Longrightarrow> sum_list (xs[k := x]) = sum_list xs + x - xs ! k"
proof (induction xs arbitrary: k)
  case (Cons y ys)
  then show ?case by (cases k) (simp_all add: algebra_simps)
qed simp

lemma sum_list_replicate_zero [simp]: "sum_list (replicate n 0) = (0 :: 'a::monoid_add)"
  by (induction n) simp_all

lemma float_of_uint_simps [simp]: "0 \<le> float_of_uint x" "float_of_uint x = 0 \<longleftrightarrow> x = 0" "float_of_uint 0 = 0"
  by (simp_all add: float_of_uint_def unat_eq_0 del: of_nat_unat)

lemma float_to_int_uint [simp]: "float_to_int (float_of_uint x) = int (unat x)"
  by (simp add: float_to_int_def float_of_uint_def not_less del: of_nat_unat)

lemma frac_le_1: "0 \<le> b \<Longrightarrow> a \<le> b \<Longrightarrow> a / b \<le> (1 :: real)"
  by (cases "b = 0") (simp_all add: divide_le_eq_1)

lemma float_of_uint_sum: "unat z = unat x + unat y \<Longrightarrow> float_of_uint z = float_of_uint x + float_of_uint y"
  by (simp add: float_of_uint_def del: of_nat_unat)

lemma rotate_Suc_update:
  assumes "k < length xs"
  shows "rotate (Suc k mod length xs) (xs[k := v]) = tl (rotate k xs) @ [v]"
proof -
  have "rotate (Suc k mod length xs) (xs[k := v]) = rotate (Suc k) (xs[k := v])"
    by (metis length_list_update rotate_conv_mod)
  also have "\<dots> = rotate1 (rotate k (xs[k := v]))" by simp
  also have "rotate k (xs[k := v]) = v # drop (Suc k) xs @ take k xs"
    using assms by (simp add: rotate_drop_take Cons_nth_drop_Suc [symmetric] drop_update_cancel
        flip: Cons_nth_drop_Suc)
  also have "rotate k xs = xs ! k # drop (Suc k) xs @ take k xs"
    using assms by (simp add: rotate_drop_take Cons_nth_drop_Suc flip: append_Cons)
  ultimately show ?thesis by simp
qed

lemma count_list_bool: "count_list xs True + count_list xs False = length xs"
  by (induction xs) auto

lemma hd_rotate: "k < length xs \<Longrightarrow> hd (rotate k xs) = xs ! k"
  by (simp add: rotate_drop_take hd_drop_conv_nth)

lemma unat_inc: "k < (n :: 'a::len word) \<Longrightarrow> unat (k + 1) = Suc (unat k)"
proof -
  assume "k < n"
  then have "unat k + 1 \<le> unat n" by (simp add: word_less_nat_alt)
  then have "unat k + 1 < 2 ^ LENGTH('a)" using unsigned_less by (rule le_less_trans)
  then show ?thesis by (simp add: unat_plus_if')
qed

lemma unat_Suc_mod: "k < (n :: 'a::len word) \<Longrightarrow> unat ((k + 1) mod n) = Suc (unat k) mod unat n"
  by (simp add: unat_mod_distrib unat_inc)

lemma of_nat_eq_word_iff:
  fixes k n :: "'a::len word"
  assumes "i < unat n"
  shows "of_nat i = k \<longleftrightarrow> unat k = i"
proof -
  have "i < 2 ^ LENGTH('a)" using assms unsigned_less by (rule less_trans)
  then show ?thesis using of_nat_inverse[of i k] by auto
qed

lemma ring_next:
  fixes h L :: "'a::len word"
  assumes "h < L"
  shows "h + 1 \<le> L" "(h + 1) mod L < L" "h + 1 < L \<Longrightarrow> (h + 1) mod L = h + 1"
proof -
  have u: "unat (h + 1) = Suc (unat h)" "unat h < unat L"
    using unat_inc[OF assms] assms by (simp_all add: word_less_nat_alt)
  then show "h + 1 \<le> L" by (simp add: word_le_nat_alt)
  show "(h + 1) mod L < L" using u by (simp add: word_less_nat_alt unat_mod_distrib)
  show "(h + 1) mod L = h + 1" if "h + 1 < L"
    using that by (simp add: word_less_nat_alt unat_mod_distrib word_unat_eq_iff)
qed

lemma sorted_le_last: "sorted xs \<Longrightarrow> x \<in> set xs \<Longrightarrow> x \<le> last xs"
  by (induction xs) auto

lemma math_Round_of_int [simp]: "math_Round (of_int k) = of_int k"
  by (simp add: math_Round_def)

lemma math_Round_mono: "x \<le> y \<Longrightarrow> math_Round x \<le> math_Round y"
proof -
  assume "x \<le> y"
  consider "y < 0" | "x < 0" "0 \<le> y" | "0 \<le> x" using \<open>x \<le> y\<close> by linarith
  then show ?thesis
  proof cases
    case 1
    with \<open>x \<le> y\<close> show ?thesis by (simp add: math_Round_def floor_mono)
  next
    case 2
    have "0 \<le> \<lfloor>- x + 1 / 2\<rfloor>" "0 \<le> \<lfloor>y + 1 / 2\<rfloor>" using 2 by (simp_all add: le_floor_iff)
    then have "- real_of_int \<lfloor>- x + 1 / 2\<rfloor> \<le> real_of_int \<lfloor>y + 1 / 2\<rfloor>" by linarith
    with 2 show ?thesis unfolding math_Round_def by simp
  next
    case 3
    with \<open>x \<le> y\<close> show ?thesis by (simp add: math_Round_def floor_mono)
  qed
qed

lemma i64_range: "- (2 ^ 63) \<le> x \<Longrightarrow> x < 2 ^ 63 \<Longrightarrow> i64 x = x"
  by (simp add: i64_id in_i64_def)

lemma go_bind_Inl_iff: "go_bind m f = Inl p \<longleftrightarrow> m = Inl p \<or> (\<exists>x. m = Inr x \<and> f x = Inl p)"
  by (cases m) auto

lemma unat_dec: "0 < unat (p :: 'a::len word) \<Longrightarrow> Suc (unat (p - 1)) = unat p"
  by (cases "p = 0") (simp_all add: unat_minus_one)

lemma unat_sub_le: "(k :: 'a::len word) \<le> n \<Longrightarrow> unat (n - k) = unat n - unat k"
  by (simp add: unat_sub)

end
