(* ===== verification/Policy_Base.thy ===== *)
theory Policy_Base
  imports Go_Prelude
begin

text \<open>
  Error values, policy results and the base classes of policies: src/policy/policy.go,
  src/common/result.go, src/internal/execution.go, the error helpers of src/internal/util/util.go and
  the error type of src/retrypolicy/retry.go. A Go \<^verbatim>\<open>error\<close> is a value of \<open>'r error option\<close>,
  \<open>None\<close> being nil. Listeners are arbitrary user code: a policy records whether one is registered,
  and the executors log the call.
\<close>

section \<open>Error values\<close>

text \<open>
  \<open>Err\<close> is a sentinel made by \<^verbatim>\<open>errors.New\<close>, named by the variable that holds it; \<open>Wrap\<close> and
  \<open>Join\<close> are errors of the named type with an \<^verbatim>\<open>Unwrap() error\<close> or \<^verbatim>\<open>Unwrap() []error\<close>
  method; \<open>FailureError\<close> is the error \<^verbatim>\<open>fmt.Errorf("failure: %v", r)\<close>.
\<close>

datatype 'r error =
    Err string
  | Wrap string "'r error option"
  | Join string "'r error option list"
  | ExceededError 'r "'r error option"
  | FailureError 'r

definition retry_ErrExceeded :: "'r error" where
  "retry_ErrExceeded = Err ''retries exceeded''"

text \<open>\<^verbatim>\<open>ExceededError.Is\<close> and \<^verbatim>\<open>ExceededError.Unwrap\<close>.\<close>

definition ExceededError_Is :: "'r error \<Rightarrow> bool" where
  "ExceededError_Is err \<longleftrightarrow> err = retry_ErrExceeded"

definition ExceededError_Unwrap :: "'r \<Rightarrow> 'r error option \<Rightarrow> 'r error" where
  "ExceededError_Unwrap lastResult lastError =
     (case lastError of Some e \<Rightarrow> e | None \<Rightarrow> FailureError lastResult)"

text \<open>
  \<^verbatim>\<open>errors.Is\<close> of the standard library: an error matches if it equals the target, if its own
  \<^verbatim>\<open>Is\<close> method says so, or if something it wraps matches.
\<close>

fun errors_is :: "'r error \<Rightarrow> 'r error \<Rightarrow> bool" where
  "errors_is (Err n) t \<longleftrightarrow> Err n = t"
| "errors_is (FailureError r) t \<longleftrightarrow> FailureError r = t"
| "errors_is (Wrap n None) t \<longleftrightarrow> Wrap n None = t"
| "errors_is (Wrap n (Some e)) t \<longleftrightarrow> Wrap n (Some e) = t \<or> errors_is e t"
| "errors_is (Join n es) t \<longleftrightarrow> Join n es = t
     \<or> list_ex (\<lambda>x. case x of None \<Rightarrow> False | Some e \<Rightarrow> errors_is e t) es"
| "errors_is (ExceededError r None) t \<longleftrightarrow> ExceededError r None = t \<or> ExceededError_Is t
     \<or> FailureError r = t"
| "errors_is (ExceededError r (Some e)) t \<longleftrightarrow> ExceededError r (Some e) = t \<or> ExceededError_Is t
     \<or> errors_is e t"

definition errors_Is :: "'r error option \<Rightarrow> 'r error option \<Rightarrow> bool" where
  "errors_Is err target = (case (err, target) of
       (Some e, Some t) \<Rightarrow> errors_is e t
     | _ \<Rightarrow> err = target)"

text \<open>
  \<^verbatim>\<open>util.errorAs\<close>: whether the error or something it wraps is assignable to the target type;
  \<open>assignable\<close> stands for \<^verbatim>\<open>reflect.TypeOf(err).AssignableTo(targetType)\<close>.
\<close>

fun errorAs :: "('r error \<Rightarrow> bool) \<Rightarrow> 'r error \<Rightarrow> bool" where
  "errorAs assignable (Err n) \<longleftrightarrow> assignable (Err n)"
| "errorAs assignable (FailureError r) \<longleftrightarrow> assignable (FailureError r)"
| "errorAs assignable (Wrap n None) \<longleftrightarrow> assignable (Wrap n None)"
| "errorAs assignable (Wrap n (Some e)) \<longleftrightarrow> assignable (Wrap n (Some e)) \<or> errorAs assignable e"
| "errorAs assignable (Join n es) \<longleftrightarrow> assignable (Join n es)
     \<or> list_ex (\<lambda>x. case x of None \<Rightarrow> False | Some e \<Rightarrow> errorAs assignable e) es"
| "errorAs assignable (ExceededError r None) \<longleftrightarrow> assignable (ExceededError r None)
     \<or> assignable (FailureError r)"
| "errorAs assignable (ExceededError r (Some e)) \<longleftrightarrow> assignable (ExceededError r (Some e))
     \<or> errorAs assignable e"

text \<open>
  The target of \<^verbatim>\<open>util.ErrorTypesMatch\<close>: nil, a value whose type is neither an interface nor an
  error, or one of an error type, given by what is assignable to it.
\<close>

datatype 'r error_target = NilTarget | NoErrorTarget | ErrorTypeTarget "'r error \<Rightarrow> bool"

definition ErrorTypesMatch :: "'r error option \<Rightarrow> 'r error_target \<Rightarrow> bool go" where
  "ErrorTypesMatch err target =
     (case err of
        None \<Rightarrow> Inr False
      | Some e \<Rightarrow>
          (case target of
             NilTarget \<Rightarrow> Inl (Panic ''target cannot be nil'')
           | NoErrorTarget \<Rightarrow> Inl (Panic ''target must be interface or implement error'')
           | ErrorTypeTarget assignable \<Rightarrow> Inr (errorAs assignable e)))"

section \<open>Policy results\<close>

record 'r PolicyResult =
  Result :: 'r
  Error :: "'r error option"
  Done :: bool
  Success :: bool
  SuccessAll :: bool

definition WithDone :: "'r PolicyResult \<Rightarrow> bool \<Rightarrow> bool \<Rightarrow> 'r PolicyResult" where
  "WithDone pr dn success =
     pr\<lparr>Done := dn, Success := success, SuccessAll := (success \<and> SuccessAll pr)\<rparr>"

definition WithFailure :: "'r PolicyResult \<Rightarrow> 'r PolicyResult" where
  "WithFailure pr = pr\<lparr>Success := False, SuccessAll := False\<rparr>"

text \<open>The zero value of the result type, Go's \<^verbatim>\<open>*new(R)\<close>, is the argument \<open>zero\<close>.\<close>

definition FailureResult :: "'r \<Rightarrow> 'r error \<Rightarrow> 'r PolicyResult" where
  "FailureResult zero err =
     \<lparr>Result = zero, Error = Some err, Done = True, Success = False, SuccessAll = False\<rparr>"

section \<open>Base of failure handling policies\<close>

type_synonym 'r condition = "'r \<Rightarrow> 'r error option \<Rightarrow> bool"

fun AppliesToAny :: "'r condition list \<Rightarrow> 'r \<Rightarrow> 'r error option \<Rightarrow> bool" where
  "AppliesToAny [] r e = False"
| "AppliesToAny (p # ps) r e = (if p r e then True else AppliesToAny ps r e)"

record 'r BaseFailurePolicy =
  errorsChecked :: bool
  failureConditions :: "'r condition list"
  onSuccess :: bool
  onFailure :: bool

definition new_BaseFailurePolicy :: "'r BaseFailurePolicy" where
  "new_BaseFailurePolicy =
     \<lparr>errorsChecked = False, failureConditions = [], onSuccess = False, onFailure = False\<rparr>"

definition HandleErrors :: "'r error option list \<Rightarrow> 'r BaseFailurePolicy \<Rightarrow> 'r BaseFailurePolicy" where
  "HandleErrors errs p =
     p\<lparr>failureConditions := failureConditions p @ map (\<lambda>t r actualErr. errors_Is actualErr t) errs,
       errorsChecked := True\<rparr>"

text \<open>A target of \<^verbatim>\<open>HandleErrorTypes\<close> is an error type, given by what is assignable to it.\<close>

definition type_condition :: "('r error \<Rightarrow> bool) \<Rightarrow> 'r condition" where
  "type_condition assignable r actualErr =
     (case actualErr of None \<Rightarrow> False | Some e \<Rightarrow> errorAs assignable e)"

definition HandleErrorTypes :: "('r error \<Rightarrow> bool) list \<Rightarrow> 'r BaseFailurePolicy \<Rightarrow> 'r BaseFailurePolicy" where
  "HandleErrorTypes errs p =
     p\<lparr>failureConditions := failureConditions p @ map type_condition errs, errorsChecked := True\<rparr>"

definition HandleResult :: "'r \<Rightarrow> 'r BaseFailurePolicy \<Rightarrow> 'r BaseFailurePolicy" where
  "HandleResult result p = p\<lparr>failureConditions := failureConditions p @ [\<lambda>r err. r = result]\<rparr>"

definition HandleIf :: "'r condition \<Rightarrow> 'r BaseFailurePolicy \<Rightarrow> 'r BaseFailurePolicy" where
  "HandleIf predicate p =
     p\<lparr>failureConditions := failureConditions p @ [predicate], errorsChecked := True\<rparr>"

definition OnSuccess :: "'r BaseFailurePolicy \<Rightarrow> 'r BaseFailurePolicy" where
  "OnSuccess p = p\<lparr>onSuccess := True\<rparr>"

definition OnFailure :: "'r BaseFailurePolicy \<Rightarrow> 'r BaseFailurePolicy" where
  "OnFailure p = p\<lparr>onFailure := True\<rparr>"

definition IsFailure :: "'r BaseFailurePolicy \<Rightarrow> 'r \<Rightarrow> 'r error option \<Rightarrow> bool" where
  "IsFailure p result err =
     (if length (failureConditions p) = 0 then err \<noteq> None
      else if AppliesToAny (failureConditions p) result err then True
      else err \<noteq> None \<and> \<not> errorsChecked p)"

section \<open>Base of delayable and abortable policies\<close>

text \<open>\<open>'x\<close> is the type of execution attempts that a delay function sees; nil is \<open>None\<close>.\<close>

record 'x BaseDelayablePolicy =
  Delay :: duration
  DelayFunc :: "('x \<Rightarrow> duration) option"

definition WithDelay :: "duration \<Rightarrow> 'x BaseDelayablePolicy \<Rightarrow> 'x BaseDelayablePolicy" where
  "WithDelay delay d = d\<lparr>Delay := delay\<rparr>"

definition WithDelayFunc :: "('x \<Rightarrow> duration) option \<Rightarrow> 'x BaseDelayablePolicy \<Rightarrow> 'x BaseDelayablePolicy" where
  "WithDelayFunc delayFunc d = d\<lparr>DelayFunc := delayFunc\<rparr>"

definition ComputeDelay :: "'x BaseDelayablePolicy \<Rightarrow> 'x option \<Rightarrow> duration" where
  "ComputeDelay d exec =
     (case (exec, DelayFunc d) of (Some x, Some f) \<Rightarrow> f x | _ \<Rightarrow> -1)"

record 'r BaseAbortablePolicy =
  abortConditions :: "'r condition list"

definition AbortOnResult :: "'r \<Rightarrow> 'r BaseAbortablePolicy \<Rightarrow> 'r BaseAbortablePolicy" where
  "AbortOnResult result c = c\<lparr>abortConditions := abortConditions c @ [\<lambda>r err. r = result]\<rparr>"

definition AbortOnErrors :: "'r error option list \<Rightarrow> 'r BaseAbortablePolicy \<Rightarrow> 'r BaseAbortablePolicy" where
  "AbortOnErrors errs c =
     c\<lparr>abortConditions := abortConditions c @ map (\<lambda>t r actualErr. errors_Is actualErr t) errs\<rparr>"

definition AbortOnErrorTypes :: "('r error \<Rightarrow> bool) list \<Rightarrow> 'r BaseAbortablePolicy \<Rightarrow> 'r BaseAbortablePolicy" where
  "AbortOnErrorTypes errs c = c\<lparr>abortConditions := abortConditions c @ map type_condition errs\<rparr>"

definition AbortIf :: "'r condition \<Rightarrow> 'r BaseAbortablePolicy \<Rightarrow> 'r BaseAbortablePolicy" where
  "AbortIf predicate c = c\<lparr>abortConditions := abortConditions c @ [\<lambda>result err. predicate result err]\<rparr>"

definition IsConfigured :: "'r BaseAbortablePolicy \<Rightarrow> bool" where
  "IsConfigured c \<longleftrightarrow> length (abortConditions c) > 0"

definition IsAbortable :: "'r BaseAbortablePolicy \<Rightarrow> 'r \<Rightarrow> 'r error option \<Rightarrow> bool" where
  "IsAbortable c result err = AppliesToAny (abortConditions c) result err"

section \<open>Lemmas\<close>

lemma AppliesToAny_iff: "AppliesToAny ps r e \<longleftrightarrow> (\<exists>p \<in> set ps. p r e)"
  by (induction ps) auto

lemma IsFailure_iff:
  "IsFailure p r e \<longleftrightarrow> (\<exists>c \<in> set (failureConditions p). c r e)
     \<or> (e \<noteq> None \<and> (failureConditions p = [] \<or> \<not> errorsChecked p))"
  by (auto simp: IsFailure_def AppliesToAny_iff)

lemma errors_is_refl [simp]: "errors_is e e"
  by (cases "(e, e)" rule: errors_is.cases) auto

lemma errors_Is_refl [simp]: "errors_Is x x"
  by (cases x) (simp_all add: errors_Is_def)

text \<open>
  Every constructor of the builders adds conditions, so a policy built from the default one is a
  disjunction of its conditions, with the default error condition kept until one that handles errors
  is configured.
\<close>

datatype 'r handler =
    HErrors "'r error option list" | HErrorTypes "('r error \<Rightarrow> bool) list" | HResult 'r | HIf "'r condition"

fun configure :: "'r handler \<Rightarrow> 'r BaseFailurePolicy \<Rightarrow> 'r BaseFailurePolicy" where
  "configure (HErrors es) p = HandleErrors es p"
| "configure (HErrorTypes ts) p = HandleErrorTypes ts p"
| "configure (HResult r) p = HandleResult r p"
| "configure (HIf c) p = HandleIf c p"

fun handles :: "'r handler \<Rightarrow> 'r condition" where
  "handles (HErrors es) r e \<longleftrightarrow> (\<exists>t \<in> set es. errors_Is e t)"
| "handles (HErrorTypes ts) r e \<longleftrightarrow> (\<exists>a \<in> set ts. type_condition a r e)"
| "handles (HResult x) r e \<longleftrightarrow> r = x"
| "handles (HIf c) r e \<longleftrightarrow> c r e"

fun checks_errors :: "'r handler \<Rightarrow> bool" where
  "checks_errors (HResult r) = False"
| "checks_errors h = True"

lemmas handler_defs = HandleErrors_def HandleErrorTypes_def HandleResult_def HandleIf_def

lemma configure_conditions:
  "(\<exists>c \<in> set (failureConditions (fold configure hs p)). c r e)
     \<longleftrightarrow> (\<exists>c \<in> set (failureConditions p). c r e) \<or> (\<exists>h \<in> set hs. handles h r e)"
proof (induction hs arbitrary: p)
  case (Cons h hs)
  have "(\<exists>c \<in> set (failureConditions (configure h p)). c r e)
      \<longleftrightarrow> (\<exists>c \<in> set (failureConditions p). c r e) \<or> handles h r e"
    by (cases h) (auto simp: handler_defs)
  then show ?case using Cons.IH[of "configure h p"] by auto
qed simp

lemma configure_errorsChecked:
  "errorsChecked (fold configure hs p) \<longleftrightarrow> errorsChecked p \<or> (\<exists>h \<in> set hs. checks_errors h)"
proof (induction hs arbitrary: p)
  case (Cons h hs)
  have "errorsChecked (configure h p) \<longleftrightarrow> errorsChecked p \<or> checks_errors h"
    by (cases h) (auto simp: handler_defs)
  then show ?case using Cons.IH[of "configure h p"] by auto
qed simp

fun some_target :: "'r handler \<Rightarrow> bool" where
  "some_target (HErrors es) \<longleftrightarrow> es \<noteq> []"
| "some_target (HErrorTypes ts) \<longleftrightarrow> ts \<noteq> []"
| "some_target h \<longleftrightarrow> True"

lemma configure_no_conditions:
  assumes "\<forall>h \<in> set hs. some_target h"
  shows "failureConditions (fold configure hs p) = [] \<longleftrightarrow> failureConditions p = [] \<and> hs = []"
  using assms
proof (induction hs arbitrary: p)
  case (Cons h hs)
  then have "failureConditions (configure h p) \<noteq> []" by (cases h) (auto simp: handler_defs)
  with Cons show ?case by auto
qed simp

section \<open>Properties\<close>

text \<open>
  A failure policy configured by any sequence of handle conditions (with at least one target
  each) classifies a result as a failure exactly when one of the conditions matches it, or when there
  is an error and no condition that handles errors was configured: conditions that only handle
  results keep the default error handling.
\<close>

theorem IsFailure_configured:
  assumes "\<forall>h \<in> set hs. some_target h"
  shows "IsFailure (fold configure hs new_BaseFailurePolicy) r e \<longleftrightarrow>
     (\<exists>h \<in> set hs. handles h r e) \<or> (e \<noteq> None \<and> \<not> (\<exists>h \<in> set hs. checks_errors h))"
  using configure_no_conditions[OF assms, of new_BaseFailurePolicy]
  by (auto simp: IsFailure_iff configure_conditions configure_errorsChecked new_BaseFailurePolicy_def)

theorem IsFailure_configured_witness:
  "IsFailure (fold configure [HResult (0::int)] new_BaseFailurePolicy) 7 (Some (Err ''timeout''))
   \<and> \<not> IsFailure (fold configure [HResult (0::int), HErrors [Some (Err ''io'')]] new_BaseFailurePolicy)
         7 (Some (Err ''timeout''))"
proof
  show "IsFailure (fold configure [HResult (0::int)] new_BaseFailurePolicy) 7 (Some (Err ''timeout''))"
    by (subst IsFailure_configured) simp_all
  show "\<not> IsFailure (fold configure [HResult (0::int), HErrors [Some (Err ''io'')]] new_BaseFailurePolicy)
         7 (Some (Err ''timeout''))"
    by (subst IsFailure_configured) (simp_all add: errors_Is_def)
qed

text \<open>
  The condition of \<^verbatim>\<open>HandleResult\<close> also classifies executions that returned an error: a policy
  that handles the error \<open>io\<close> and the result 0 treats an execution that failed with another error
  as a failure, because the accompanying zero result equals the handled one.
\<close>

theorem HandleResult_applies_to_errors:
  "IsFailure (HandleResult (0::int) (HandleErrors [Some (Err ''io'')] new_BaseFailurePolicy))
     0 (Some (Err ''timeout''))
   \<and> \<not> IsFailure (HandleErrors [Some (Err ''io'')] new_BaseFailurePolicy) (0::int) (Some (Err ''timeout''))"
  by (simp add: IsFailure_def handler_defs new_BaseFailurePolicy_def errors_Is_def)

end
