(* ===== verification/Semaphore.thy ===== *)
theory Semaphore
  imports Policy_Base
begin

text \<open>
  \<^verbatim>\<open>util.DynamicSemaphore\<close> (src/internal/util/semaphore.go), the resizable FIFO semaphore that the
  adaptive limiter counts its permits with. Each critical section is one function. A waiter's channel
  is a number, given out in order; \<open>sem_closed\<close> lists the channels that were closed, in the order
  they were, and the end of a blocked caller's \<^verbatim>\<open>select\<close> is a step of the step relation: either it
  receives from its closed channel, or its context or timer is done and it runs \<^verbatim>\<open>drainWaiter\<close>.
\<close>

section \<open>State and operations\<close>

record DynamicSemaphore =
  sem_size :: int
  sem_used :: int
  sem_waiters :: "nat list"
  sem_closed :: "nat list"
  sem_next :: nat

definition NewDynamicSemaphore :: "int \<Rightarrow> DynamicSemaphore" where
  "NewDynamicSemaphore sz =
     \<lparr>sem_size = sz, sem_used = 0, sem_waiters = [], sem_closed = [], sem_next = 0\<rparr>"

definition ErrWaitExceeded :: "'r error" where
  "ErrWaitExceeded = Err ''wait time exceeded''"

text \<open>The first part of an acquire: a permit, an error, or a waiter the caller then blocks on.\<close>

datatype 'r acquire_outcome = Acquired | Refused "'r error" | Blocked nat

definition push_waiter :: "DynamicSemaphore \<Rightarrow> 'r acquire_outcome \<times> DynamicSemaphore" where
  "push_waiter s =
     (Blocked (sem_next s), s\<lparr>sem_waiters := sem_waiters s @ [sem_next s], sem_next := Suc (sem_next s)\<rparr>)"

definition sem_Acquire :: "DynamicSemaphore \<Rightarrow> 'r acquire_outcome \<times> DynamicSemaphore" where
  "sem_Acquire s =
     (if sem_used s < sem_size s then (Acquired, s\<lparr>sem_used := sem_used s + 1\<rparr>) else push_waiter s)"

definition AcquireWithMaxWait :: "duration \<Rightarrow> DynamicSemaphore \<Rightarrow> 'r acquire_outcome \<times> DynamicSemaphore" where
  "AcquireWithMaxWait maxWaitTime s =
     (if sem_used s < sem_size s then (Acquired, s\<lparr>sem_used := sem_used s + 1\<rparr>)
      else if maxWaitTime = 0 then (Refused ErrWaitExceeded, s)
      else push_waiter s)"

definition drainWaiter :: "nat \<Rightarrow> 'r error \<Rightarrow> DynamicSemaphore \<Rightarrow> 'r error option \<times> DynamicSemaphore" where
  "drainWaiter waiter err s =
     (if waiter \<in> set (sem_closed s) then (None, s)
      else (Some err, s\<lparr>sem_waiters := remove1 waiter (sem_waiters s)\<rparr>))"

definition TryAcquire :: "DynamicSemaphore \<Rightarrow> bool \<times> DynamicSemaphore" where
  "TryAcquire s = (if sem_used s < sem_size s then (True, s\<lparr>sem_used := sem_used s + 1\<rparr>) else (False, s))"

definition wakeAndAcquire :: "nat \<Rightarrow> DynamicSemaphore \<Rightarrow> DynamicSemaphore" where
  "wakeAndAcquire waiter s =
     s\<lparr>sem_used := sem_used s + 1, sem_waiters := remove1 waiter (sem_waiters s),
       sem_closed := sem_closed s @ [waiter]\<rparr>"

definition Release :: "DynamicSemaphore \<Rightarrow> DynamicSemaphore go" where
  "Release s =
     (if sem_used s \<le> 0 then Inl (Panic ''DynamicSemaphore: Release called without matching Acquire'')
      else let s1 = s\<lparr>sem_used := sem_used s - 1\<rparr> in
           if sem_used s1 < sem_size s1 \<and> length (sem_waiters s1) > 0
           then Inr (wakeAndAcquire (hd (sem_waiters s1)) s1) else Inr s1)"

text \<open>The loop of \<^verbatim>\<open>SetSize\<close>; each round removes the waiter at the front.\<close>

function wake_loop :: "int \<Rightarrow> DynamicSemaphore \<Rightarrow> DynamicSemaphore" where
  "wake_loop sz s =
     (if sem_used s < sz \<and> length (sem_waiters s) > 0
      then wake_loop sz (wakeAndAcquire (hd (sem_waiters s)) s) else s)"
  by pat_completeness auto
termination
  by (relation "measure (\<lambda>(_, s). length (sem_waiters s))") (auto simp: wakeAndAcquire_def length_remove1 neq_Nil_conv)

declare wake_loop.simps [simp del]

definition SetSize :: "int \<Rightarrow> DynamicSemaphore \<Rightarrow> DynamicSemaphore" where
  "SetSize sz s =
     (let s1 = (if sz > sem_size s then wake_loop sz s else s) in s1\<lparr>sem_size := sz\<rparr>)"

definition IsFull :: "DynamicSemaphore \<Rightarrow> bool" where
  "IsFull s \<longleftrightarrow> sem_used s \<ge> sem_size s"

definition Waiters :: "DynamicSemaphore \<Rightarrow> int" where
  "Waiters s = int (length (sem_waiters s))"

definition Used :: "DynamicSemaphore \<Rightarrow> int" where
  "Used s = sem_used s"

section \<open>Callers and steps\<close>

text \<open>The callers blocked in their \<^verbatim>\<open>select\<close>, and the number of callers that hold a permit.\<close>

record sem_world =
  sem :: DynamicSemaphore
  blocked :: "nat list"
  holders :: nat

definition sem_init :: "int \<Rightarrow> sem_world" where
  "sem_init sz = \<lparr>sem = NewDynamicSemaphore sz, blocked = [], holders = 0\<rparr>"

inductive sem_step :: "sem_world \<Rightarrow> sem_world \<Rightarrow> bool" where
  acquire: "(sem_Acquire (sem w) :: unit acquire_outcome \<times> _) = (Acquired, s')
     \<Longrightarrow> sem_step w (w\<lparr>sem := s', holders := Suc (holders w)\<rparr>)"
| acquire_block: "(sem_Acquire (sem w) :: unit acquire_outcome \<times> _) = (Blocked i, s')
     \<Longrightarrow> sem_step w (w\<lparr>sem := s', blocked := blocked w @ [i]\<rparr>)"
| acquire_wait: "(AcquireWithMaxWait d (sem w) :: unit acquire_outcome \<times> _) = (Acquired, s')
     \<Longrightarrow> sem_step w (w\<lparr>sem := s', holders := Suc (holders w)\<rparr>)"
| acquire_wait_refused: "(AcquireWithMaxWait d (sem w) :: unit acquire_outcome \<times> _) = (Refused e, s')
     \<Longrightarrow> sem_step w (w\<lparr>sem := s'\<rparr>)"
| acquire_wait_block: "(AcquireWithMaxWait d (sem w) :: unit acquire_outcome \<times> _) = (Blocked i, s')
     \<Longrightarrow> sem_step w (w\<lparr>sem := s', blocked := blocked w @ [i]\<rparr>)"
| receive: "i \<in> set (blocked w) \<Longrightarrow> i \<in> set (sem_closed (sem w))
     \<Longrightarrow> sem_step w (w\<lparr>blocked := remove1 i (blocked w), holders := Suc (holders w)\<rparr>)"
| drained_ready: "i \<in> set (blocked w) \<Longrightarrow> drainWaiter i (e :: unit error) (sem w) = (None, s')
     \<Longrightarrow> sem_step w (w\<lparr>sem := s', blocked := remove1 i (blocked w), holders := Suc (holders w)\<rparr>)"
| drained: "i \<in> set (blocked w) \<Longrightarrow> drainWaiter i (e :: unit error) (sem w) = (Some e', s')
     \<Longrightarrow> sem_step w (w\<lparr>sem := s', blocked := remove1 i (blocked w)\<rparr>)"
| try_acquire: "TryAcquire (sem w) = (b, s')
     \<Longrightarrow> sem_step w (w\<lparr>sem := s', holders := holders w + (if b then 1 else 0)\<rparr>)"
| release: "holders w = Suc k \<Longrightarrow> Release (sem w) = Inr s' \<Longrightarrow> sem_step w (w\<lparr>sem := s', holders := k\<rparr>)"
| resize: "sem_step w (w\<lparr>sem := SetSize sz (sem w)\<rparr>)"

text \<open>
  Every permit in use belongs to a caller that holds it or to one that is blocked but was woken; the
  waiters are in the order they came, after everyone woken so far; and nobody waits while a permit is free.
\<close>

definition woken :: "sem_world \<Rightarrow> nat list" where
  "woken w = filter (\<lambda>i. i \<in> set (sem_closed (sem w))) (blocked w)"

definition sem_order :: "DynamicSemaphore \<Rightarrow> bool" where
  "sem_order s \<longleftrightarrow> sorted_wrt (<) (sem_closed s @ sem_waiters s @ [sem_next s])"

text \<open>The part of the invariant that also holds inside the loop of \<^verbatim>\<open>SetSize\<close>.\<close>

definition sem_core :: "sem_world \<Rightarrow> bool" where
  "sem_core w \<longleftrightarrow> sem_used (sem w) = int (holders w) + int (length (woken w))
     \<and> sem_order (sem w)
     \<and> distinct (blocked w) \<and> (\<forall>i \<in> set (blocked w). i < sem_next (sem w))
     \<and> set (sem_waiters (sem w)) = {i \<in> set (blocked w). i \<notin> set (sem_closed (sem w))}"

definition sem_inv :: "sem_world \<Rightarrow> bool" where
  "sem_inv w \<longleftrightarrow> sem_core w \<and> (sem_waiters (sem w) \<noteq> [] \<longrightarrow> IsFull (sem w))"

inductive sem_reachable :: "int \<Rightarrow> sem_world \<Rightarrow> bool" for sz where
  init: "sem_reachable sz (sem_init sz)"
| step: "sem_reachable sz w \<Longrightarrow> sem_step w w' \<Longrightarrow> sem_reachable sz w'"

section \<open>Preservation of the invariant\<close>

lemma filter_snoc_closed:
  assumes "distinct xs" "i \<in> set xs" "i \<notin> set cs"
  shows "length (filter (\<lambda>j. j = i \<or> j \<in> set cs) xs) = Suc (length (filter (\<lambda>j. j \<in> set cs) xs))"
  using assms by (induction xs) (auto intro!: arg_cong[where f = length] filter_cong)

lemma filter_remove1_closed:
  assumes "distinct xs" "i \<in> set xs"
  shows "length (filter P xs) = length (filter P (remove1 i xs)) + (if P i then 1 else 0)"
  using assms by (induction xs) auto

lemma sorted_wrt_remove1: "sorted_wrt P xs \<Longrightarrow> sorted_wrt P (remove1 i xs)"
  by (induction xs) (auto dest: notin_set_remove1)

lemma wake_core:
  assumes "sem_core w" "sem_waiters (sem w) = i # ws"
  shows "sem_core (w\<lparr>sem := wakeAndAcquire i (sem w)\<rparr>)"
proof -
  have i: "i \<in> set (blocked w)" "i \<notin> set (sem_closed (sem w))" "i \<notin> set ws"
    using assms by (auto simp: sem_core_def sem_order_def sorted_wrt_append)
  have "length (filter (\<lambda>j. j = i \<or> j \<in> set (sem_closed (sem w))) (blocked w)) = Suc (length (woken w))"
    using filter_snoc_closed[OF _ i(1,2)] assms(1) by (simp add: sem_core_def woken_def)
  then show ?thesis
    using assms i by (auto simp: sem_core_def wakeAndAcquire_def woken_def sem_order_def sorted_wrt_append)
qed

lemma wake_loop_core:
  assumes "sem_core w"
  shows "sem_core (w\<lparr>sem := wake_loop sz (sem w)\<rparr>)
     \<and> (sem_waiters (wake_loop sz (sem w)) \<noteq> [] \<longrightarrow> sz \<le> sem_used (wake_loop sz (sem w)))"
  using assms
proof (induction "length (sem_waiters (sem w))" arbitrary: w)
  case 0
  then show ?case by (subst (1 2 3) wake_loop.simps) simp
next
  case (Suc n)
  then obtain i ws where ws: "sem_waiters (sem w) = i # ws" by (cases "sem_waiters (sem w)") auto
  define w1 where "w1 = w\<lparr>sem := wakeAndAcquire i (sem w)\<rparr>"
  have w1: "sem_core w1" "length (sem_waiters (sem w1)) = n"
    using wake_core[OF Suc.prems ws] Suc.hyps(2) ws by (simp_all add: w1_def wakeAndAcquire_def)
  show ?case
  proof (cases "sem_used (sem w) < sz")
    case True
    then have "wake_loop sz (sem w) = wake_loop sz (sem w1)"
      using ws by (subst wake_loop.simps) (simp add: w1_def)
    then show ?thesis using Suc.hyps(1)[OF w1(2)[symmetric] w1(1)] by (simp add: w1_def)
  next
    case False
    then show ?thesis using Suc.prems by (subst (1 2 3) wake_loop.simps) simp
  qed
qed

lemma set_size_inv:
  assumes "sem_inv w"
  shows "sem_inv (w\<lparr>sem := SetSize sz (sem w)\<rparr>)"
proof (cases "sem_size (sem w) < sz")
  case True
  have "sem_core (w\<lparr>sem := wake_loop sz (sem w)\<lparr>sem_size := sz\<rparr>\<rparr>)"
    using wake_loop_core[of w sz] assms by (simp add: sem_inv_def sem_core_def woken_def sem_order_def)
  then show ?thesis using True wake_loop_core[of w sz] assms by (simp add: sem_inv_def SetSize_def IsFull_def)
next
  case False
  then show ?thesis using assms
    by (auto simp: sem_inv_def SetSize_def IsFull_def sem_core_def woken_def sem_order_def)
qed

lemma push_inv:
  assumes "sem_inv w" "\<not> sem_used (sem w) < sem_size (sem w)"
  shows "sem_inv (w\<lparr>sem := snd (push_waiter (sem w)), blocked := blocked w @ [sem_next (sem w)]\<rparr>)"
proof -
  have "sem_next (sem w) \<notin> set (sem_closed (sem w))" "sem_next (sem w) \<notin> set (blocked w)"
    using assms(1) by (auto simp: sem_inv_def sem_core_def sem_order_def sorted_wrt_append)
  then show ?thesis
    using assms by (auto simp: sem_inv_def sem_core_def push_waiter_def woken_def IsFull_def sem_order_def
        sorted_wrt_append less_Suc_eq)
qed

lemma grant_inv:
  assumes "sem_inv w" "sem_used (sem w) < sem_size (sem w)"
  shows "sem_inv (w\<lparr>sem := (sem w)\<lparr>sem_used := sem_used (sem w) + 1\<rparr>, holders := Suc (holders w)\<rparr>)"
  using assms by (auto simp: sem_inv_def sem_core_def woken_def IsFull_def sem_order_def)

lemma leave_inv:
  assumes "sem_inv w" "i \<in> set (blocked w)"
  shows "i \<in> set (sem_closed (sem w)) \<Longrightarrow> sem_inv (w\<lparr>blocked := remove1 i (blocked w), holders := Suc (holders w)\<rparr>)"
    "i \<notin> set (sem_closed (sem w)) \<Longrightarrow>
       sem_inv (w\<lparr>sem := (sem w)\<lparr>sem_waiters := remove1 i (sem_waiters (sem w))\<rparr>, blocked := remove1 i (blocked w)\<rparr>)"
proof -
  have d: "distinct (blocked w)" "distinct (sem_waiters (sem w))"
    using assms(1) by (auto simp: sem_inv_def sem_core_def sem_order_def sorted_wrt_append strict_sorted_iff)
  note f = filter_remove1_closed[OF d(1) assms(2), of "\<lambda>j. j \<in> set (sem_closed (sem w))"]
  show "sem_inv (w\<lparr>blocked := remove1 i (blocked w), holders := Suc (holders w)\<rparr>)" if "i \<in> set (sem_closed (sem w))"
    using assms that f d by (auto simp: sem_inv_def sem_core_def woken_def)
  show "sem_inv (w\<lparr>sem := (sem w)\<lparr>sem_waiters := remove1 i (sem_waiters (sem w))\<rparr>, blocked := remove1 i (blocked w)\<rparr>)"
    if "i \<notin> set (sem_closed (sem w))"
    using assms that f d
    by (auto simp: sem_inv_def sem_core_def woken_def IsFull_def sem_order_def sorted_wrt_append sorted_wrt_remove1 dest: notin_set_remove1)
qed

lemma release_inv:
  assumes "sem_inv w" "holders w = Suc k"
  shows "\<exists>s'. Release (sem w) = Inr s' \<and> sem_inv (w\<lparr>sem := s', holders := k\<rparr>)"
proof -
  define s1 where "s1 = (sem w)\<lparr>sem_used := sem_used (sem w) - 1\<rparr>"
  have core: "sem_core (w\<lparr>sem := s1, holders := k\<rparr>)"
    using assms by (auto simp: s1_def sem_inv_def sem_core_def woken_def sem_order_def)
  have pos: "\<not> sem_used (sem w) \<le> 0" using assms by (simp add: sem_inv_def sem_core_def)
  show ?thesis
  proof (cases "sem_waiters (sem w)")
    case Nil
    then show ?thesis using core pos by (auto simp: Release_def Let_def s1_def sem_inv_def)
  next
    case (Cons i ws)
    have "sem_core (w\<lparr>sem := wakeAndAcquire i s1, holders := k\<rparr>)"
      using wake_core[OF core] Cons by (cases w) (simp add: s1_def)
    then show ?thesis using core pos Cons assms(1)
      by (auto simp: Release_def Let_def s1_def sem_inv_def wakeAndAcquire_def IsFull_def)
  qed
qed

lemma sem_step_inv: "sem_step w w' \<Longrightarrow> sem_inv w \<Longrightarrow> sem_inv w'"
proof (induction rule: sem_step.induct)
  case (acquire w s')
  then show ?case using grant_inv[of w] by (auto simp: sem_Acquire_def push_waiter_def split: if_splits)
next
  case (acquire_block w i s')
  then show ?case using push_inv[of w] by (auto simp: sem_Acquire_def push_waiter_def split: if_splits)
next
  case (acquire_wait d w s')
  then show ?case using grant_inv[of w] by (auto simp: AcquireWithMaxWait_def push_waiter_def split: if_splits)
next
  case (acquire_wait_refused d w e s')
  then show ?case by (auto simp: AcquireWithMaxWait_def push_waiter_def split: if_splits)
next
  case (acquire_wait_block d w i s')
  then show ?case using push_inv[of w] by (auto simp: AcquireWithMaxWait_def push_waiter_def split: if_splits)
next
  case (receive i w)
  then show ?case using leave_inv(1) by blast
next
  case (drained_ready i w e s')
  then show ?case using leave_inv(1)[of w i] by (auto simp: drainWaiter_def split: if_splits)
next
  case (drained i w e e' s')
  then show ?case using leave_inv(2)[of w i] by (auto simp: drainWaiter_def split: if_splits)
next
  case (try_acquire w b s')
  then show ?case using grant_inv[of w] by (auto simp: TryAcquire_def split: if_splits)
next
  case (release w k s')
  then show ?case using release_inv by force
next
  case (resize w sz)
  then show ?case by (rule set_size_inv)
qed

lemma sem_reachable_inv: "sem_reachable sz w \<Longrightarrow> sem_inv w"
proof (induction rule: sem_reachable.induct)
  case init
  then show ?case
    by (simp add: sem_init_def sem_inv_def sem_core_def NewDynamicSemaphore_def woken_def sem_order_def)
next
  case (step w w')
  then show ?case using sem_step_inv by blast
qed

text \<open>Growth of the permits in use is limited by the size.\<close>

lemma wake_loop_used: "sem_used (wake_loop sz s) \<le> max (sem_used s) sz"
proof (induction sz s rule: wake_loop.induct)
  case (1 sz s)
  show ?case
  proof (cases "sem_used s < sz \<and> length (sem_waiters s) > 0")
    case True
    then show ?thesis using 1 by (subst wake_loop.simps) (simp add: wakeAndAcquire_def max_def split: if_splits)
  next
    case False
    then show ?thesis by (subst wake_loop.simps) auto
  qed
qed

lemma sem_step_used:
  "sem_step w w' \<Longrightarrow> sem_used (sem w') \<le> max (sem_used (sem w)) (sem_size (sem w'))"
proof (induction rule: sem_step.induct)
  case (resize w sz)
  then show ?case using wake_loop_used[of sz "sem w"] by (simp add: SetSize_def Let_def)
qed (auto simp: sem_Acquire_def AcquireWithMaxWait_def push_waiter_def drainWaiter_def TryAcquire_def Release_def
    wakeAndAcquire_def Let_def split: if_splits)

section \<open>Properties\<close>

text \<open>
  C10. Whatever callers do concurrently (acquire, wait, give up, be woken, release, resize), no permit
  is lost or duplicated: the permits in use are exactly those of the callers that hold one and of the
  callers that were woken and have not returned yet; and a caller that holds a permit can release it
  without a panic.
\<close>

theorem semaphore_permits_conserved:
  assumes "sem_reachable sz w"
  shows "Used (sem w) = int (holders w) + int (length (woken w)) \<and> (0 < holders w \<longrightarrow> (\<exists>s'. Release (sem w) = Inr s'))"
proof -
  have inv: "sem_inv w" using assms by (rule sem_reachable_inv)
  show ?thesis
  proof (intro conjI impI)
    show "Used (sem w) = int (holders w) + int (length (woken w))"
      using inv by (simp add: sem_inv_def sem_core_def Used_def)
    show "\<exists>s'. Release (sem w) = Inr s'" if "0 < holders w"
      using release_inv[OF inv] that by (cases "holders w") auto
  qed
qed

theorem semaphore_permits_conserved_witness:
  "Used (sem (sem_init 2)) = 0 \<and> sem_reachable 2 (sem_init 2)"
  using semaphore_permits_conserved[OF sem_reachable.init, of 2] sem_reachable.init
  by (simp add: sem_init_def woken_def)

text \<open>
  C11. The semaphore never lets a caller wait while a permit is free, wakes callers in the order in
  which they started to wait, and no step raises the permits in use above the size.
\<close>

theorem semaphore_fifo_no_lost_wakeup:
  assumes "sem_reachable sz w" "sem_step w w'"
  shows "(sem_waiters (sem w') \<noteq> [] \<longrightarrow> IsFull (sem w'))
     \<and> sorted_wrt (<) (sem_closed (sem w') @ sem_waiters (sem w'))
     \<and> Used (sem w') \<le> max (Used (sem w)) (sem_size (sem w'))"
proof -
  have "sem_inv w'" using sem_step_inv[OF assms(2) sem_reachable_inv[OF assms(1)]] .
  then show ?thesis
    using sem_step_used[OF assms(2)] by (auto simp: sem_inv_def sem_core_def sem_order_def sorted_wrt_append Used_def)
qed

theorem semaphore_fifo_no_lost_wakeup_witness:
  "Used (sem (sem_init 1\<lparr>sem := (sem (sem_init 1))\<lparr>sem_used := 1\<rparr>, holders := 1\<rparr>)) \<le> 1"
proof -
  have "sem_step (sem_init 1) (sem_init 1\<lparr>sem := (sem (sem_init 1))\<lparr>sem_used := 1\<rparr>, holders := Suc (holders (sem_init 1))\<rparr>)"
    by (rule sem_step.acquire) (simp add: sem_Acquire_def sem_init_def NewDynamicSemaphore_def)
  from semaphore_fifo_no_lost_wakeup[OF sem_reachable.init this] show ?thesis
    by (simp add: sem_init_def NewDynamicSemaphore_def Used_def)
qed

end
