(* ===== verification/Execution.thy ===== *)
theory Execution
  imports Policy_Base
begin

text \<open>
  Executions: src/execution.go, the contexts of package \<^verbatim>\<open>context\<close> as far as it uses them, and the
  asynchronous results of src/result.go.

  A Go \<^verbatim>\<open>*execution[R]\<close> is a number into the heap \<open>w_execs\<close>; the cells that all copies of an execution
  share (the counters, the canceled result, the deferred cancellation) are fields of the world. A
  context is the list of numbers of the contexts from itself up to the one the user gave, each with its
  own cancellation error; \<^verbatim>\<open>context.Background()\<close> is the empty list. What the rest of the program sees
  and may change while an execution runs (the clock, the cancellation of contexts, the policies and
  everything else, of type \<open>'s\<close>) is the \<open>env\<close>; user code gets no access to the other fields.
\<close>

section \<open>The world of an execution\<close>

record ('r, 's) env =
  clock :: nanotime
  ctx_errs :: "nat \<Rightarrow> 'r error option"
  objs :: 's

record 'r execution =
  e_ctx :: "nat list"
  e_cancelFunc :: bool
  e_startTime :: nanotime
  e_attemptStartTime :: nanotime
  e_isHedge :: bool
  e_lastResult :: 'r
  e_lastError :: "'r error option"

text \<open>Calls of listeners, by the name of the callback and the result of the execution they are given.\<close>

datatype 'r event = Event string 'r "'r error option" | ScheduledEvent 'r "'r error option" duration

text \<open>The mutable fields of a retry policy executor, which lives as long as one execution.\<close>

record retry_state =
  failedAttempts :: int
  retriesExceeded :: bool
  lastDelay :: duration

text \<open>
  A timer of a timeout: its deadline, the execution it cancels, whether a listener is registered, and
  whether it is still armed and has fired; the result cell of the timeout holds the timeout's result
  exactly when the timer has fired.
\<close>

record timeout_timer =
  tm_deadline :: nanotime
  tm_exec :: nat
  tm_listener :: bool
  tm_armed :: bool
  tm_fired :: bool

record ('r, 's) world =
  w_env :: "('r, 's) env"
  w_execs :: "nat \<Rightarrow> 'r execution"
  w_next_exec :: nat
  w_next_ctx :: nat
  w_attempts :: uint32
  w_retries :: uint32
  w_hedges :: uint32
  w_executions :: uint32
  w_deferCancel :: bool
  w_canceledResult :: "'r PolicyResult option"
  w_retry :: "nat \<Rightarrow> retry_state"
  w_timers :: "timeout_timer list"
  w_events :: "'r event list"

section \<open>Contexts\<close>

fun ctx_Err :: "(nat \<Rightarrow> 'r error option) \<Rightarrow> nat list \<Rightarrow> 'r error option" where
  "ctx_Err errs [] = None"
| "ctx_Err errs (c # parents) = (case errs c of Some e \<Rightarrow> Some e | None \<Rightarrow> ctx_Err errs parents)"

definition context_Canceled :: "'r error" where
  "context_Canceled = Err ''context canceled''"

definition set_env :: "(('r, 's) env \<Rightarrow> ('r, 's) env) \<Rightarrow> ('r, 's) world \<Rightarrow> ('r, 's) world" where
  "set_env f w = w\<lparr>w_env := f (w_env w)\<rparr>"

definition cancel_ctx :: "nat list \<Rightarrow> ('r, 's) env \<Rightarrow> ('r, 's) env" where
  "cancel_ctx ctx v =
     (case ctx of
        [] \<Rightarrow> v
      | c # _ \<Rightarrow> if ctx_Err (ctx_errs v) ctx = None
                then v\<lparr>ctx_errs := (ctx_errs v)(c := Some context_Canceled)\<rparr> else v)"

definition ctx_WithCancel :: "nat list \<Rightarrow> ('r, 's) world \<Rightarrow> nat list \<times> ('r, 's) world" where
  "ctx_WithCancel parent w =
     (w_next_ctx w # parent,
      (set_env (\<lambda>v. v\<lparr>ctx_errs := (ctx_errs v)(w_next_ctx w := None)\<rparr>) w)\<lparr>w_next_ctx := Suc (w_next_ctx w)\<rparr>)"

section \<open>Executions\<close>

definition get_exec :: "nat \<Rightarrow> ('r, 's) world \<Rightarrow> 'r execution" where
  "get_exec x w = w_execs w x"

definition set_exec :: "nat \<Rightarrow> 'r execution \<Rightarrow> ('r, 's) world \<Rightarrow> ('r, 's) world" where
  "set_exec x e w = w\<lparr>w_execs := (w_execs w)(x := e)\<rparr>"

definition Attempts :: "('r, 's) world \<Rightarrow> int" where
  "Attempts w = uint (w_attempts w)"

definition Executions :: "('r, 's) world \<Rightarrow> int" where
  "Executions w = uint (w_executions w)"

definition Retries :: "('r, 's) world \<Rightarrow> int" where
  "Retries w = uint (w_retries w)"

definition Hedges :: "('r, 's) world \<Rightarrow> int" where
  "Hedges w = uint (w_hedges w)"

definition StartTime :: "nat \<Rightarrow> ('r, 's) world \<Rightarrow> nanotime" where
  "StartTime x w = e_startTime (get_exec x w)"

definition IsFirstAttempt :: "('r, 's) world \<Rightarrow> bool" where
  "IsFirstAttempt w \<longleftrightarrow> w_attempts w = 1"

definition IsRetry :: "('r, 's) world \<Rightarrow> bool" where
  "IsRetry w \<longleftrightarrow> w_attempts w > 1"

definition IsHedge :: "nat \<Rightarrow> ('r, 's) world \<Rightarrow> bool" where
  "IsHedge x w = e_isHedge (get_exec x w)"

definition time_Since :: "nanotime \<Rightarrow> ('r, 's) world \<Rightarrow> duration" where
  "time_Since start w = max (- (2 ^ 63)) (min (2 ^ 63 - 1) (clock (w_env w) - start))"

definition ElapsedTime :: "nat \<Rightarrow> ('r, 's) world \<Rightarrow> duration" where
  "ElapsedTime x w = time_Since (e_startTime (get_exec x w)) w"

definition exec_err :: "nat \<Rightarrow> ('r, 's) world \<Rightarrow> 'r error option" where
  "exec_err x w = ctx_Err (ctx_errs (w_env w)) (e_ctx (get_exec x w))"

definition LastResult :: "nat \<Rightarrow> ('r, 's) world \<Rightarrow> 'r" where
  "LastResult x w = e_lastResult (get_exec x w)"

definition LastError :: "nat \<Rightarrow> ('r, 's) world \<Rightarrow> 'r error option" where
  "LastError x w =
     (if e_lastError (get_exec x w) = None \<and> exec_err x w \<noteq> None then exec_err x w
      else e_lastError (get_exec x w))"

definition Context :: "nat \<Rightarrow> ('r, 's) world \<Rightarrow> nat list" where
  "Context x w = e_ctx (get_exec x w)"

definition AttemptStartTime :: "nat \<Rightarrow> ('r, 's) world \<Rightarrow> nanotime" where
  "AttemptStartTime x w = e_attemptStartTime (get_exec x w)"

definition ElapsedAttemptTime :: "nat \<Rightarrow> ('r, 's) world \<Rightarrow> duration" where
  "ElapsedAttemptTime x w = time_Since (e_attemptStartTime (get_exec x w)) w"

definition IsCanceled :: "nat \<Rightarrow> ('r, 's) world \<Rightarrow> bool" where
  "IsCanceled x w \<longleftrightarrow> exec_err x w \<noteq> None"

text \<open>\<^verbatim>\<open>isCanceledWithResult\<close>: \<open>None\<close> when the execution is not canceled. \<open>zero\<close> is Go's \<^verbatim>\<open>*new(R)\<close>.\<close>

definition isCanceledWithResult :: "'r \<Rightarrow> nat \<Rightarrow> ('r, 's) world \<Rightarrow> 'r PolicyResult option" where
  "isCanceledWithResult zero x w =
     (case exec_err x w of
        None \<Rightarrow> None
      | Some err \<Rightarrow>
          (case w_canceledResult w of
             None \<Rightarrow> Some \<lparr>Result = zero, Error = Some err, Done = True, Success = False, SuccessAll = False\<rparr>
           | Some result \<Rightarrow> Some result))"

definition set_last :: "nat \<Rightarrow> 'r PolicyResult option \<Rightarrow> ('r, 's) world \<Rightarrow> ('r, 's) world" where
  "set_last x result w =
     (case result of
        None \<Rightarrow> w
      | Some r \<Rightarrow> set_exec x ((get_exec x w)\<lparr>e_lastResult := Result r, e_lastError := Error r\<rparr>) w)"

definition exec_RecordResult :: "'r \<Rightarrow> nat \<Rightarrow> 'r PolicyResult option \<Rightarrow> ('r, 's) world
    \<Rightarrow> 'r PolicyResult option \<times> ('r, 's) world" where
  "exec_RecordResult zero x result w =
     (case isCanceledWithResult zero x w of
        Some cancelResult \<Rightarrow> (Some cancelResult, w)
      | None \<Rightarrow> (None, set_last x result w))"

definition InitializeRetry :: "'r \<Rightarrow> nat \<Rightarrow> ('r, 's) world \<Rightarrow> 'r PolicyResult option \<times> ('r, 's) world" where
  "InitializeRetry zero x w =
     (case isCanceledWithResult zero x w of
        Some cancelResult \<Rightarrow> (Some cancelResult, w)
      | None \<Rightarrow>
          let attempts = w_attempts w + 1;
              w1 = w\<lparr>w_attempts := attempts,
                     w_retries := (if attempts > 1 then w_retries w + 1 else w_retries w)\<rparr>;
              w2 = set_exec x ((get_exec x w1)\<lparr>e_attemptStartTime := clock (w_env w1)\<rparr>) w1
          in (None, w2\<lparr>w_canceledResult := None\<rparr>))"

definition exec_Cancel :: "'r \<Rightarrow> nat \<Rightarrow> 'r PolicyResult option \<Rightarrow> ('r, 's) world \<Rightarrow> ('r, 's) world" where
  "exec_Cancel zero x result w =
     (if isCanceledWithResult zero x w \<noteq> None then w
      else let w1 = (case result of None \<Rightarrow> w | Some r \<Rightarrow> set_last x (Some r) (w\<lparr>w_canceledResult := Some r\<rparr>))
           in if e_cancelFunc (get_exec x w1) \<and> \<not> (result = None \<and> w_deferCancel w1)
              then set_env (cancel_ctx (e_ctx (get_exec x w1))) w1 else w1)"

text \<open>\<^verbatim>\<open>DeferCancel\<close> and the function it returns.\<close>

definition DeferCancel :: "('r, 's) world \<Rightarrow> ('r, 's) world" where
  "DeferCancel w = w\<lparr>w_deferCancel := True\<rparr>"

definition run_deferred_cancel :: "'r \<Rightarrow> nat \<Rightarrow> ('r, 's) world \<Rightarrow> ('r, 's) world" where
  "run_deferred_cancel zero x w =
     (if w_deferCancel w then exec_Cancel zero x None (w\<lparr>w_deferCancel := False\<rparr>) else w)"

definition exec_copy :: "nat \<Rightarrow> ('r, 's) world \<Rightarrow> nat \<times> ('r, 's) world" where
  "exec_copy x w =
     (w_next_exec w, (set_exec (w_next_exec w) (get_exec x w) w)\<lparr>w_next_exec := Suc (w_next_exec w)\<rparr>)"

definition CopyWithResult :: "nat \<Rightarrow> 'r PolicyResult option \<Rightarrow> ('r, 's) world \<Rightarrow> nat \<times> ('r, 's) world" where
  "CopyWithResult x result w = (let (c, w1) = exec_copy x w in (c, set_last c result w1))"

definition with_cancel :: "nat \<Rightarrow> ('r, 's) world \<Rightarrow> ('r, 's) world" where
  "with_cancel c w =
     (let (ctx, w1) = ctx_WithCancel (e_ctx (get_exec c w)) w
      in set_exec c ((get_exec c w1)\<lparr>e_ctx := ctx, e_cancelFunc := True\<rparr>) w1)"

definition CopyForCancellable :: "nat \<Rightarrow> ('r, 's) world \<Rightarrow> nat \<times> ('r, 's) world" where
  "CopyForCancellable x w = (let (c, w1) = exec_copy x w in (c, with_cancel c w1))"

definition CopyForHedge :: "nat \<Rightarrow> ('r, 's) world \<Rightarrow> nat \<times> ('r, 's) world" where
  "CopyForHedge x w =
     (let (c, w1) = exec_copy x w;
          w2 = set_exec c ((get_exec c w1)\<lparr>e_isHedge := True\<rparr>) w1
      in (c, with_cancel c (w2\<lparr>w_attempts := w_attempts w2 + 1, w_hedges := w_hedges w2 + 1\<rparr>)))"

definition exec_record :: "('r, 's) world \<Rightarrow> ('r, 's) world" where
  "exec_record w = w\<lparr>w_executions := w_executions w + 1\<rparr>"

text \<open>\<^verbatim>\<open>newExecution\<close>: the world of a new execution with number 0, in the context \<open>ctx\<close>.\<close>

definition newExecution :: "'r \<Rightarrow> nat list \<Rightarrow> ('r, 's) env \<Rightarrow> ('r, 's) world" where
  "newExecution zero ctx v =
     \<lparr>w_env = v,
      w_execs = (\<lambda>_. \<lparr>e_ctx = ctx, e_cancelFunc = False, e_startTime = clock v, e_attemptStartTime = clock v,
                     e_isHedge = False, e_lastResult = zero, e_lastError = None\<rparr>),
      w_next_exec = 1, w_next_ctx = Suc (Max (set (0 # ctx))),
      w_attempts = 1, w_retries = 0, w_hedges = 0, w_executions = 0, w_deferCancel = False,
      w_canceledResult = None,
      w_retry = (\<lambda>_. \<lparr>failedAttempts = 0, retriesExceeded = False, lastDelay = 0\<rparr>), w_timers = [], w_events = []\<rparr>"

section \<open>Values of other result types\<close>

text \<open>
  \<^verbatim>\<open>resultToAny\<close> and \<^verbatim>\<open>resultFromAny\<close>: an \<^verbatim>\<open>any\<close> result is a value of any dynamic type, or nil;
  \<open>assert\<close> is Go's type assertion, which panics when the dynamic type is another one.
\<close>

definition resultToAny :: "('r \<Rightarrow> 'a) \<Rightarrow> ('r error \<Rightarrow> 'a error) \<Rightarrow> 'r PolicyResult option \<Rightarrow> 'a PolicyResult option" where
  "resultToAny box err result =
     map_option (\<lambda>r. \<lparr>Result = box (Result r), Error = map_option err (Error r), Done = Done r,
       Success = Success r, SuccessAll = SuccessAll r\<rparr>) result"

definition resultFromAny :: "'r \<Rightarrow> ('a \<Rightarrow> bool) \<Rightarrow> ('a \<Rightarrow> 'r option) \<Rightarrow> ('a error \<Rightarrow> 'r error)
    \<Rightarrow> 'a PolicyResult option \<Rightarrow> 'r PolicyResult option go" where
  "resultFromAny zero is_nil assert err anyResult =
     (case anyResult of
        None \<Rightarrow> Inr None
      | Some a \<Rightarrow>
          go_bind (if is_nil (Result a) then Inr zero
                   else case assert (Result a) of
                          Some r \<Rightarrow> Inr r
                        | None \<Rightarrow> Inl (Panic ''interface conversion''))
            (\<lambda>r. Inr (Some \<lparr>Result = r, Error = map_option err (Error a), Done = Done a,
                            Success = Success a, SuccessAll = SuccessAll a\<rparr>)))"

section \<open>Asynchronous results\<close>

record 'r executionResult =
  er_exec :: nat
  er_cancelCtx :: "nat list option"
  er_done :: bool
  er_result :: "'r PolicyResult option"

definition ErrExecutionCanceled :: "'r error" where
  "ErrExecutionCanceled = Err ''execution canceled''"

definition cancel_func :: "nat list option \<Rightarrow> ('r, 's) world \<Rightarrow> ('r, 's) world" where
  "cancel_func ctx w = (case ctx of None \<Rightarrow> w | Some c \<Rightarrow> set_env (cancel_ctx c) w)"

definition er_record :: "'r PolicyResult \<Rightarrow> 'r executionResult \<Rightarrow> ('r, 's) world
    \<Rightarrow> 'r executionResult \<times> ('r, 's) world" where
  "er_record result er w = (er\<lparr>er_result := Some result, er_done := True\<rparr>, cancel_func (er_cancelCtx er) w)"

definition IsDone :: "'r executionResult \<Rightarrow> bool" where
  "IsDone er = er_done er"

text \<open>\<^verbatim>\<open>Get\<close> blocks until the execution is done: \<open>None\<close> while it is not.\<close>

definition er_Get :: "'r \<Rightarrow> 'r executionResult \<Rightarrow> ('r \<times> 'r error option) option" where
  "er_Get zero er =
     (if \<not> er_done er then None
      else case er_result er of
             Some r \<Rightarrow> Some (Result r, Error r)
           | None \<Rightarrow> Some (zero, None))"

definition er_Result :: "'r \<Rightarrow> 'r executionResult \<Rightarrow> 'r option" where
  "er_Result zero er = map_option fst (er_Get zero er)"

definition er_Error :: "'r \<Rightarrow> 'r executionResult \<Rightarrow> 'r error option option" where
  "er_Error zero er = map_option snd (er_Get zero er)"

definition er_Cancel :: "'r \<Rightarrow> 'r executionResult \<Rightarrow> ('r, 's) world \<Rightarrow> ('r, 's) world" where
  "er_Cancel zero er w =
     cancel_func (er_cancelCtx er)
       (exec_Cancel zero (er_exec er)
          (Some \<lparr>Result = zero, Error = Some ErrExecutionCanceled, Done = True, Success = False, SuccessAll = False\<rparr>) w)"

end
