(* ===== verification/Executor.thy ===== *)
theory Executor
  imports Execution
begin

text \<open>
  Executors: src/executor.go and the base of policy executors, src/policy/policyexecutor.go.

  A composed function takes the number of an execution and the world; it may not return (\<open>None\<close>, when a
  loop of a policy runs out of fuel), panic, or return a policy result with the new world. What happens
  while user code runs or an execution waits is the environment's choice, given by the \<open>runtime\<close>:
  \<open>rt_pause d ctx\<close> is the effect of waiting for \<open>d\<close> or until \<open>ctx\<close> is done, \<open>rt_rand\<close> is
  \<^verbatim>\<open>rand.Float64\<close>, and \<open>rt_fires t\<close> says whether a timer with deadline \<open>t\<close> that is still armed
  has run by now; \<open>rt_selects_ctx\<close> is the choice of a \<^verbatim>\<open>select\<close> between a done context and another case
  that is ready, \<open>rt_selects_timer\<close> its choice of an expired timer among the
  cases that are. \<open>rt_fuel\<close> bounds the rounds of the loop of a retry policy.
\<close>

section \<open>Runs and the runtime\<close>

type_synonym 'a run = "'a go option"

fun run_bind :: "'a run \<Rightarrow> ('a \<Rightarrow> 'b run) \<Rightarrow> 'b run" where
  "run_bind None f = None"
| "run_bind (Some (Inl p)) f = Some (Inl p)"
| "run_bind (Some (Inr x)) f = f x"

definition run_return :: "'a \<Rightarrow> 'a run" where
  "run_return x = Some (Inr x)"

type_synonym ('r, 's) inner_fn = "nat \<Rightarrow> ('r, 's) world \<Rightarrow> ('r PolicyResult \<times> ('r, 's) world) run"

record ('r, 's) runtime =
  rt_zero :: 'r
  rt_pause :: "duration \<Rightarrow> nat list \<Rightarrow> ('r, 's) env \<Rightarrow> ('r, 's) env"
  rt_rand :: "('r, 's) env \<Rightarrow> float64 \<times> ('r, 's) env"
  rt_fires :: "nanotime \<Rightarrow> ('r, 's) env \<Rightarrow> bool"
  rt_selects_ctx :: "('r, 's) env \<Rightarrow> bool"
  rt_selects_timer :: "('r, 's) env \<Rightarrow> bool"
  rt_fuel :: nat

definition log_event :: "string \<Rightarrow> 'r PolicyResult \<Rightarrow> ('r, 's) world \<Rightarrow> ('r, 's) world" where
  "log_event name result w = w\<lparr>w_events := w_events w @ [Event name (Result result) (Error result)]\<rparr>"

text \<open>A call of a listener with a copy of the execution that carries the result.\<close>

definition call_listener :: "bool \<Rightarrow> string \<Rightarrow> nat \<Rightarrow> 'r PolicyResult \<Rightarrow> ('r, 's) world \<Rightarrow> ('r, 's) world" where
  "call_listener registered name x result w =
     (if registered then log_event name result (snd (CopyWithResult x (Some result) w)) else w)"

section \<open>Timers\<close>

definition timeout_ErrExceeded :: "'r error" where
  "timeout_ErrExceeded = Err ''timeout exceeded''"

text \<open>
  The function of a timeout's timer (src/timeout/timeoutexecutor.go): it stores the timeout's result
  if the cell is empty, calls the listener and cancels the execution.
\<close>

definition fire_timer :: "('r, 's) runtime \<Rightarrow> nat \<Rightarrow> ('r, 's) world \<Rightarrow> ('r, 's) world" where
  "fire_timer rt i w =
     (let t = w_timers w ! i; timeoutResult = FailureResult (rt_zero rt) timeout_ErrExceeded in
      if tm_armed t \<and> \<not> tm_fired t \<and> rt_fires rt (tm_deadline t) (w_env w)
      then let w1 = w\<lparr>w_timers := (w_timers w)[i := t\<lparr>tm_fired := True\<rparr>]\<rparr>;
               w2 = (if tm_listener t then log_event ''onTimeoutExceeded'' timeoutResult w1 else w1)
           in exec_Cancel (rt_zero rt) (tm_exec t) (Some timeoutResult) w2
      else w)"

definition fire_timers :: "('r, 's) runtime \<Rightarrow> ('r, 's) world \<Rightarrow> ('r, 's) world" where
  "fire_timers rt w = fold (fire_timer rt) [0..<length (w_timers w)] w"

definition pause :: "('r, 's) runtime \<Rightarrow> duration \<Rightarrow> nat \<Rightarrow> ('r, 's) world \<Rightarrow> ('r, 's) world" where
  "pause rt delay x w = fire_timers rt (set_env (rt_pause rt delay (Context x w)) w)"

section \<open>The base of policy executors\<close>

definition base_IsFailure :: "'r BaseFailurePolicy option \<Rightarrow> 'r \<Rightarrow> 'r error option \<Rightarrow> bool" where
  "base_IsFailure p result err = (case p of Some q \<Rightarrow> IsFailure q result err | None \<Rightarrow> err \<noteq> None)"

definition base_OnSuccess :: "'r BaseFailurePolicy option \<Rightarrow> nat \<Rightarrow> 'r PolicyResult \<Rightarrow> ('r, 's) world \<Rightarrow> ('r, 's) world" where
  "base_OnSuccess p x result w =
     call_listener (case p of Some q \<Rightarrow> onSuccess q | None \<Rightarrow> False) ''onSuccess'' x result w"

definition base_OnFailure :: "'r BaseFailurePolicy option \<Rightarrow> nat \<Rightarrow> 'r PolicyResult \<Rightarrow> ('r, 's) world
    \<Rightarrow> 'r PolicyResult \<times> ('r, 's) world" where
  "base_OnFailure p x result w =
     (result, call_listener (case p of Some q \<Rightarrow> onFailure q | None \<Rightarrow> False) ''onFailure'' x result w)"

text \<open>
  \<^verbatim>\<open>BaseExecutor.PreExecute\<close> does nothing; \<^verbatim>\<open>BaseExecutor.PostExecute\<close> and \<^verbatim>\<open>BaseExecutor.Apply\<close> call the
  methods of the policy's own executor, which are their arguments.
\<close>

type_synonym ('r, 's) pre_hook = "nat \<Rightarrow> ('r, 's) world \<Rightarrow> ('r PolicyResult option \<times> ('r, 's) world) run"
type_synonym ('r, 's) post_hook = "nat \<Rightarrow> 'r PolicyResult \<Rightarrow> ('r, 's) world \<Rightarrow> ('r PolicyResult \<times> ('r, 's) world) run"

definition base_PreExecute :: "('r, 's) pre_hook" where
  "base_PreExecute x w = run_return (None, w)"

definition base_PostExecute :: "('r \<Rightarrow> 'r error option \<Rightarrow> bool)
    \<Rightarrow> (nat \<Rightarrow> 'r PolicyResult \<Rightarrow> ('r, 's) world \<Rightarrow> ('r, 's) world run)
    \<Rightarrow> ('r, 's) post_hook \<Rightarrow> ('r, 's) post_hook" where
  "base_PostExecute isFailure on_success on_failure x er w =
     (if isFailure (Result er) (Error er) then on_failure x (WithFailure er) w
      else let er = WithDone er True True in run_bind (on_success x er w) (\<lambda>w'. run_return (er, w')))"

definition base_Apply :: "('r, 's) pre_hook \<Rightarrow> ('r, 's) post_hook \<Rightarrow> ('r, 's) inner_fn \<Rightarrow> ('r, 's) inner_fn" where
  "base_Apply pre post innerFn x w =
     run_bind (pre x w) (\<lambda>(result, w1).
       case result of
         Some r \<Rightarrow> run_return (r, w1)
       | None \<Rightarrow> run_bind (innerFn x w1) (\<lambda>(r, w2). post x r w2))"

section \<open>Executors\<close>

text \<open>
  What a user function that takes an execution sees of it, and the function itself: \<open>None\<close> stands for
  the nil execution of functions without one.
\<close>

record 'r exec_info =
  info_execution :: "'r execution"
  info_attempts :: uint32
  info_retries :: uint32
  info_hedges :: uint32
  info_executions :: uint32

definition exec_info_of :: "nat \<Rightarrow> ('r, 's) world \<Rightarrow> 'r exec_info" where
  "exec_info_of x w =
     \<lparr>info_execution = get_exec x w, info_attempts = w_attempts w, info_retries = w_retries w,
      info_hedges = w_hedges w, info_executions = w_executions w\<rparr>"

type_synonym ('r, 's) user_fn = "'r exec_info option \<Rightarrow> ('r, 's) env \<Rightarrow> ('r \<times> 'r error option) \<times> ('r, 's) env"

text \<open>A policy, by the \<^verbatim>\<open>Apply\<close> method of its executor; the number is the executor's identity.\<close>

type_synonym ('r, 's) policy = "nat \<Rightarrow> ('r, 's) inner_fn \<Rightarrow> ('r, 's) inner_fn"

record ('r, 's) executor =
  ex_policies :: "('r, 's) policy list"
  ex_ctx :: "nat list"
  ex_onDone :: bool
  ex_onSuccess :: bool
  ex_onFailure :: bool

definition executor_With :: "('r, 's) policy list \<Rightarrow> ('r, 's) executor" where
  "executor_With policies =
     \<lparr>ex_policies = policies, ex_ctx = [], ex_onDone = False, ex_onSuccess = False, ex_onFailure = False\<rparr>"

definition Compose :: "('r, 's) policy \<Rightarrow> ('r, 's) executor \<Rightarrow> ('r, 's) executor" where
  "Compose innerPolicy e = e\<lparr>ex_policies := ex_policies e @ [innerPolicy]\<rparr>"

definition WithContext :: "nat list option \<Rightarrow> ('r, 's) executor \<Rightarrow> ('r, 's) executor" where
  "WithContext ctx e = (case ctx of Some c \<Rightarrow> e\<lparr>ex_ctx := c\<rparr> | None \<Rightarrow> e)"

definition executor_OnDone :: "bool \<Rightarrow> ('r, 's) executor \<Rightarrow> ('r, 's) executor" where
  "executor_OnDone listener e = e\<lparr>ex_onDone := listener\<rparr>"

definition executor_OnSuccess :: "bool \<Rightarrow> ('r, 's) executor \<Rightarrow> ('r, 's) executor" where
  "executor_OnSuccess listener e = e\<lparr>ex_onSuccess := listener\<rparr>"

definition executor_OnFailure :: "bool \<Rightarrow> ('r, 's) executor \<Rightarrow> ('r, 's) executor" where
  "executor_OnFailure listener e = e\<lparr>ex_onFailure := listener\<rparr>"

text \<open>The innermost function, which calls the user's.\<close>

definition call_fn :: "('r, 's) runtime \<Rightarrow> ('r, 's) user_fn \<Rightarrow> bool \<Rightarrow> ('r, 's) inner_fn" where
  "call_fn rt fn withExec x w =
     (let (info, w1) =
        (if withExec
         then let (c, w1) = exec_copy x w in
              (Some \<lparr>info_execution = get_exec c w1, info_attempts = w_attempts w1, info_retries = w_retries w1,
                     info_hedges = w_hedges w1, info_executions = w_executions w1\<rparr>, w1)
         else (None, w));
        ((result, err), v) = fn info (w_env w1);
        w2 = exec_record (fire_timers rt (w1\<lparr>w_env := v\<rparr>))
      in run_return (\<lparr>Result = result, Error = err, Done = True, Success = True, SuccessAll = True\<rparr>, w2))"

fun compose_from :: "nat \<Rightarrow> ('r, 's) policy list \<Rightarrow> ('r, 's) inner_fn \<Rightarrow> ('r, 's) inner_fn" where
  "compose_from i [] f = f"
| "compose_from i (p # ps) f = p i (compose_from (Suc i) ps f)"

definition execute :: "('r, 's) runtime \<Rightarrow> ('r, 's) executor \<Rightarrow> ('r, 's) user_fn \<Rightarrow> bool \<Rightarrow> ('r, 's) world
    \<Rightarrow> ('r PolicyResult \<times> ('r, 's) world) run" where
  "execute rt e fn withExec w =
     run_bind (compose_from 0 (ex_policies e) (call_fn rt fn withExec) 0 w) (\<lambda>(er, w1).
     let w2 = (if ex_onSuccess e \<and> SuccessAll er then log_event ''executor.onSuccess'' er w1
               else if ex_onFailure e \<and> \<not> SuccessAll er then log_event ''executor.onFailure'' er w1 else w1);
         w3 = (if ex_onDone e then log_event ''executor.onDone'' er w2 else w2)
     in run_return (er, w3))"

definition executeSync :: "('r, 's) runtime \<Rightarrow> ('r, 's) executor \<Rightarrow> ('r, 's) user_fn \<Rightarrow> bool \<Rightarrow> ('r, 's) env
    \<Rightarrow> (('r \<times> 'r error option) \<times> ('r, 's) world) run" where
  "executeSync rt e fn withExec v =
     run_bind (execute rt e fn withExec (newExecution (rt_zero rt) (ex_ctx e) v)) (\<lambda>(er, w).
     run_return ((Result er, Error er), w))"

text \<open>\<^verbatim>\<open>executeAsync\<close>, run to its end: the result object as \<^verbatim>\<open>record\<close> leaves it, and the world.\<close>

definition executeAsync :: "('r, 's) runtime \<Rightarrow> ('r, 's) executor \<Rightarrow> ('r, 's) user_fn \<Rightarrow> bool \<Rightarrow> ('r, 's) env
    \<Rightarrow> ('r executionResult \<times> ('r, 's) world) run" where
  "executeAsync rt e fn withExec v =
     (let (ctx, w0) = ctx_WithCancel (ex_ctx e) (newExecution (rt_zero rt) (ex_ctx e) v);
          w1 = set_exec 0 ((get_exec 0 w0)\<lparr>e_ctx := ctx\<rparr>) w0;
          er = \<lparr>er_exec = 0, er_cancelCtx = Some ctx, er_done = False, er_result = None\<rparr>
      in run_bind (execute rt e fn withExec w1) (\<lambda>(result, w2). run_return (er_record result er w2)))"

text \<open>The exported methods; \<open>fn\<close> is the user's function without or with an execution.\<close>

definition executor_Run :: "('r, 's) runtime \<Rightarrow> (('r, 's) env \<Rightarrow> 'r error option \<times> ('r, 's) env) \<Rightarrow> ('r, 's) executor
    \<Rightarrow> ('r, 's) env \<Rightarrow> ('r error option \<times> ('r, 's) world) run" where
  "executor_Run rt fn e v =
     run_bind (executeSync rt e (\<lambda>_ v. let (err, v') = fn v in ((rt_zero rt, err), v')) False v) (\<lambda>((_, err), w).
     run_return (err, w))"

definition RunWithExecution :: "('r, 's) runtime \<Rightarrow> ('r exec_info option \<Rightarrow> ('r, 's) env \<Rightarrow> 'r error option \<times> ('r, 's) env)
    \<Rightarrow> ('r, 's) executor \<Rightarrow> ('r, 's) env \<Rightarrow> ('r error option \<times> ('r, 's) world) run" where
  "RunWithExecution rt fn e v =
     run_bind (executeSync rt e (\<lambda>x v. let (err, v') = fn x v in ((rt_zero rt, err), v')) True v) (\<lambda>((_, err), w).
     run_return (err, w))"

definition executor_Get :: "('r, 's) runtime \<Rightarrow> (('r, 's) env \<Rightarrow> ('r \<times> 'r error option) \<times> ('r, 's) env) \<Rightarrow> ('r, 's) executor
    \<Rightarrow> ('r, 's) env \<Rightarrow> (('r \<times> 'r error option) \<times> ('r, 's) world) run" where
  "executor_Get rt fn e v = executeSync rt e (\<lambda>_. fn) False v"

definition GetWithExecution :: "('r, 's) runtime \<Rightarrow> ('r, 's) user_fn \<Rightarrow> ('r, 's) executor
    \<Rightarrow> ('r, 's) env \<Rightarrow> (('r \<times> 'r error option) \<times> ('r, 's) world) run" where
  "GetWithExecution rt fn e v = executeSync rt e fn True v"

definition GetAsync :: "('r, 's) runtime \<Rightarrow> (('r, 's) env \<Rightarrow> ('r \<times> 'r error option) \<times> ('r, 's) env) \<Rightarrow> ('r, 's) executor
    \<Rightarrow> ('r, 's) env \<Rightarrow> ('r executionResult \<times> ('r, 's) world) run" where
  "GetAsync rt fn e v = executeAsync rt e (\<lambda>_. fn) False v"

definition GetAsyncWithExecution :: "('r, 's) runtime \<Rightarrow> ('r, 's) user_fn \<Rightarrow> ('r, 's) executor
    \<Rightarrow> ('r, 's) env \<Rightarrow> ('r executionResult \<times> ('r, 's) world) run" where
  "GetAsyncWithExecution rt fn e v = executeAsync rt e fn True v"

definition RunAsync :: "('r, 's) runtime \<Rightarrow> (('r, 's) env \<Rightarrow> 'r error option \<times> ('r, 's) env) \<Rightarrow> ('r, 's) executor
    \<Rightarrow> ('r, 's) env \<Rightarrow> ('r executionResult \<times> ('r, 's) world) run" where
  "RunAsync rt fn e v = executeAsync rt e (\<lambda>_ v. let (err, v') = fn v in ((rt_zero rt, err), v')) False v"

definition RunAsyncWithExecution :: "('r, 's) runtime \<Rightarrow> ('r exec_info option \<Rightarrow> ('r, 's) env \<Rightarrow> 'r error option \<times> ('r, 's) env)
    \<Rightarrow> ('r, 's) executor \<Rightarrow> ('r, 's) env \<Rightarrow> ('r executionResult \<times> ('r, 's) world) run" where
  "RunAsyncWithExecution rt fn e v = executeAsync rt e (\<lambda>x v. let (err, v') = fn x v in ((rt_zero rt, err), v')) True v"

text \<open>
  A reference to a shared object (a breaker, a limiter, a cache) among everything the environment holds.
\<close>

record ('s, 'o) ref =
  ref_get :: "'s \<Rightarrow> 'o"
  ref_put :: "'o \<Rightarrow> 's \<Rightarrow> 's"

definition read_ref :: "('s, 'o) ref \<Rightarrow> ('r, 's) world \<Rightarrow> 'o" where
  "read_ref p w = ref_get p (objs (w_env w))"

definition write_ref :: "('s, 'o) ref \<Rightarrow> 'o \<Rightarrow> ('r, 's) world \<Rightarrow> ('r, 's) world" where
  "write_ref p obj w = set_env (\<lambda>v. v\<lparr>objs := ref_put p obj (objs v)\<rparr>) w"

text \<open>A call of a method of a shared object that may panic.\<close>

definition run_go :: "'a go \<Rightarrow> ('a \<Rightarrow> 'c run) \<Rightarrow> 'c run" where
  "run_go m f = (case m of Inl p \<Rightarrow> Some (Inl p) | Inr y \<Rightarrow> f y)"

section \<open>What bookkeeping leaves alone\<close>

text \<open>
  Two worlds with the same executions counter and the same state of the retry executors. Everything
  but calls of the user's function and the retry executors keeps both.
\<close>

definition same_run :: "('r, 's) world \<Rightarrow> ('r, 's) world \<Rightarrow> bool" where
  "same_run w w' \<longleftrightarrow> w_executions w' = w_executions w \<and> w_retry w' = w_retry w"

named_theorems frame \<open>operations that keep the executions counter and the retry state\<close>

lemma same_run_refl [frame]: "same_run w w"
  and same_run_trans: "same_run w w1 \<Longrightarrow> same_run w1 w2 \<Longrightarrow> same_run w w2"
  by (simp_all add: same_run_def)

lemma run_bind_cases:
  "run_bind m f = Some (Inr y) \<longleftrightarrow> (\<exists>x. m = Some (Inr x) \<and> f x = Some (Inr y))"
  by (cases "(m, f)" rule: run_bind.cases) auto

lemma run_go_cases: "run_go m f = Some (Inr y) \<longleftrightarrow> (\<exists>x. m = Inr x \<and> f x = Some (Inr y))"
  by (cases m) (simp_all add: run_go_def)

lemma run_return_eq [simp]: "run_return x = Some (Inr y) \<longleftrightarrow> x = y" "run_bind (run_return x) f = f x"
  by (simp_all add: run_return_def)

lemma frame_set_env [frame]: "same_run w (set_env f w)"
  and frame_set_exec [frame]: "same_run w (set_exec x e w)"
  and frame_log_event [frame]: "same_run w (log_event name r w)"
  and frame_write_ref [frame]: "same_run w (write_ref p obj w)"
  by (simp_all add: same_run_def set_env_def set_exec_def log_event_def write_ref_def)

lemma frame_set_last [frame]: "same_run w (set_last x r w)"
  by (cases r) (simp_all add: set_last_def frame)

lemma frame_exec_copy [frame]: "same_run w (snd (exec_copy x w))"
  by (simp add: exec_copy_def same_run_def set_exec_def)

lemma frame_CopyWithResult [frame]: "same_run w (snd (CopyWithResult x r w))"
  by (auto simp: CopyWithResult_def Let_def split_beta intro: same_run_trans[OF frame_exec_copy frame_set_last])

lemma frame_with_cancel [frame]: "same_run w (with_cancel c w)"
  by (simp add: with_cancel_def ctx_WithCancel_def same_run_def set_exec_def set_env_def)

lemma frame_CopyForCancellable [frame]: "same_run w (snd (CopyForCancellable x w))"
  by (auto simp: CopyForCancellable_def Let_def split_beta intro: same_run_trans[OF frame_exec_copy frame_with_cancel])

lemma frame_call_listener [frame]: "same_run w (call_listener b name x r w)"
  by (auto simp: call_listener_def frame intro: same_run_trans[OF frame_CopyWithResult frame_log_event])

lemma frame_RecordResult [frame]: "same_run w (snd (exec_RecordResult z x r w))"
  by (auto simp: exec_RecordResult_def frame split: option.split)

lemma frame_InitializeRetry [frame]: "same_run w (snd (InitializeRetry z x w))"
  by (auto simp: InitializeRetry_def frame same_run_def set_exec_def Let_def split: option.split)

lemma frame_exec_Cancel [frame]: "same_run w (exec_Cancel z x r w)"
proof -
  have "same_run w (set_last x (Some q) (w\<lparr>w_canceledResult := Some q\<rparr>))" for q
    by (rule same_run_trans[OF _ frame_set_last]) (simp add: same_run_def)
  then show ?thesis
    by (auto simp: exec_Cancel_def Let_def frame intro: same_run_trans[OF _ frame_set_env] split: option.split)
qed

lemma frame_fire_timer [frame]: "same_run w (fire_timer rt i w)"
proof -
  have "same_run w (w\<lparr>w_timers := ts\<rparr>)" for ts by (simp add: same_run_def)
  then show ?thesis
    by (auto simp: fire_timer_def Let_def frame intro!: same_run_trans[OF _ frame_exec_Cancel]
        intro: same_run_trans[OF _ frame_log_event])
qed

lemma frame_fold: "(\<And>i w. same_run w (f i w)) \<Longrightarrow> same_run w (fold f is w)"
  by (induction "is" arbitrary: w) (auto simp: frame intro: same_run_trans)

lemma frame_fire_timers [frame]: "same_run w (fire_timers rt w)"
  unfolding fire_timers_def by (rule frame_fold) (rule frame_fire_timer)

lemma frame_pause [frame]: "same_run w (pause rt d x w)"
  unfolding pause_def by (rule same_run_trans[OF frame_set_env frame_fire_timers])

section \<open>How often a composed function calls the user's function\<close>

text \<open>
  \<open>adds n w w'\<close>: at most \<open>n\<close> executions were counted from \<open>w\<close> to \<open>w'\<close>. A function is bounded by
  \<open>n\<close> in the worlds whose retry state satisfies \<open>P\<close>; it \<open>returns\<close> if it neither panics nor runs on.
\<close>

definition adds :: "nat \<Rightarrow> ('r, 's) world \<Rightarrow> ('r, 's) world \<Rightarrow> bool" where
  "adds n w w' \<longleftrightarrow> (\<exists>k \<le> n. w_executions w' = w_executions w + of_nat k)"

definition bounded :: "((nat \<Rightarrow> retry_state) \<Rightarrow> bool) \<Rightarrow> nat \<Rightarrow> ('r, 's) inner_fn \<Rightarrow> bool" where
  "bounded P n f \<longleftrightarrow> (\<forall>x w r w'. P (w_retry w) \<longrightarrow> f x w = Some (Inr (r, w')) \<longrightarrow> adds n w w')"

definition keeps_retry :: "('r, 's) inner_fn \<Rightarrow> bool" where
  "keeps_retry f \<longleftrightarrow> (\<forall>x w r w'. f x w = Some (Inr (r, w')) \<longrightarrow> w_retry w' = w_retry w)"

definition returns :: "((nat \<Rightarrow> retry_state) \<Rightarrow> bool) \<Rightarrow> ('r, 's) inner_fn \<Rightarrow> bool" where
  "returns P f \<longleftrightarrow> (\<forall>x w. P (w_retry w) \<longrightarrow> (\<exists>r w'. f x w = Some (Inr (r, w'))))"

lemma adds_same: "same_run w w' \<Longrightarrow> adds n w w'"
  unfolding adds_def by (rule exI[of _ 0]) (simp add: same_run_def)

lemma adds_frame: "same_run w w1 \<Longrightarrow> adds n w1 w2 \<Longrightarrow> same_run w2 w3 \<Longrightarrow> adds n w w3"
  by (simp add: adds_def same_run_def)

lemma adds_trans: "adds n w w1 \<Longrightarrow> adds m w1 w2 \<Longrightarrow> adds (n + m) w w2"
  by (auto simp: adds_def) (metis add.assoc add_mono of_nat_add)

lemma adds_mono: "adds n w w' \<Longrightarrow> n \<le> m \<Longrightarrow> adds m w w'"
  unfolding adds_def using order_trans by blast

lemma call_fn_bounded: "bounded P 1 (call_fn rt fn withExec)"
  and call_fn_keeps: "keeps_retry (call_fn rt fn withExec)"
  and call_fn_returns: "returns P (call_fn rt fn withExec)"
proof -
  have run: "\<exists>r w'. call_fn rt fn withExec x w = Some (Inr (r, w')) \<and> w_executions w' = w_executions w + 1 \<and> w_retry w' = w_retry w"
    for x and w :: "('a, 'b) world"
  proof -
    obtain info w1 where w1: "(if withExec
         then let (c, w1) = exec_copy x w in
              (Some \<lparr>info_execution = get_exec c w1, info_attempts = w_attempts w1, info_retries = w_retries w1,
                     info_hedges = w_hedges w1, info_executions = w_executions w1\<rparr>, w1)
         else (None, w)) = (info, w1)" "same_run w w1"
      using frame_exec_copy[of w x] by (cases "exec_copy x w"; cases withExec) (auto simp: frame)
    obtain r err v where fn: "fn info (w_env w1) = ((r, err), v)" by (metis prod.collapse)
    have "same_run w (fire_timers rt (w1\<lparr>w_env := v\<rparr>))"
      using w1(2) frame_fire_timers[of "w1\<lparr>w_env := v\<rparr>" rt] by (simp add: same_run_def)
    then show ?thesis using w1(1) fn by (simp add: call_fn_def exec_record_def same_run_def)
  qed
  show "returns P (call_fn rt fn withExec)" using run by (auto simp: returns_def) blast
  show "keeps_retry (call_fn rt fn withExec)" using run by (auto simp: keeps_retry_def) (metis Inr_inject option.inject prod.inject)
  show "bounded P 1 (call_fn rt fn withExec)"
    unfolding bounded_def adds_def using run by (metis Inr_inject of_nat_1 option.inject order_refl prod.inject)
qed

text \<open>
  The contract of a policy that makes at most one attempt: it calls the inner function at most once, in
  a world with the same retry state; a total one also returns whenever the inner function does.
\<close>

locale single_shot =
  fixes apply_policy :: "('r, 's) inner_fn \<Rightarrow> ('r, 's) inner_fn"
  assumes once: "bounded P n f \<Longrightarrow> bounded P n (apply_policy f)"
    and keeps: "keeps_retry f \<Longrightarrow> keeps_retry (apply_policy f)"

locale total_policy = single_shot +
  assumes no_block: "returns P f \<Longrightarrow> returns P (apply_policy f)"

lemma compose_single_shot:
  assumes "\<forall>p \<in> set ps. \<forall>i. single_shot (p i)"
  shows "single_shot (compose_from i ps)"
  using assms
proof (induction ps arbitrary: i)
  case (Cons p ps)
  then have "single_shot (p i)" "single_shot (compose_from (Suc i) ps)" by auto
  then show ?case by (auto simp: single_shot_def)
qed (simp add: single_shot_def)

lemma compose_total:
  assumes "\<forall>p \<in> set ps. \<forall>i. total_policy (p i)"
  shows "total_policy (compose_from i ps)"
  using assms
proof (induction ps arbitrary: i)
  case (Cons p ps)
  then have "total_policy (p i)" "total_policy (compose_from (Suc i) ps)" by auto
  then show ?case by (auto simp: total_policy_def total_policy_axioms_def single_shot_def)
qed (simp add: total_policy_def total_policy_axioms_def single_shot_def)

text \<open>
  A function that does some bookkeeping and then either returns or calls the inner function and does
  more bookkeeping is a single shot.
\<close>

definition one_call :: "(('r, 's) inner_fn \<Rightarrow> ('r, 's) inner_fn) \<Rightarrow> bool" where
  "one_call g \<longleftrightarrow> (\<forall>f x w r w'. g f x w = Some (Inr (r, w')) \<longrightarrow>
     same_run w w' \<or> (\<exists>y w1 r2 w2. same_run w w1 \<and> f y w1 = Some (Inr (r2, w2)) \<and> same_run w2 w'))"

definition returns_if_inner :: "(('r, 's) inner_fn \<Rightarrow> ('r, 's) inner_fn) \<Rightarrow> bool" where
  "returns_if_inner g \<longleftrightarrow> (\<forall>f x w. (\<forall>y w1. same_run w w1 \<longrightarrow> (\<exists>r w2. f y w1 = Some (Inr (r, w2))))
     \<longrightarrow> (\<exists>r w'. g f x w = Some (Inr (r, w'))))"

lemma one_call_single_shot:
  assumes "one_call g"
  shows "single_shot g"
proof
  fix P n and f :: "('a, 'b) inner_fn"
  assume f: "bounded P n f"
  show "bounded P n (g f)"
    unfolding bounded_def
  proof (intro allI impI)
    fix x w r w' assume P: "P (w_retry w)" and run: "g f x w = Some (Inr (r, w'))"
    from assms run consider "same_run w w'"
      | y w1 r2 w2 where "same_run w w1" "f y w1 = Some (Inr (r2, w2))" "same_run w2 w'"
      unfolding one_call_def by blast
    then show "adds n w w'"
    proof cases
      case 2
      have "adds n w1 w2" using f P 2(1,2) unfolding bounded_def same_run_def by metis
      with 2 show ?thesis using adds_frame by blast
    qed (rule adds_same)
  qed
next
  fix f :: "('a, 'b) inner_fn"
  assume f: "keeps_retry f"
  show "keeps_retry (g f)"
    unfolding keeps_retry_def
  proof (intro allI impI)
    fix x w r w' assume "g f x w = Some (Inr (r, w'))"
    with assms consider "same_run w w'"
      | y w1 r2 w2 where "same_run w w1" "f y w1 = Some (Inr (r2, w2))" "same_run w2 w'"
      unfolding one_call_def by blast
    then show "w_retry w' = w_retry w"
    proof cases
      case 2
      then have "w_retry w2 = w_retry w1" using f unfolding keeps_retry_def by metis
      with 2 show ?thesis by (simp add: same_run_def)
    qed (simp add: same_run_def)
  qed
qed

lemma one_call_total:
  assumes "one_call g" "returns_if_inner g"
  shows "total_policy g"
proof -
  have free: "returns P (g f)" if "returns P f" for P and f :: "('a, 'b) inner_fn"
    using assms(2) that unfolding returns_if_inner_def returns_def same_run_def by metis
  show ?thesis
    unfolding total_policy_def total_policy_axioms_def
    using one_call_single_shot[OF assms(1)] free by blast
qed

text \<open>A policy executor built on the base executor, with hooks that only do bookkeeping.\<close>

definition quiet_pre :: "('r, 's) pre_hook \<Rightarrow> bool" where
  "quiet_pre pre \<longleftrightarrow> (\<forall>x w r w'. pre x w = Some (Inr (r, w')) \<longrightarrow> same_run w w')"

definition quiet_post :: "('r, 's) post_hook \<Rightarrow> bool" where
  "quiet_post post \<longleftrightarrow> (\<forall>x r w r' w'. post x r w = Some (Inr (r', w')) \<longrightarrow> same_run w w')"

lemma base_Apply_one_call:
  assumes "quiet_pre pre" "quiet_post post"
  shows "one_call (base_Apply pre post)"
  unfolding one_call_def
proof (intro allI impI)
  fix f x w r w' assume run: "base_Apply pre post f x w = Some (Inr (r, w'))"
  then obtain r1 w1 where pre: "pre x w = Some (Inr (r1, w1))" by (auto simp: base_Apply_def run_bind_cases)
  have s: "same_run w w1" using assms(1) pre unfolding quiet_pre_def by blast
  show "same_run w w' \<or> (\<exists>y w1 r2 w2. same_run w w1 \<and> f y w1 = Some (Inr (r2, w2)) \<and> same_run w2 w')"
  proof (cases r1)
    case (Some q)
    then show ?thesis using run pre s by (simp add: base_Apply_def)
  next
    case None
    then obtain r2 w2 where "f x w1 = Some (Inr (r2, w2))" "post x r2 w2 = Some (Inr (r, w'))"
      using run pre by (auto simp: base_Apply_def run_bind_cases)
    with s assms(2) show ?thesis unfolding quiet_post_def by blast
  qed
qed

lemma base_Apply_returns:
  assumes "quiet_pre pre" "\<And>x w. \<exists>r w'. pre x w = Some (Inr (r, w'))" "\<And>x r w. \<exists>r' w'. post x r w = Some (Inr (r', w'))"
  shows "returns_if_inner (base_Apply pre post)"
  unfolding returns_if_inner_def
proof (intro allI impI)
  fix f :: "('a, 'b) inner_fn" and x w
  assume f: "\<forall>y w1. same_run w w1 \<longrightarrow> (\<exists>r w2. f y w1 = Some (Inr (r, w2)))"
  obtain r w1 where pre: "pre x w = Some (Inr (r, w1))" using assms(2) by blast
  then have "same_run w w1" using assms(1) unfolding quiet_pre_def by blast
  then obtain r2 w2 where "f x w1 = Some (Inr (r2, w2))" using f by blast
  then show "\<exists>r w'. base_Apply pre post f x w = Some (Inr (r, w'))"
    using pre assms(3)[of x r2 w2] by (cases r) (auto simp: base_Apply_def run_return_def)
qed

text \<open>The post hook of the base executor, when the hooks it calls only do bookkeeping.\<close>

lemma base_PostExecute_quiet:
  assumes "\<And>x r w w'. os x r w = Some (Inr w') \<Longrightarrow> same_run w w'"
    "\<And>x r w r' w'. onf x r w = Some (Inr (r', w')) \<Longrightarrow> same_run w w'"
  shows "quiet_post (base_PostExecute isf os onf)"
  using assms by (fastforce simp: quiet_post_def base_PostExecute_def Let_def run_bind_cases split: if_splits)

lemma base_PostExecute_returns:
  assumes "\<And>x r w. \<exists>w'. os x r w = Some (Inr w')" "\<And>x r w. \<exists>r' w'. onf x r w = Some (Inr (r', w'))"
  shows "\<exists>r' w'. base_PostExecute isf os onf x r w = Some (Inr (r', w'))"
proof -
  obtain w' where "os x (WithDone r True True) w = Some (Inr w')" using assms(1) by blast
  then show ?thesis using assms(2) by (simp add: base_PostExecute_def Let_def run_return_def)
qed

text \<open>A new world, and a call of the function in a world without timers.\<close>

lemma new_world:
  "w_env (newExecution zero ctx v) = v" "w_executions (newExecution zero ctx v) = 0"
  "Context 0 (newExecution zero ctx v) = ctx" "w_timers (newExecution zero ctx v) = []"
  by (simp_all add: Context_def get_exec_def newExecution_def)

lemma call_fn_no_timers:
  assumes "w_timers w = []"
  shows "call_fn rt (\<lambda>_. fn) False x w =
      Some (Inr (\<lparr>Result = fst (fst (fn (w_env w))), Error = snd (fst (fn (w_env w))), Done = True, Success = True, SuccessAll = True\<rparr>,
        exec_record (w\<lparr>w_env := snd (fn (w_env w))\<rparr>)))"
  using assms by (simp add: call_fn_def run_return_def fire_timers_def split_beta)

lemma env_call_listener [simp]: "w_env (call_listener b name x r w) = w_env w"
  by (simp add: call_listener_def log_event_def CopyWithResult_def exec_copy_def set_exec_def set_last_def Let_def split_beta split: option.split)

text \<open>A runtime in which waiting only takes time and nothing is canceled, for examples.\<close>

definition still_runtime :: "(int, nat) runtime" where
  "still_runtime = \<lparr>rt_zero = 0, rt_pause = (\<lambda>d _ v. v\<lparr>clock := clock v + d\<rparr>), rt_rand = (\<lambda>v. (1 / 2, v)),
     rt_fires = (\<lambda>t v. t \<le> clock v), rt_selects_ctx = (\<lambda>_. True),
     rt_selects_timer = (\<lambda>_. False), rt_fuel = 10\<rparr>"

definition start_env :: "(int, nat) env" where
  "start_env = \<lparr>clock = 100, ctx_errs = (\<lambda>_. None), objs = 0\<rparr>"

end
