(* ===== verification/Budget.thy ===== *)
theory Budget
  imports Go_Prelude
begin

text \<open>
  The budget for retries and hedges: src/budget/budget.go and the interface of src/internal/budget.go.
  The two atomic counters are 32-bit integers. Each method is one function; \<^verbatim>\<open>TryAcquirePermit\<close>, which
  reads the counters before it adds to them, is modelled here without other callers in between, and with them in \<open>Budget_Callers\<close>.
\<close>

record budget_config =
  bu_maxRate :: float64
  bu_minConcurrency :: uint
  bu_onBudgetExceeded :: bool

definition budget_NewBuilder :: budget_config where
  "budget_NewBuilder = \<lparr>bu_maxRate = 2 / 10, bu_minConcurrency = 3, bu_onBudgetExceeded = False\<rparr>"

definition WithMaxRate :: "float64 \<Rightarrow> budget_config \<Rightarrow> budget_config" where
  "WithMaxRate maxRate c = c\<lparr>bu_maxRate := maxRate\<rparr>"

definition WithMinConcurrency :: "uint \<Rightarrow> budget_config \<Rightarrow> budget_config" where
  "WithMinConcurrency minConcurrency c = c\<lparr>bu_minConcurrency := minConcurrency\<rparr>"

definition budget_WithListener :: "bool \<Rightarrow> budget_config \<Rightarrow> budget_config" where
  "budget_WithListener listener c = c\<lparr>bu_onBudgetExceeded := listener\<rparr>"

datatype ExecutionType = RetryExecution | HedgeExecution

record budget =
  bu_config :: budget_config
  bu_executions :: int
  bu_inflight :: int
  bu_exceeded_calls :: "ExecutionType list"

definition budget_Build :: "budget_config \<Rightarrow> budget" where
  "budget_Build c = \<lparr>bu_config = c, bu_executions = 0, bu_inflight = 0, bu_exceeded_calls = []\<rparr>"

definition RecordExecution :: "budget \<Rightarrow> budget" where
  "RecordExecution b = b\<lparr>bu_executions := i32 (bu_executions b + 1)\<rparr>"

definition ReleaseExecution :: "budget \<Rightarrow> budget" where
  "ReleaseExecution b = b\<lparr>bu_executions := i32 (bu_executions b - 1)\<rparr>"

definition Rate :: "budget \<Rightarrow> float64" where
  "Rate b = (if bu_executions b = 0 then 0 else of_int (bu_inflight b) / of_int (bu_executions b))"

definition budget_TryAcquirePermit :: "budget \<Rightarrow> bool \<times> budget" where
  "budget_TryAcquirePermit b =
     (if bu_inflight b \<ge> i32 (uint (bu_minConcurrency (bu_config b))) \<and> Rate b > bu_maxRate (bu_config b)
      then (False, b)
      else (True, RecordExecution (b\<lparr>bu_inflight := i32 (bu_inflight b + 1)\<rparr>)))"

definition budget_ReleasePermit :: "budget \<Rightarrow> budget" where
  "budget_ReleasePermit b = ReleaseExecution (b\<lparr>bu_inflight := i32 (bu_inflight b - 1)\<rparr>)"

definition OnBudgetExceeded :: "ExecutionType \<Rightarrow> budget \<Rightarrow> budget" where
  "OnBudgetExceeded executionType b =
     (if bu_onBudgetExceeded (bu_config b)
      then b\<lparr>bu_exceeded_calls := bu_exceeded_calls b @ [executionType]\<rparr> else b)"

section \<open>Lemmas\<close>

lemma in_i32_i32 [simp]: "in_i32 (i32 x)"
proof -
  have "0 \<le> (x + 2 ^ 31) mod 2 ^ 32" "(x + 2 ^ 31) mod 2 ^ 32 < (2 ^ 32 :: int)" by simp_all
  then show ?thesis by (simp add: i32_def in_i32_def)
qed

lemma i32_add: "i32 (i32 x + y) = i32 (x + y)"
proof -
  have "(i32 x + y + 2 ^ 31) mod 2 ^ 32 = ((x + 2 ^ 31) mod 2 ^ 32 + y) mod 2 ^ 32" by (simp add: i32_def)
  also have "\<dots> = (x + 2 ^ 31 + y) mod 2 ^ 32" by (rule mod_add_left_eq)
  also have "x + 2 ^ 31 + y = x + y + 2 ^ 31" by simp
  finally show ?thesis by (simp add: i32_def)
qed

lemma acquire_release_permit:
  assumes "in_i32 (bu_executions b)" "in_i32 (bu_inflight b)" "budget_TryAcquirePermit b = (True, b')"
  shows "budget_ReleasePermit b' = b"
  using assms i32_add[of "bu_executions b + 1" "-1"] i32_add[of "bu_inflight b + 1" "-1"]
  by (auto simp: budget_TryAcquirePermit_def budget_ReleasePermit_def RecordExecution_def ReleaseExecution_def
      i32_id split: if_splits)

end
