(* ===== verification/Retry_Policy.thy ===== *)
theory Retry_Policy
  imports Executor Budget
begin

text \<open>
  The retry policy: src/retrypolicy/retry.go and retryexecutor.go, with the random delays of
  src/internal/util/util.go. The fields of the policy's executor, which live for one execution, are
  the entry of the executor's number in \<open>w_retry\<close>.
\<close>

section \<open>Exceeded retries\<close>

text \<open>
  \<^verbatim>\<open>AsExceededError\<close> and \<^verbatim>\<open>IsExceededError\<close>: the first \<^verbatim>\<open>ExceededError\<close> value that the standard library's \<^verbatim>\<open>errors.As\<close> meets in what an error wraps, and whether
  \<^verbatim>\<open>ErrExceeded\<close> matches.
\<close>

fun AsExceededError :: "'r error \<Rightarrow> ('r \<times> 'r error option) option" where
  "AsExceededError (Err n) = None"
| "AsExceededError (FailureError r) = None"
| "AsExceededError (Wrap n None) = None"
| "AsExceededError (Wrap n (Some e)) = AsExceededError e"
| "AsExceededError (Join n es) =
     fold (\<lambda>x found. case found of Some f \<Rightarrow> Some f | None \<Rightarrow> (case x of None \<Rightarrow> None | Some e \<Rightarrow> AsExceededError e)) es None"
| "AsExceededError (ExceededError r e) = Some (r, e)"

definition IsExceededError :: "'r error option \<Rightarrow> bool" where
  "IsExceededError err = errors_Is err (Some retry_ErrExceeded)"

lemma fold_found:
  "fold (\<lambda>x found. case found of Some f \<Rightarrow> Some f | None \<Rightarrow> g x) xs acc \<noteq> None \<longleftrightarrow> acc \<noteq> None \<or> (\<exists>x\<in>set xs. g x \<noteq> None)"
  by (induction xs arbitrary: acc) (auto split: option.splits)

lemma joined_errors:
  "(\<exists>x\<in>set es. (case x of None \<Rightarrow> None | Some e \<Rightarrow> g e) \<noteq> None) \<longleftrightarrow> (\<exists>e. Some e \<in> set es \<and> g e \<noteq> None)"
  "list_ex (\<lambda>x. case x of None \<Rightarrow> False | Some e \<Rightarrow> P e) es \<longleftrightarrow> (\<exists>e. Some e \<in> set es \<and> P e)"
  by (force simp: list_ex_iff split: option.splits)+

lemma AsExceededError_errorAs:
  "AsExceededError e \<noteq> None \<longleftrightarrow> errorAs (\<lambda>e. \<exists>r l. e = ExceededError r l) e"
proof (induction e rule: AsExceededError.induct)
  case (5 n es)
  then show ?case unfolding AsExceededError.simps errorAs.simps fold_found joined_errors by blast
next
  case (6 r e)
  then show ?case by (cases e) simp_all
qed simp_all

lemma exceeded_errors_match:
  assumes "AsExceededError e \<noteq> None"
  shows "IsExceededError (Some e)"
proof -
  have "errors_is e retry_ErrExceeded" using assms
  proof (induction e rule: AsExceededError.induct)
    case (5 n es)
    then show ?case unfolding AsExceededError.simps errors_is.simps fold_found joined_errors by blast
  next
    case (6 r e)
    then show ?case by (cases e) (simp_all add: ExceededError_Is_def)
  qed simp_all
  then show ?thesis by (simp add: IsExceededError_def errors_Is_def)
qed

section \<open>Configuration\<close>

record ('r, 's) rp_config =
  rp_failurePolicy :: "'r BaseFailurePolicy"
  rp_delayPolicy :: "'r exec_info BaseDelayablePolicy"
  rp_abortPolicy :: "'r BaseAbortablePolicy"
  rp_returnLastFailure :: bool
  rp_delayMin :: duration
  rp_delayMax :: duration
  rp_delayFactor :: float64
  rp_maxDelay :: duration
  rp_jitter :: duration
  rp_jitterFactor :: float64
  rp_maxDuration :: duration
  rp_maxRetries :: int
  rp_budget :: "('s, budget) ref option"
  rp_onAbort :: bool
  rp_onRetry :: bool
  rp_onRetryScheduled :: bool
  rp_onRetriesExceeded :: bool

definition defaultMaxRetries :: int where
  "defaultMaxRetries = 2"

definition rp_NewBuilder :: "('r, 's) rp_config" where
  "rp_NewBuilder =
     \<lparr>rp_failurePolicy = new_BaseFailurePolicy, rp_delayPolicy = \<lparr>Delay = 0, DelayFunc = None\<rparr>,
      rp_abortPolicy = \<lparr>abortConditions = []\<rparr>, rp_returnLastFailure = False,
      rp_delayMin = 0, rp_delayMax = 0, rp_delayFactor = 0, rp_maxDelay = 0, rp_jitter = 0, rp_jitterFactor = 0,
      rp_maxDuration = 0, rp_maxRetries = defaultMaxRetries, rp_budget = None,
      rp_onAbort = False, rp_onRetry = False, rp_onRetryScheduled = False, rp_onRetriesExceeded = False\<rparr>"

definition rp_AbortOnResult :: "'r \<Rightarrow> ('r, 's) rp_config \<Rightarrow> ('r, 's) rp_config" where
  "rp_AbortOnResult result c = c\<lparr>rp_abortPolicy := AbortOnResult result (rp_abortPolicy c)\<rparr>"

definition rp_AbortOnErrors :: "'r error option list \<Rightarrow> ('r, 's) rp_config \<Rightarrow> ('r, 's) rp_config" where
  "rp_AbortOnErrors errs c = c\<lparr>rp_abortPolicy := AbortOnErrors errs (rp_abortPolicy c)\<rparr>"

definition rp_AbortOnErrorTypes :: "('r error \<Rightarrow> bool) list \<Rightarrow> ('r, 's) rp_config \<Rightarrow> ('r, 's) rp_config" where
  "rp_AbortOnErrorTypes errs c = c\<lparr>rp_abortPolicy := AbortOnErrorTypes errs (rp_abortPolicy c)\<rparr>"

definition rp_AbortIf :: "'r condition \<Rightarrow> ('r, 's) rp_config \<Rightarrow> ('r, 's) rp_config" where
  "rp_AbortIf predicate c = c\<lparr>rp_abortPolicy := AbortIf predicate (rp_abortPolicy c)\<rparr>"

definition rp_HandleErrors :: "'r error option list \<Rightarrow> ('r, 's) rp_config \<Rightarrow> ('r, 's) rp_config" where
  "rp_HandleErrors errs c = c\<lparr>rp_failurePolicy := HandleErrors errs (rp_failurePolicy c)\<rparr>"

definition rp_HandleErrorTypes :: "('r error \<Rightarrow> bool) list \<Rightarrow> ('r, 's) rp_config \<Rightarrow> ('r, 's) rp_config" where
  "rp_HandleErrorTypes errs c = c\<lparr>rp_failurePolicy := HandleErrorTypes errs (rp_failurePolicy c)\<rparr>"

definition rp_HandleResult :: "'r \<Rightarrow> ('r, 's) rp_config \<Rightarrow> ('r, 's) rp_config" where
  "rp_HandleResult result c = c\<lparr>rp_failurePolicy := HandleResult result (rp_failurePolicy c)\<rparr>"

definition rp_HandleIf :: "'r condition \<Rightarrow> ('r, 's) rp_config \<Rightarrow> ('r, 's) rp_config" where
  "rp_HandleIf predicate c = c\<lparr>rp_failurePolicy := HandleIf predicate (rp_failurePolicy c)\<rparr>"

definition ReturnLastFailure :: "('r, 's) rp_config \<Rightarrow> ('r, 's) rp_config" where
  "ReturnLastFailure c = c\<lparr>rp_returnLastFailure := True\<rparr>"

definition WithMaxAttempts :: "int \<Rightarrow> ('r, 's) rp_config \<Rightarrow> ('r, 's) rp_config" where
  "WithMaxAttempts maxAttempts c =
     (if maxAttempts = -1 then c\<lparr>rp_maxRetries := -1\<rparr> else c\<lparr>rp_maxRetries := i64 (maxAttempts - 1)\<rparr>)"

definition WithMaxRetries :: "int \<Rightarrow> ('r, 's) rp_config \<Rightarrow> ('r, 's) rp_config" where
  "WithMaxRetries maxRetries c = c\<lparr>rp_maxRetries := maxRetries\<rparr>"

definition WithMaxDuration :: "duration \<Rightarrow> ('r, 's) rp_config \<Rightarrow> ('r, 's) rp_config" where
  "WithMaxDuration maxDuration c = c\<lparr>rp_maxDuration := maxDuration\<rparr>"

definition rp_WithDelay :: "duration \<Rightarrow> ('r, 's) rp_config \<Rightarrow> ('r, 's) rp_config" where
  "rp_WithDelay delay c = c\<lparr>rp_delayPolicy := WithDelay delay (rp_delayPolicy c)\<rparr>"

definition rp_WithDelayFunc :: "('r exec_info \<Rightarrow> duration) option \<Rightarrow> ('r, 's) rp_config \<Rightarrow> ('r, 's) rp_config" where
  "rp_WithDelayFunc delayFunc c = c\<lparr>rp_delayPolicy := WithDelayFunc delayFunc (rp_delayPolicy c)\<rparr>"

definition WithBackoffFactor :: "duration \<Rightarrow> duration \<Rightarrow> float64 \<Rightarrow> ('r, 's) rp_config \<Rightarrow> ('r, 's) rp_config" where
  "WithBackoffFactor delay maxDelay delayFactor c =
     c\<lparr>rp_delayPolicy := WithDelay delay (rp_delayPolicy c), rp_maxDelay := maxDelay,
       rp_delayFactor := delayFactor, rp_delayMin := 0, rp_delayMax := 0\<rparr>"

definition WithBackoff :: "duration \<Rightarrow> duration \<Rightarrow> ('r, 's) rp_config \<Rightarrow> ('r, 's) rp_config" where
  "WithBackoff delay maxDelay c = WithBackoffFactor delay maxDelay 2 c"

definition WithRandomDelay :: "duration \<Rightarrow> duration \<Rightarrow> ('r, 's) rp_config \<Rightarrow> ('r, 's) rp_config" where
  "WithRandomDelay delayMin delayMax c =
     c\<lparr>rp_delayMin := delayMin, rp_delayMax := delayMax,
       rp_delayPolicy := (rp_delayPolicy c)\<lparr>Delay := 0\<rparr>, rp_maxDelay := 0\<rparr>"

definition WithJitter :: "duration \<Rightarrow> ('r, 's) rp_config \<Rightarrow> ('r, 's) rp_config" where
  "WithJitter jitter c = c\<lparr>rp_jitter := jitter\<rparr>"

definition WithJitterFactor :: "float64 \<Rightarrow> ('r, 's) rp_config \<Rightarrow> ('r, 's) rp_config" where
  "WithJitterFactor jitterFactor c = c\<lparr>rp_jitterFactor := jitterFactor\<rparr>"

definition budget_ErrExceeded :: "'r error" where
  "budget_ErrExceeded = Err ''budget exceeded''"

definition WithBudget :: "('s, budget) ref \<Rightarrow> ('r, 's) rp_config \<Rightarrow> ('r, 's) rp_config" where
  "WithBudget retryBudget c = rp_AbortOnErrors [Some budget_ErrExceeded] (c\<lparr>rp_budget := Some retryBudget\<rparr>)"

definition rp_OnSuccess :: "('r, 's) rp_config \<Rightarrow> ('r, 's) rp_config" where
  "rp_OnSuccess c = c\<lparr>rp_failurePolicy := OnSuccess (rp_failurePolicy c)\<rparr>"

definition rp_OnFailure :: "('r, 's) rp_config \<Rightarrow> ('r, 's) rp_config" where
  "rp_OnFailure c = c\<lparr>rp_failurePolicy := OnFailure (rp_failurePolicy c)\<rparr>"

definition OnAbort :: "bool \<Rightarrow> ('r, 's) rp_config \<Rightarrow> ('r, 's) rp_config" where
  "OnAbort listener c = c\<lparr>rp_onAbort := listener\<rparr>"

definition OnRetry :: "bool \<Rightarrow> ('r, 's) rp_config \<Rightarrow> ('r, 's) rp_config" where
  "OnRetry listener c = c\<lparr>rp_onRetry := listener\<rparr>"

definition OnRetryScheduled :: "bool \<Rightarrow> ('r, 's) rp_config \<Rightarrow> ('r, 's) rp_config" where
  "OnRetryScheduled listener c = c\<lparr>rp_onRetryScheduled := listener\<rparr>"

definition OnRetriesExceeded :: "bool \<Rightarrow> ('r, 's) rp_config \<Rightarrow> ('r, 's) rp_config" where
  "OnRetriesExceeded listener c = c\<lparr>rp_onRetriesExceeded := listener\<rparr>"

definition allowsRetries :: "('r, 's) rp_config \<Rightarrow> bool" where
  "allowsRetries c \<longleftrightarrow> rp_maxRetries c = -1 \<or> rp_maxRetries c > 0"

section \<open>Delays\<close>

text \<open>The conversion of a float to a duration truncates; out of range it wraps in this model.\<close>

definition RandomDelayInRange :: "int \<Rightarrow> int \<Rightarrow> float64 \<Rightarrow> int" where
  "RandomDelayInRange delayMin delayMax random =
     (let min64 = of_int delayMin; max64 = of_int delayMax in i64 (float_to_int (random * (max64 - min64) + min64)))"

definition RandomDelay :: "int \<Rightarrow> int \<Rightarrow> float64 \<Rightarrow> int" where
  "RandomDelay delay jitter random =
     (let randomAddend = (1 - random * 2) * of_int jitter in i64 (delay + i64 (float_to_int randomAddend)))"

definition RandomDelayFactor :: "int \<Rightarrow> float64 \<Rightarrow> float64 \<Rightarrow> int" where
  "RandomDelayFactor delay jitterFactor random =
     (let randomFactor = 1 + (1 - random * 2) * jitterFactor in i64 (float_to_int (of_int delay * randomFactor)))"

definition rand_Float64 :: "('r, 's) runtime \<Rightarrow> ('r, 's) world \<Rightarrow> float64 \<times> ('r, 's) world" where
  "rand_Float64 rt w = (let (x, v) = rt_rand rt (w_env w) in (x, w\<lparr>w_env := v\<rparr>))"

definition set_retry :: "nat \<Rightarrow> retry_state \<Rightarrow> ('r, 's) world \<Rightarrow> ('r, 's) world" where
  "set_retry i st w = w\<lparr>w_retry := (w_retry w)(i := st)\<rparr>"

definition getFixedOrRandomDelay :: "('r, 's) runtime \<Rightarrow> ('r, 's) rp_config \<Rightarrow> nat \<Rightarrow> ('r, 's) world
    \<Rightarrow> duration \<times> ('r, 's) world" where
  "getFixedOrRandomDelay rt c i w =
     (if Delay (rp_delayPolicy c) \<noteq> 0
      then let last = lastDelay (w_retry w i);
               d = (if last \<noteq> 0 \<and> Retries w \<ge> 1 \<and> rp_maxDelay c \<noteq> 0
                    then min (i64 (float_to_int (of_int last * rp_delayFactor c))) (rp_maxDelay c)
                    else Delay (rp_delayPolicy c))
           in (d, set_retry i ((w_retry w i)\<lparr>lastDelay := d\<rparr>) w)
      else if rp_delayMin c \<noteq> 0 \<and> rp_delayMax c \<noteq> 0
      then let (random, w1) = rand_Float64 rt w in (RandomDelayInRange (rp_delayMin c) (rp_delayMax c) random, w1)
      else (0, w))"

definition adjustForJitter :: "('r, 's) runtime \<Rightarrow> ('r, 's) rp_config \<Rightarrow> duration \<Rightarrow> ('r, 's) world
    \<Rightarrow> duration \<times> ('r, 's) world" where
  "adjustForJitter rt c delay w =
     (if rp_jitter c \<noteq> 0
      then let (random, w1) = rand_Float64 rt w in (RandomDelay delay (rp_jitter c) random, w1)
      else if rp_jitterFactor c \<noteq> 0
      then let (random, w1) = rand_Float64 rt w in (RandomDelayFactor delay (rp_jitterFactor c) random, w1)
      else (delay, w))"

definition adjustForMaxDuration :: "('r, 's) rp_config \<Rightarrow> duration \<Rightarrow> duration \<Rightarrow> duration" where
  "adjustForMaxDuration c delay elapsed =
     max 0 (if rp_maxDuration c \<noteq> 0 then min delay (i64 (rp_maxDuration c - elapsed)) else delay)"

definition getDelay :: "('r, 's) runtime \<Rightarrow> ('r, 's) rp_config \<Rightarrow> nat \<Rightarrow> nat \<Rightarrow> ('r, 's) world
    \<Rightarrow> duration \<times> ('r, 's) world" where
  "getDelay rt c i x w =
     (let computedDelay = ComputeDelay (rp_delayPolicy c) (Some (exec_info_of x w));
          (delay, w1) = (if computedDelay \<noteq> -1 then (computedDelay, w) else getFixedOrRandomDelay rt c i w);
          (delay, w2) = (if delay \<noteq> 0 then adjustForJitter rt c delay w1 else (delay, w1))
      in (adjustForMaxDuration c delay (ElapsedTime x w2), w2))"

section \<open>The executor\<close>

definition retry_OnFailure :: "('r, 's) runtime \<Rightarrow> ('r, 's) rp_config \<Rightarrow> nat \<Rightarrow> nat \<Rightarrow> 'r PolicyResult \<Rightarrow> ('r, 's) world
    \<Rightarrow> 'r PolicyResult \<times> ('r, 's) world" where
  "retry_OnFailure rt c i x result w =
     (let w1 = snd (base_OnFailure (Some (rp_failurePolicy c)) x result w);
          attempts = i64 (failedAttempts (w_retry w1 i) + 1);
          maxRetriesExceeded = (rp_maxRetries c \<noteq> -1 \<and> attempts > rp_maxRetries c);
          maxDurationExceeded = (rp_maxDuration c \<noteq> 0 \<and> ElapsedTime x w1 > rp_maxDuration c);
          exceeded = (maxRetriesExceeded \<or> maxDurationExceeded);
          w2 = set_retry i ((w_retry w1 i)\<lparr>failedAttempts := attempts, retriesExceeded := exceeded\<rparr>) w1;
          isAbortable = IsAbortable (rp_abortPolicy c) (Result result) (Error result);
          shouldRetry = (\<not> isAbortable \<and> \<not> exceeded \<and> allowsRetries c);
          dn = (isAbortable \<or> \<not> shouldRetry);
          w3 = call_listener (isAbortable \<and> rp_onAbort c) ''onAbort'' x result w2
      in if exceeded
         then let w4 = call_listener (\<not> isAbortable \<and> rp_onRetriesExceeded c) ''onRetriesExceeded'' x result w3
              in if \<not> rp_returnLastFailure c
                 then (FailureResult (rt_zero rt) (ExceededError (Result result) (Error result)), w4)
                 else (WithDone result dn False, w4)
         else (WithDone result dn False, w3))"

definition retry_PostExecute :: "('r, 's) runtime \<Rightarrow> ('r, 's) rp_config \<Rightarrow> nat \<Rightarrow> ('r, 's) post_hook" where
  "retry_PostExecute rt c i =
     base_PostExecute (base_IsFailure (Some (rp_failurePolicy c)))
       (\<lambda>x er w. run_return (base_OnSuccess (Some (rp_failurePolicy c)) x er w))
       (\<lambda>x er w. run_return (retry_OnFailure rt c i x er w))"

definition update_budget :: "('r, 's) rp_config \<Rightarrow> (budget \<Rightarrow> budget) \<Rightarrow> ('r, 's) world \<Rightarrow> ('r, 's) world" where
  "update_budget c f w =
     (case rp_budget c of None \<Rightarrow> w | Some p \<Rightarrow> write_ref p (f (read_ref p w)) w)"

definition acquire_retry :: "('r, 's) rp_config \<Rightarrow> ('r, 's) world \<Rightarrow> bool \<times> ('r, 's) world" where
  "acquire_retry c w =
     (case rp_budget c of
        None \<Rightarrow> (True, w)
      | Some p \<Rightarrow> let (ok, b) = budget_TryAcquirePermit (read_ref p w) in (ok, write_ref p b w))"

text \<open>
  What happens between a failed attempt that is to be retried and the next attempt: \<open>Inl\<close> is a result
  to return.
\<close>

definition prepare_retry :: "('r, 's) runtime \<Rightarrow> ('r, 's) rp_config \<Rightarrow> nat \<Rightarrow> nat \<Rightarrow> 'r PolicyResult \<Rightarrow> ('r, 's) world
    \<Rightarrow> ('r PolicyResult + unit) \<times> ('r, 's) world" where
  "prepare_retry rt c i x result w =
     (case exec_RecordResult (rt_zero rt) x (Some result) w of
        (Some cancelResult, w1) \<Rightarrow> (Inl cancelResult, w1)
      | (None, w1) \<Rightarrow>
          let (delay, w2) = getDelay rt c i x w1;
              w3 = (if rp_onRetryScheduled c
                    then let w' = snd (CopyWithResult x (Some result) w2) in
                         w'\<lparr>w_events := w_events w' @ [ScheduledEvent (Result result) (Error result) delay]\<rparr>
                    else w2);
              w4 = pause rt delay x w3
          in case InitializeRetry (rt_zero rt) x w4 of
               (Some cancelResult, w5) \<Rightarrow> (Inl cancelResult, w5)
             | (None, w5) \<Rightarrow>
                 let (ok, w6) = acquire_retry c w5 in
                 if \<not> ok
                 then (Inl (FailureResult (rt_zero rt) budget_ErrExceeded), update_budget c (OnBudgetExceeded RetryExecution) w6)
                 else (Inr (), call_listener (rp_onRetry c) ''onRetry'' x result w6))"

fun retry_loop :: "nat \<Rightarrow> ('r, 's) runtime \<Rightarrow> ('r, 's) rp_config \<Rightarrow> nat \<Rightarrow> ('r, 's) inner_fn \<Rightarrow> bool \<Rightarrow> ('r, 's) inner_fn" where
  "retry_loop 0 rt c i innerFn isRetry x w = None"
| "retry_loop (Suc fuel) rt c i innerFn isRetry x w =
     run_bind (innerFn x w) (\<lambda>(result, w1).
     let w2 = (if isRetry then update_budget c budget_ReleasePermit w1 else w1) in
     case isCanceledWithResult (rt_zero rt) x w2 of
       Some cancelResult \<Rightarrow> run_return (cancelResult, w2)
     | None \<Rightarrow>
         if retriesExceeded (w_retry w2 i) then run_return (result, w2)
         else run_bind (retry_PostExecute rt c i x result w2) (\<lambda>(result, w3).
              if Done result then run_return (result, w3)
              else case prepare_retry rt c i x result w3 of
                     (Inl r, w4) \<Rightarrow> run_return (r, w4)
                   | (Inr _, w4) \<Rightarrow> retry_loop fuel rt c i innerFn True x w4))"

definition retry_Apply :: "('r, 's) runtime \<Rightarrow> ('r, 's) rp_config \<Rightarrow> ('r, 's) policy" where
  "retry_Apply rt c i innerFn x w =
     run_bind (retry_loop (rt_fuel rt) rt c i innerFn False x (update_budget c RecordExecution w)) (\<lambda>(result, w1).
     run_return (result, update_budget c ReleaseExecution w1))"

section \<open>The loop ends\<close>

lemma listener_run [simp]:
  "w_executions (call_listener b name x r w) = w_executions w" "w_retry (call_listener b name x r w) = w_retry w"
  using frame_call_listener[of w b name x r] by (simp_all add: same_run_def)

text \<open>The delay may change the last delay of the executor's own state, and nothing else of it.\<close>

definition same_failures :: "nat \<Rightarrow> ('r, 's) world \<Rightarrow> ('r, 's) world \<Rightarrow> bool" where
  "same_failures i w w' \<longleftrightarrow> w_executions w' = w_executions w
     \<and> failedAttempts (w_retry w' i) = failedAttempts (w_retry w i)
     \<and> retriesExceeded (w_retry w' i) = retriesExceeded (w_retry w i)"

lemma same_failures_frame: "same_run w w' \<Longrightarrow> same_failures i w w'"
  and same_failures_trans: "same_failures i w w1 \<Longrightarrow> same_failures i w1 w2 \<Longrightarrow> same_failures i w w2"
  by (simp_all add: same_failures_def same_run_def)

lemma update_budget_frame [frame]: "same_run w (update_budget c f w)"
  by (auto simp: update_budget_def frame split: option.split)

lemma acquire_retry_frame [frame]: "same_run w (snd (acquire_retry c w))"
  by (auto simp: acquire_retry_def frame split: option.split prod.split)

lemma rand_frame [frame]: "same_run w (snd (rand_Float64 rt w))"
  by (simp add: rand_Float64_def same_run_def split_beta)

lemma getDelay_failures: "same_failures j w (snd (getDelay rt c i x w))"
proof -
  have a: "same_failures j w (snd (getFixedOrRandomDelay rt c i w))"
    using same_failures_frame[OF rand_frame[of w rt], of j]
    by (auto simp: getFixedOrRandomDelay_def Let_def split_beta same_failures_def set_retry_def)
  have b: "same_failures j w' (snd (adjustForJitter rt c d w'))" for d w'
    using same_failures_frame[OF rand_frame[of w' rt], of j]
    by (auto simp: adjustForJitter_def Let_def split_beta same_failures_def)
  have r: "same_failures j w w" by (simp add: same_failures_def)
  show ?thesis
    using a b r same_failures_trans[OF a b] by (auto simp: getDelay_def Let_def split_beta)
qed

lemma prepare_retry_failures: "same_failures j w (snd (prepare_retry rt c i x result w))"
proof (cases "exec_RecordResult (rt_zero rt) x (Some result) w")
  case (Pair a w1)
  have w1: "same_failures j w w1"
    using frame_RecordResult[of w "rt_zero rt" x "Some result"] Pair same_failures_frame by fastforce
  show ?thesis
  proof (cases a)
    case None
    obtain delay w2 where w2: "getDelay rt c i x w1 = (delay, w2)" by (cases "getDelay rt c i x w1")
    define w3 where "w3 = (if rp_onRetryScheduled c
                    then let w' = snd (CopyWithResult x (Some result) w2) in
                         w'\<lparr>w_events := w_events w' @ [ScheduledEvent (Result result) (Error result) delay]\<rparr>
                    else w2)"
    have "same_run w2 w3"
      using frame_CopyWithResult[of w2 x "Some result"] by (simp add: w3_def same_run_def Let_def)
    then have "same_run w2 (pause rt delay x w3)" by (rule same_run_trans[OF _ frame_pause])
    then have "same_run w2 (snd (InitializeRetry (rt_zero rt) x (pause rt delay x w3)))"
      by (rule same_run_trans[OF _ frame_InitializeRetry])
    moreover obtain b w5 where i: "InitializeRetry (rt_zero rt) x (pause rt delay x w3) = (b, w5)"
      by (cases "InitializeRetry (rt_zero rt) x (pause rt delay x w3)")
    ultimately have w5: "same_run w2 w5" by simp
    obtain ok w6 where ok: "acquire_retry c w5 = (ok, w6)" by (cases "acquire_retry c w5")
    then have w6: "same_run w2 w6" using same_run_trans[OF w5 acquire_retry_frame[of w5 c]] by simp
    have "same_run w2 (snd (prepare_retry rt c i x result w))"
    proof (cases b)
      case None
      have l: "same_run w2 (call_listener (rp_onRetry c) ''onRetry'' x result w6)"
          "same_run w2 (update_budget c (OnBudgetExceeded RetryExecution) w6)"
        by (rule same_run_trans[OF w6 frame_call_listener]) (rule same_run_trans[OF w6 update_budget_frame])
      have "snd (prepare_retry rt c i x result w) = (if ok then call_listener (rp_onRetry c) ''onRetry'' x result w6
          else update_budget c (OnBudgetExceeded RetryExecution) w6)"
        using Pair \<open>a = None\<close> None w2 i ok by (simp add: prepare_retry_def Let_def flip: w3_def)
      with l show ?thesis by simp
    qed (use Pair None w2 i w5 in \<open>simp add: prepare_retry_def Let_def flip: w3_def\<close>)
    moreover have "same_failures j w w2"
      using same_failures_trans[OF w1] getDelay_failures[of j w1 rt c i x] w2 by simp
    ultimately show ?thesis using same_failures_frame same_failures_trans by blast
  qed (use Pair w1 in \<open>simp add: prepare_retry_def\<close>)
qed

text \<open>The decision after an attempt: done, or another failure was counted and retries are left.\<close>

lemma retry_PostExecute_cases:
  obtains r w' where "retry_PostExecute rt c i x result w = Some (Inr (r, w'))" "w_executions w' = w_executions w"
    "\<not> Done r \<Longrightarrow> failedAttempts (w_retry w' i) = i64 (failedAttempts (w_retry w i) + 1)
       \<and> (rp_maxRetries c = -1 \<or> failedAttempts (w_retry w' i) \<le> rp_maxRetries c) \<and> \<not> retriesExceeded (w_retry w' i)"
proof (cases "base_IsFailure (Some (rp_failurePolicy c)) (Result result) (Error result)")
  case False
  have "same_run w (base_OnSuccess (Some (rp_failurePolicy c)) x (WithDone result True True) w)"
    by (simp add: base_OnSuccess_def frame)
  with False that show ?thesis
    by (simp add: retry_PostExecute_def base_PostExecute_def Let_def same_run_def WithDone_def run_return_def)
next
  case True
  let ?r = "WithFailure result"
  define w1 where "w1 = snd (base_OnFailure (Some (rp_failurePolicy c)) x ?r w)"
  have w1: "same_run w w1" by (simp add: w1_def base_OnFailure_def frame)
  have run: "retry_PostExecute rt c i x result w = Some (Inr (retry_OnFailure rt c i x ?r w))"
    using True by (simp add: retry_PostExecute_def base_PostExecute_def run_return_def)
  have ex: "w_executions (snd (retry_OnFailure rt c i x ?r w)) = w_executions w"
    using w1 by (auto simp: retry_OnFailure_def Let_def same_run_def set_retry_def w1_def)
  show ?thesis
  proof (rule that[of "fst (retry_OnFailure rt c i x ?r w)" "snd (retry_OnFailure rt c i x ?r w)"])
    assume nd: "\<not> Done (fst (retry_OnFailure rt c i x ?r w))"
    then show "failedAttempts (w_retry (snd (retry_OnFailure rt c i x ?r w)) i) = i64 (failedAttempts (w_retry w i) + 1)
       \<and> (rp_maxRetries c = -1 \<or> failedAttempts (w_retry (snd (retry_OnFailure rt c i x ?r w)) i) \<le> rp_maxRetries c)
       \<and> \<not> retriesExceeded (w_retry (snd (retry_OnFailure rt c i x ?r w)) i)"
      using w1
      by (auto simp: retry_OnFailure_def Let_def same_run_def set_retry_def WithDone_def FailureResult_def
          simp flip: w1_def split: if_splits)
  qed (use run ex in simp_all)
qed

text \<open>
  One round of the loop: it returns after the one call of the inner function, or another failure is
  counted within the limit and the loop goes on.
\<close>

lemma retry_round:
  assumes f: "f x w = Some (Inr (result, w1))" "w_retry w1 i = w_retry w i" "adds n w w1"
    and m: "rp_maxRetries c = int m" "int m < 2 ^ 63 - 1" and k: "failedAttempts (w_retry w i) = int k" "k \<le> m"
  obtains r w' where "retry_loop (Suc fuel) rt c i f isRetry x w = Some (Inr (r, w'))" "adds n w w'"
  | w' where "retry_loop (Suc fuel) rt c i f isRetry x w = retry_loop fuel rt c i f True x w'" "adds n w w'"
      "failedAttempts (w_retry w' i) = int (Suc k)" "Suc k \<le> m"
proof -
  define w2 where "w2 = (if isRetry then update_budget c budget_ReleasePermit w1 else w1)"
  have s2: "same_run w1 w2" by (simp add: w2_def frame)
  have a2: "adds n w w2" using adds_frame[OF same_run_refl f(3) s2] .
  obtain r w3 where p: "retry_PostExecute rt c i x result w2 = Some (Inr (r, w3))" "w_executions w3 = w_executions w2"
    "\<not> Done r \<Longrightarrow> failedAttempts (w_retry w3 i) = i64 (failedAttempts (w_retry w2 i) + 1)
       \<and> (rp_maxRetries c = -1 \<or> failedAttempts (w_retry w3 i) \<le> rp_maxRetries c) \<and> \<not> retriesExceeded (w_retry w3 i)"
    using retry_PostExecute_cases by blast
  obtain q w4 where q: "prepare_retry rt c i x r w3 = (q, w4)" by (cases "prepare_retry rt c i x r w3")
  have s4: "same_failures i w3 w4" using prepare_retry_failures[of i w3 rt c i x r] q by simp
  have a4: "adds n w w3" "adds n w w4" using a2 p(2) s4 by (simp_all add: adds_def same_failures_def)
  have round: "retry_loop (Suc fuel) rt c i f isRetry x w =
     (case isCanceledWithResult (rt_zero rt) x w2 of
        Some cancelResult \<Rightarrow> run_return (cancelResult, w2)
      | None \<Rightarrow> if retriesExceeded (w_retry w2 i) then run_return (result, w2)
               else if Done r then run_return (r, w3)
               else case q of Inl r' \<Rightarrow> run_return (r', w4) | Inr _ \<Rightarrow> retry_loop fuel rt c i f True x w4)"
    unfolding retry_loop.simps f(1) run_bind.simps prod.case Let_def w2_def[symmetric] p(1) q ..
  show thesis
  proof (cases "isCanceledWithResult (rt_zero rt) x w2 = None \<and> \<not> retriesExceeded (w_retry w2 i) \<and> \<not> Done r \<and> q = Inr ()")
    case True
    have "failedAttempts (w_retry w3 i) = int (Suc k)"
      using p(3) True f(2) s2 k m by (simp add: same_run_def i64_range)
    then have "failedAttempts (w_retry w4 i) = int (Suc k)" "Suc k \<le> m"
      using s4 p(3) True m by (simp_all add: same_failures_def)
    with True round a4(2) show ?thesis by (intro that(2)) simp_all
  next
    case False
    then have "\<exists>r w'. retry_loop (Suc fuel) rt c i f isRetry x w = Some (Inr (r, w')) \<and> adds n w w'"
      using a2 a4 unfolding round by (cases q) (auto simp: run_return_def split: option.split)
    then show ?thesis using that(1) by blast
  qed
qed

text \<open>With a limit of \<open>m\<close> retries and \<open>k\<close> failures counted so far, at most \<open>m - k + 1\<close> attempts are made.\<close>

lemma attempts_left:
  assumes "adds n w w1" "adds ((m - Suc k + 1) * n) w1 w2" "Suc k \<le> m"
  shows "adds ((m - k + 1) * n) w w2"
proof -
  have "n + (m - Suc k + 1) * n = (m - k + 1) * n" using assms(3) by (simp add: Suc_diff_Suc flip: mult_Suc)
  then show ?thesis using adds_trans[OF assms(1,2)] by simp
qed

lemma retry_loop_ends:
  assumes f: "\<And>x w. \<exists>r w'. f x w = Some (Inr (r, w')) \<and> w_retry w' i = w_retry w i \<and> adds n w w'"
    and m: "rp_maxRetries c = int m" "int m < 2 ^ 63 - 1"
    and "failedAttempts (w_retry w i) = int k" "k \<le> m" "m - k < fuel"
  shows "\<exists>r w'. retry_loop fuel rt c i f isRetry x w = Some (Inr (r, w')) \<and> adds ((m - k + 1) * n) w w'"
  using assms(4-6)
proof (induction fuel arbitrary: w k isRetry)
  case (Suc fuel)
  obtain result w1 where w1: "f x w = Some (Inr (result, w1))" "w_retry w1 i = w_retry w i" "adds n w w1" using f by blast
  show ?case
    using retry_round[where f = f and x = x, OF w1 m Suc.prems(1,2), of fuel rt isRetry]
  proof cases
    case (1 r w')
    then show ?thesis using adds_mono[OF 1(2), of "(m - k + 1) * n"] by auto
  next
    case (2 w')
    then have "m - Suc k < fuel" using Suc.prems(3) by linarith
    then show ?thesis using Suc.IH[OF 2(3,4), of True] attempts_left[OF 2(2) _ 2(4)] 2(1) by auto
  qed
qed simp

lemma retry_loop_bounded:
  assumes f: "\<And>x w r w'. f x w = Some (Inr (r, w')) \<Longrightarrow> w_retry w' i = w_retry w i \<and> adds n w w'"
    and m: "rp_maxRetries c = int m" "int m < 2 ^ 63 - 1"
    and "failedAttempts (w_retry w i) = int k" "k \<le> m" "retry_loop fuel rt c i f isRetry x w = Some (Inr (r, w'))"
  shows "adds ((m - k + 1) * n) w w'"
  using assms(4-6)
proof (induction fuel arbitrary: w k isRetry)
  case (Suc fuel)
  obtain result w1 where w1: "f x w = Some (Inr (result, w1))" "w_retry w1 i = w_retry w i" "adds n w w1"
    using Suc.prems(3) f by (auto simp: run_bind_cases)
  show ?case
    using retry_round[where f = f and x = x, OF w1 m Suc.prems(1,2), of fuel rt isRetry]
  proof cases
    case (1 r2 w2)
    then show ?thesis using Suc.prems(3) adds_mono[OF 1(2), of "(m - k + 1) * n"] by auto
  next
    case (2 w2)
    then show ?thesis using Suc.IH[OF 2(3,4)] attempts_left[OF 2(2) _ 2(4)] Suc.prems(3) by auto
  qed
qed simp

text \<open>The same for the policy; its own failures are counted from zero.\<close>

abbreviation fresh_retry :: "nat \<Rightarrow> (nat \<Rightarrow> retry_state) \<Rightarrow> bool" where
  "fresh_retry i rs \<equiv> failedAttempts (rs i) = 0"

lemma retry_Apply_ends:
  assumes f: "\<And>x w. \<exists>r w'. f x w = Some (Inr (r, w')) \<and> w_retry w' i = w_retry w i \<and> adds n w w'"
    and "rp_maxRetries c = int m" "int m < 2 ^ 63 - 1" "m < rt_fuel rt" "fresh_retry i (w_retry w)"
  shows "\<exists>r w'. retry_Apply rt c i f x w = Some (Inr (r, w')) \<and> adds ((m + 1) * n) w w'"
proof -
  define w0 where "w0 = update_budget c RecordExecution w"
  have w0: "same_run w w0" by (simp add: w0_def frame)
  then have "failedAttempts (w_retry w0 i) = int 0" using assms(5) by (simp add: same_run_def)
  then obtain r w' where w': "retry_loop (rt_fuel rt) rt c i f False x w0 = Some (Inr (r, w'))" "adds ((m - 0 + 1) * n) w0 w'"
    using retry_loop_ends[where f = f and k = 0, OF f assms(2,3)] assms(4) by (metis minus_nat.diff_0 zero_le)
  have "adds ((m + 1) * n) w (update_budget c ReleaseExecution w')"
    using adds_frame[OF w0 w'(2) update_budget_frame] by simp
  with w'(1) show ?thesis by (simp add: retry_Apply_def run_return_def flip: w0_def)
qed

lemma retry_Apply_bounded:
  assumes f: "keeps_retry f" "bounded (\<lambda>_. True) n f" and m: "rp_maxRetries c = int m" "int m < 2 ^ 63 - 1"
  shows "bounded (fresh_retry i) ((m + 1) * n) (retry_Apply rt c i f)"
  unfolding bounded_def
proof (intro allI impI)
  fix x w r w' assume k: "fresh_retry i (w_retry w)" and run: "retry_Apply rt c i f x w = Some (Inr (r, w'))"
  define w0 where "w0 = update_budget c RecordExecution w"
  have w0: "same_run w w0" by (simp add: w0_def frame)
  then have k0: "failedAttempts (w_retry w0 i) = int 0" using k by (simp add: same_run_def)
  obtain r1 w1 where w1: "retry_loop (rt_fuel rt) rt c i f False x w0 = Some (Inr (r1, w1))" "w' = update_budget c ReleaseExecution w1"
    using run by (auto simp: retry_Apply_def run_bind_cases simp flip: w0_def)
  have "w_retry w2 i = w_retry w1 i \<and> adds n w1 w2" if "f x w1 = Some (Inr (r, w2))" for x w1 r w2
    using f that unfolding keeps_retry_def bounded_def by metis
  from retry_loop_bounded[OF this m k0 _ w1(1)] have "adds ((m + 1) * n) w0 w1" by simp
  then show "adds ((m + 1) * n) w w'" using adds_frame[OF w0 _ update_budget_frame] w1(2) by blast
qed

section \<open>What a retry policy returns when nothing is canceled\<close>

text \<open>
  The specification: try the outcomes from number \<open>k\<close> on, with \<open>m\<close> retries left, until one is not a
  failure. The second component is the number of the last attempt plus one.
\<close>

definition fn_result :: "'r \<times> 'r error option \<Rightarrow> 'r PolicyResult" where
  "fn_result o1 = \<lparr>Result = fst o1, Error = snd o1, Done = True, Success = True, SuccessAll = True\<rparr>"

definition exceeded_result :: "'r \<Rightarrow> ('r, 's) rp_config \<Rightarrow> 'r \<times> 'r error option \<Rightarrow> 'r PolicyResult" where
  "exceeded_result zero c o1 =
     (if rp_returnLastFailure c
      then \<lparr>Result = fst o1, Error = snd o1, Done = True, Success = False, SuccessAll = False\<rparr>
      else FailureResult zero (ExceededError (fst o1) (snd o1)))"

fun retry_spec :: "'r \<Rightarrow> ('r, 's) rp_config \<Rightarrow> (nat \<Rightarrow> 'r \<times> 'r error option) \<Rightarrow> nat \<Rightarrow> nat \<Rightarrow> 'r PolicyResult \<times> nat" where
  "retry_spec zero c out 0 k =
     (if IsFailure (rp_failurePolicy c) (fst (out k)) (snd (out k)) then exceeded_result zero c (out k) else fn_result (out k), Suc k)"
| "retry_spec zero c out (Suc m) k =
     (if IsFailure (rp_failurePolicy c) (fst (out k)) (snd (out k)) then retry_spec zero c out m (Suc k)
      else (fn_result (out k), Suc k))"

text \<open>An execution that is not canceled, in an environment that counts the calls of the function.\<close>

definition calls :: "('r, nat) world \<Rightarrow> nat" where
  "calls w = objs (w_env w)"

definition undisturbed :: "nat \<Rightarrow> ('r, nat) world \<Rightarrow> bool" where
  "undisturbed x w \<longleftrightarrow> x < w_next_exec w \<and> exec_err x w = None \<and> w_timers w = []"

definition quiet_runtime :: "('r, nat) runtime \<Rightarrow> bool" where
  "quiet_runtime rt \<longleftrightarrow>
     (\<forall>d ctx v. ctx_errs (rt_pause rt d ctx v) = ctx_errs v \<and> objs (rt_pause rt d ctx v) = objs v)
     \<and> (\<forall>v. ctx_errs (snd (rt_rand rt v)) = ctx_errs v \<and> objs (snd (rt_rand rt v)) = objs v)"

definition keeps_on :: "nat \<Rightarrow> ('r, nat) world \<Rightarrow> ('r, nat) world \<Rightarrow> bool" where
  "keeps_on x w w' \<longleftrightarrow> (undisturbed x w \<longrightarrow> undisturbed x w' \<and> calls w' = calls w)"

lemmas keep_defs = keeps_on_def undisturbed_def calls_def exec_err_def get_exec_def

lemma keeps_on_refl: "keeps_on x w w"
  and keeps_on_trans: "keeps_on x w w1 \<Longrightarrow> keeps_on x w1 w2 \<Longrightarrow> keeps_on x w w2"
  by (auto simp: keeps_on_def)

lemma keeps_set_last: "keeps_on x w (set_last x r w)"
  by (cases r) (auto simp: keep_defs set_last_def set_exec_def)

lemma keeps_CopyWithResult: "keeps_on x w (snd (CopyWithResult x r w))"
  by (cases r) (auto simp: keep_defs CopyWithResult_def exec_copy_def set_last_def set_exec_def Let_def split_beta)

lemma keeps_log: "keeps_on x w (w\<lparr>w_events := es\<rparr>)"
  by (auto simp: keep_defs)

lemma keeps_listener: "keeps_on x w (call_listener b name x r w)"
  by (simp add: call_listener_def log_event_def keeps_on_refl keeps_on_trans[OF keeps_CopyWithResult keeps_log])

lemma keeps_set_retry: "keeps_on x w (set_retry i st w)"
  by (auto simp: keep_defs set_retry_def)

lemma keeps_rand: "quiet_runtime rt \<Longrightarrow> keeps_on x w (snd (rand_Float64 rt w))"
  by (auto simp: keep_defs rand_Float64_def quiet_runtime_def split_beta)

lemma keeps_pause: "quiet_runtime rt \<Longrightarrow> keeps_on x w (pause rt d x w)"
  by (auto simp: keep_defs pause_def fire_timers_def set_env_def quiet_runtime_def)

lemma keeps_getDelay:
  assumes "quiet_runtime rt"
  shows "keeps_on x w (snd (getDelay rt c i x w))"
proof -
  have a: "keeps_on x w (snd (getFixedOrRandomDelay rt c i w))"
    by (simp add: getFixedOrRandomDelay_def Let_def split_beta keeps_rand[OF assms] keeps_set_retry keeps_on_refl)
  have b: "keeps_on x w' (snd (adjustForJitter rt c d w'))" for d w'
    by (simp add: adjustForJitter_def Let_def split_beta keeps_rand[OF assms] keeps_on_refl)
  show ?thesis
    by (simp add: getDelay_def Let_def split_beta a b keeps_on_refl keeps_on_trans[OF a b])
qed

lemma undisturbed_not_canceled: "undisturbed x w \<Longrightarrow> isCanceledWithResult z x w = None"
  by (simp add: undisturbed_def isCanceledWithResult_def)

lemma prepare_retry_undisturbed:
  assumes "quiet_runtime rt" "undisturbed x w" "rp_budget c = None"
  shows "fst (prepare_retry rt c i x r w) = Inr () \<and> undisturbed x (snd (prepare_retry rt c i x r w))
     \<and> calls (snd (prepare_retry rt c i x r w)) = calls w"
proof -
  define w1 where "w1 = set_last x (Some r) w"
  have w1: "undisturbed x w1" "calls w1 = calls w" using keeps_set_last[of x w "Some r"] assms(2) by (simp_all add: w1_def keeps_on_def)
  obtain d w2 where d: "getDelay rt c i x w1 = (d, w2)" by (cases "getDelay rt c i x w1")
  then have w2: "undisturbed x w2" "calls w2 = calls w"
    using keeps_getDelay[OF assms(1), of x w1 c i] w1 by (simp_all add: keeps_on_def)
  define w3 where "w3 = (if rp_onRetryScheduled c
      then let w' = snd (CopyWithResult x (Some r) w2) in
           w'\<lparr>w_events := w_events w' @ [ScheduledEvent (Result r) (Error r) d]\<rparr> else w2)"
  have "keeps_on x w2 w3"
    by (simp add: w3_def keeps_on_refl Let_def keeps_on_trans[OF keeps_CopyWithResult keeps_log])
  then have "keeps_on x w2 (pause rt d x w3)" using keeps_pause[OF assms(1)] keeps_on_trans by blast
  then have w4: "undisturbed x (pause rt d x w3)" "calls (pause rt d x w3) = calls w" using w2 by (simp_all add: keeps_on_def)
  obtain w5 where i: "InitializeRetry (rt_zero rt) x (pause rt d x w3) = (None, w5)" "undisturbed x w5" "calls w5 = calls w"
    using w4 undisturbed_not_canceled[OF w4(1), of "rt_zero rt"]
    by (auto simp: InitializeRetry_def Let_def undisturbed_def exec_err_def calls_def get_exec_def set_exec_def)
  have "prepare_retry rt c i x r w = (Inr (), call_listener (rp_onRetry c) ''onRetry'' x r w5)"
    using undisturbed_not_canceled[OF assms(2), of "rt_zero rt"] assms(3) d i(1)
    by (simp add: prepare_retry_def exec_RecordResult_def acquire_retry_def Let_def flip: w1_def w3_def)
  then show ?thesis using keeps_listener[of x w5] i by (simp add: keeps_on_def)
qed

text \<open>The bookkeeping after an attempt.\<close>

lemma retry_PostExecute_success:
  assumes "\<not> IsFailure (rp_failurePolicy c) (fst o1) (snd o1)" "undisturbed x w"
  shows "\<exists>w'. retry_PostExecute rt c i x (fn_result o1) w = Some (Inr (fn_result o1, w')) \<and> calls w' = calls w"
proof -
  have "keeps_on x w (base_OnSuccess (Some (rp_failurePolicy c)) x (fn_result o1) w)"
    by (simp add: base_OnSuccess_def keeps_listener)
  moreover have "WithDone (fn_result o1) True True = fn_result o1" by (simp add: WithDone_def fn_result_def)
  ultimately show ?thesis
    using assms by (simp add: retry_PostExecute_def base_PostExecute_def base_IsFailure_def fn_result_def keeps_on_def run_return_def Let_def)
qed

lemma retry_PostExecute_failure:
  assumes "IsFailure (rp_failurePolicy c) (fst o1) (snd o1)" "undisturbed x w"
    and c: "\<And>r e. \<not> IsAbortable (rp_abortPolicy c) r e" "rp_maxDuration c = 0" "rp_maxRetries c = int m" "int m < 2 ^ 63 - 1"
    and k: "failedAttempts (w_retry w i) = int k" "k \<le> m"
  shows "\<exists>r w'. retry_PostExecute rt c i x (fn_result o1) w = Some (Inr (r, w')) \<and> undisturbed x w' \<and> calls w' = calls w
     \<and> failedAttempts (w_retry w' i) = int (Suc k) \<and> (retriesExceeded (w_retry w' i) \<longleftrightarrow> k = m)
     \<and> (if k = m then r = exceeded_result (rt_zero rt) c o1 else \<not> Done r)"
proof -
  define r0 where "r0 = WithFailure (fn_result o1)"
  define w1 where "w1 = snd (base_OnFailure (Some (rp_failurePolicy c)) x r0 w)"
  have k1: "keeps_on x w w1" by (simp add: w1_def base_OnFailure_def keeps_listener)
  have rt1: "w_retry w1 i = w_retry w i"
    using frame_call_listener by (simp add: w1_def base_OnFailure_def same_run_def)
  have at: "i64 (failedAttempts (w_retry w1 i) + 1) = int (Suc k)"
    using k c(4) rt1 by (simp add: i64_range)
  have al: "allowsRetries c \<longleftrightarrow> 0 < m" using c(3) by (simp add: allowsRetries_def)
  define w2 where "w2 = set_retry i ((w_retry w1 i)\<lparr>failedAttempts := int (Suc k), retriesExceeded := (k = m)\<rparr>) w1"
  have k2: "keeps_on x w w2" unfolding w2_def by (rule keeps_on_trans[OF k1 keeps_set_retry])
  define w3 where "w3 = (if k = m then call_listener (rp_onRetriesExceeded c) ''onRetriesExceeded'' x r0 w2 else w2)"
  have "keeps_on x w w3" using keeps_on_trans[OF k2 keeps_listener] k2 by (simp add: w3_def)
  moreover have "w_retry w3 i = (w_retry w1 i)\<lparr>failedAttempts := int (Suc k), retriesExceeded := (k = m)\<rparr>"
    using frame_call_listener by (simp add: w3_def w2_def set_retry_def)
  moreover have "retry_PostExecute rt c i x (fn_result o1) w = Some (Inr
      (if k = m then exceeded_result (rt_zero rt) c o1 else WithDone r0 False False, w3))"
  proof -
    have r0: "Result r0 = fst o1" "Error r0 = snd o1" "WithDone r0 True False = \<lparr>Result = fst o1, Error = snd o1, Done = True, Success = False, SuccessAll = False\<rparr>"
      by (simp_all add: r0_def WithFailure_def fn_result_def WithDone_def)
    have nl: "call_listener False name x r w' = w'" for name r w' by (simp add: call_listener_def)
    have ex: "(rp_maxRetries c \<noteq> - 1 \<and> int (Suc k) > rp_maxRetries c) \<longleftrightarrow> k = m" using c(3) k(2) by auto
    have "retry_OnFailure rt c i x r0 w = (if k = m then exceeded_result (rt_zero rt) c o1 else WithDone r0 False False, w3)"
      unfolding retry_OnFailure_def w1_def[symmetric] Let_def at ex
      using c(1,2) al k(2) r0 by (auto simp: nl w3_def w2_def exceeded_result_def)
    then show ?thesis
      using assms(1) by (simp add: retry_PostExecute_def base_PostExecute_def base_IsFailure_def run_return_def r0_def fn_result_def)
  qed
  ultimately show ?thesis using assms(2) by (auto simp: keeps_on_def WithDone_def)
qed

lemma retry_loop_refines:
  assumes f: "\<And>w. undisturbed x w \<Longrightarrow> \<exists>w'. f x w = Some (Inr (fn_result (out (calls w)), w')) \<and> undisturbed x w'
      \<and> calls w' = Suc (calls w) \<and> w_retry w' i = w_retry w i"
    and rt: "quiet_runtime rt" "rp_budget c = None"
    and c: "\<And>r e. \<not> IsAbortable (rp_abortPolicy c) r e" "rp_maxDuration c = 0" "rp_maxRetries c = int m" "int m < 2 ^ 63 - 1"
    and w: "undisturbed x w" "failedAttempts (w_retry w i) = int k" "\<not> retriesExceeded (w_retry w i)"
      "k \<le> m" "m - k < fuel"
  shows "\<exists>w'. retry_loop fuel rt c i f isRetry x w = Some (Inr (fst (retry_spec (rt_zero rt) c out (m - k) (calls w)), w'))
     \<and> calls w' = snd (retry_spec (rt_zero rt) c out (m - k) (calls w))"
  using w
proof (induction fuel arbitrary: w k isRetry)
  case (Suc fuel)
  let ?o = "out (calls w)"
  obtain w1 where w1: "f x w = Some (Inr (fn_result ?o, w1))" "undisturbed x w1" "calls w1 = Suc (calls w)" "w_retry w1 i = w_retry w i"
    using f[OF Suc.prems(1)] by blast
  have nb: "(if isRetry then update_budget c budget_ReleasePermit w1 else w1) = w1" using rt(2) by (simp add: update_budget_def)
  note nc = undisturbed_not_canceled[OF w1(2)]
  show ?case
  proof (cases "IsFailure (rp_failurePolicy c) (fst ?o) (snd ?o)")
    case False
    then obtain w3 where "retry_PostExecute rt c i x (fn_result ?o) w1 = Some (Inr (fn_result ?o, w3))" "calls w3 = calls w1"
      using retry_PostExecute_success[OF _ w1(2)] by blast
    with False w1 nc Suc.prems(3) nb show ?thesis
      by (cases "m - k") (simp_all add: fn_result_def)
  next
    case True
    obtain r w3 where w3: "retry_PostExecute rt c i x (fn_result ?o) w1 = Some (Inr (r, w3))" "undisturbed x w3" "calls w3 = calls w1"
       "failedAttempts (w_retry w3 i) = int (Suc k)" "retriesExceeded (w_retry w3 i) \<longleftrightarrow> k = m"
       "if k = m then r = exceeded_result (rt_zero rt) c ?o else \<not> Done r"
      using retry_PostExecute_failure[OF True w1(2) c, of i k rt] w1(4) Suc.prems(2,4) by auto
    show ?thesis
    proof (cases "k = m")
      case eq: True
      with True w1 w3 nc nb Suc.prems(3) show ?thesis
        by (simp add: exceeded_result_def FailureResult_def split: if_splits)
    next
      case neq: False
      obtain w4 where w4: "prepare_retry rt c i x r w3 = (Inr (), w4)" "undisturbed x w4" "calls w4 = calls w3"
        using prepare_retry_undisturbed[OF rt(1) w3(2) rt(2), of i r] by (cases "prepare_retry rt c i x r w3") auto
      have s4: "same_failures i w3 w4" using prepare_retry_failures[of i w3 rt c i x r] w4(1) by simp
      have ih: "failedAttempts (w_retry w4 i) = int (Suc k)" "\<not> retriesExceeded (w_retry w4 i)" "Suc k \<le> m" "m - Suc k < fuel"
        using s4 w3(4,5) neq Suc.prems(4,5) by (auto simp: same_failures_def)
      obtain w' where "retry_loop fuel rt c i f True x w4 = Some (Inr (fst (retry_spec (rt_zero rt) c out (m - Suc k) (calls w4)), w'))"
          "calls w' = snd (retry_spec (rt_zero rt) c out (m - Suc k) (calls w4))"
        using Suc.IH[OF w4(2) ih] by blast
      moreover have "m - k = Suc (m - Suc k)" using ih(3) by simp
      ultimately show ?thesis
        using True w1 w3 w4 nc nb Suc.prems(3) neq by simp
    qed
  qed
qed simp

section \<open>Properties\<close>

lemma call_fn_undisturbed:
  assumes "\<And>v. fst (fn v) = out (objs v) \<and> objs (snd (fn v)) = Suc (objs v) \<and> ctx_errs (snd (fn v)) = ctx_errs v"
    and "undisturbed x w"
  shows "\<exists>w'. call_fn rt (\<lambda>_. fn) False x w = Some (Inr (fn_result (out (calls w)), w')) \<and> undisturbed x w'
      \<and> calls w' = Suc (calls w) \<and> w_retry w' i = w_retry w i"
proof -
  obtain r err v where fn: "fn (w_env w) = ((r, err), v)" by (metis prod.collapse)
  then have v: "(r, err) = out (objs (w_env w))" "objs v = Suc (objs (w_env w))" "ctx_errs v = ctx_errs (w_env w)"
    using assms(1)[of "w_env w"] by auto
  have "w_timers (w\<lparr>w_env := v\<rparr>) = []" using assms(2) by (simp add: undisturbed_def)
  then have "fire_timers rt (w\<lparr>w_env := v\<rparr>) = w\<lparr>w_env := v\<rparr>" by (simp add: fire_timers_def)
  then have "call_fn rt (\<lambda>_. fn) False x w = Some (Inr (fn_result (out (calls w)), exec_record (w\<lparr>w_env := v\<rparr>)))"
    using fn by (simp add: call_fn_def run_return_def fn_result_def calls_def v(1)[symmetric])
  then show ?thesis
    using v(2,3) assms(2) by (simp add: exec_record_def calls_def undisturbed_def exec_err_def get_exec_def)
qed

text \<open>
  C12. An executor with a retry policy of at most \<open>m\<close> retries (no budget, maximum duration or abort
  condition), on a function whose \<open>k\<close>-th call has the outcome \<open>out k\<close> and when nothing is canceled,
  returns what the specification says: the first outcome among the first \<open>m + 1\<close> that is not a
  failure, else the last outcome wrapped in an \<^verbatim>\<open>ExceededError\<close> (or as it is, if so configured), and
  calls the function exactly as often as the specification does, for every delay and jitter setting.
\<close>

theorem retry_refines_spec:
  assumes fn: "\<And>v. fst (fn v) = out (objs v) \<and> objs (snd (fn v)) = Suc (objs v) \<and> ctx_errs (snd (fn v)) = ctx_errs v"
    and rt: "quiet_runtime rt" "m < rt_fuel rt"
    and c: "rp_budget c = None" "abortConditions (rp_abortPolicy c) = []" "rp_maxDuration c = 0"
      "rp_maxRetries c = int m" "int m < 2 ^ 63 - 1"
    and v: "objs v = 0"
  defines "r \<equiv> fst (retry_spec (rt_zero rt) c out m 0)"
  shows "\<exists>w. executor_Get rt fn (executor_With [retry_Apply rt c]) v = Some (Inr ((Result r, Error r), w))
     \<and> calls w = snd (retry_spec (rt_zero rt) c out m 0)"
proof -
  define w0 where "w0 = newExecution (rt_zero rt) [] v"
  have w0: "undisturbed 0 w0" "failedAttempts (w_retry w0 0) = int 0" "\<not> retriesExceeded (w_retry w0 0)" "calls w0 = 0"
    using v by (simp_all add: w0_def newExecution_def undisturbed_def exec_err_def get_exec_def calls_def)
  have abort: "\<not> IsAbortable (rp_abortPolicy c) a b" for a b using c(2) by (simp add: IsAbortable_def)
  obtain w where w: "retry_loop (rt_fuel rt) rt c 0 (call_fn rt (\<lambda>_. fn) False) False 0 w0 = Some (Inr (r, w))"
      "calls w = snd (retry_spec (rt_zero rt) c out m 0)"
    using retry_loop_refines[where f = "call_fn rt (\<lambda>_. fn) False" and out = out and x = 0 and i = 0,
        OF call_fn_undisturbed[OF fn] rt(1) c(1) abort c(3-5) w0(1-3)] rt(2) w0(4)
    unfolding r_def by auto
  have ub: "update_budget c g w' = w'" for g w' using c(1) by (simp add: update_budget_def)
  show ?thesis
    using w by (simp add: executor_Get_def executeSync_def execute_def executor_With_def retry_Apply_def ub w0_def
        run_return_def Let_def)
qed

definition flaky :: "(int, nat) env \<Rightarrow> (int \<times> int error option) \<times> (int, nat) env" where
  "flaky v = (if objs v < 2 then (0, Some (Err ''io'')) else (7, None), v\<lparr>objs := Suc (objs v), clock := clock v + 5\<rparr>)"

theorem retry_refines_spec_witness:
  "\<exists>w. executor_Get still_runtime flaky
       (executor_With [retry_Apply still_runtime (rp_WithDelay 50 (WithMaxRetries 3 rp_NewBuilder))]) start_env
     = Some (Inr ((7, None), w)) \<and> calls w = 3"
proof -
  let ?c = "rp_WithDelay 50 (WithMaxRetries 3 rp_NewBuilder) :: (int, nat) rp_config"
  let ?out = "\<lambda>k. if k < 2 then (0, Some (Err ''io'')) else (7 :: int, None :: int error option)"
  have fn: "fst (flaky v) = ?out (objs v) \<and> objs (snd (flaky v)) = Suc (objs v) \<and> ctx_errs (snd (flaky v)) = ctx_errs v" for v
    by (simp add: flaky_def)
  have s: "retry_spec 0 ?c ?out 3 0 = (fn_result (7, None), 3)"
    by (simp add: numeral_3_eq_3 numeral_2_eq_2 IsFailure_def rp_WithDelay_def WithMaxRetries_def rp_NewBuilder_def new_BaseFailurePolicy_def)
  have "quiet_runtime still_runtime" "3 < rt_fuel still_runtime" "rt_zero still_runtime = 0" "objs start_env = 0"
    by (simp_all add: quiet_runtime_def still_runtime_def start_env_def)
  with retry_refines_spec[where fn = flaky and out = ?out and rt = still_runtime and c = ?c and m = 3 and v = start_env] fn s
  show ?thesis
    by (simp add: rp_WithDelay_def WithMaxRetries_def rp_NewBuilder_def fn_result_def WithDelay_def)
qed

text \<open>
  A retry policy with a limit of \<open>m\<close> retries, around any function that returns and leaves the
  policy's own state alone, returns (with fuel for \<open>m + 1\<close> rounds) after at most \<open>m + 1\<close> calls of it,
  whatever fails, is canceled, aborted or denied by a budget in between.
\<close>

theorem retry_attempts_bounded:
  assumes f: "\<And>x w. \<exists>r w'. f x w = Some (Inr (r, w')) \<and> w_retry w' i = w_retry w i \<and> adds n w w'"
    and "rp_maxRetries c = int m" "int m < 2 ^ 63 - 1" "m < rt_fuel rt" "failedAttempts (w_retry w i) = 0"
  shows "\<exists>r w'. retry_Apply rt c i f x w = Some (Inr (r, w')) \<and> adds ((m + 1) * n) w w'"
  using assms by (rule retry_Apply_ends)

theorem retry_attempts_bounded_witness:
  "\<exists>r w. retry_Apply still_runtime rp_NewBuilder 0 (call_fn still_runtime (\<lambda>_. flaky) False) 0 (newExecution 0 [] start_env)
      = Some (Inr (r, w)) \<and> adds 3 (newExecution 0 [] start_env) w"
proof -
  let ?f = "call_fn still_runtime (\<lambda>_. flaky) False"
  have f: "\<exists>r w'. ?f x w = Some (Inr (r, w')) \<and> w_retry w' 0 = w_retry w 0 \<and> adds 1 w w'" for x w
    using call_fn_returns[of "\<lambda>_. True" still_runtime "\<lambda>_. flaky" False]
      call_fn_keeps[of still_runtime "\<lambda>_. flaky" False] call_fn_bounded[of "\<lambda>_. True" still_runtime "\<lambda>_. flaky" False]
    unfolding returns_def keeps_retry_def bounded_def by metis
  show ?thesis
    using retry_attempts_bounded[where f = ?f and i = 0 and n = 1 and m = 2 and c = rp_NewBuilder and rt = still_runtime, OF f]
    by (simp add: rp_NewBuilder_def defaultMaxRetries_def still_runtime_def newExecution_def numeral_3_eq_3)
qed

text \<open>The random numbers of a runtime are those of \<^verbatim>\<open>rand.Float64\<close>.\<close>

definition unit_randoms :: "('r, 's) runtime \<Rightarrow> bool" where
  "unit_randoms rt \<longleftrightarrow> (\<forall>v. 0 \<le> fst (rt_rand rt v) \<and> fst (rt_rand rt v) < 1)"

text \<open>Jitter that moves a delay by at most as much as the delay, or by a duration, and the most that it makes of a delay.\<close>

definition jitter_ok :: "('r, 's) rp_config \<Rightarrow> bool" where
  "jitter_ok c \<longleftrightarrow> 0 \<le> rp_jitter c \<and> in_i64 (rp_jitter c) \<and> 0 \<le> rp_jitterFactor c \<and> rp_jitterFactor c \<le> 1"

definition jittered :: "('r, 's) rp_config \<Rightarrow> duration \<Rightarrow> real" where
  "jittered c d = (if rp_jitter c \<noteq> 0 then of_int d + of_int (rp_jitter c) else of_int d * (1 + rp_jitterFactor c))"

lemma float_to_int_bounds: "\<bar>x\<bar> \<le> of_int n \<Longrightarrow> \<bar>float_to_int x\<bar> \<le> n"
  by (auto simp: float_to_int_def abs_le_iff ceiling_le_iff le_ceiling_iff le_floor_iff floor_le_iff) linarith+

lemma rand_unit: "unit_randoms rt \<Longrightarrow> 0 \<le> fst (rand_Float64 rt w) \<and> fst (rand_Float64 rt w) < 1"
  by (simp add: rand_Float64_def unit_randoms_def split_beta)

lemma jitter_bound:
  assumes rt: "unit_randoms rt" and c: "jitter_ok c" and d: "0 \<le> delay" "delay \<le> m" "jittered c m < 2 ^ 63"
  shows "of_int (fst (adjustForJitter rt c delay w)) \<le> jittered c m"
proof -
  define u where "u = fst (rand_Float64 rt w)"
  have u: "\<bar>1 - u * 2\<bar> \<le> 1" using rand_unit[OF rt, of w] by (simp add: u_def abs_le_iff)
  consider "rp_jitter c \<noteq> 0" | "rp_jitter c = 0" "rp_jitterFactor c \<noteq> 0" | "rp_jitter c = 0" "rp_jitterFactor c = 0" by blast
  then show ?thesis
  proof cases
    case 1
    let ?j = "rp_jitter c"
    have j: "0 < ?j" "?j < 2 ^ 63" using 1 c by (auto simp: jitter_ok_def in_i64_def)
    have "\<bar>(1 - u * 2) * of_int ?j\<bar> \<le> of_int ?j" using u j(1) by (simp add: abs_mult mult_left_le_one_le)
    then have a: "\<bar>float_to_int ((1 - u * 2) * of_int ?j)\<bar> \<le> ?j" by (rule float_to_int_bounds)
    have "of_int (m + ?j) < (of_int (2 ^ 63) :: real)" using d(3) 1 by (simp add: jittered_def)
    then have "m + ?j < 2 ^ 63" by (simp only: of_int_less_iff)
    then have "i64 (delay + i64 (float_to_int ((1 - u * 2) * of_int ?j))) \<le> m + ?j"
      using a j d(1,2) by (simp add: i64_id in_i64_def abs_le_iff)
    then have "real_of_int (i64 (delay + i64 (float_to_int ((1 - u * 2) * of_int ?j)))) \<le> of_int (m + ?j)" by (simp only: of_int_le_iff)
    then show ?thesis using 1 by (simp add: adjustForJitter_def RandomDelay_def jittered_def split_beta Let_def u_def)
  next
    case 2
    let ?f = "1 + (1 - u * 2) * rp_jitterFactor c"
    have "\<bar>(1 - u * 2) * rp_jitterFactor c\<bar> \<le> rp_jitterFactor c" using u c by (simp add: jitter_ok_def abs_mult mult_left_le_one_le)
    then have f: "0 \<le> ?f" "?f \<le> 1 + rp_jitterFactor c" using c by (simp_all add: jitter_ok_def abs_le_iff)
    then have y: "0 \<le> of_int delay * ?f" "of_int delay * ?f \<le> jittered c m" using d(1,2) 2(1) by (auto simp: jittered_def intro!: mult_mono)
    then have "\<lfloor>of_int delay * ?f\<rfloor> < 2 ^ 63" using d(3) by (simp add: floor_less_iff)
    then have "RandomDelayFactor delay (rp_jitterFactor c) u = \<lfloor>of_int delay * ?f\<rfloor>"
      using y(1) by (simp add: RandomDelayFactor_def float_to_int_def i64_id in_i64_def Let_def)
    then have "of_int (RandomDelayFactor delay (rp_jitterFactor c) u) \<le> jittered c m" using y(2) by linarith
    then show ?thesis using 2 by (simp add: adjustForJitter_def split_beta u_def)
  next
    case 3
    then show ?thesis using d(2) by (simp add: adjustForJitter_def jittered_def)
  qed
qed

text \<open>The delay before jitter, of a backoff and of a random delay.\<close>

lemma backoff_bound:
  fixes rt :: "('r, 's) runtime" and c factor i w
  assumes "0 < delay" "delay \<le> m"
  defines "f \<equiv> getFixedOrRandomDelay rt (WithBackoffFactor delay m factor c) i w"
  shows "fst f \<le> m" "lastDelay (w_retry (snd f) i) = fst f" "w_env (snd f) = w_env w" "w_execs (snd f) = w_execs w"
    "0 \<le> factor \<Longrightarrow> of_int m * factor < 2 ^ 63 \<Longrightarrow> 0 \<le> lastDelay (w_retry w i) \<Longrightarrow> lastDelay (w_retry w i) \<le> m \<Longrightarrow> 0 \<le> fst f"
proof -
  show "fst f \<le> m" "lastDelay (w_retry (snd f) i) = fst f" "w_env (snd f) = w_env w" "w_execs (snd f) = w_execs w"
    using assms(1,2) by (simp_all add: f_def getFixedOrRandomDelay_def WithBackoffFactor_def WithDelay_def set_retry_def Let_def)
  assume f: "0 \<le> factor" "of_int m * factor < 2 ^ 63" "0 \<le> lastDelay (w_retry w i)" "lastDelay (w_retry w i) \<le> m"
  let ?l = "lastDelay (w_retry w i)"
  have y: "0 \<le> of_int ?l * factor" "of_int ?l * factor \<le> of_int m * factor" using f by (auto intro!: mult_right_mono)
  then have "\<lfloor>of_int ?l * factor\<rfloor> < 2 ^ 63" using f(2) by (simp add: floor_less_iff)
  then have "0 \<le> i64 (float_to_int (of_int ?l * factor))" using y(1) by (simp add: float_to_int_def i64_id in_i64_def)
  then show "0 \<le> fst f" using assms(1,2) by (simp add: f_def getFixedOrRandomDelay_def WithBackoffFactor_def WithDelay_def Let_def)
qed

lemma random_bound:
  assumes "unit_randoms rt" "0 < lo" "lo \<le> hi" "in_i64 hi"
  shows "0 \<le> fst (getFixedOrRandomDelay rt (WithRandomDelay lo hi c) i w) \<and> fst (getFixedOrRandomDelay rt (WithRandomDelay lo hi c) i w) \<le> hi"
proof -
  define u where "u = fst (rand_Float64 rt w)"
  have u: "0 \<le> u" "u \<le> 1" using rand_unit[OF assms(1), of w] by (simp_all add: u_def)
  let ?y = "u * (of_int hi - of_int lo) + of_int lo"
  have "u * (of_int hi - of_int lo) \<le> 1 * (of_int hi - of_int lo :: real)" using u(2) assms(3) by (intro mult_right_mono) simp_all
  moreover have "0 \<le> u * (of_int hi - of_int lo :: real)" using u(1) assms(3) by simp
  ultimately have y: "0 \<le> ?y" "?y \<le> of_int hi" using assms(2) by simp_all
  then have "0 \<le> \<lfloor>?y\<rfloor>" "\<lfloor>?y\<rfloor> \<le> hi" by linarith+
  then have "0 \<le> RandomDelayInRange lo hi u \<and> RandomDelayInRange lo hi u \<le> hi"
    using y(1) assms(4) by (simp add: RandomDelayInRange_def float_to_int_def i64_id in_i64_def Let_def)
  then show ?thesis using assms(2,3) by (simp add: getFixedOrRandomDelay_def WithRandomDelay_def split_beta u_def)
qed

lemma getDelay_parts:
  "getDelay rt c i x w =
     (let (f, w1) = (if ComputeDelay (rp_delayPolicy c) (Some (exec_info_of x w)) \<noteq> -1
                     then (ComputeDelay (rp_delayPolicy c) (Some (exec_info_of x w)), w) else getFixedOrRandomDelay rt c i w);
          (j, w2) = (if f \<noteq> 0 then adjustForJitter rt c f w1 else (f, w1))
      in (adjustForMaxDuration c j (ElapsedTime x w2), w2))"
  by (simp add: getDelay_def Let_def)

lemma adjustForMaxDuration_bounds:
  "0 \<le> adjustForMaxDuration c j e"
  "of_int j \<le> y \<Longrightarrow> 0 \<le> y \<Longrightarrow> real_of_int (adjustForMaxDuration c j e) \<le> y"
  "rp_maxDuration c \<noteq> 0 \<Longrightarrow> in_i64 (rp_maxDuration c - e) \<Longrightarrow> adjustForMaxDuration c j e \<le> max 0 (rp_maxDuration c - e)"
proof -
  show "0 \<le> adjustForMaxDuration c j e" by (simp add: adjustForMaxDuration_def)
  show "rp_maxDuration c \<noteq> 0 \<Longrightarrow> in_i64 (rp_maxDuration c - e) \<Longrightarrow> adjustForMaxDuration c j e \<le> max 0 (rp_maxDuration c - e)"
    by (auto simp: adjustForMaxDuration_def i64_id)
  assume y: "of_int j \<le> y" "0 \<le> y"
  have "adjustForMaxDuration c j e \<le> max 0 j" by (auto simp: adjustForMaxDuration_def)
  then have "real_of_int (adjustForMaxDuration c j e) \<le> real_of_int (max 0 j)" by (simp only: of_int_le_iff)
  then show "real_of_int (adjustForMaxDuration c j e) \<le> y" using y by (simp add: max_def split: if_splits)
qed

lemma jittered_delay:
  assumes "unit_randoms rt" "jitter_ok c" "jitter_ok c' \<longleftrightarrow> jitter_ok c" "jittered c' m = jittered c m" "jittered c m < 2 ^ 63" "DelayFunc (rp_delayPolicy c') = None"
    and "0 \<le> fst (getFixedOrRandomDelay rt c' i w)" "fst (getFixedOrRandomDelay rt c' i w) \<le> m"
  shows "of_int (fst (getDelay rt c' i x w)) \<le> jittered c m"
proof -
  let ?f = "fst (getFixedOrRandomDelay rt c' i w)" and ?w = "snd (getFixedOrRandomDelay rt c' i w)"
  define j where "j = (if ?f \<noteq> 0 then fst (adjustForJitter rt c' ?f ?w) else ?f)"
  have m: "0 \<le> jittered c m" using assms(2,7,8) by (simp add: jittered_def jitter_ok_def)
  then have "of_int j \<le> jittered c m" using jitter_bound[OF assms(1), of c' ?f m ?w] assms by (simp add: j_def)
  moreover have "\<exists>e. fst (getDelay rt c' i x w) = adjustForMaxDuration c' j e"
    using assms(6) by (auto simp: getDelay_parts ComputeDelay_def j_def split_beta Let_def)
  ultimately show ?thesis using adjustForMaxDuration_bounds(2) m by metis
qed

lemma adjustForJitter_retry: "w_retry (snd (adjustForJitter rt c d w)) = w_retry w"
  by (simp add: adjustForJitter_def rand_Float64_def split_beta Let_def)

lemma built_jitter [simp]:
  "jitter_ok (WithBackoffFactor delay m factor c) = jitter_ok c" "jittered (WithBackoffFactor delay m factor c) = jittered c"
  "jitter_ok (WithRandomDelay delay m c) = jitter_ok c" "jittered (WithRandomDelay delay m c) = jittered c"
  "DelayFunc (rp_delayPolicy (WithBackoffFactor delay m factor c)) = DelayFunc (rp_delayPolicy c)"
  "DelayFunc (rp_delayPolicy (WithRandomDelay delay m c)) = DelayFunc (rp_delayPolicy c)"
  by (simp_all add: jitter_ok_def jittered_def fun_eq_iff WithBackoffFactor_def WithRandomDelay_def WithDelay_def)

text \<open>
  C23. The delay before a retry is never negative, whatever the policy's delays, delay function and jitter, and never exceeds what is left of the maximum duration (zero if
  nothing is left). Without a delay function, a backoff from a delay up to a maximum stays below this maximum, and below what jitter makes of it if there is jitter, and the next
  backoff starts from a delay that is not above the maximum either; and a random delay stays below its maximum in the same way.
\<close>

theorem retry_delay_bounds:
  fixes rt :: "('r, 's) runtime" and c :: "('r, 's) rp_config" and factor i x w
  defines "d \<equiv> \<lambda>c. fst (getDelay rt c i x w)" and "w' \<equiv> \<lambda>c. snd (getDelay rt c i x w)"
  shows "0 \<le> d c
    \<and> (rp_maxDuration c \<noteq> 0 \<and> in_i64 (rp_maxDuration c - ElapsedTime x (w' c)) \<longrightarrow> d c \<le> max 0 (rp_maxDuration c - ElapsedTime x (w' c)))
    \<and> (DelayFunc (rp_delayPolicy c) = None \<and> 0 < delay \<and> delay \<le> m \<longrightarrow>
         (rp_jitter c = 0 \<and> rp_jitterFactor c = 0 \<longrightarrow> d (WithBackoffFactor delay m factor c) \<le> m)
       \<and> lastDelay (w_retry (w' (WithBackoffFactor delay m factor c)) i) \<le> m
       \<and> (unit_randoms rt \<and> jitter_ok c \<and> jittered c m < 2 ^ 63 \<longrightarrow>
            (0 \<le> factor \<and> of_int m * factor < 2 ^ 63 \<and> 0 \<le> lastDelay (w_retry w i) \<and> lastDelay (w_retry w i) \<le> m \<longrightarrow>
               of_int (d (WithBackoffFactor delay m factor c)) \<le> jittered c m \<and> 0 \<le> lastDelay (w_retry (w' (WithBackoffFactor delay m factor c)) i))
          \<and> (in_i64 m \<longrightarrow> of_int (d (WithRandomDelay delay m c)) \<le> jittered c m)))"
proof -
  have "0 \<le> d c" "rp_maxDuration c \<noteq> 0 \<and> in_i64 (rp_maxDuration c - ElapsedTime x (w' c)) \<longrightarrow> d c \<le> max 0 (rp_maxDuration c - ElapsedTime x (w' c))"
    using adjustForMaxDuration_bounds(1,3)[where c = c] by (auto simp: d_def w'_def getDelay_def Let_def split_beta)
  moreover {
    assume f: "DelayFunc (rp_delayPolicy c) = None" "0 < delay" "delay \<le> m"
    let ?b = "WithBackoffFactor delay m factor c" and ?r = "WithRandomDelay delay m c"
    note b = backoff_bound[OF f(2,3), where rt = rt and factor = factor and c = c and i = i and w = w]
    have j: "adjustForJitter rt ?b y u = (y, u)" if "rp_jitter c = 0" "rp_jitterFactor c = 0" for y u
      using that by (simp add: adjustForJitter_def WithBackoffFactor_def)
    have "\<exists>e. d ?b = adjustForMaxDuration ?b (fst (getFixedOrRandomDelay rt ?b i w)) e" if "rp_jitter c = 0" "rp_jitterFactor c = 0"
      using f(1) j[OF that] by (auto simp: d_def getDelay_parts ComputeDelay_def split_beta Let_def)
    moreover have "adjustForMaxDuration ?b y e \<le> m" if "y \<le> m" for y e using that f by (auto simp: adjustForMaxDuration_def)
    ultimately have "rp_jitter c = 0 \<and> rp_jitterFactor c = 0 \<longrightarrow> d ?b \<le> m" using b(1) by metis
    moreover have l: "lastDelay (w_retry (w' ?b) i) = fst (getFixedOrRandomDelay rt ?b i w)"
      using f(1) b(2) by (simp add: w'_def getDelay_parts ComputeDelay_def adjustForJitter_retry split_beta Let_def)
    moreover have "of_int (d ?b) \<le> jittered c m" if "unit_randoms rt" "jitter_ok c" "jittered c m < 2 ^ 63" "0 \<le> fst (getFixedOrRandomDelay rt ?b i w)"
      unfolding d_def by (rule jittered_delay[OF that(1,2) _ _ that(3) _ that(4) b(1)]) (use f(1) in simp_all)
    moreover have "of_int (d ?r) \<le> jittered c m" if "unit_randoms rt" "jitter_ok c" "jittered c m < 2 ^ 63" "in_i64 m"
      unfolding d_def by (rule jittered_delay[OF that(1,2) _ _ that(3)]) (use f(1) random_bound[OF that(1) f(2,3) that(4), of c i w] in simp_all)
    ultimately have "(rp_jitter c = 0 \<and> rp_jitterFactor c = 0 \<longrightarrow> d ?b \<le> m) \<and> lastDelay (w_retry (w' ?b) i) \<le> m
       \<and> (unit_randoms rt \<and> jitter_ok c \<and> jittered c m < 2 ^ 63 \<longrightarrow>
            (0 \<le> factor \<and> of_int m * factor < 2 ^ 63 \<and> 0 \<le> lastDelay (w_retry w i) \<and> lastDelay (w_retry w i) \<le> m \<longrightarrow>
               of_int (d ?b) \<le> jittered c m \<and> 0 \<le> lastDelay (w_retry (w' ?b) i))
          \<and> (in_i64 m \<longrightarrow> of_int (d ?r) \<le> jittered c m))"
      using b(1,5) by simp
  }
  ultimately show ?thesis by blast
qed

theorem retry_delay_bounds_witness:
  "let c = WithJitterFactor (1 / 2) (rp_NewBuilder :: (int, nat) rp_config)
   in 0 \<le> fst (getDelay still_runtime c 0 0 (newExecution 0 [] start_env))
    \<and> of_int (fst (getDelay still_runtime (WithBackoffFactor 50 120 2 c) 0 0 (newExecution 0 [] start_env))) \<le> (180 :: real)
    \<and> of_int (fst (getDelay still_runtime (WithRandomDelay 50 120 c) 0 0 (newExecution 0 [] start_env))) \<le> (180 :: real)"
proof -
  let ?c = "WithJitterFactor (1 / 2) (rp_NewBuilder :: (int, nat) rp_config)"
  have c: "unit_randoms still_runtime" "jitter_ok ?c" "jittered ?c 120 = 180" "DelayFunc (rp_delayPolicy ?c) = None"
      "lastDelay (w_retry (newExecution 0 [] start_env) 0) = 0"
    by (simp_all add: unit_randoms_def still_runtime_def jitter_ok_def jittered_def WithJitterFactor_def rp_NewBuilder_def in_i64_def newExecution_def)
  then show ?thesis
    using retry_delay_bounds[of still_runtime ?c 0 0 "newExecution 0 [] start_env" 50 120 2] by (simp add: in_i64_def Let_def)
qed

text \<open>
  \<^verbatim>\<open>WithMaxAttempts(0)\<close> configures unlimited attempts: it gives the same policy as \<^verbatim>\<open>WithMaxAttempts(-1)\<close>,
  which is documented to mean no limit, because one less than zero is the value for no limit.
\<close>

theorem max_attempts_zero_is_unlimited:
  "WithMaxAttempts 0 c = WithMaxAttempts (-1) c \<and> rp_maxRetries (WithMaxAttempts 0 c) = -1 \<and> allowsRetries (WithMaxAttempts 0 c)"
  by (simp add: WithMaxAttempts_def allowsRetries_def i64_def)

text \<open>
  A jitter factor configured after a jitter duration has no effect on any delay, since the duration
  keeps precedence.
\<close>

theorem jitter_factor_does_not_replace:
  "adjustForJitter rt (WithJitterFactor factor (WithJitter 100 c)) delay w = adjustForJitter rt (WithJitter 100 c) delay w"
  by (simp add: adjustForJitter_def WithJitterFactor_def WithJitter_def)

end
