(* ===== verification/Nested_Retries.thy ===== *)
theory Nested_Retries
  imports Retry_Policy
begin

text \<open>
  Several retry policies in one composition, src/retrypolicy/retryexecutor.go with src/executor.go. The failures that a retry policy has counted live as long as the execution:
  a retry of an outer policy calls an inner one again that goes on counting, and that is skipped once its retries are exceeded. So the retries of nested policies add up and do not multiply.
\<close>

section \<open>Counted failures\<close>

text \<open>
  The limits of the retry policies of a composition by their positions, the states they reach, and the retries that they have used.
\<close>

type_synonym limits = "nat \<Rightarrow> nat option"

definition sound_state :: "nat \<Rightarrow> retry_state \<Rightarrow> bool" where
  "sound_state m st \<longleftrightarrow> 0 \<le> failedAttempts st \<and> failedAttempts st \<le> int m + 1 \<and> (failedAttempts st = int m + 1 \<longrightarrow> retriesExceeded st)"

definition used_state :: "nat \<Rightarrow> retry_state \<Rightarrow> nat" where
  "used_state m st = min m (nat (failedAttempts st))"

definition sound_retries :: "limits \<Rightarrow> (nat \<Rightarrow> retry_state) \<Rightarrow> bool" where
  "sound_retries L st \<longleftrightarrow> (\<forall>i m. L i = Some m \<longrightarrow> sound_state m (st i))"

definition used_retries :: "limits \<Rightarrow> (nat \<Rightarrow> retry_state) \<Rightarrow> nat" where
  "used_retries L st = (\<Sum>i\<in>dom L. used_state (the (L i)) (st i))"

definition same_counts :: "retry_state \<Rightarrow> retry_state \<Rightarrow> bool" where
  "same_counts st st' \<longleftrightarrow> failedAttempts st' = failedAttempts st \<and> retriesExceeded st' = retriesExceeded st"

lemma same_counts_facts:
  "same_counts st st" "same_counts st st1 \<Longrightarrow> same_counts st1 st2 \<Longrightarrow> same_counts st st2"
  "same_counts st st' \<Longrightarrow> sound_state m st' = sound_state m st" "same_counts st st' \<Longrightarrow> used_state m st' = used_state m st"
  by (simp_all add: same_counts_def sound_state_def used_state_def)

text \<open>
  \<open>spends n L w w'\<close>: the executions counted from \<open>w\<close> to \<open>w'\<close> are at most \<open>n\<close> and one for each retry that was used. A function that calls the user's function
  once, but for the retries of the policies in it, is metered by their limits.
\<close>

definition spends :: "int \<Rightarrow> limits \<Rightarrow> ('r, 's) world \<Rightarrow> ('r, 's) world \<Rightarrow> bool" where
  "spends n L w w' \<longleftrightarrow> (\<exists>k u. w_executions w' = w_executions w + of_nat k \<and> used_retries L (w_retry w') = used_retries L (w_retry w) + u \<and> int k \<le> n + int u)"

definition counts :: "int \<Rightarrow> limits \<Rightarrow> ('r, 's) world \<Rightarrow> ('r, 's) world \<Rightarrow> bool" where
  "counts n L w w' \<longleftrightarrow> spends n L w w' \<and> sound_retries L (w_retry w') \<and> (\<forall>j. L j = None \<longrightarrow> same_counts (w_retry w j) (w_retry w' j))"

definition metered :: "limits \<Rightarrow> ('r, 's) inner_fn \<Rightarrow> bool" where
  "metered L f \<longleftrightarrow> (\<forall>x w r w'. sound_retries L (w_retry w) \<longrightarrow> f x w = Some (Inr (r, w')) \<longrightarrow> counts 1 L w w')"

lemma spends_trans:
  assumes "spends n L w w1" "spends m L w1 w2"
  shows "spends (n + m) L w w2"
proof -
  obtain k1 u1 where 1: "w_executions w1 = w_executions w + of_nat k1" "used_retries L (w_retry w1) = used_retries L (w_retry w) + u1" "int k1 \<le> n + int u1"
    using assms(1) by (auto simp: spends_def)
  obtain k2 u2 where 2: "w_executions w2 = w_executions w1 + of_nat k2" "used_retries L (w_retry w2) = used_retries L (w_retry w1) + u2" "int k2 \<le> m + int u2"
    using assms(2) by (auto simp: spends_def)
  from 1 2 show ?thesis unfolding spends_def by (intro exI[of _ "k1 + k2"] exI[of _ "u1 + u2"]) simp
qed

lemma spends_mono: "spends n L w w' \<Longrightarrow> n \<le> m \<Longrightarrow> spends m L w w'"
  unfolding spends_def by (meson add_right_mono order_trans)

lemma counts_trans: "counts n L w w1 \<Longrightarrow> counts m L w1 w2 \<Longrightarrow> counts (n + m) L w w2"
  using spends_trans same_counts_facts(2) by (auto simp: counts_def) blast+

lemma counts_mono: "counts n L w w' \<Longrightarrow> n \<le> m \<Longrightarrow> counts m L w w'"
  using spends_mono by (auto simp: counts_def)

lemma same_run_counts: "same_run w w' \<Longrightarrow> 0 \<le> n \<Longrightarrow> sound_retries L (w_retry w) \<Longrightarrow> counts n L w w'"
  unfolding counts_def spends_def same_run_def by (auto intro!: exI[of _ 0] simp: same_counts_facts(1))

text \<open>Adding the policy at a position of its own: what happens to its state and to the others.\<close>

lemma used_retries_add:
  assumes "finite (dom L)" "L i = None"
  shows "used_retries (L(i \<mapsto> m)) st = used_state m (st i) + used_retries L st"
proof -
  have "(\<Sum>j\<in>dom L. used_state (the ((L(i \<mapsto> m)) j)) (st j)) = (\<Sum>j\<in>dom L. used_state (the (L j)) (st j))"
    using assms(2) by (intro sum.cong) auto
  moreover have "dom (L(i \<mapsto> m)) = insert i (dom L)" "i \<notin> dom L" using assms(2) by auto
  ultimately show ?thesis unfolding used_retries_def using assms(1) by (simp add: sum.insert)
qed

lemma sound_retries_add: "L i = None \<Longrightarrow> sound_retries (L(i \<mapsto> m)) st \<longleftrightarrow> sound_state m (st i) \<and> sound_retries L st"
  by (auto simp: sound_retries_def)

lemma used_retries_same:
  assumes "\<And>j. L j \<noteq> None \<Longrightarrow> same_counts (st j) (st' j)"
  shows "used_retries L st' = used_retries L st" "sound_retries L st' \<longleftrightarrow> sound_retries L st"
proof -
  have "used_state m (st' j) = used_state m (st j)" "sound_state m (st' j) = sound_state m (st j)" if "L j \<noteq> None" for j m
    using assms[OF that] same_counts_facts(3,4) by blast+
  then show "used_retries L st' = used_retries L st" "sound_retries L st' \<longleftrightarrow> sound_retries L st"
    by (auto simp: used_retries_def sound_retries_def intro!: sum.cong)
qed

lemma counts_inner:
  assumes "counts n L w w'" "finite (dom L)" "L i = None" "sound_state m (w_retry w i)"
  shows "counts n (L(i \<mapsto> m)) w w'"
proof -
  have s: "same_counts (w_retry w i) (w_retry w' i)" using assms(1,3) by (simp add: counts_def)
  then have "spends n (L(i \<mapsto> m)) w w'"
    using assms(1) unfolding counts_def spends_def used_retries_add[OF assms(2,3)] same_counts_facts(4)[OF s] by (metis add.assoc)
  then show ?thesis using assms s same_counts_facts(3)[OF s] by (auto simp: counts_def sound_retries_add)
qed

text \<open>A step that counts no execution and touches only the state of the policy at the position.\<close>

definition own_step :: "nat \<Rightarrow> ('r, 's) world \<Rightarrow> ('r, 's) world \<Rightarrow> bool" where
  "own_step i w w' \<longleftrightarrow> w_executions w' = w_executions w \<and> (\<forall>j. j \<noteq> i \<longrightarrow> same_counts (w_retry w j) (w_retry w' j))"

lemma own_step_trans: "own_step i w w1 \<Longrightarrow> own_step i w1 w2 \<Longrightarrow> own_step i w w2"
  unfolding own_step_def using same_counts_facts(2) by metis

lemma own_step_same: "same_run w w' \<Longrightarrow> own_step i w w'"
  by (simp add: own_step_def same_run_def same_counts_facts)

lemma own_step_counts:
  assumes "own_step i w w'" "finite (dom L)" "L i = None" "sound_retries L (w_retry w)" "sound_state m (w_retry w' i)"
    and "used_state m (w_retry w' i) = used_state m (w_retry w i) + u"
  shows "counts (- int u) (L(i \<mapsto> m)) w w'"
proof -
  have "same_counts (w_retry w j) (w_retry w' j)" if "L j \<noteq> None" for j using assms(1,3) that by (cases "j = i") (simp_all add: own_step_def)
  note l = used_retries_same[OF this]
  have "used_retries (L(i \<mapsto> m)) (w_retry w') = used_retries (L(i \<mapsto> m)) (w_retry w) + u"
    using assms(6) l by (simp add: used_retries_add[OF assms(2,3)])
  then have "spends (- int u) (L(i \<mapsto> m)) w w'" using assms(1) unfolding spends_def own_step_def by (intro exI[of _ 0] exI[of _ u]) simp
  then show ?thesis using l assms by (auto simp: counts_def sound_retries_add own_step_def)
qed

section \<open>A retry policy in a composition\<close>

lemma own_set_retry: "own_step i w (set_retry i st w)"
  by (simp add: own_step_def set_retry_def same_counts_facts)

lemma prepare_retry_own:
  assumes "prepare_retry rt c i x r w = (q, w')"
  shows "own_step i w w'" "same_counts (w_retry w i) (w_retry w' i)"
  using prepare_retry_failures[of _ w rt c i x r] assms by (simp_all add: own_step_def same_failures_def same_counts_def)

text \<open>Deciding on a result leaves the state as it is, or counts another failure of a policy whose retries are not exceeded.\<close>

lemma retry_PostExecute_counts:
  assumes run: "retry_PostExecute rt c i x result w = Some (Inr (r, w'))" and m: "rp_maxRetries c = int m" "int m < 2 ^ 63 - 1"
    and st: "sound_state m (w_retry w i)" "\<not> retriesExceeded (w_retry w i)"
  shows "own_step i w w' \<and> sound_state m (w_retry w' i) \<and> used_state m (w_retry w i) \<le> used_state m (w_retry w' i)
    \<and> (\<not> Done r \<longrightarrow> used_state m (w_retry w' i) = used_state m (w_retry w i) + 1)"
proof (cases "base_IsFailure (Some (rp_failurePolicy c)) (Result result) (Error result)")
  case False
  have "same_run w (base_OnSuccess (Some (rp_failurePolicy c)) x (WithDone result True True) w)" by (simp add: base_OnSuccess_def frame)
  then have "same_run w w'" "Done r" using False run by (auto simp: retry_PostExecute_def base_PostExecute_def Let_def WithDone_def run_return_def)
  then show ?thesis using st own_step_same by (simp add: same_run_def)
next
  case True
  let ?n = "failedAttempts (w_retry w i)"
  have n: "0 \<le> ?n" "?n \<le> int m" using st by (auto simp: sound_state_def)
  then have i64: "i64 (?n + 1) = ?n + 1" using m(2) by (intro i64_id) (simp add: in_i64_def)
  define w1 where "w1 = snd (base_OnFailure (Some (rp_failurePolicy c)) x (WithFailure result) w)"
  have w1: "same_run w w1" by (simp add: w1_def base_OnFailure_def frame)
  have f: "retry_OnFailure rt c i x (WithFailure result) w = (r, w')"
    using True run by (simp add: retry_PostExecute_def base_PostExecute_def run_return_def)
  define st' where "st' = (w_retry w i)\<lparr>failedAttempts := ?n + 1, retriesExceeded := (?n + 1 > int m \<or> rp_maxDuration c \<noteq> 0 \<and> ElapsedTime x w1 > rp_maxDuration c)\<rparr>"
  have w': "w_executions w' = w_executions w" "w_retry w' = (w_retry w)(i := st')" "\<not> Done r \<Longrightarrow> \<not> retriesExceeded st'"
    using f w1 i64 m(1)
    by (auto simp: retry_OnFailure_def Let_def same_run_def set_retry_def FailureResult_def WithDone_def st'_def simp flip: w1_def split: if_splits)
  have "sound_state m st'" "used_state m (w_retry w i) \<le> used_state m st'" "\<not> Done r \<Longrightarrow> used_state m st' = used_state m (w_retry w i) + 1"
    using n w'(3) by (auto simp: sound_state_def used_state_def st'_def)
  then show ?thesis using w' by (simp add: own_step_def same_counts_facts)
qed

lemma retry_loop_metered:
  assumes f: "metered L f" and L: "finite (dom L)" "L i = None" and m: "rp_maxRetries c = int m" "int m < 2 ^ 63 - 1"
    and "sound_retries L' (w_retry w)" "retry_loop fuel rt c i f b x w = Some (Inr (r, w'))"
  and L': "L' = L(i \<mapsto> m)"
  shows "counts 1 L' w w'"
  using assms(6,7)
proof (induction fuel arbitrary: b w)
  case (Suc fuel)
  note add = sound_retries_add[of L i, OF L(2), of m, folded L']
  obtain r1 w1 where r1: "f x w = Some (Inr (r1, w1))" using Suc.prems(2) by (auto simp: run_bind_cases)
  have s: "sound_retries L (w_retry w)" "sound_state m (w_retry w i)" using Suc.prems(1) unfolding add by simp_all
  then have "counts 1 L w w1" using f r1 unfolding metered_def by blast
  then have c1: "counts 1 L' w w1" unfolding L' by (rule counts_inner[OF _ L s(2)])
  define w2 where "w2 = (if b then update_budget c budget_ReleasePermit w1 else w1)"
  have "same_run w1 w2" by (simp add: w2_def frame)
  then have c2: "counts 1 L' w w2" using counts_trans[OF c1 same_run_counts[of w1 w2 0]] c1 by (simp add: counts_def)
  then have s2: "sound_retries L (w_retry w2)" "sound_state m (w_retry w2 i)" unfolding counts_def add by simp_all
  show ?case
  proof (cases "isCanceledWithResult (rt_zero rt) x w2 = None \<and> \<not> retriesExceeded (w_retry w2 i)")
    case False
    then have "w' = w2" using Suc.prems(2) r1 unfolding w2_def[symmetric] retry_loop.simps
      by (auto simp: run_bind_cases run_return_def w2_def[symmetric] split: option.splits)
    then show ?thesis using c2 by simp
  next
    case True
    then obtain r3 w3 where r3: "retry_PostExecute rt c i x r1 w2 = Some (Inr (r3, w3))"
      and go: "(if Done r3 then run_return (r3, w3) else case prepare_retry rt c i x r3 w3 of (Inl q, w4) \<Rightarrow> run_return (q, w4)
        | (Inr _, w4) \<Rightarrow> retry_loop fuel rt c i f True x w4) = Some (Inr (r, w'))"
      using Suc.prems(2) r1 by (auto simp: run_bind_cases w2_def[symmetric])
    note p = retry_PostExecute_counts[OF r3 m s2(2) conjunct2[OF True]]
    obtain u where u: "used_state m (w_retry w3 i) = used_state m (w_retry w2 i) + u" "\<not> Done r3 \<Longrightarrow> u = 1"
      using p by (metis add_left_cancel le_iff_add)
    have c3: "counts (1 + - int u) L' w w3" using counts_trans[OF c2 own_step_counts[OF _ L s2(1) _ u(1), folded L']] p by blast
    show ?thesis
    proof (cases "Done r3")
      case True
      then show ?thesis using go counts_mono[OF c3, of 1] by (simp add: run_return_def)
    next
      case False
      obtain q w4 where q: "prepare_retry rt c i x r3 w3 = (q, w4)" by (cases "prepare_retry rt c i x r3 w3")
      note o = prepare_retry_own[OF q]
      have s3: "sound_retries L (w_retry w3)" "sound_state m (w_retry w3 i)" using c3 unfolding counts_def add by simp_all
      then have "counts (- int 0) L' w3 w4"
        using same_counts_facts(3,4)[OF o(2)] by (intro own_step_counts[where m = m, OF o(1) L, folded L']) simp_all
      then have c4: "counts 0 L' w w4" using counts_trans[OF c3] u(2)[OF False] by fastforce
      show ?thesis
      proof (cases q)
        case (Inl q')
        then show ?thesis using go q False counts_mono[OF c4, of 1] by (simp add: run_return_def)
      next
        case (Inr _)
        then have "retry_loop fuel rt c i f True x w4 = Some (Inr (r, w'))" using go q False by simp
        moreover have "sound_retries L' (w_retry w4)" using c4 by (simp add: counts_def)
        ultimately have "counts 1 L' w4 w'" using Suc.IH by blast
        then show ?thesis using counts_trans[OF c4] by fastforce
      qed
    qed
  qed
qed simp

lemma retry_metered:
  assumes "metered L f" "finite (dom L)" "L i = None" "rp_maxRetries c = int m" "int m < 2 ^ 63 - 1"
  shows "metered (L(i \<mapsto> m)) (retry_Apply rt c i f)"
  unfolding metered_def
proof (intro allI impI)
  fix x w r w' assume s: "sound_retries (L(i \<mapsto> m)) (w_retry w)" and run: "retry_Apply rt c i f x w = Some (Inr (r, w'))"
  define w0 where "w0 = update_budget c RecordExecution w"
  obtain w1 where w1: "retry_loop (rt_fuel rt) rt c i f False x w0 = Some (Inr (r, w1))" "w' = update_budget c ReleaseExecution w1"
    using run by (auto simp: retry_Apply_def run_bind_cases run_return_def w0_def)
  have w0: "same_run w w0" "same_run w1 w'" by (simp_all add: w0_def w1(2) frame)
  have c0: "counts 0 (L(i \<mapsto> m)) w w0" by (rule same_run_counts[OF w0(1) _ s]) simp
  then have "sound_retries (L(i \<mapsto> m)) (w_retry w0)" unfolding counts_def by blast
  then have "counts 1 (L(i \<mapsto> m)) w0 w1" by (rule retry_loop_metered[OF assms _ w1(1) refl])
  with counts_trans[OF c0] have c1: "counts 1 (L(i \<mapsto> m)) w w1" by fastforce
  then have "counts 0 (L(i \<mapsto> m)) w1 w'" unfolding counts_def[of 1] by (intro same_run_counts[OF w0(2)]) simp_all
  with counts_trans[OF c1] show "counts 1 (L(i \<mapsto> m)) w w'" by fastforce
qed

section \<open>The other functions of a composition\<close>

text \<open>A function that counts one execution, as the innermost one does.\<close>

definition counts_one :: "('r, 's) inner_fn \<Rightarrow> bool" where
  "counts_one f \<longleftrightarrow> (\<forall>x w r w'. f x w = Some (Inr (r, w')) \<longrightarrow> w_executions w' = w_executions w + 1 \<and> w_retry w' = w_retry w)"

lemma counts_one_metered:
  assumes "counts_one f"
  shows "metered L f"
  unfolding metered_def
proof (intro allI impI)
  fix x w r w' assume s: "sound_retries L (w_retry w)" "f x w = Some (Inr (r, w'))"
  then have "w_executions w' = w_executions w + 1" "w_retry w' = w_retry w" using assms unfolding counts_one_def by blast+
  moreover from this have "spends 1 L w w'" unfolding spends_def by - (rule exI[of _ 1], simp)
  ultimately show "counts 1 L w w'" using s(1) by (simp add: counts_def same_counts_facts)
qed

lemma call_fn_counts_one: "counts_one (call_fn rt fn withExec)"
  unfolding counts_one_def
proof (intro allI impI)
  fix x and w :: "('a, 'b) world" and r w' assume run: "call_fn rt fn withExec x w = Some (Inr (r, w'))"
  have "w_retry w' = w_retry w" using call_fn_keeps[of rt fn withExec] run unfolding keeps_retry_def by blast
  moreover have "w_executions w' = w_executions w + 1"
  proof -
    obtain info w1 where w1: "(if withExec
         then let (c, w1) = exec_copy x w in
              (Some \<lparr>info_execution = get_exec c w1, info_attempts = w_attempts w1, info_retries = w_retries w1,
                     info_hedges = w_hedges w1, info_executions = w_executions w1\<rparr>, w1)
         else (None, w)) = (info, w1)" "same_run w w1"
      using frame_exec_copy[of w x] by (cases "exec_copy x w"; cases withExec) (auto simp: frame)
    obtain q err v where fn: "fn info (w_env w1) = ((q, err), v)" by (metis prod.collapse)
    have "same_run w (fire_timers rt (w1\<lparr>w_env := v\<rparr>))"
      using w1(2) frame_fire_timers[of "w1\<lparr>w_env := v\<rparr>" rt] by (simp add: same_run_def)
    then show ?thesis using run w1(1) fn by (auto simp: call_fn_def exec_record_def same_run_def)
  qed
  ultimately show "w_executions w' = w_executions w + 1 \<and> w_retry w' = w_retry w" by simp
qed

lemma one_call_metered:
  assumes "one_call g" "metered L f"
  shows "metered L (g f)"
  unfolding metered_def
proof (intro allI impI)
  fix x w r w' assume s: "sound_retries L (w_retry w)" and run: "g f x w = Some (Inr (r, w'))"
  consider "same_run w w'" | y w1 r2 w2 where "same_run w w1" "f y w1 = Some (Inr (r2, w2))" "same_run w2 w'"
    using assms(1) run unfolding one_call_def by blast
  then show "counts 1 L w w'"
  proof cases
    case 1
    then show ?thesis using same_run_counts[OF _ _ s] by simp
  next
    case (2 y w1 r2 w2)
    then have "counts 1 L w1 w2" using assms(2) s unfolding metered_def same_run_def by metis
    then show ?thesis using 2(1,3) by (simp add: counts_def spends_def same_run_def)
  qed
qed

section \<open>Nested retry policies return\<close>

lemma retry_loop_returns:
  assumes f: "metered L f" "returns (sound_retries L) f" and L: "finite (dom L)" "L i = None" and m: "rp_maxRetries c = int m" "int m < 2 ^ 63 - 1"
    and "sound_retries L' (w_retry w)" "int m - failedAttempts (w_retry w i) < int fuel" "0 < fuel" and L': "L' = L(i \<mapsto> m)"
  shows "\<exists>r w'. retry_loop fuel rt c i f b x w = Some (Inr (r, w'))"
  using assms(7-9)
proof (induction fuel arbitrary: b w)
  case (Suc fuel)
  note add = sound_retries_add[of L i, OF L(2), of m, folded L']
  have s: "sound_retries L (w_retry w)" "sound_state m (w_retry w i)" using Suc.prems(1) unfolding add by simp_all
  then obtain r1 w1 where r1: "f x w = Some (Inr (r1, w1))" using f(2) unfolding returns_def by blast
  have "counts 1 L w w1" using f(1) r1 s(1) unfolding metered_def by blast
  then have c1: "counts 1 L' w w1" "same_counts (w_retry w i) (w_retry w1 i)" unfolding L' by (rule counts_inner[OF _ L s(2)]) (use \<open>counts 1 L w w1\<close> L(2) in \<open>simp add: counts_def\<close>)
  define w2 where "w2 = (if b then update_budget c budget_ReleasePermit w1 else w1)"
  have "same_run w1 w2" by (simp add: w2_def frame)
  then have c2: "counts 1 L' w w2" "failedAttempts (w_retry w2 i) = failedAttempts (w_retry w i)"
    using counts_trans[OF c1(1) same_run_counts[of w1 w2 0]] c1 by (simp_all add: counts_def same_run_def same_counts_def)
  then have s2: "sound_retries L (w_retry w2)" "sound_state m (w_retry w2 i)" unfolding counts_def add by simp_all
  show ?case
  proof (cases "isCanceledWithResult (rt_zero rt) x w2 = None \<and> \<not> retriesExceeded (w_retry w2 i)")
    case False
    then show ?thesis using r1 by (auto simp: run_return_def w2_def[symmetric] split: option.splits)
  next
    case True
    obtain r3 w3 where r3: "retry_PostExecute rt c i x r1 w2 = Some (Inr (r3, w3))" using retry_PostExecute_cases by blast
    note p = retry_PostExecute_counts[OF r3 m s2(2) conjunct2[OF True]]
    obtain u where u: "used_state m (w_retry w3 i) = used_state m (w_retry w2 i) + u" "\<not> Done r3 \<Longrightarrow> u = 1"
      using p by (metis add_left_cancel le_iff_add)
    have c3: "counts (1 + - int u) L' w w3" using counts_trans[OF c2(1) own_step_counts[OF _ L s2(1) _ u(1), folded L']] p by blast
    obtain q w4 where q: "prepare_retry rt c i x r3 w3 = (q, w4)" by (cases "prepare_retry rt c i x r3 w3")
    show ?thesis
    proof (cases "\<not> Done r3 \<and> q = Inr ()")
      case False
      then show ?thesis using r1 r3 q True by (cases q) (auto simp: run_return_def w2_def[symmetric])
    next
      case go: True
      note o = prepare_retry_own[OF q]
      have s3: "sound_retries L (w_retry w3)" "sound_state m (w_retry w3 i)" using c3 unfolding counts_def add by simp_all
      then have "counts (- int 0) L' w3 w4"
        using same_counts_facts(3,4)[OF o(2)] by (intro own_step_counts[where m = m, OF o(1) L, folded L']) simp_all
      then have s4: "sound_retries L' (w_retry w4)" by (simp add: counts_def)
      have "int m - failedAttempts (w_retry w2 i) \<ge> 1 \<and> failedAttempts (w_retry w4 i) \<ge> failedAttempts (w_retry w2 i) + 1"
        using u go s2(2) True o(2) s3(2) by (auto simp: used_state_def sound_state_def same_counts_def min_def split: if_splits)
      then have "int m - failedAttempts (w_retry w4 i) < int fuel" "0 < fuel" using Suc.prems(2) c2(2) by linarith+
      from Suc.IH[OF s4 this, of True] obtain r w' where "retry_loop fuel rt c i f True x w4 = Some (Inr (r, w'))" by blast
      then show ?thesis using r1 r3 q go True by (auto simp: w2_def[symmetric])
    qed
  qed
qed simp

lemma retry_returns:
  assumes "metered L f" "returns (sound_retries L) f" "finite (dom L)" "L i = None" "rp_maxRetries c = int m" "int m < 2 ^ 63 - 1" "m < rt_fuel rt"
  shows "returns (sound_retries (L(i \<mapsto> m))) (retry_Apply rt c i f)"
  unfolding returns_def
proof (intro allI impI)
  fix x and w :: "('a, 'b) world" assume s: "sound_retries (L(i \<mapsto> m)) (w_retry w)"
  define w0 where "w0 = update_budget c RecordExecution w"
  have w0: "w_retry w0 = w_retry w" using update_budget_frame[of w c RecordExecution] by (simp add: w0_def same_run_def)
  have "sound_state m (w_retry w i)" using s unfolding sound_retries_add[of L i, OF assms(4)] by simp
  then have "int m - failedAttempts (w_retry w0 i) < int (rt_fuel rt)" "0 < rt_fuel rt" using assms(7) w0 by (auto simp: sound_state_def)
  moreover have "sound_retries (L(i \<mapsto> m)) (w_retry w0)" using s w0 by simp
  ultimately obtain r w1 where "retry_loop (rt_fuel rt) rt c i f False x w0 = Some (Inr (r, w1))"
    using retry_loop_returns[OF assms(1-6) _ _ _ refl] by blast
  then show "\<exists>r w'. retry_Apply rt c i f x w = Some (Inr (r, w'))" by (simp add: retry_Apply_def run_return_def flip: w0_def)
qed

end
