(* ===== verification/Fallback.thy ===== *)
theory Fallback
  imports Executor
begin

text \<open>
  The fallback policy: src/fallback/fallback.go and fallbackexecutor.go. The fallback function is user
  code, like the executed function: it sees the execution with the failed result and the environment.
\<close>

section \<open>Configuration\<close>

type_synonym ('r, 's) fallback_fn = "'r execution \<Rightarrow> ('r, 's) env \<Rightarrow> ('r \<times> 'r error option) \<times> ('r, 's) env"

record ('r, 's) fb_config =
  fb_failurePolicy :: "'r BaseFailurePolicy"
  fb_fn :: "('r, 's) fallback_fn"
  fb_onFallbackExecuted :: bool

definition NewBuilderWithFunc :: "('r, 's) fallback_fn \<Rightarrow> ('r, 's) fb_config" where
  "NewBuilderWithFunc fallbackFunc =
     \<lparr>fb_failurePolicy = new_BaseFailurePolicy, fb_fn = fallbackFunc, fb_onFallbackExecuted = False\<rparr>"

definition NewBuilderWithResult :: "'r \<Rightarrow> ('r, 's) fb_config" where
  "NewBuilderWithResult result = NewBuilderWithFunc (\<lambda>_ v. ((result, None), v))"

definition NewBuilderWithError :: "'r \<Rightarrow> 'r error option \<Rightarrow> ('r, 's) fb_config" where
  "NewBuilderWithError zero err = NewBuilderWithFunc (\<lambda>_ v. ((zero, err), v))"

definition fb_HandleErrors :: "'r error option list \<Rightarrow> ('r, 's) fb_config \<Rightarrow> ('r, 's) fb_config" where
  "fb_HandleErrors errs c = c\<lparr>fb_failurePolicy := HandleErrors errs (fb_failurePolicy c)\<rparr>"

definition fb_HandleErrorTypes :: "('r error \<Rightarrow> bool) list \<Rightarrow> ('r, 's) fb_config \<Rightarrow> ('r, 's) fb_config" where
  "fb_HandleErrorTypes errs c = c\<lparr>fb_failurePolicy := HandleErrorTypes errs (fb_failurePolicy c)\<rparr>"

definition fb_HandleResult :: "'r \<Rightarrow> ('r, 's) fb_config \<Rightarrow> ('r, 's) fb_config" where
  "fb_HandleResult result c = c\<lparr>fb_failurePolicy := HandleResult result (fb_failurePolicy c)\<rparr>"

definition fb_HandleIf :: "'r condition \<Rightarrow> ('r, 's) fb_config \<Rightarrow> ('r, 's) fb_config" where
  "fb_HandleIf predicate c = c\<lparr>fb_failurePolicy := HandleIf predicate (fb_failurePolicy c)\<rparr>"

definition fb_OnSuccess :: "('r, 's) fb_config \<Rightarrow> ('r, 's) fb_config" where
  "fb_OnSuccess c = c\<lparr>fb_failurePolicy := OnSuccess (fb_failurePolicy c)\<rparr>"

definition fb_OnFailure :: "('r, 's) fb_config \<Rightarrow> ('r, 's) fb_config" where
  "fb_OnFailure c = c\<lparr>fb_failurePolicy := OnFailure (fb_failurePolicy c)\<rparr>"

definition OnFallbackExecuted :: "bool \<Rightarrow> ('r, 's) fb_config \<Rightarrow> ('r, 's) fb_config" where
  "OnFallbackExecuted listener c = c\<lparr>fb_onFallbackExecuted := listener\<rparr>"

section \<open>The executor\<close>

definition fb_PostExecute :: "('r, 's) fb_config \<Rightarrow> ('r, 's) post_hook" where
  "fb_PostExecute c =
     base_PostExecute (base_IsFailure (Some (fb_failurePolicy c)))
       (\<lambda>x er w. run_return (base_OnSuccess (Some (fb_failurePolicy c)) x er w))
       (\<lambda>x er w. run_return (base_OnFailure (Some (fb_failurePolicy c)) x er w))"

text \<open>The part of \<^verbatim>\<open>Apply\<close> that runs when the result is not a success.\<close>

definition run_fallback :: "('r, 's) runtime \<Rightarrow> ('r, 's) fb_config \<Rightarrow> ('r, 's) post_hook" where
  "run_fallback rt c x result w =
     (case isCanceledWithResult (rt_zero rt) x w of
        Some cancelResult \<Rightarrow> run_return (cancelResult, w)
      | None \<Rightarrow>
          let (copy, w1) = CopyWithResult x (Some result) w;
              ((fallbackResult, fallbackError), v) = fb_fn c (get_exec copy w1) (w_env w1);
              w2 = fire_timers rt (w1\<lparr>w_env := v\<rparr>)
          in case isCanceledWithResult (rt_zero rt) x w2 of
               Some cancelResult \<Rightarrow> run_return (cancelResult, w2)
             | None \<Rightarrow>
                 let success = (\<not> base_IsFailure (Some (fb_failurePolicy c)) fallbackResult fallbackError);
                     r = \<lparr>Result = fallbackResult, Error = fallbackError, Done = True, Success = success, SuccessAll = success\<rparr>;
                     w3 = (if fb_onFallbackExecuted c then log_event ''onFallbackExecuted'' r w2 else w2)
                 in run_return (r, w3))"

definition fallback_Apply :: "('r, 's) runtime \<Rightarrow> ('r, 's) fb_config \<Rightarrow> ('r, 's) policy" where
  "fallback_Apply rt c i innerFn x w =
     run_bind (innerFn x w) (\<lambda>(result, w1).
     run_bind (fb_PostExecute c x result w1) (\<lambda>(result, w2).
     if \<not> Success result then run_fallback rt c x result w2 else run_return (result, w2)))"

section \<open>Lemmas\<close>

lemma run_fallback_runs:
  "\<exists>r w'. run_fallback rt c x result w = Some (Inr (r, w')) \<and> same_run w w'"
proof (cases "isCanceledWithResult (rt_zero rt) x w")
  case None
  obtain copy w1 where copy: "CopyWithResult x (Some result) w = (copy, w1)" by (cases "CopyWithResult x (Some result) w")
  have w1: "same_run w w1" using frame_CopyWithResult[of w x "Some result"] copy by simp
  obtain fr fe v where fn: "fb_fn c (get_exec copy w1) (w_env w1) = ((fr, fe), v)" by (metis prod.collapse)
  define w2 where "w2 = fire_timers rt (w1\<lparr>w_env := v\<rparr>)"
  have "same_run (w1\<lparr>w_env := v\<rparr>) w2" unfolding w2_def by (rule frame_fire_timers)
  then have w2: "same_run w w2" using w1 by (simp add: same_run_def)
  then have "same_run w (log_event name r w2)" for name r by (rule same_run_trans[OF _ frame_log_event])
  with None copy fn w2 show ?thesis
    by (auto simp: run_fallback_def run_return_def Let_def simp flip: w2_def split: option.split)
qed (simp add: run_fallback_def run_return_def frame)

lemma fb_PostExecute_runs:
  "\<exists>r w'. fb_PostExecute c x result w = Some (Inr (r, w')) \<and> same_run w w'"
  by (auto simp: fb_PostExecute_def base_PostExecute_def base_OnSuccess_def base_OnFailure_def run_return_def Let_def frame)

lemma fallback_one_call: "one_call (fallback_Apply rt c i)"
  unfolding one_call_def
proof (intro allI impI)
  fix f x w r w' assume "fallback_Apply rt c i f x w = Some (Inr (r, w'))"
  then obtain r1 w1 r2 w2 where run: "f x w = Some (Inr (r1, w1))" "fb_PostExecute c x r1 w1 = Some (Inr (r2, w2))"
      "(if \<not> Success r2 then run_fallback rt c x r2 w2 else run_return (r2, w2)) = Some (Inr (r, w'))"
    by (auto simp: fallback_Apply_def run_bind_cases)
  have "same_run w1 w2" using fb_PostExecute_runs[of c x r1 w1] run(2) by auto
  moreover have "same_run w2 w'" using run(3) run_fallback_runs[of rt c x r2 w2] by (auto simp: frame split: if_splits)
  ultimately show "same_run w w' \<or> (\<exists>y w1 r2 w2. same_run w w1 \<and> f y w1 = Some (Inr (r2, w2)) \<and> same_run w2 w')"
    using run(1) same_run_trans same_run_refl by blast
qed

lemma fallback_returns: "returns_if_inner (fallback_Apply rt c i)"
  unfolding returns_if_inner_def
proof (intro allI impI)
  fix f :: "('a, 'b) inner_fn" and x w
  assume "\<forall>y w1. same_run w w1 \<longrightarrow> (\<exists>r w2. f y w1 = Some (Inr (r, w2)))"
  then obtain r1 w1 where f: "f x w = Some (Inr (r1, w1))" using same_run_refl by blast
  obtain r2 w2 where p: "fb_PostExecute c x r1 w1 = Some (Inr (r2, w2))" using fb_PostExecute_runs by blast
  show "\<exists>r w'. fallback_Apply rt c i f x w = Some (Inr (r, w'))"
    using f p run_fallback_runs[of rt c x r2 w2] by (auto simp: fallback_Apply_def run_return_def)
qed

interpretation fallback: total_policy "fallback_Apply rt c i" for rt c i
  by (rule one_call_total[OF fallback_one_call fallback_returns])

section \<open>Properties\<close>

text \<open>
  When the execution is not canceled, a fallback policy passes a result that it does not consider
  a failure on unchanged, apart from marking it done and successful, and replaces a failure by what its
  function returns, marked a success exactly if the policy does not consider that a failure too.
\<close>

theorem fallback_replaces_failures:
  assumes "f x w = Some (Inr (r, w1))" "isCanceledWithResult (rt_zero rt) x w1 = None" "x < w_next_exec w1"
    and "fb_fn c = (\<lambda>_ v. (out, v))" "w_timers w1 = []"
  shows "\<exists>w'. fallback_Apply rt c i f x w = Some (Inr (
     if IsFailure (fb_failurePolicy c) (Result r) (Error r)
     then let ok = (\<not> IsFailure (fb_failurePolicy c) (fst out) (snd out))
          in \<lparr>Result = fst out, Error = snd out, Done = True, Success = ok, SuccessAll = ok\<rparr>
     else r\<lparr>Done := True, Success := True\<rparr>, w'))"
proof (cases "IsFailure (fb_failurePolicy c) (Result r) (Error r)")
  case False
  then show ?thesis
    using assms(1) by (simp add: fallback_Apply_def fb_PostExecute_def base_PostExecute_def base_IsFailure_def Let_def
        WithDone_def run_return_def)
next
  case True
  define w2 where "w2 = call_listener (onFailure (fb_failurePolicy c)) ''onFailure'' x (WithFailure r) w1"
  have p: "fb_PostExecute c x r w1 = Some (Inr (WithFailure r, w2))"
    using True by (simp add: fb_PostExecute_def base_PostExecute_def base_IsFailure_def base_OnFailure_def run_return_def w2_def)
  have keep: "exec_err x w' = exec_err x w1 \<and> w_canceledResult w' = w_canceledResult w1 \<and> w_timers w' = [] \<and> x < w_next_exec w'"
    if "w' = snd (CopyWithResult x (Some q) w0)" "exec_err x w0 = exec_err x w1" "w_canceledResult w0 = w_canceledResult w1"
      "w_timers w0 = []" "x < w_next_exec w0" for q w0 w'
    using that by (auto simp: CopyWithResult_def exec_copy_def set_last_def set_exec_def exec_err_def get_exec_def Let_def split_beta)
  have w2: "exec_err x w2 = exec_err x w1" "w_canceledResult w2 = w_canceledResult w1" "w_timers w2 = []" "x < w_next_exec w2"
    using keep[of _ "WithFailure r" w1] assms(3,5)
    by (auto simp: w2_def call_listener_def log_event_def exec_err_def get_exec_def)
  obtain copy w3 where copy: "CopyWithResult x (Some (WithFailure r)) w2 = (copy, w3)"
    by (cases "CopyWithResult x (Some (WithFailure r)) w2")
  have w3: "exec_err x w3 = exec_err x w1" "w_canceledResult w3 = w_canceledResult w1" "w_timers w3 = []"
    using keep[of w3 "WithFailure r" w2] w2 copy by auto
  have nc: "isCanceledWithResult (rt_zero rt) x w2 = None" "isCanceledWithResult (rt_zero rt) x w3 = None"
    using assms(2) w2 w3 by (auto simp: isCanceledWithResult_def split: option.splits)
  have ft: "fire_timers rt w3 = w3" using w3 by (simp add: fire_timers_def)
  show ?thesis
    using True p assms(1,4) copy nc ft
    by (cases out) (auto simp: fallback_Apply_def WithFailure_def run_fallback_def base_IsFailure_def Let_def run_return_def)
qed

theorem fallback_replaces_failures_witness:
  "\<exists>w'. fallback_Apply still_runtime (NewBuilderWithResult 5) 0
      (\<lambda>x w. run_return (\<lparr>Result = 0, Error = Some (Err ''io''), Done = True, Success = True, SuccessAll = True\<rparr>, w)) 0
      (newExecution 0 [] start_env)
    = Some (Inr (\<lparr>Result = 5, Error = None, Done = True, Success = True, SuccessAll = True\<rparr>, w'))"
proof -
  let ?r = "\<lparr>Result = 0 :: int, Error = Some (Err ''io''), Done = True, Success = True, SuccessAll = True\<rparr>"
  let ?w = "newExecution 0 [] start_env" and ?c = "NewBuilderWithResult 5 :: (int, nat) fb_config"
  have "isCanceledWithResult (rt_zero still_runtime) 0 ?w = None" "0 < w_next_exec ?w" "w_timers ?w = []"
    by (simp_all add: isCanceledWithResult_def newExecution_def exec_err_def get_exec_def)
  moreover have "fb_fn ?c = (\<lambda>_ v. ((5, None), v))" "fb_failurePolicy ?c = new_BaseFailurePolicy"
    by (simp_all add: NewBuilderWithResult_def NewBuilderWithFunc_def)
  ultimately show ?thesis
    using fallback_replaces_failures[of "\<lambda>x w. run_return (?r, w)" 0 ?w ?r ?w still_runtime ?c "(5, None)" 0]
    by (simp add: IsFailure_def new_BaseFailurePolicy_def Let_def)
qed

end
