(* ===== verification/Timeout.thy ===== *)
theory Timeout
  imports Executor
begin

text \<open>
  The timeout policy: src/timeout/timeout.go and timeoutexecutor.go. Its timer is an entry of
  \<open>w_timers\<close>, whose function is \<open>fire_timer\<close>; the compare-and-swap of the result cell that the timer
  and the return of the inner function race for is won by the timer exactly when it has fired by then.
\<close>

section \<open>The policy\<close>

record to_config =
  to_timeLimit :: duration
  to_onTimeoutExceeded :: bool

definition timeout_NewBuilder :: "duration \<Rightarrow> to_config" where
  "timeout_NewBuilder timeLimit = \<lparr>to_timeLimit = timeLimit, to_onTimeoutExceeded = False\<rparr>"

definition OnTimeoutExceeded :: "bool \<Rightarrow> to_config \<Rightarrow> to_config" where
  "OnTimeoutExceeded listener c = c\<lparr>to_onTimeoutExceeded := listener\<rparr>"

definition timeout_IsFailure :: "'r \<Rightarrow> 'r error option \<Rightarrow> bool" where
  "timeout_IsFailure result err \<longleftrightarrow> err \<noteq> None \<and> errors_Is err (Some timeout_ErrExceeded)"

definition timeout_PostExecute :: "('r, 's) post_hook" where
  "timeout_PostExecute =
     base_PostExecute timeout_IsFailure
       (\<lambda>x er w. run_return (base_OnSuccess None x er w)) (\<lambda>x er w. run_return (base_OnFailure None x er w))"

definition arm_timer :: "to_config \<Rightarrow> nat \<Rightarrow> ('r, 's) world \<Rightarrow> ('r, 's) world" where
  "arm_timer c x w =
     w\<lparr>w_timers := w_timers w @ [\<lparr>tm_deadline = clock (w_env w) + to_timeLimit c, tm_exec = x,
         tm_listener = to_onTimeoutExceeded c, tm_armed = True, tm_fired = False\<rparr>]\<rparr>"

definition stop_timer :: "nat \<Rightarrow> ('r, 's) world \<Rightarrow> ('r, 's) world" where
  "stop_timer t w = w\<lparr>w_timers := (w_timers w)[t := (w_timers w ! t)\<lparr>tm_armed := False\<rparr>]\<rparr>"

definition timeout_Apply :: "('r, 's) runtime \<Rightarrow> to_config \<Rightarrow> ('r, 's) policy" where
  "timeout_Apply rt c i innerFn x w =
     (let (child, w1) = CopyForCancellable x w;
          t = length (w_timers w1)
      in run_bind (innerFn child (arm_timer c child w1)) (\<lambda>(r, w2).
         let (result, w3) =
           (if tm_fired (w_timers w2 ! t) then (FailureResult (rt_zero rt) timeout_ErrExceeded, w2)
            else (r, exec_Cancel (rt_zero rt) child None (stop_timer t w2)))
         in timeout_PostExecute child result w3))"

section \<open>Lemmas\<close>

lemma timeout_PostExecute_runs:
  "\<exists>r'. timeout_PostExecute x r w = Some (Inr (r', w)) \<and> Result r' = Result r \<and> Error r' = Error r"
  by (simp add: timeout_PostExecute_def base_PostExecute_def base_OnSuccess_def base_OnFailure_def call_listener_def
      run_return_def Let_def WithDone_def WithFailure_def)

lemma frame_timers [frame]: "same_run w (arm_timer c x w)" "same_run w (stop_timer t w)"
  by (simp_all add: arm_timer_def stop_timer_def same_run_def)

lemma timeout_one_call: "one_call (timeout_Apply rt c i)"
  unfolding one_call_def
proof (intro allI impI)
  fix f x w r w' assume run: "timeout_Apply rt c i f x w = Some (Inr (r, w'))"
  obtain child w1 where copy: "CopyForCancellable x w = (child, w1)" by (cases "CopyForCancellable x w")
  let ?t = "length (w_timers w1)"
  have s1: "same_run w (arm_timer c child w1)"
    using same_run_trans[OF _ frame_timers(1)] frame_CopyForCancellable[of w x] copy by fastforce
  obtain r2 w2 where f: "f child (arm_timer c child w1) = Some (Inr (r2, w2))"
    using run copy by (auto simp: timeout_Apply_def Let_def run_bind_cases)
  define w3 where "w3 = (if tm_fired (w_timers w2 ! ?t) then w2 else exec_Cancel (rt_zero rt) child None (stop_timer ?t w2))"
  have s3: "same_run w2 w3"
    by (simp add: w3_def frame same_run_trans[OF frame_timers(2) frame_exec_Cancel])
  define q where "q = (if tm_fired (w_timers w2 ! ?t) then FailureResult (rt_zero rt) timeout_ErrExceeded else r2)"
  have "timeout_PostExecute child q w3 = Some (Inr (r, w'))"
    using run copy f by (simp add: timeout_Apply_def Let_def w3_def q_def split: if_splits)
  then have "w' = w3" using timeout_PostExecute_runs[of child q w3] by auto
  with s1 s3 f show "same_run w w' \<or> (\<exists>y w1 r2 w2. same_run w w1 \<and> f y w1 = Some (Inr (r2, w2)) \<and> same_run w2 w')"
    by blast
qed

lemma timeout_returns: "returns_if_inner (timeout_Apply rt c i)"
  unfolding returns_if_inner_def
proof (intro allI impI)
  fix f :: "('a, 'b) inner_fn" and x w
  assume f: "\<forall>y w1. same_run w w1 \<longrightarrow> (\<exists>r w2. f y w1 = Some (Inr (r, w2)))"
  obtain child w1 where copy: "CopyForCancellable x w = (child, w1)" by (cases "CopyForCancellable x w")
  have "same_run w (arm_timer c child w1)"
    using same_run_trans[OF _ frame_timers(1)] frame_CopyForCancellable[of w x] copy by fastforce
  then obtain r2 w2 where "f child (arm_timer c child w1) = Some (Inr (r2, w2))" using f by blast
  then show "\<exists>r w'. timeout_Apply rt c i f x w = Some (Inr (r, w'))"
    using copy timeout_PostExecute_runs[of child "FailureResult (rt_zero rt) timeout_ErrExceeded" w2]
      timeout_PostExecute_runs[of child r2 "exec_Cancel (rt_zero rt) child None (stop_timer (length (w_timers w1)) w2)"]
    by (auto simp: timeout_Apply_def Let_def)
qed

interpretation timeout: total_policy "timeout_Apply rt c i" for rt c i
  by (rule one_call_total[OF timeout_one_call timeout_returns])

section \<open>Properties\<close>

text \<open>A function that takes the time \<open>d\<close> and returns \<open>out\<close>.\<close>

definition takes :: "duration \<Rightarrow> 'r \<times> 'r error option \<Rightarrow> ('r, 's) env \<Rightarrow> ('r \<times> 'r error option) \<times> ('r, 's) env" where
  "takes d out v = (out, v\<lparr>clock := clock v + d\<rparr>)"

text \<open>
  With timers that run as soon as they are due, an executor with a timeout returns what the function
  returns if that takes less than the limit, and otherwise the zero result with the timeout's
  \<^verbatim>\<open>ErrExceeded\<close>, having called the listener once if there is one.
\<close>

theorem timeout_limits_duration:
  assumes "\<And>t v. rt_fires rt t v \<longleftrightarrow> t \<le> clock v"
  shows "\<exists>w. executor_Get rt (takes d out) (executor_With [timeout_Apply rt c]) v =
      Some (Inr (if d < to_timeLimit c then out else (rt_zero rt, Some timeout_ErrExceeded), w))
    \<and> length (w_events w) = (if to_timeLimit c \<le> d \<and> to_onTimeoutExceeded c then 1 else 0)"
proof -
  define w0 where "w0 = newExecution (rt_zero rt) [] v"
  obtain child w1 where copy: "CopyForCancellable 0 w0 = (child, w1)" by (cases "CopyForCancellable 0 w0")
  have w1: "w_timers w1 = []" "w_events w1 = []" "clock (w_env w1) = clock v"
    using copy by (auto simp: CopyForCancellable_def exec_copy_def with_cancel_def ctx_WithCancel_def set_exec_def set_env_def
        w0_def newExecution_def Let_def)
  define w2 where "w2 = arm_timer c child w1\<lparr>w_env := (w_env w1)\<lparr>clock := clock v + d\<rparr>\<rparr>"
  define w3 where "w3 = exec_record (fire_timers rt w2)"
  have run: "call_fn rt (\<lambda>_. takes d out) False child (arm_timer c child w1) =
      Some (Inr (\<lparr>Result = fst out, Error = snd out, Done = True, Success = True, SuccessAll = True\<rparr>, w3))"
    using w1(3) by (simp add: call_fn_def takes_def run_return_def w2_def w3_def arm_timer_def split_beta)
  have ev: "w_events (exec_Cancel z x q w') = w_events w'" "w_timers (exec_Cancel z x q w') = w_timers w'" for z x q and w' :: "('a, 'b) world"
    by (auto simp: exec_Cancel_def Let_def set_env_def set_last_def set_exec_def split: option.split)
  have fired: "tm_fired (w_timers w3 ! 0) \<longleftrightarrow> to_timeLimit c \<le> d"
      "length (w_events w3) = (if to_timeLimit c \<le> d \<and> to_onTimeoutExceeded c then 1 else 0)"
    using w1 assms by (auto simp: w3_def exec_record_def fire_timers_def w2_def arm_timer_def fire_timer_def Let_def ev log_event_def)
  define w4 where "w4 = (if to_timeLimit c \<le> d then w3 else exec_Cancel (rt_zero rt) child None (stop_timer 0 w3))"
  define r where "r = (if to_timeLimit c \<le> d then FailureResult (rt_zero rt) timeout_ErrExceeded
      else \<lparr>Result = fst out, Error = snd out, Done = True, Success = True, SuccessAll = True\<rparr>)"
  obtain r' where post: "timeout_PostExecute child r w4 = Some (Inr (r', w4))" "Result r' = Result r" "Error r' = Error r"
    using timeout_PostExecute_runs by blast
  have "timeout_Apply rt c 0 (call_fn rt (\<lambda>_. takes d out) False) 0 w0 = Some (Inr (r', w4))"
    using copy run w1(1) fired(1) post(1) by (simp add: timeout_Apply_def Let_def r_def w4_def split: if_splits)
  moreover have "length (w_events w4) = length (w_events w3)" by (simp add: w4_def ev stop_timer_def)
  ultimately show ?thesis
    using post(2,3) fired(2) by (auto simp: executor_Get_def executeSync_def execute_def executor_With_def Let_def run_return_def
        r_def FailureResult_def simp flip: w0_def split: if_splits)
qed

theorem timeout_limits_duration_witness:
  "\<exists>w. executor_Get still_runtime (takes 80 (3, None)) (executor_With [timeout_Apply still_runtime (timeout_NewBuilder 50)]) start_env
      = Some (Inr ((0, Some timeout_ErrExceeded), w))"
  using timeout_limits_duration[of still_runtime 80 "(3, None)" "timeout_NewBuilder 50" start_env]
  by (auto simp: still_runtime_def timeout_NewBuilder_def)

end
