(* ===== verification/Bulkhead.thy ===== *)
theory Bulkhead
  imports Executor
begin

text \<open>
  The bulkhead: src/bulkhead/bulkhead.go and bulkheadexecutor.go. Its semaphore is a buffered channel,
  of which only the number of elements matters. A \<^verbatim>\<open>select\<close> is \<open>None\<close> when no case is ready;
  \<open>pick_ctx\<close> is its choice when both are.
\<close>

section \<open>The bulkhead\<close>

record bh_config =
  bh_maxConcurrency :: uint
  bh_maxWaitTime :: duration
  bh_onFull :: bool

record bulkhead =
  bh_config :: bh_config
  bh_semaphore :: nat

definition ErrFull :: "'r error" where
  "ErrFull = Err ''bulkhead full''"

definition bh_NewBuilder :: "uint \<Rightarrow> bh_config" where
  "bh_NewBuilder maxConcurrency = \<lparr>bh_maxConcurrency = maxConcurrency, bh_maxWaitTime = 0, bh_onFull = False\<rparr>"

definition bh_WithMaxWaitTime :: "duration \<Rightarrow> bh_config \<Rightarrow> bh_config" where
  "bh_WithMaxWaitTime maxWaitTime c = c\<lparr>bh_maxWaitTime := maxWaitTime\<rparr>"

definition OnFull :: "bool \<Rightarrow> bh_config \<Rightarrow> bh_config" where
  "OnFull listener c = c\<lparr>bh_onFull := listener\<rparr>"

definition bh_Build :: "bh_config \<Rightarrow> bulkhead" where
  "bh_Build c = \<lparr>bh_config = c, bh_semaphore = 0\<rparr>"

definition chan_free :: "bulkhead \<Rightarrow> bool" where
  "chan_free b \<longleftrightarrow> bh_semaphore b < unat (bh_maxConcurrency (bh_config b))"

definition chan_send :: "bulkhead \<Rightarrow> bulkhead" where
  "chan_send b = b\<lparr>bh_semaphore := bh_semaphore b + 1\<rparr>"

definition select_permit :: "'r error option \<Rightarrow> bool \<Rightarrow> bulkhead \<Rightarrow> ('r error option \<times> bulkhead) option" where
  "select_permit ctxErr pick_ctx b =
     (case ctxErr of
        Some err \<Rightarrow> if chan_free b \<and> \<not> pick_ctx then Some (None, chan_send b) else Some (Some err, b)
      | None \<Rightarrow> if chan_free b then Some (None, chan_send b) else None)"

text \<open>\<^verbatim>\<open>AcquirePermit\<close> blocks while the select is not ready.\<close>

definition bh_AcquirePermit :: "'r error option \<Rightarrow> bool \<Rightarrow> bulkhead \<Rightarrow> ('r error option \<times> bulkhead) option" where
  "bh_AcquirePermit ctxErr pick_ctx b = select_permit ctxErr pick_ctx b"

definition bh_TryAcquirePermit :: "bulkhead \<Rightarrow> bool \<times> bulkhead" where
  "bh_TryAcquirePermit b = (if chan_free b then (True, chan_send b) else (False, b))"

text \<open>\<^verbatim>\<open>ReleasePermit\<close> blocks on an empty channel.\<close>

definition bh_ReleasePermit :: "bulkhead \<Rightarrow> bulkhead option" where
  "bh_ReleasePermit b = (if bh_semaphore b = 0 then None else Some (b\<lparr>bh_semaphore := bh_semaphore b - 1\<rparr>))"

text \<open>
  The two attempts of \<^verbatim>\<open>AcquirePermitWithMaxWait\<close>: the first does not block, and is \<open>None\<close> when the call goes on to wait; the second, at the end of the wait,
  takes a permit or the end of the context, or the timer, if \<open>pick_timer\<close> says so or nothing else is ready.
\<close>

definition first_attempt :: "'r error option \<Rightarrow> bool \<Rightarrow> duration \<Rightarrow> bulkhead \<Rightarrow> ('r error option \<times> bulkhead) option" where
  "first_attempt ctxErr pick_ctx maxWaitTime b =
     (case select_permit ctxErr pick_ctx b of
        Some r \<Rightarrow> Some r
      | None \<Rightarrow> if maxWaitTime = 0 then Some (Some ErrFull, b) else None)"

definition second_attempt :: "'r error option \<Rightarrow> bool \<Rightarrow> bool \<Rightarrow> bulkhead \<Rightarrow> 'r error option \<times> bulkhead" where
  "second_attempt ctxErr pick_ctx pick_timer b =
     (if pick_timer then (Some ErrFull, b)
      else case select_permit ctxErr pick_ctx b of Some r \<Rightarrow> r | None \<Rightarrow> (Some ErrFull, b))"

definition bh_AcquirePermitWithMaxWait :: "('r, 's) runtime \<Rightarrow> ('s, bulkhead) ref \<Rightarrow> nat \<Rightarrow> duration \<Rightarrow> ('r, 's) world
    \<Rightarrow> 'r error option \<times> ('r, 's) world" where
  "bh_AcquirePermitWithMaxWait rt p x maxWaitTime w =
     (case first_attempt (exec_err x w) (rt_selects_ctx rt (w_env w)) maxWaitTime (read_ref p w) of
        Some (err, b) \<Rightarrow> (err, write_ref p b w)
      | None \<Rightarrow>
          let w1 = pause rt maxWaitTime x w;
              (err, b) = second_attempt (exec_err x w1) (rt_selects_ctx rt (w_env w1)) (rt_selects_timer rt (w_env w1)) (read_ref p w1)
          in (err, write_ref p b w1))"

section \<open>The executor\<close>

definition bh_PreExecute :: "('r, 's) runtime \<Rightarrow> ('s, bulkhead) ref \<Rightarrow> ('r, 's) pre_hook" where
  "bh_PreExecute rt p x w =
     (case bh_AcquirePermitWithMaxWait rt p x (bh_maxWaitTime (bh_config (read_ref p w))) w of
        (None, w1) \<Rightarrow> run_return (None, w1)
      | (Some err, w1) \<Rightarrow>
          (case isCanceledWithResult (rt_zero rt) x w1 of
             Some cancelResult \<Rightarrow> run_return (Some cancelResult, w1)
           | None \<Rightarrow>
               run_return (Some (FailureResult (rt_zero rt) err),
                 if bh_onFull (bh_config (read_ref p w1)) \<and> errors_Is (Some err) (Some ErrFull)
                 then w1\<lparr>w_events := w_events w1 @ [Event ''onFull'' (LastResult x w1) (LastError x w1)]\<rparr> else w1)))"

definition bh_PostExecute :: "('s, bulkhead) ref \<Rightarrow> ('r, 's) post_hook" where
  "bh_PostExecute p x result w =
     (case bh_ReleasePermit (read_ref p w) of
        None \<Rightarrow> None
      | Some b \<Rightarrow> run_return (result, write_ref p b w))"

definition bulkhead_Apply :: "('r, 's) runtime \<Rightarrow> ('s, bulkhead) ref \<Rightarrow> ('r, 's) policy" where
  "bulkhead_Apply rt p i = base_Apply (bh_PreExecute rt p) (bh_PostExecute p)"

section \<open>Lemmas\<close>

lemma bh_acquire_frame: "same_run w (snd (bh_AcquirePermitWithMaxWait rt p x d w))"
proof -
  have "same_run w (write_ref p b (pause rt d x w))" for b by (rule same_run_trans[OF frame_pause frame_write_ref])
  then show ?thesis
    by (auto simp: bh_AcquirePermitWithMaxWait_def Let_def frame split: option.split prod.split)
qed

lemma bh_pre_quiet: "quiet_pre (bh_PreExecute rt p)"
  unfolding quiet_pre_def
proof (intro allI impI)
  fix x r w w' assume run: "bh_PreExecute rt p x w = Some (Inr (r, w'))"
  obtain err w1 where a: "bh_AcquirePermitWithMaxWait rt p x (bh_maxWaitTime (bh_config (read_ref p w))) w = (err, w1)"
    by (metis prod.collapse)
  have "same_run w w1" using bh_acquire_frame[of w rt p x] a by (metis snd_conv)
  moreover from this have "same_run w (w1\<lparr>w_events := es\<rparr>)" for es by (simp add: same_run_def)
  ultimately show "same_run w w'" using run a by (auto simp: bh_PreExecute_def split: option.splits)
qed

lemma bh_post_quiet: "quiet_post (bh_PostExecute p)"
  by (auto simp: quiet_post_def bh_PostExecute_def frame split: option.splits)

interpretation bulkhead: single_shot "bulkhead_Apply rt p i" for rt p i
  unfolding bulkhead_Apply_def by (rule one_call_single_shot[OF base_Apply_one_call[OF bh_pre_quiet bh_post_quiet]])

section \<open>Concurrent users\<close>

text \<open>
  Any number of users of one bulkhead: each calls one of the acquiring methods, with any state of its context and any choices of the selects, maybe waits, and leaves by
  \<^verbatim>\<open>ReleasePermit\<close>. The lists hold the users inside and those that wait in \<^verbatim>\<open>AcquirePermitWithMaxWait\<close>; a call of \<^verbatim>\<open>AcquirePermit\<close> that blocks takes its
  step when it is ready.
\<close>

definition enters :: "'r error option \<Rightarrow> nat \<Rightarrow> nat list \<Rightarrow> nat list" where
  "enters err u us = (if err = None then u # us else us)"

inductive bh_step :: "bulkhead \<times> nat list \<times> nat list \<Rightarrow> bulkhead \<times> nat list \<times> nat list \<Rightarrow> bool" where
  acquires: "bh_AcquirePermit (ctxErr :: unit error option) pick b = Some (err, b') \<Longrightarrow> bh_step (b, us, ws) (b', enters err u us, ws)"
| tries: "bh_TryAcquirePermit b = (ok, b') \<Longrightarrow> bh_step (b, us, ws) (b', if ok then u # us else us, ws)"
| attempts: "first_attempt (ctxErr :: unit error option) pick d b = Some (err, b') \<Longrightarrow> bh_step (b, us, ws) (b', enters err u us, ws)"
| waits: "first_attempt (ctxErr :: unit error option) pick d b = None \<Longrightarrow> bh_step (b, us, ws) (b, us, u # ws)"
| ends_wait: "u \<in> set ws \<Longrightarrow> second_attempt (ctxErr :: unit error option) pick timer b = (err, b') \<Longrightarrow> bh_step (b, us, ws) (b', enters err u us, remove1 u ws)"
| releases: "u \<in> set us \<Longrightarrow> bh_ReleasePermit b = Some b' \<Longrightarrow> bh_step (b, us, ws) (b', remove1 u us, ws)"

definition bh_inv :: "uint \<Rightarrow> bulkhead \<times> nat list \<times> nat list \<Rightarrow> bool" where
  "bh_inv n s \<longleftrightarrow> (case s of (b, us, ws) \<Rightarrow> bh_maxConcurrency (bh_config b) = n \<and> bh_semaphore b = length us \<and> length us \<le> unat n)"

text \<open>What the selects do to a bulkhead: a permit is sent into a free channel, and a refusal changes nothing.\<close>

lemma select_permit_cases:
  "case select_permit ctxErr pick b of
     None \<Rightarrow> ctxErr = None \<and> \<not> chan_free b
   | Some (None, b') \<Rightarrow> chan_free b \<and> b' = chan_send b
   | Some (Some err, b') \<Rightarrow> ctxErr = Some err \<and> b' = b"
  by (auto simp: select_permit_def split: option.split)

lemma first_attempt_cases:
  "case first_attempt ctxErr pick d b of
     None \<Rightarrow> ctxErr = None \<and> \<not> chan_free b \<and> d \<noteq> 0
   | Some (None, b') \<Rightarrow> chan_free b \<and> b' = chan_send b
   | Some (Some err, b') \<Rightarrow> (ctxErr = Some err \<or> err = ErrFull \<and> ctxErr = None \<and> \<not> chan_free b \<and> d = 0) \<and> b' = b"
  using select_permit_cases[where ctxErr = ctxErr and pick = pick and b = b] by (auto simp: first_attempt_def split: option.splits)

lemma second_attempt_cases:
  "case second_attempt ctxErr pick timer b of
     (None, b') \<Rightarrow> \<not> timer \<and> chan_free b \<and> b' = chan_send b
   | (Some err, b') \<Rightarrow> (\<not> timer \<and> ctxErr = Some err \<or> err = ErrFull \<and> (timer \<or> ctxErr = None \<and> \<not> chan_free b)) \<and> b' = b"
  using select_permit_cases[where ctxErr = ctxErr and pick = pick and b = b] by (auto simp: second_attempt_def split: option.splits prod.splits)

lemma bh_inv_step:
  assumes "bh_step s s'" "bh_inv n s"
  shows "bh_inv n s'"
proof -
  have sent: "bh_inv n (b', enters err u us, ws')"
    if "bh_inv n (b, us, ws)" "case err of None \<Rightarrow> chan_free b \<and> b' = chan_send b | Some _ \<Rightarrow> b' = b" for b b' us ws ws' u and err :: "unit error option"
    using that by (auto simp: bh_inv_def enters_def chan_free_def chan_send_def split: option.splits)
  show ?thesis
    using assms(1)
  proof cases
    case (acquires ctxErr pick b err b' us ws u)
    then show ?thesis using assms(2) select_permit_cases[where ctxErr = ctxErr and pick = pick and b = b] by (auto simp: bh_AcquirePermit_def intro!: sent split: option.splits)
  next
    case (tries b ok b' us ws u)
    then show ?thesis using assms(2) by (auto simp: bh_inv_def bh_TryAcquirePermit_def chan_free_def chan_send_def split: if_splits)
  next
    case (attempts ctxErr pick d b err b' us ws u)
    then show ?thesis using assms(2) first_attempt_cases[where ctxErr = ctxErr and pick = pick and d = d and b = b] by (auto intro!: sent split: option.splits)
  next
    case (waits ctxErr pick d b us ws u)
    then show ?thesis using assms(2) by (simp add: bh_inv_def)
  next
    case (ends_wait u ws ctxErr pick timer b err b' us)
    then show ?thesis using assms(2) second_attempt_cases[where ctxErr = ctxErr and pick = pick and timer = timer and b = b] by (auto intro!: sent split: option.splits)
  next
    case (releases u us b b' ws)
    then show ?thesis using assms(2) by (auto simp: bh_inv_def bh_ReleasePermit_def length_remove1 split: if_splits)
  qed
qed

text \<open>
  C22. However many users share a bulkhead and however they are scheduled, the users inside never exceed its maximum concurrency, the channel holds exactly one element
  per user inside, and a release of a user inside never blocks. A permit is given only if there is room. \<^verbatim>\<open>TryAcquirePermit\<close> refuses only when the bulkhead is full;
  \<^verbatim>\<open>AcquirePermit\<close> returns no error but its context's, and blocks only while the bulkhead is full; \<^verbatim>\<open>AcquirePermitWithMaxWait\<close> returns its context's error, or
  \<^verbatim>\<open>ErrFull\<close> if the bulkhead is full and it may not wait. It waits only if the bulkhead is full, and after the wait it returns \<^verbatim>\<open>ErrFull\<close> only if its timer fired
  or the bulkhead is still full. No refusal changes the bulkhead.
\<close>

theorem bulkhead_concurrency_bound:
  assumes "bh_step\<^sup>*\<^sup>* (bh_Build (bh_NewBuilder n), [], []) (b, us, ws)"
  shows "length us \<le> unat n \<and> bh_semaphore b = length us \<and> (us \<noteq> [] \<longrightarrow> bh_ReleasePermit b \<noteq> None)
    \<and> (fst (bh_TryAcquirePermit b) \<longleftrightarrow> length us < unat n)
    \<and> (case bh_AcquirePermit ctxErr pick b of
         None \<Rightarrow> ctxErr = None \<and> length us = unat n
       | Some (None, b') \<Rightarrow> length us < unat n
       | Some (Some err, b') \<Rightarrow> ctxErr = Some err \<and> b' = b)
    \<and> (case first_attempt ctxErr pick d b of
         None \<Rightarrow> ctxErr = None \<and> length us = unat n \<and> d \<noteq> 0
       | Some (None, b') \<Rightarrow> length us < unat n
       | Some (Some err, b') \<Rightarrow> (ctxErr = Some err \<or> err = ErrFull \<and> length us = unat n \<and> d = 0) \<and> b' = b)
    \<and> (case second_attempt ctxErr pick timer b of
         (None, b') \<Rightarrow> length us < unat n
       | (Some err, b') \<Rightarrow> (ctxErr = Some err \<or> err = ErrFull \<and> (timer \<or> length us = unat n)) \<and> b' = b)"
proof -
  have "bh_inv n (b, us, ws)"
    using assms
  proof (induction "(b, us, ws)" arbitrary: b us ws rule: rtranclp_induct)
    case base
    then show ?case by (simp add: bh_inv_def bh_Build_def bh_NewBuilder_def)
  next
    case (step y)
    then show ?case using bh_inv_step by (cases y) blast
  qed
  then have inv: "length us \<le> unat n" "bh_semaphore b = length us" "chan_free b \<longleftrightarrow> length us < unat n" "\<not> chan_free b \<longleftrightarrow> length us = unat n"
    by (auto simp: bh_inv_def chan_free_def)
  show ?thesis
    using inv select_permit_cases[where ctxErr = ctxErr and pick = pick and b = b] first_attempt_cases[where ctxErr = ctxErr and pick = pick and d = d and b = b] second_attempt_cases[where ctxErr = ctxErr and pick = pick and timer = timer and b = b]
    by (auto simp: bh_ReleasePermit_def bh_TryAcquirePermit_def bh_AcquirePermit_def split: option.splits)
qed

theorem bulkhead_concurrency_bound_witness:
  "length [2, 1 :: nat] \<le> unat (2 :: uint) \<and> \<not> fst (bh_TryAcquirePermit ((bh_Build (bh_NewBuilder 2))\<lparr>bh_semaphore := 2\<rparr>))
    \<and> bh_AcquirePermit (Some context_Canceled :: int error option) False ((bh_Build (bh_NewBuilder 2))\<lparr>bh_semaphore := 2\<rparr>) \<noteq> None"
proof -
  let ?b = "\<lambda>k. (bh_Build (bh_NewBuilder 2))\<lparr>bh_semaphore := k\<rparr>"
  have b: "bh_step (bh_Build (bh_NewBuilder 2), [], []) (?b 1, [1], [])"
    using bh_step.tries[of "bh_Build (bh_NewBuilder 2)" True "?b 1" "[]" "[]" 1]
    by (simp add: bh_TryAcquirePermit_def chan_free_def chan_send_def bh_Build_def bh_NewBuilder_def)
  have "bh_step (?b 1, [1], []) (?b 2, [2, 1], [])"
    using bh_step.acquires[of None False "?b 1" None "?b 2" "[1]" "[]" 2]
    by (simp add: bh_AcquirePermit_def select_permit_def chan_free_def chan_send_def bh_Build_def bh_NewBuilder_def enters_def)
  with b have "bh_step\<^sup>*\<^sup>* (bh_Build (bh_NewBuilder 2), [], []) (?b 2, [2, 1], [])" by simp
  from bulkhead_concurrency_bound[OF this, where ctxErr = "Some context_Canceled :: int error option" and pick = False] show ?thesis
    by (cases "bh_AcquirePermit (Some context_Canceled :: int error option) False (?b 2)") auto
qed

section \<open>One execution\<close>

lemma read_write_ref:
  assumes "\<And>obj s. ref_get p (ref_put p obj s) = obj"
  shows "read_ref p (write_ref p obj w) = obj"
  using assms by (simp add: read_ref_def write_ref_def set_env_def)

text \<open>
  A bulkhead that does not wait runs the function, holding one more permit, exactly if it has a free
  permit, and otherwise returns \<^verbatim>\<open>ErrFull\<close> without calling the function; when the execution returns,
  every permit that it took is back.
\<close>

theorem bulkhead_runs_iff_free:
  assumes ref: "\<And>obj s. ref_get p (ref_put p obj s) = obj"
    and fn: "\<And>u. ref_get p (objs (snd (fn u))) = ref_get p (objs u)"
    and wait: "bh_maxWaitTime (bh_config (ref_get p (objs v))) = 0"
    and b: "b = ref_get p (objs v)"
  shows "\<exists>w. executor_Get rt fn (executor_With [bulkhead_Apply rt p]) v =
      Some (Inr (if chan_free b then fst (fn (v\<lparr>objs := ref_put p (chan_send b) (objs v)\<rparr>)) else (rt_zero rt, Some ErrFull), w))
    \<and> ref_get p (objs (w_env w)) = b \<and> w_executions w = (if chan_free b then 1 else 0)"
proof -
  define w0 where "w0 = newExecution (rt_zero rt) [] v"
  have w0: "w_env w0 = v" "w_executions w0 = 0" "w_timers w0 = []" "exec_err 0 w0 = None"
    by (simp_all add: w0_def newExecution_def exec_err_def get_exec_def)
  have r0: "read_ref p w0 = b" using w0(1) b by (simp add: read_ref_def)
  note unfolds = executor_Get_def executeSync_def execute_def executor_With_def bulkhead_Apply_def base_Apply_def run_return_def Let_def
  show ?thesis
  proof (cases "chan_free b")
    case False
    have "isCanceledWithResult (rt_zero rt) 0 w0 = None" using w0(4) by (simp add: isCanceledWithResult_def)
    then have "\<exists>w1. bh_PreExecute rt p 0 w0 = Some (Inr (Some (FailureResult (rt_zero rt) ErrFull), w1)) \<and> ref_get p (objs (w_env w1)) = b \<and> w_executions w1 = 0"
      using False w0 r0 wait[folded b] ref
      by (auto simp: bh_PreExecute_def bh_AcquirePermitWithMaxWait_def first_attempt_def select_permit_def run_return_def write_ref_def read_ref_def set_env_def
          exec_err_def Context_def get_exec_def isCanceledWithResult_def)
    then show ?thesis
      using False b by (auto simp: unfolds FailureResult_def simp flip: w0_def)
  next
    case True
    define w1 where "w1 = write_ref p (chan_send b) w0"
    have w1: "w_env w1 = v\<lparr>objs := ref_put p (chan_send b) (objs v)\<rparr>" "w_executions w1 = 0" "w_timers w1 = []"
      using w0 by (simp_all add: w1_def write_ref_def set_env_def)
    have pre: "bh_PreExecute rt p 0 w0 = Some (Inr (None, w1))"
      using True w0 r0 wait[folded b] by (simp add: bh_PreExecute_def bh_AcquirePermitWithMaxWait_def first_attempt_def select_permit_def run_return_def w1_def)
    define w2 where "w2 = exec_record (w1\<lparr>w_env := snd (fn (w_env w1))\<rparr>)"
    have "read_ref p w2 = chan_send b" using w1(1) ref fn by (simp add: w2_def read_ref_def exec_record_def)
    then have post: "bh_PostExecute p 0 r w2 = Some (Inr (r, write_ref p b w2))" for r
      by (simp add: bh_PostExecute_def bh_ReleasePermit_def chan_send_def run_return_def)
    have "w_executions w2 = 1" using w1(2) by (simp add: w2_def exec_record_def)
    moreover have "call_fn rt (\<lambda>_. fn) False 0 w1 =
        Some (Inr (\<lparr>Result = fst (fst (fn (w_env w1))), Error = snd (fst (fn (w_env w1))), Done = True, Success = True, SuccessAll = True\<rparr>, w2))"
      unfolding w2_def by (rule call_fn_no_timers[OF w1(3)])
    moreover have "ref_get p (objs (w_env (write_ref p b w2))) = b" "w_executions (write_ref p b w2) = w_executions w2"
      using ref by (simp_all add: write_ref_def set_env_def)
    ultimately show ?thesis
      using True pre post w1(1) by (simp add: unfolds flip: w0_def)
  qed
qed

text \<open>The environment that holds just a bulkhead.\<close>

definition the_bulkhead :: "(bulkhead, bulkhead) ref" where
  "the_bulkhead = \<lparr>ref_get = (\<lambda>b. b), ref_put = (\<lambda>b _. b)\<rparr>"

definition bh_runtime :: "(int, bulkhead) runtime" where
  "bh_runtime = \<lparr>rt_zero = 0, rt_pause = (\<lambda>_ _ v. v), rt_rand = (\<lambda>v. (0, v)), rt_fires = (\<lambda>t v. t \<le> clock v),
     rt_selects_ctx = (\<lambda>_. True), rt_selects_timer = (\<lambda>_. False), rt_fuel = 0\<rparr>"

theorem bulkhead_runs_iff_free_witness:
  "\<exists>w. executor_Get bh_runtime (\<lambda>v. ((5, None), v)) (executor_With [bulkhead_Apply bh_runtime the_bulkhead])
      \<lparr>clock = 0, ctx_errs = (\<lambda>_. None), objs = bh_Build (bh_NewBuilder 1)\<rparr> = Some (Inr ((5, None), w))
    \<and> objs (w_env w) = bh_Build (bh_NewBuilder 1)"
  using bulkhead_runs_iff_free[of the_bulkhead "\<lambda>v. ((5, None), v)" "\<lparr>clock = 0, ctx_errs = (\<lambda>_. None), objs = bh_Build (bh_NewBuilder 1)\<rparr>"
      "bh_Build (bh_NewBuilder 1)" bh_runtime]
  by (auto simp: the_bulkhead_def bh_Build_def bh_NewBuilder_def chan_free_def)

end
