(* ===== verification/Cache_Policy.thy ===== *)
theory Cache_Policy
  imports Executor
begin

text \<open>
  The cache policy: src/cachepolicy/cache.go and cacheexecutor.go. The \<^verbatim>\<open>Cache\<close> interface is a record of its
  two methods, acting on everything the environment holds; the locale \<open>cache_backend\<close> states what the
  policy relies on, and the map based cache of src/internal/policytesting/cache.go satisfies it.
\<close>

section \<open>Caches\<close>

record ('r, 's) Cache =
  cache_Get :: "string \<Rightarrow> 's \<Rightarrow> 'r option \<times> 's"
  cache_Set :: "string \<Rightarrow> 'r \<Rightarrow> 's \<Rightarrow> 's"

locale cache_backend =
  fixes cache :: "('r, 's) Cache"
  assumes get_set: "fst (cache_Get cache k (cache_Set cache k v s)) = Some v"
    and get_again: "cache_Get cache k s = (Some v, s') \<Longrightarrow> fst (cache_Get cache k s') = Some v"

definition TestCache_Get :: "string \<Rightarrow> (string \<Rightarrow> 'r option) \<Rightarrow> 'r option" where
  "TestCache_Get key c = c key"

definition TestCache_Set :: "string \<Rightarrow> 'r \<Rightarrow> (string \<Rightarrow> 'r option) \<Rightarrow> (string \<Rightarrow> 'r option)" where
  "TestCache_Set key value c = c(key := Some value)"

text \<open>The cache of the tests, when it is all that the environment holds.\<close>

definition NewCache :: "('r, string \<Rightarrow> 'r option) Cache" where
  "NewCache = \<lparr>cache_Get = (\<lambda>k s. (TestCache_Get k s, s)), cache_Set = TestCache_Set\<rparr>"

interpretation test_cache: cache_backend NewCache
  by unfold_locales (auto simp: NewCache_def TestCache_Get_def TestCache_Set_def)

section \<open>Configuration\<close>

text \<open>The value under \<^verbatim>\<open>CacheKey\<close> in a context may be a string or of another type.\<close>

datatype ctx_value = StringValue string | OtherValue

record ('r, 's) cache_config =
  cc_cache :: "('r, 's) Cache"
  cc_key :: string
  cc_cacheConditions :: "'r condition list"
  cc_onHit :: bool
  cc_onMiss :: bool
  cc_onCache :: bool

definition cache_NewBuilder :: "('r, 's) Cache \<Rightarrow> ('r, 's) cache_config" where
  "cache_NewBuilder cache =
     \<lparr>cc_cache = cache, cc_key = '''', cc_cacheConditions = [], cc_onHit = False, cc_onMiss = False, cc_onCache = False\<rparr>"

definition CacheIf :: "'r condition \<Rightarrow> ('r, 's) cache_config \<Rightarrow> ('r, 's) cache_config" where
  "CacheIf predicate c = c\<lparr>cc_cacheConditions := cc_cacheConditions c @ [predicate]\<rparr>"

definition WithKey :: "string \<Rightarrow> ('r, 's) cache_config \<Rightarrow> ('r, 's) cache_config" where
  "WithKey key c = c\<lparr>cc_key := key\<rparr>"

definition OnCacheHit :: "bool \<Rightarrow> ('r, 's) cache_config \<Rightarrow> ('r, 's) cache_config" where
  "OnCacheHit listener c = c\<lparr>cc_onHit := listener\<rparr>"

definition OnCacheMiss :: "bool \<Rightarrow> ('r, 's) cache_config \<Rightarrow> ('r, 's) cache_config" where
  "OnCacheMiss listener c = c\<lparr>cc_onMiss := listener\<rparr>"

definition OnResultCached :: "bool \<Rightarrow> ('r, 's) cache_config \<Rightarrow> ('r, 's) cache_config" where
  "OnResultCached listener c = c\<lparr>cc_onCache := listener\<rparr>"

section \<open>The executor\<close>

definition getCacheKey :: "(nat list \<Rightarrow> ctx_value option) \<Rightarrow> ('r, 's) cache_config \<Rightarrow> nat list \<Rightarrow> string" where
  "getCacheKey ctxValue c ctx = (case ctxValue ctx of Some (StringValue typedKey) \<Rightarrow> typedKey | _ \<Rightarrow> cc_key c)"

definition cache_lookup :: "('r, 's) cache_config \<Rightarrow> string \<Rightarrow> ('r, 's) world \<Rightarrow> 'r option \<times> ('r, 's) world" where
  "cache_lookup c cacheKey w =
     (if cacheKey \<noteq> ''''
      then let (found, s) = cache_Get (cc_cache c) cacheKey (objs (w_env w)) in (found, set_env (\<lambda>v. v\<lparr>objs := s\<rparr>) w)
      else (None, w))"

definition cache_PreExecute :: "(nat list \<Rightarrow> ctx_value option) \<Rightarrow> ('r, 's) cache_config \<Rightarrow> ('r, 's) pre_hook" where
  "cache_PreExecute ctxValue c x w =
     (let (found, w1) = cache_lookup c (getCacheKey ctxValue c (Context x w)) w in
      case found of
        Some cacheResult \<Rightarrow>
          let r = \<lparr>Result = cacheResult, Error = None, Done = True, Success = True, SuccessAll = True\<rparr>
          in run_return (Some r, if cc_onHit c then log_event ''onHit'' r w1 else w1)
      | None \<Rightarrow>
          run_return (None,
            if cc_onMiss c
            then w1\<lparr>w_events := w_events w1 @ [Event ''onMiss'' (LastResult x w1) (LastError x w1)]\<rparr> else w1))"

definition cache_PostExecute :: "(nat list \<Rightarrow> ctx_value option) \<Rightarrow> ('r, 's) cache_config \<Rightarrow> ('r, 's) post_hook" where
  "cache_PostExecute ctxValue c x er w =
     (let shouldCache = ((cc_cacheConditions c = [] \<and> Error er = None) \<or> AppliesToAny (cc_cacheConditions c) (Result er) (Error er));
          cacheKey = getCacheKey ctxValue c (Context x w)
      in run_return (er,
           if shouldCache \<and> cacheKey \<noteq> ''''
           then call_listener (cc_onCache c) ''onCache'' x er
                  (set_env (\<lambda>v. v\<lparr>objs := cache_Set (cc_cache c) cacheKey (Result er) (objs v)\<rparr>) w)
           else w))"

definition cache_Apply :: "(nat list \<Rightarrow> ctx_value option) \<Rightarrow> ('r, 's) cache_config \<Rightarrow> ('r, 's) policy" where
  "cache_Apply ctxValue c i = base_Apply (cache_PreExecute ctxValue c) (cache_PostExecute ctxValue c)"

section \<open>Lemmas\<close>

lemma cache_lookup_frame: "same_run w (snd (cache_lookup c k w))"
  by (simp add: cache_lookup_def frame split_beta)

lemma cache_pre_quiet: "quiet_pre (cache_PreExecute ctxValue c)"
  unfolding quiet_pre_def
proof (intro allI impI)
  fix x r and w w' :: "('a, 'b) world"
  assume run: "cache_PreExecute ctxValue c x w = Some (Inr (r, w'))"
  obtain found w1 where l: "cache_lookup c (getCacheKey ctxValue c (Context x w)) w = (found, w1)" by (metis prod.collapse)
  have s: "same_run w w1" using cache_lookup_frame[of w c "getCacheKey ctxValue c (Context x w)"] l by simp
  have "same_run w (w1\<lparr>w_events := es\<rparr>)" for es using s by (simp add: same_run_def)
  with run l s show "same_run w w'"
    by (auto simp: cache_PreExecute_def Let_def intro: same_run_trans[OF s frame_log_event] split: option.splits if_splits)
qed

lemma cache_post_quiet: "quiet_post (cache_PostExecute ctxValue c)"
  by (auto simp: quiet_post_def cache_PostExecute_def Let_def frame intro: same_run_trans[OF frame_set_env frame_call_listener])

lemma cache_hooks_return:
  "\<exists>r w'. cache_PreExecute ctxValue c x w = Some (Inr (r, w'))" "\<exists>r' w'. cache_PostExecute ctxValue c x r w = Some (Inr (r', w'))"
  by (simp_all add: cache_PreExecute_def cache_PostExecute_def Let_def run_return_def split_beta split: option.split)

interpretation cache_policy: total_policy "cache_Apply ctxValue c i" for ctxValue c i
  unfolding cache_Apply_def
  by (rule one_call_total[OF base_Apply_one_call[OF cache_pre_quiet cache_post_quiet]
        base_Apply_returns[OF cache_pre_quiet cache_hooks_return]])

definition cached_executor :: "(nat list \<Rightarrow> ctx_value option) \<Rightarrow> ('r, 's) cache_config \<Rightarrow> nat list \<Rightarrow> ('r, 's) executor" where
  "cached_executor ctxValue c ctx = WithContext (Some ctx) (executor_With [cache_Apply ctxValue c])"

text \<open>A hit: the function is not called, and the cache holds what the lookup left.\<close>

lemma cache_hit:
  assumes "getCacheKey ctxValue c ctx \<noteq> ''''" "cache_Get (cc_cache c) (getCacheKey ctxValue c ctx) (objs v) = (Some r, s)"
  shows "\<exists>w. executor_Get rt fn (cached_executor ctxValue c ctx) v = Some (Inr ((r, None), w))
     \<and> w_executions w = 0 \<and> objs (w_env w) = s"
proof -
  define w0 where "w0 = newExecution (rt_zero rt) ctx v"
  note w0 = new_world[of "rt_zero rt" ctx v, folded w0_def]
  then show ?thesis
    using assms by (simp add: executor_Get_def executeSync_def execute_def cached_executor_def WithContext_def executor_With_def
        cache_Apply_def base_Apply_def cache_PreExecute_def cache_lookup_def set_env_def log_event_def Let_def run_return_def
        flip: w0_def)
qed

text \<open>A miss: the function is called once, and its result is stored if it is to be cached.\<close>

definition should_cache :: "('r, 's) cache_config \<Rightarrow> 'r \<times> 'r error option \<Rightarrow> bool" where
  "should_cache c out \<longleftrightarrow> (cc_cacheConditions c = [] \<and> snd out = None) \<or> AppliesToAny (cc_cacheConditions c) (fst out) (snd out)"

lemma cache_miss:
  assumes "getCacheKey ctxValue c ctx \<noteq> ''''" "cache_Get (cc_cache c) (getCacheKey ctxValue c ctx) (objs v) = (None, s)"
    and "fn (v\<lparr>objs := s\<rparr>) = (out, v')"
  shows "\<exists>w. executor_Get rt fn (cached_executor ctxValue c ctx) v = Some (Inr (out, w)) \<and> w_executions w = 1
     \<and> objs (w_env w) = (if should_cache c out then cache_Set (cc_cache c) (getCacheKey ctxValue c ctx) (fst out) (objs v') else objs v')"
proof -
  define w0 where "w0 = newExecution (rt_zero rt) ctx v"
  note w0 = new_world[of "rt_zero rt" ctx v, folded w0_def]
  obtain w1 where pre: "cache_PreExecute ctxValue c 0 w0 = Some (Inr (None, w1))"
    and w1: "w_env w1 = v\<lparr>objs := s\<rparr>" "w_executions w1 = 0" "Context 0 w1 = ctx" "w_timers w1 = []"
    using w0 assms(1,2) by (simp add: cache_PreExecute_def cache_lookup_def set_env_def Let_def run_return_def Context_def get_exec_def)
  define w2 where "w2 = exec_record (w1\<lparr>w_env := v'\<rparr>)"
  let ?r = "\<lparr>Result = fst out, Error = snd out, Done = True, Success = True, SuccessAll = True\<rparr>"
  have fn: "call_fn rt (\<lambda>_. fn) False 0 w1 = Some (Inr (?r, w2))"
    using call_fn_no_timers[OF w1(4), of rt fn 0] w1(1) assms(3) by (simp add: w2_def)
  have w2: "w_env w2 = v'" "w_executions w2 = 1" "Context 0 w2 = ctx"
    using w1 by (simp_all add: w2_def exec_record_def Context_def get_exec_def)
  define w3 where "w3 = (if should_cache c out
           then call_listener (cc_onCache c) ''onCache'' 0 ?r
                  (set_env (\<lambda>v. v\<lparr>objs := cache_Set (cc_cache c) (getCacheKey ctxValue c ctx) (fst out) (objs v)\<rparr>) w2)
           else w2)"
  have post: "cache_PostExecute ctxValue c 0 ?r w2 = Some (Inr (?r, w3))"
    using w2(3) assms(1) by (simp add: cache_PostExecute_def should_cache_def w3_def Let_def run_return_def)
  have "same_run w2 w3"
    by (auto simp: w3_def frame intro: same_run_trans[OF frame_set_env frame_call_listener])
  moreover have "objs (w_env w3) = (if should_cache c out then cache_Set (cc_cache c) (getCacheKey ctxValue c ctx) (fst out) (objs v') else objs v')"
    using w2(1) by (simp add: w3_def set_env_def)
  ultimately show ?thesis
    using pre fn post w2(2) by (auto simp: executor_Get_def executeSync_def execute_def cached_executor_def WithContext_def executor_With_def
        cache_Apply_def base_Apply_def run_return_def same_run_def simp flip: w0_def)
qed

section \<open>Properties\<close>

text \<open>
  A cache policy reads through: once an execution has returned a result that is to be cached, the next
  execution with the same key returns that result without calling its function, whatever the cache held
  before and whether or not the first execution called its own function.
\<close>

theorem cache_read_through:
  assumes cache: "cache_backend (cc_cache c)" and key: "getCacheKey ctxValue c ctx \<noteq> ''''"
    and first: "executor_Get rt fn (cached_executor ctxValue c ctx) v = Some (Inr (out, w))" and "should_cache c out"
  shows "\<exists>w'. executor_Get rt fn' (cached_executor ctxValue c ctx) (w_env w) = Some (Inr ((fst out, None), w')) \<and> w_executions w' = 0"
proof -
  let ?k = "getCacheKey ctxValue c ctx"
  obtain found s where l: "cache_Get (cc_cache c) ?k (objs v) = (found, s)" by (metis prod.collapse)
  have "fst (cache_Get (cc_cache c) ?k (objs (w_env w))) = Some (fst out)"
  proof (cases found)
    case None
    obtain v' o' where fn: "fn (v\<lparr>objs := s\<rparr>) = (o', v')" by (metis prod.collapse)
    show ?thesis using cache_miss[of ctxValue c ctx v s fn o' v' rt] key l None fn first assms(4) cache_backend.get_set[OF cache] by auto
  next
    case (Some r)
    show ?thesis
      using cache_hit[of ctxValue c ctx v r s rt fn] key l Some first cache_backend.get_again[OF cache l[unfolded Some]] by auto
  qed
  then obtain s' where "cache_Get (cc_cache c) ?k (objs (w_env w)) = (Some (fst out), s')" by (metis prod.collapse)
  from cache_hit[of ctxValue c ctx "w_env w", OF key this] show ?thesis by blast
qed

text \<open>A user's function that counts nothing and returns 7.\<close>

definition seven :: "(int, string \<Rightarrow> int option) env \<Rightarrow> (int \<times> int error option) \<times> (int, string \<Rightarrow> int option) env" where
  "seven v = ((7, None), v)"

definition empty_cache_env :: "(int, string \<Rightarrow> int option) env" where
  "empty_cache_env = \<lparr>clock = 0, ctx_errs = (\<lambda>_. None), objs = (\<lambda>_. None)\<rparr>"

definition cache_runtime :: "(int, string \<Rightarrow> int option) runtime" where
  "cache_runtime = \<lparr>rt_zero = 0, rt_pause = (\<lambda>_ _ v. v), rt_rand = (\<lambda>v. (0, v)), rt_fires = (\<lambda>t v. t \<le> clock v),
     rt_selects_ctx = (\<lambda>_. True), rt_selects_timer = (\<lambda>_. False), rt_fuel = 0\<rparr>"

theorem cache_read_through_witness:
  "\<exists>w w'. executor_Get cache_runtime seven (cached_executor (\<lambda>_. None) (WithKey ''k'' (cache_NewBuilder NewCache)) []) empty_cache_env
       = Some (Inr ((7, None), w))
     \<and> executor_Get cache_runtime (\<lambda>v. ((8, None), v)) (cached_executor (\<lambda>_. None) (WithKey ''k'' (cache_NewBuilder NewCache)) []) (w_env w)
       = Some (Inr ((7, None), w'))"
proof -
  let ?c = "WithKey ''k'' (cache_NewBuilder NewCache) :: (int, string \<Rightarrow> int option) cache_config"
  have c: "cc_cache ?c = NewCache" "getCacheKey (\<lambda>_. None) ?c [] = ''k''" "cc_cacheConditions ?c = []"
    by (simp_all add: WithKey_def cache_NewBuilder_def getCacheKey_def)
  have "cache_Get (cc_cache ?c) (getCacheKey (\<lambda>_. None) ?c []) (objs empty_cache_env) = (None, \<lambda>_. None)"
    by (simp only: c) (simp add: NewCache_def TestCache_Get_def empty_cache_env_def)
  from cache_miss[of "\<lambda>_. None" ?c "[]" empty_cache_env "\<lambda>_. None" seven "(7, None)" empty_cache_env cache_runtime] this c(2)
  obtain w where w: "executor_Get cache_runtime seven (cached_executor (\<lambda>_. None) ?c []) empty_cache_env = Some (Inr ((7, None), w))"
    by (auto simp: seven_def empty_cache_env_def)
  have "should_cache ?c (7, None)" using c(3) by (simp add: should_cache_def)
  from cache_read_through[OF _ _ w this, of "\<lambda>v. ((8, None), v)"] w show ?thesis
    by (auto simp: c test_cache.cache_backend_axioms)
qed

end
