(* ===== verification/Moving_Stats.thy ===== *)
theory Moving_Stats
  imports Go_Prelude "HOL-Library.Multiset"
begin

text \<open>
  The moving statistics of src/internal/util: \<^verbatim>\<open>MovingAverage\<close> (average.go), \<^verbatim>\<open>MovingMedian\<close> (median.go),
  \<^verbatim>\<open>MovingQuantile\<close> (quantile.go), \<^verbatim>\<open>MovingSum\<close>, \<^verbatim>\<open>CorrelationWindow\<close> and \<^verbatim>\<open>MaxWindow\<close> (windows.go),
  with \<^verbatim>\<open>Smooth\<close> and \<^verbatim>\<open>Log10Func\<close> (util.go). The samples are finite numbers; a NaN that the code returns on
  purpose is \<open>None\<close>. The section on ring buffers relates the arrays that several of them overwrite in
  turn to the list of the last samples.
\<close>

section \<open>Averages\<close>

definition util_Smooth :: "float64 \<Rightarrow> float64 \<Rightarrow> float64 \<Rightarrow> float64" where
  "util_Smooth oldValue newValue factor = oldValue * (1 - factor) + newValue * factor"

record MovingAverage =
  ma_warmupSamples :: "8 word"
  ma_smoothingFactor :: float64
  ma_count :: "8 word"
  ma_value :: float64
  ma_sum :: float64

definition NewMovingAverage :: "uint \<Rightarrow> 8 word \<Rightarrow> MovingAverage" where
  "NewMovingAverage age warmupSamples =
     \<lparr>ma_warmupSamples = warmupSamples, ma_smoothingFactor = 2 / (float_of_uint age + 1), ma_count = 0, ma_value = 0, ma_sum = 0\<rparr>"

definition MovingAverage_Add :: "float64 \<Rightarrow> MovingAverage \<Rightarrow> float64 \<times> MovingAverage" where
  "MovingAverage_Add newValue e =
     (let e' = (if ma_count e < ma_warmupSamples e
                then e\<lparr>ma_count := ma_count e + 1, ma_sum := ma_sum e + newValue,
                       ma_value := (ma_sum e + newValue) / float_of_uint (ma_count e + 1)\<rparr>
                else e\<lparr>ma_value := util_Smooth (ma_value e) newValue (ma_smoothingFactor e)\<rparr>)
      in (ma_value e', e'))"

definition MovingAverage_Reset :: "MovingAverage \<Rightarrow> MovingAverage" where
  "MovingAverage_Reset e = e\<lparr>ma_count := 0, ma_value := 0, ma_sum := 0\<rparr>"

section \<open>Medians\<close>

record MovingMedian =
  mm_values :: "float64 list"
  mm_sorted :: "float64 list"
  mm_index :: nat
  mm_size :: nat

definition NewMovingMedian :: "nat \<Rightarrow> MovingMedian" where
  "NewMovingMedian n = \<lparr>mm_values = replicate n 0, mm_sorted = replicate n 0, mm_index = 0, mm_size = 0\<rparr>"

definition Median :: "MovingMedian \<Rightarrow> float64 go" where
  "Median m =
     (if int (mm_size m) < int (length (mm_values m)) - 1 then Inr 0
      else go_bind (slice_index (mm_sorted m) (int (length (mm_sorted m) div 2))) (\<lambda>k. Inr (mm_sorted m ! k)))"

definition MovingMedian_Add :: "float64 \<Rightarrow> MovingMedian \<Rightarrow> (float64 \<times> MovingMedian) go" where
  "MovingMedian_Add value m =
     (if mm_index m \<ge> length (mm_values m) then Inl IndexOutOfRange
      else let m1 = m\<lparr>mm_values := (mm_values m)[mm_index m := value],
                      mm_index := (mm_index m + 1) mod length (mm_values m)\<rparr>
           in if int (mm_size m1) < int (length (mm_values m1)) - 1 then Inr (value, m1\<lparr>mm_size := mm_size m1 + 1\<rparr>)
              else let m2 = m1\<lparr>mm_sorted := sort (mm_values m1)\<rparr>
                   in go_bind (Median m2) (\<lambda>v. Inr (v, m2)))"

definition MovingMedian_Reset :: "MovingMedian \<Rightarrow> MovingMedian" where
  "MovingMedian_Reset m =
     m\<lparr>mm_values := map (\<lambda>_. 0) (mm_values m), mm_sorted := map (\<lambda>_. 0) (mm_sorted m), mm_index := 0, mm_size := 0\<rparr>"

section \<open>Quantiles\<close>

record MovingQuantile =
  mq_quantile :: float64
  mq_r :: float64
  mq_alpha :: float64
  mq_count :: int
  mq_value :: float64
  mq_mean :: float64
  mq_variance :: float64

definition NewMovingQuantile :: "float64 \<Rightarrow> float64 \<Rightarrow> uint \<Rightarrow> MovingQuantile" where
  "NewMovingQuantile quantile r age =
     \<lparr>mq_quantile = quantile, mq_r = r, mq_alpha = 2 / (float_of_uint age + 1), mq_count = 0, mq_value = 0, mq_mean = 0, mq_variance = 0\<rparr>"

definition MovingQuantile_Add :: "float64 \<Rightarrow> MovingQuantile \<Rightarrow> float64 \<times> MovingQuantile" where
  "MovingQuantile_Add sample q =
     (let q1 = q\<lparr>mq_count := i64 (mq_count q + 1)\<rparr> in
      if mq_count q1 = 1 then (sample, q1\<lparr>mq_value := sample, mq_mean := sample\<rparr>)
      else let oldMean = mq_mean q1;
               mean = util_Smooth oldMean sample (mq_alpha q1);
               variance = util_Smooth (mq_variance q1) ((sample - oldMean) * (sample - mean)) (mq_alpha q1);
               q2 = q1\<lparr>mq_mean := mean, mq_variance := variance\<rparr>;
               delta = sqrt variance * mq_r q2
           in if delta = 0 then (mq_value q2, q2)
              else let value = (if sample < mq_value q2 then mq_value q2 - delta / mq_quantile q2
                                else if sample > mq_value q2 then mq_value q2 + delta / (1 - mq_quantile q2)
                                else mq_value q2)
                   in (value, q2\<lparr>mq_value := value\<rparr>))"

definition MovingQuantile_Reset :: "MovingQuantile \<Rightarrow> MovingQuantile" where
  "MovingQuantile_Reset q = q\<lparr>mq_value := 0, mq_mean := 0, mq_variance := 0, mq_count := 0\<rparr>"

section \<open>Sums\<close>

record MovingSum =
  ms_samples :: "float64 list"
  ms_size :: nat
  ms_index :: nat
  ms_sumY :: float64
  ms_sumSquares :: float64

definition NewMovingSum :: "uint \<Rightarrow> MovingSum" where
  "NewMovingSum capacity =
     \<lparr>ms_samples = replicate (unat capacity) 0, ms_size = 0, ms_index = 0, ms_sumY = 0, ms_sumSquares = 0\<rparr>"

definition MovingSum_Add :: "float64 \<Rightarrow> MovingSum \<Rightarrow> ((float64 \<times> bool) \<times> MovingSum) go" where
  "MovingSum_Add value r =
     (if value = 0 then Inr ((0, False), r)
      else if ms_index r \<ge> length (ms_samples r) then Inl IndexOutOfRange
      else let full = (ms_size r = length (ms_samples r));
               oldValue = (if full then ms_samples r ! ms_index r else 0);
               r1 = (if full then r\<lparr>ms_sumY := ms_sumY r - oldValue, ms_sumSquares := ms_sumSquares r - oldValue * oldValue\<rparr>
                     else r\<lparr>ms_size := ms_size r + 1\<rparr>)
           in Inr ((oldValue, full),
                r1\<lparr>ms_samples := (ms_samples r1)[ms_index r1 := value], ms_sumY := ms_sumY r1 + value,
                   ms_sumSquares := ms_sumSquares r1 + value * value,
                   ms_index := (ms_index r1 + 1) mod length (ms_samples r1)\<rparr>))"

text \<open>\<^verbatim>\<open>CalculateCV\<close>: the coefficient of variation, the mean and the variance, or \<open>None\<close> for three NaNs.\<close>

definition CalculateCV :: "MovingSum \<Rightarrow> (float64 \<times> float64 \<times> float64) option" where
  "CalculateCV r =
     (if ms_size r < 2 then None
      else let mean = ms_sumY r / real (ms_size r);
               variance = ms_sumSquares r / real (ms_size r) - mean * mean
           in if variance < 0 \<or> mean = 0 then None else Some (sqrt variance / mean, mean, variance))"

definition MovingSum_Reset :: "MovingSum \<Rightarrow> MovingSum" where
  "MovingSum_Reset r = r\<lparr>ms_samples := map (\<lambda>_. 0) (ms_samples r), ms_size := 0, ms_index := 0, ms_sumY := 0, ms_sumSquares := 0\<rparr>"

section \<open>Correlations\<close>

record CorrelationWindow =
  cw_warmupSamples :: "8 word"
  cw_xSamples :: MovingSum
  cw_ySamples :: MovingSum
  cw_corrSumXY :: float64

definition NewCorrelationWindow :: "uint \<Rightarrow> 8 word \<Rightarrow> CorrelationWindow" where
  "NewCorrelationWindow capacity warmupSamples =
     \<lparr>cw_warmupSamples = warmupSamples, cw_xSamples = NewMovingSum capacity, cw_ySamples = NewMovingSum capacity, cw_corrSumXY = 0\<rparr>"

text \<open>The result that \<^verbatim>\<open>Add\<close> computes from the updated window.\<close>

definition window_correlation :: "CorrelationWindow \<Rightarrow> float64 \<times> float64 \<times> float64" where
  "window_correlation w =
     (case (CalculateCV (cw_xSamples w), CalculateCV (cw_ySamples w)) of
        (Some (cvX, meanX, varX), Some (cvY, meanY, varY)) \<Rightarrow>
          if ms_size (cw_xSamples w) < unat (cw_warmupSamples w) then (0, 0, 0)
          else if cvX < 1 / 100 \<or> cvY < 1 / 100 then (0, cvX, cvY)
          else let covariance = cw_corrSumXY w / real (ms_size (cw_xSamples w)) - meanX * meanY
               in (covariance / (sqrt varX * sqrt varY), cvX, cvY)
      | _ \<Rightarrow> (0, 0, 0))"

definition CorrelationWindow_Add :: "float64 \<Rightarrow> float64 \<Rightarrow> CorrelationWindow
    \<Rightarrow> ((float64 \<times> float64 \<times> float64) \<times> CorrelationWindow) go" where
  "CorrelationWindow_Add x y w =
     go_bind (MovingSum_Add x (cw_xSamples w)) (\<lambda>((oldX, full), xs).
     go_bind (MovingSum_Add y (cw_ySamples w)) (\<lambda>((oldY, _), ys).
     let w1 = w\<lparr>cw_xSamples := xs, cw_ySamples := ys,
                cw_corrSumXY := (if full then cw_corrSumXY w - oldX * oldY else cw_corrSumXY w) + x * y\<rparr>
     in Inr (window_correlation w1, w1)))"

definition CorrelationWindow_Reset :: "CorrelationWindow \<Rightarrow> CorrelationWindow" where
  "CorrelationWindow_Reset w =
     w\<lparr>cw_xSamples := MovingSum_Reset (cw_xSamples w), cw_ySamples := MovingSum_Reset (cw_ySamples w), cw_corrSumXY := 0\<rparr>"

section \<open>Maxima over time\<close>

record MaxWindow =
  mw_window :: duration
  mw_deque :: "(int \<times> nanotime) list"

definition NewMaxWindow :: "duration \<Rightarrow> MaxWindow" where
  "NewMaxWindow window = \<lparr>mw_window = window, mw_deque = []\<rparr>"

definition Configured :: "MaxWindow \<Rightarrow> bool" where
  "Configured w \<longleftrightarrow> mw_window w > 0"

definition MaxWindow_Value :: "MaxWindow \<Rightarrow> int go" where
  "MaxWindow_Value w =
     (if \<not> Configured w then Inr 0
      else case mw_deque w of [] \<Rightarrow> Inl IndexOutOfRange | (value, _) # _ \<Rightarrow> Inr value)"

definition MaxWindow_Add :: "int \<Rightarrow> nanotime \<Rightarrow> MaxWindow \<Rightarrow> (int \<times> MaxWindow) go" where
  "MaxWindow_Add value now w =
     (let cutoff = now - mw_window w;
          deque = dropWhile (\<lambda>(_, timestamp). \<not> timestamp > cutoff) (mw_deque w);
          deque = rev (dropWhile (\<lambda>(v, _). v \<le> value) (rev deque));
          w' = w\<lparr>mw_deque := deque @ [(value, now)]\<rparr>
      in go_bind (MaxWindow_Value w') (\<lambda>v. Inr (v, w')))"

definition MaxWindow_Reset :: "MaxWindow \<Rightarrow> MaxWindow" where
  "MaxWindow_Reset w = (if Configured w then w\<lparr>mw_deque := []\<rparr> else w)"

section \<open>Logarithms of limits\<close>

text \<open>\<^verbatim>\<open>log10Values\<close> is 1 below 100 and 2 from there to 999; a negative index panics.\<close>

definition log10Values :: "int list" where
  "log10Values = replicate 100 1 @ replicate 900 2"

definition Log10Func :: "int \<Rightarrow> int \<Rightarrow> int go" where
  "Log10Func factor limit =
     (if limit < int (length log10Values)
      then go_bind (slice_index log10Values limit) (\<lambda>k. Inr (i64 (factor * log10Values ! k)))
      else Inr (i64 (factor * float_to_int (log 10 (of_int limit)))))"

section \<open>Ring buffers\<close>

definition last_n :: "nat \<Rightarrow> 'a list \<Rightarrow> 'a list" where
  "last_n n xs = drop (length xs - n) xs"

text \<open>An array of length \<open>n\<close> into which \<open>xs\<close> has been written in turn, and the next index.\<close>

definition ring :: "nat \<Rightarrow> 'a list \<Rightarrow> 'a list \<Rightarrow> nat \<Rightarrow> bool" where
  "ring n xs buf i \<longleftrightarrow> length buf = n \<and> i = length xs mod n
     \<and> (if length xs < n then take (length xs) buf = xs else rotate i buf = last_n n xs)"

lemma last_n_short [simp]: "length xs \<le> n \<Longrightarrow> last_n n xs = xs"
  by (simp add: last_n_def)

lemma length_last_n [simp]: "length (last_n n xs) = min n (length xs)"
  by (simp add: last_n_def)

lemma last_n_snoc:
  assumes "n \<le> length xs" "0 < n"
  shows "last_n n (xs @ [v]) = tl (last_n n xs) @ [v]"
proof -
  have "length xs + 1 - n = Suc (length xs - n)" using assms(1) by simp
  then show ?thesis using assms by (simp add: last_n_def drop_Suc tl_drop)
qed

lemma map_last_n: "map f (last_n n xs) = last_n n (map f xs)"
  by (simp add: last_n_def drop_map)

lemma rotate_update:
  assumes "i < length buf"
  shows "rotate (Suc i mod length buf) (buf[i := v]) = tl (rotate i buf) @ [v]"
proof -
  have "rotate i buf = buf ! i # drop (Suc i) buf @ take i buf"
    using assms by (simp add: rotate_drop_take flip: Cons_nth_drop_Suc)
  moreover have "rotate (Suc i mod length buf) (buf[i := v]) = drop (Suc i) buf @ take i buf @ [v]"
  proof (cases "Suc i = length buf")
    case True
    then show ?thesis using assms by (simp add: upd_conv_take_nth_drop)
  next
    case False
    then have "Suc i < length buf" using assms by simp
    then show ?thesis
      by (simp add: rotate_drop_take upd_conv_take_nth_drop take_Suc_conv_app_nth drop_update_cancel)
  qed
  ultimately show ?thesis by simp
qed

lemma ring_push:
  assumes r: "ring n xs buf i" and n: "0 < n"
  shows "ring n (xs @ [v]) (buf[i := v]) (Suc i mod n)"
proof -
  have l: "length buf = n" "i < n" "i = length xs mod n" using r n by (auto simp: ring_def)
  consider "length xs < n - 1" | "length xs = n - 1" | "n \<le> length xs" by linarith
  then show ?thesis
  proof cases
    case 1
    then have "i = length xs" "take (length xs) buf = xs" using r by (auto simp: ring_def)
    moreover have "Suc (length xs) < n" using 1 by simp
    ultimately show ?thesis using l by (simp add: ring_def take_Suc_conv_app_nth)
  next
    case 2
    then have i: "i = length xs" "take (length xs) buf = xs" using r n by (auto simp: ring_def)
    have "buf[i := v] = xs @ [v]" using i l 2 n by (simp add: upd_conv_take_nth_drop)
    then show ?thesis using l 2 n i by (simp add: ring_def)
  next
    case 3
    then have "rotate i buf = last_n n xs" using r unfolding ring_def by auto
    then have "rotate (Suc i mod n) (buf[i := v]) = last_n n (xs @ [v])"
      using rotate_update[of i buf v] l 3 n by (simp add: last_n_snoc)
    then show ?thesis using l 3 by (simp add: ring_def mod_Suc_eq)
  qed
qed

lemma ring_empty: "ring n [] (replicate n z) 0"
  by (simp add: ring_def last_n_def)

text \<open>The value overwritten in a full buffer is the oldest of the last \<open>n\<close>.\<close>

lemma ring_oldest:
  assumes "ring n xs buf i" "n \<le> length xs" "0 < n"
  shows "buf ! i = hd (last_n n xs)"
proof -
  have i: "i < length buf" "rotate i buf = last_n n xs" using assms by (auto simp: ring_def)
  have "hd (rotate i buf) = buf ! i" using i(1) by (simp add: rotate_drop_take hd_append hd_drop_conv_nth)
  then show ?thesis unfolding i(2) by simp
qed

lemma ring_mset:
  assumes "ring n xs buf i" "n \<le> length xs"
  shows "mset buf = mset (last_n n xs)"
proof -
  have "rotate i buf = last_n n xs" using assms unfolding ring_def by auto
  moreover have "mset (rotate i buf) = mset buf"
    by (metis add.commute append_take_drop_id mset_append rotate_drop_take)
  ultimately show ?thesis by metis
qed

section \<open>Sums over the last samples\<close>

definition sum_inv :: "nat \<Rightarrow> float64 list \<Rightarrow> MovingSum \<Rightarrow> bool" where
  "sum_inv n xs r \<longleftrightarrow> ring n xs (ms_samples r) (ms_index r) \<and> ms_size r = min n (length xs)
     \<and> ms_sumY r = sum_list (last_n n xs) \<and> ms_sumSquares r = sum_list (map (\<lambda>x. x * x) (last_n n xs))"

lemma sum_inv_new: "sum_inv (unat n) [] (NewMovingSum n)"
  by (simp add: sum_inv_def NewMovingSum_def ring_empty)

lemma last_n_Cons: "n \<le> length xs \<Longrightarrow> 0 < n \<Longrightarrow> last_n n xs = hd (last_n n xs) # tl (last_n n xs)"
  by (cases "last_n n xs") (auto simp flip: length_0_conv)

lemma sum_last_n_snoc:
  fixes f :: "'a \<Rightarrow> real"
  assumes "0 < n"
  shows "sum_list (map f (last_n n (xs @ [v]))) =
     sum_list (map f (last_n n xs)) - (if n \<le> length xs then f (hd (last_n n xs)) else 0) + f v"
proof (cases "n \<le> length xs")
  case True
  then have "sum_list (map f (last_n n xs)) = f (hd (last_n n xs)) + sum_list (map f (tl (last_n n xs)))"
    using last_n_Cons[OF True assms] by (metis list.simps(9) sum_list.Cons)
  with True assms show ?thesis by (simp add: last_n_snoc)
qed simp

lemma MovingSum_Add_step:
  assumes "0 < n" "v \<noteq> 0" and r: "sum_inv n xs r"
  shows "\<exists>r'. MovingSum_Add v r = Inr ((if n \<le> length xs then hd (last_n n xs) else 0, n \<le> length xs), r') \<and> sum_inv n (xs @ [v]) r'"
proof -
  have ring: "ring n xs (ms_samples r) (ms_index r)" and size: "ms_size r = min n (length xs)" using r by (auto simp: sum_inv_def)
  then have l: "length (ms_samples r) = n" "ms_index r < n" using assms(1) by (auto simp: ring_def)
  have old: "ms_samples r ! ms_index r = hd (last_n n xs)" if "n \<le> length xs" using ring_oldest[OF ring that assms(1)] .
  note push = ring_push[OF ring assms(1), of v]
  note sums = sum_last_n_snoc[OF assms(1), of "\<lambda>x. x" xs v] sum_last_n_snoc[OF assms(1), of "\<lambda>x. x * x" xs v]
  show ?thesis
    using r assms(2) l size old push sums
    by (cases "n \<le> length xs") (auto simp: MovingSum_Add_def sum_inv_def Let_def min_def)
qed

section \<open>Correlations of the last samples\<close>

fun corr_all :: "CorrelationWindow \<Rightarrow> (float64 \<times> float64) list \<Rightarrow> CorrelationWindow go" where
  "corr_all w [] = Inr w"
| "corr_all w ((x, y) # ps) = go_bind (CorrelationWindow_Add x y w) (\<lambda>(_, w'). corr_all w' ps)"

definition corr_inv :: "nat \<Rightarrow> (float64 \<times> float64) list \<Rightarrow> CorrelationWindow \<Rightarrow> bool" where
  "corr_inv n ps w \<longleftrightarrow> sum_inv n (map fst ps) (cw_xSamples w) \<and> sum_inv n (map snd ps) (cw_ySamples w)
     \<and> cw_corrSumXY w = sum_list (map (\<lambda>(x, y). x * y) (last_n n ps))"

definition nonzero_pair :: "float64 \<times> float64 \<Rightarrow> bool" where
  "nonzero_pair p \<longleftrightarrow> fst p \<noteq> 0 \<and> snd p \<noteq> 0"

text \<open>Mean, variance, covariance and Pearson's correlation coefficient of a list.\<close>

definition mean_of :: "float64 list \<Rightarrow> float64" where
  "mean_of xs = sum_list xs / real (length xs)"

definition cov_of :: "(float64 \<times> float64) list \<Rightarrow> float64" where
  "cov_of ps = sum_list (map (\<lambda>(x, y). x * y) ps) / real (length ps) - mean_of (map fst ps) * mean_of (map snd ps)"

definition var_of :: "float64 list \<Rightarrow> float64" where
  "var_of xs = cov_of (map (\<lambda>x. (x, x)) xs)"

definition pearson :: "(float64 \<times> float64) list \<Rightarrow> float64" where
  "pearson ps = cov_of ps / (sqrt (var_of (map fst ps)) * sqrt (var_of (map snd ps)))"

lemma var_alt: "var_of xs = sum_list (map (\<lambda>x. x * x) xs) / real (length xs) - mean_of xs * mean_of xs"
  by (simp add: var_of_def cov_of_def comp_def)

lemma square_sum_le: "(sum_list xs)\<^sup>2 \<le> real (length xs) * sum_list (map (\<lambda>x. x * x) (xs :: real list))"
proof (induction xs)
  case (Cons d xs)
  define s q and m :: real where "s = sum_list xs" and "q = sum_list (map (\<lambda>x. x * x) xs)" and "m = real (length xs)"
  have ih: "s\<^sup>2 \<le> m * q" using Cons.IH by (simp add: s_def q_def m_def)
  have q: "0 \<le> q" unfolding q_def by (rule sum_list_nonneg) auto
  have "2 * s * d \<le> m * d\<^sup>2 + q"
  proof (cases "m = 0")
    case False
    then have m: "0 < m" by (simp add: m_def)
    have "0 \<le> (m * d - s)\<^sup>2" by simp
    then have "2 * m * s * d \<le> m\<^sup>2 * d\<^sup>2 + s\<^sup>2" by (simp add: power2_eq_square algebra_simps)
    also have "\<dots> \<le> m * (m * d\<^sup>2 + q)" using ih by (simp add: power2_eq_square algebra_simps)
    finally have "m * (2 * s * d) \<le> m * (m * d\<^sup>2 + q)" by (simp add: mult_ac)
    then show ?thesis using m by simp
  qed (use ih q in simp)
  then have "(d + s)\<^sup>2 \<le> (1 + m) * (d * d + q)" using ih by (simp add: power2_eq_square algebra_simps)
  then show ?case by (simp add: s_def q_def m_def)
qed simp

lemma var_nonneg: "xs \<noteq> [] \<Longrightarrow> 0 \<le> var_of xs"
proof -
  assume "xs \<noteq> []"
  then have n: "0 < real (length xs)" by simp
  have "var_of xs = (real (length xs) * sum_list (map (\<lambda>x. x * x) xs) - (sum_list xs)\<^sup>2) / (real (length xs))\<^sup>2"
    using n by (simp add: var_alt mean_of_def power2_eq_square field_simps)
  then show ?thesis using square_sum_le[of xs] by simp
qed

text \<open>The variance of \<open>x - l y\<close> is not negative for any \<open>l\<close>, which is the inequality of Cauchy and Schwarz.\<close>

lemma var_combination:
  assumes "ps \<noteq> []"
  shows "var_of (map (\<lambda>(x, y). x - l * y) ps) = var_of (map fst ps) - 2 * l * cov_of ps + l\<^sup>2 * var_of (map snd ps)"
proof -
  let ?n = "real (length ps)"
  let ?s = "\<lambda>f. sum_list (map f ps) / ?n"
  have s1: "sum_list (map (\<lambda>(x, y). x - l * y) ps) = sum_list (map fst ps) - l * sum_list (map snd ps)"
    and s2: "sum_list (map (\<lambda>p. (fst p - l * snd p) * (fst p - l * snd p)) ps) = sum_list (map (\<lambda>p. fst p * fst p) ps)
      - 2 * l * sum_list (map (\<lambda>(x, y). x * y) ps) + l\<^sup>2 * sum_list (map (\<lambda>p. snd p * snd p) ps)"
    by (induction ps) (auto simp: algebra_simps power2_eq_square)
  have eq: "(\<lambda>(x, y). x - l * y) = (\<lambda>p. fst p - l * snd p)" by (simp add: fun_eq_iff split_beta)
  show ?thesis
    unfolding var_alt cov_of_def mean_of_def length_map map_map comp_def s1[unfolded eq] s2 eq
    by (simp add: diff_divide_distrib add_divide_distrib power2_eq_square algebra_simps)
qed

lemma cauchy_schwarz:
  assumes "ps \<noteq> []" "0 < var_of (map fst ps)" "0 < var_of (map snd ps)"
  shows "\<bar>pearson ps\<bar> \<le> 1"
proof -
  define c a b where "c = cov_of ps" and "a = var_of (map fst ps)" and "b = var_of (map snd ps)"
  have pos: "0 < a" "0 < b" using assms by (simp_all add: a_def b_def)
  have "0 \<le> var_of (map (\<lambda>(x, y). x - (c / b) * y) ps)" by (rule var_nonneg) (use assms(1) in simp)
  then have "0 \<le> a - 2 * (c / b) * c + (c / b)\<^sup>2 * b"
    unfolding var_combination[OF assms(1)] a_def[symmetric] b_def[symmetric] c_def[symmetric] .
  then have "c\<^sup>2 \<le> a * b" using pos by (simp add: power2_eq_square field_simps)
  then have "\<bar>c\<bar> \<le> sqrt (a * b)" by (metis real_sqrt_abs real_sqrt_le_iff)
  then have "\<bar>c / (sqrt a * sqrt b)\<bar> \<le> 1" using pos by (simp add: real_sqrt_mult abs_mult)
  then show ?thesis by (simp add: pearson_def a_def b_def c_def)
qed

lemma CalculateCV_exact:
  assumes "sum_inv n xs r" "CalculateCV r = Some (cv, m, v)"
  shows "m = mean_of (last_n n xs)" "v = var_of (last_n n xs)" "cv = sqrt v / m" "last_n n xs \<noteq> []" "ms_size r = length (last_n n xs)"
  using assms by (auto simp: CalculateCV_def sum_inv_def Let_def mean_of_def var_alt split: if_splits)

text \<open>One step: the windows hold the last pairs, and the result is zero or their correlation coefficient.\<close>

lemma CorrelationWindow_Add_step:
  assumes n: "0 < n" and p: "nonzero_pair (x, y)" and w: "corr_inv n ps w"
  shows "\<exists>c cvX cvY w'. CorrelationWindow_Add x y w = Inr ((c, cvX, cvY), w') \<and> corr_inv n (ps @ [(x, y)]) w'
     \<and> \<bar>c\<bar> \<le> 1 \<and> (c \<noteq> 0 \<longrightarrow> c = pearson (last_n n (ps @ [(x, y)])))"
proof -
  let ?ps = "ps @ [(x, y)]"
  have inv: "sum_inv n (map fst ps) (cw_xSamples w)" "sum_inv n (map snd ps) (cw_ySamples w)" using w by (auto simp: corr_inv_def)
  obtain xs where xs: "MovingSum_Add x (cw_xSamples w) = Inr ((if n \<le> length ps then hd (last_n n (map fst ps)) else 0, n \<le> length ps), xs)"
      "sum_inv n (map fst ?ps) xs"
    using MovingSum_Add_step[OF n _ inv(1), of x] p by (auto simp: nonzero_pair_def)
  obtain ys where ys: "MovingSum_Add y (cw_ySamples w) = Inr ((if n \<le> length ps then hd (last_n n (map snd ps)) else 0, n \<le> length ps), ys)"
      "sum_inv n (map snd ?ps) ys"
    using MovingSum_Add_step[OF n _ inv(2), of y] p by (auto simp: nonzero_pair_def)
  let ?ox = "if n \<le> length ps then hd (last_n n (map fst ps)) else 0" and ?oy = "if n \<le> length ps then hd (last_n n (map snd ps)) else 0"
  define w1 where "w1 = w\<lparr>cw_xSamples := xs, cw_ySamples := ys,
      cw_corrSumXY := (if n \<le> length ps then cw_corrSumXY w - ?ox * ?oy else cw_corrSumXY w) + x * y\<rparr>"
  have w1: "cw_xSamples w1 = xs" "cw_ySamples w1 = ys" by (simp_all add: w1_def)
  have hd: "hd (last_n n (map fst ps)) = fst (hd (last_n n ps))" "hd (last_n n (map snd ps)) = snd (hd (last_n n ps))" if "n \<le> length ps"
    using last_n_Cons[OF that n] by (metis hd_map list.distinct(1) map_last_n)+
  have sum: "cw_corrSumXY w1 = sum_list (map (\<lambda>(x, y). x * y) (last_n n ?ps))"
    using w hd sum_last_n_snoc[OF n, of "\<lambda>(x, y). x * y" ps "(x, y)"] by (auto simp: corr_inv_def w1_def split_beta)
  have inv1: "corr_inv n ?ps w1" using xs(2) ys(2) sum by (simp add: corr_inv_def w1_def)
  have maps: "last_n n (map fst ?ps) = map fst (last_n n ?ps)" "last_n n (map snd ?ps) = map snd (last_n n ?ps)" by (simp_all only: map_last_n)
  define res where "res = window_correlation w1"
  have add: "CorrelationWindow_Add x y w = Inr (res, w1)"
    unfolding CorrelationWindow_Add_def xs(1) ys(1) go_bind.simps prod.case Let_def res_def w1_def ..
  have "fst res = 0 \<or> fst res = pearson (last_n n ?ps) \<and> \<bar>fst res\<bar> \<le> 1"
  proof (rule disjCI)
    assume nz: "\<not> (fst res = pearson (last_n n ?ps) \<and> \<bar>fst res\<bar> \<le> 1)"
    show "fst res = 0"
    proof (rule ccontr)
      assume r0: "fst res \<noteq> 0"
      then obtain cvX mx vx cvY my vy where cv: "CalculateCV xs = Some (cvX, mx, vx)" "CalculateCV ys = Some (cvY, my, vy)"
        by (auto simp: res_def window_correlation_def w1 split: option.splits)
      have big: "1 / 100 \<le> cvX" "1 / 100 \<le> cvY" and val: "fst res = (cw_corrSumXY w1 / real (ms_size xs) - mx * my) / (sqrt vx * sqrt vy)"
        using r0 cv by (auto simp: res_def window_correlation_def w1 Let_def split: if_splits)
      note ex = CalculateCV_exact[OF xs(2) cv(1), unfolded maps] and ey = CalculateCV_exact[OF ys(2) cv(2), unfolded maps]
      have "vx \<noteq> 0" "vy \<noteq> 0" using big ex(3) ey(3) by auto
      moreover have "0 \<le> vx" "0 \<le> vy" using ex(2,4) ey(2,4) var_nonneg by simp_all
      ultimately have "0 < vx" "0 < vy" by simp_all
      then have "\<bar>pearson (last_n n ?ps)\<bar> \<le> 1" using cauchy_schwarz[of "last_n n ?ps"] ex(2,4) ey(2) by simp
      moreover have "fst res = pearson (last_n n ?ps)"
        using val ex ey sum by (simp add: pearson_def cov_of_def)
      ultimately show False using nz by simp
    qed
  qed
  with add inv1 show ?thesis by (cases res) auto
qed

lemma corr_all_inv:
  assumes "0 < n" "\<forall>p \<in> set qs. nonzero_pair p" "corr_inv n ps w"
  shows "\<exists>w'. corr_all w qs = Inr w' \<and> corr_inv n (ps @ qs) w'"
  using assms(2,3)
proof (induction qs arbitrary: ps w)
  case (Cons q qs)
  obtain x y where q: "q = (x, y)" by (cases q)
  obtain c cvX cvY w1 where "CorrelationWindow_Add x y w = Inr ((c, cvX, cvY), w1)" "corr_inv n (ps @ [q]) w1"
    using CorrelationWindow_Add_step[OF assms(1) _ Cons.prems(2), of x y] Cons.prems(1) unfolding q by (meson list.set_intros(1))
  with Cons.IH[of "ps @ [q]" w1] Cons.prems(1) q show ?case by simp
qed simp

lemma corr_inv_new: "corr_inv (unat n) [] (NewCorrelationWindow n k)"
  by (simp add: corr_inv_def NewCorrelationWindow_def sum_inv_new)

section \<open>The maximum window as a list of suffix maxima\<close>

text \<open>The entries of a list that exceed every later one.\<close>

fun suffix_maxima :: "(int \<times> nanotime) list \<Rightarrow> (int \<times> nanotime) list" where
  "suffix_maxima [] = []"
| "suffix_maxima (e # es) = (if \<forall>e' \<in> set es. fst e' < fst e then e # suffix_maxima es else suffix_maxima es)"

definition live :: "duration \<Rightarrow> nanotime \<Rightarrow> (int \<times> nanotime) list \<Rightarrow> (int \<times> nanotime) list" where
  "live window now = filter (\<lambda>(_, t). now - window < t)"

lemma suffix_maxima_subset: "set (suffix_maxima es) \<subseteq> set es"
  by (induction es) auto

lemma suffix_maxima_snoc:
  "suffix_maxima (es @ [e]) = filter (\<lambda>e'. fst e < fst e') (suffix_maxima es) @ [e]"
  by (induction es) auto

lemma suffix_maxima_decreasing: "sorted_wrt (\<lambda>a b. fst b < fst a) (suffix_maxima es)"
  using suffix_maxima_subset by (induction es) force+

lemma drop_back_filter:
  "sorted_wrt (\<lambda>a b. fst b < fst a) (es :: (int \<times> nanotime) list) \<Longrightarrow> rev (dropWhile (\<lambda>(v, _). v \<le> value) (rev es)) = filter (\<lambda>e. value < fst e) es"
proof (induction es rule: rev_induct)
  case (snoc e es)
  show ?case
  proof (cases "fst e \<le> value")
    case True
    then show ?thesis using snoc by (cases e) (simp add: sorted_wrt_append not_less)
  next
    case False
    then have "\<forall>e' \<in> set es. value < fst e'" using snoc.prems by (fastforce simp: sorted_wrt_append)
    then show ?thesis using False by (cases e) simp
  qed
qed simp

lemma drop_front_filter:
  "sorted (map snd es) \<Longrightarrow> dropWhile (\<lambda>(_, t). \<not> t > (c :: int)) es = filter (\<lambda>(_, t). c < t) es"
proof (induction es)
  case (Cons e es)
  show ?case
  proof (cases "c < snd e")
    case True
    then have "\<forall>e' \<in> set es. c < snd e'" using Cons.prems by auto
    then have "filter (\<lambda>(_, t). c < t) es = es" by (simp add: filter_id_conv split_beta)
    then show ?thesis using True by (cases e) simp
  qed (use Cons in \<open>cases e; simp\<close>)
qed simp

lemma suffix_maxima_live:
  "sorted (map snd es) \<Longrightarrow> suffix_maxima (live d now es) = live d now (suffix_maxima es)"
proof (induction es)
  case (Cons e es)
  show ?case
  proof (cases "now - d < snd e")
    case True
    then have "\<forall>e' \<in> set es. now - d < snd e'" using Cons.prems by auto
    then have "live d now es = es" by (simp add: live_def filter_id_conv split_beta)
    then show ?thesis using True Cons by (cases e) (simp add: live_def)
  qed (use Cons in \<open>cases e; simp add: live_def\<close>)
qed (simp add: live_def)

lemma sorted_suffix_maxima: "sorted (map snd es) \<Longrightarrow> sorted (map snd (suffix_maxima es))"
  using suffix_maxima_subset by (induction es) fastforce+

lemma hd_suffix_maxima: "es \<noteq> [] \<Longrightarrow> suffix_maxima es \<noteq> [] \<and> fst (hd (suffix_maxima es)) = Max (fst ` set es)"
proof (induction es)
  case (Cons e es)
  show ?case
  proof (cases "\<forall>e' \<in> set es. fst e' < fst e")
    case True
    then have "Max (fst ` set (e # es)) = fst e" by (intro Max_eqI) auto
    with True show ?thesis by simp
  next
    case False
    then obtain e' where e': "e' \<in> set es" "fst e \<le> fst e'" by (auto simp: not_less)
    then have "es \<noteq> []" by auto
    have "fst e' \<le> Max (fst ` set es)" using e' by (intro Max_ge) auto
    then have "Max (fst ` set (e # es)) = Max (fst ` set es)" using \<open>es \<noteq> []\<close> e'(2) by (simp add: max_def)
    with e' Cons.IH \<open>es \<noteq> []\<close> show ?thesis by (auto simp: not_less)
  qed
qed simp

fun max_all :: "MaxWindow \<Rightarrow> (int \<times> nanotime) list \<Rightarrow> MaxWindow go" where
  "max_all w [] = Inr w"
| "max_all w ((v, t) # es) = go_bind (MaxWindow_Add v t w) (\<lambda>(_, w'). max_all w' es)"

lemma live_live: "t \<le> t' \<Longrightarrow> live d t' (live d t es) = live d t' es"
  by (auto simp: live_def intro!: filter_cong)

text \<open>The deque holds the suffix maxima of the entries within the window.\<close>

lemma MaxWindow_Add_step:
  assumes w: "0 < mw_window w" "mw_deque w = suffix_maxima (live (mw_window w) t0 es)"
    and s: "sorted (map snd (es @ [(v, t)]))" "t0 \<le> t"
  shows "\<exists>w'. MaxWindow_Add v t w = Inr (Max (fst ` set (live (mw_window w) t (es @ [(v, t)]))), w')
     \<and> mw_window w' = mw_window w \<and> mw_deque w' = suffix_maxima (live (mw_window w) t (es @ [(v, t)]))"
proof -
  let ?d = "mw_window w"
  have es: "sorted (map snd es)" using s(1) by (simp add: sorted_append)
  then have l: "sorted (map snd (live ?d t0 es))" by (simp add: live_def sorted_filter)
  have "dropWhile (\<lambda>(_, timestamp). \<not> timestamp > t - ?d) (mw_deque w) = live ?d t (mw_deque w)"
    unfolding live_def by (rule drop_front_filter) (use w(2) sorted_suffix_maxima[OF l] in simp)
  also have "\<dots> = suffix_maxima (live ?d t es)" by (simp add: w(2) live_live[OF s(2)] flip: suffix_maxima_live[OF l])
  finally have front: "dropWhile (\<lambda>(_, timestamp). \<not> timestamp > t - ?d) (mw_deque w) = suffix_maxima (live ?d t es)" .
  have "live ?d t (es @ [(v, t)]) = live ?d t es @ [(v, t)]" using w(1) by (simp add: live_def)
  then have rear: "rev (dropWhile (\<lambda>(u, _). u \<le> v) (rev (suffix_maxima (live ?d t es)))) @ [(v, t)]
      = suffix_maxima (live ?d t (es @ [(v, t)]))"
    by (simp add: drop_back_filter[OF suffix_maxima_decreasing] suffix_maxima_snoc)
  define w' where "w' = w\<lparr>mw_deque := suffix_maxima (live ?d t (es @ [(v, t)]))\<rparr>"
  have "live ?d t (es @ [(v, t)]) \<noteq> []" using w(1) by (simp add: live_def)
  from hd_suffix_maxima[OF this] have "MaxWindow_Value w' = Inr (Max (fst ` set (live ?d t (es @ [(v, t)]))))"
    using w(1) by (cases "suffix_maxima (live ?d t (es @ [(v, t)]))") (auto simp: MaxWindow_Value_def Configured_def w'_def)
  then have "MaxWindow_Add v t w = Inr (Max (fst ` set (live ?d t (es @ [(v, t)]))), w')"
    unfolding MaxWindow_Add_def Let_def front rear w'_def[symmetric] by simp
  then show ?thesis by (auto simp: w'_def)
qed

lemma max_all_inv:
  assumes "0 < mw_window w" "mw_deque w = suffix_maxima (live (mw_window w) t0 es)" "\<forall>e \<in> set fs. t0 \<le> snd e"
    "sorted (map snd (es @ fs))"
  shows "\<exists>w'. max_all w fs = Inr w' \<and> mw_window w' = mw_window w
     \<and> mw_deque w' = suffix_maxima (live (mw_window w) (if fs = [] then t0 else snd (last fs)) (es @ fs))"
  using assms
proof (induction fs arbitrary: w es t0)
  case (Cons f fs)
  obtain v t where f: "f = (v, t)" by (cases f)
  have "sorted (map snd (es @ [(v, t)]))" "t0 \<le> t" "\<forall>e \<in> set fs. t \<le> snd e" "sorted (map snd ((es @ [(v, t)]) @ fs))"
    using Cons.prems(3,4) f by (auto simp: sorted_append)
  note s = this
  obtain w' where w': "MaxWindow_Add v t w = Inr (Max (fst ` set (live (mw_window w) t (es @ [(v, t)]))), w')"
     "mw_window w' = mw_window w" "mw_deque w' = suffix_maxima (live (mw_window w) t (es @ [(v, t)]))"
    using MaxWindow_Add_step[OF Cons.prems(1,2) s(1,2)] by blast
  have "\<exists>w''. max_all w' fs = Inr w'' \<and> mw_window w'' = mw_window w'
     \<and> mw_deque w'' = suffix_maxima (live (mw_window w') (if fs = [] then t else snd (last fs)) ((es @ [(v, t)]) @ fs))"
    by (rule Cons.IH) (use w' Cons.prems(1) s in simp_all)
  then show ?case using w' f by auto
qed simp

section \<open>Properties\<close>

text \<open>
  C24. With times that do not run backwards, a maximum window returns from every \<^verbatim>\<open>Add\<close> the maximum of the
  values that were added within the window's duration before the new value, that one included.
\<close>

theorem max_window_exact:
  assumes "0 < window" "sorted (map snd (es @ [(v, t)]))"
  shows "\<exists>w w'. max_all (NewMaxWindow window) es = Inr w
    \<and> MaxWindow_Add v t w = Inr (Max {v'. \<exists>t'. (v', t') \<in> set (es @ [(v, t)]) \<and> t - window < t'}, w')"
proof -
  let ?t0 = "case es of [] \<Rightarrow> t | (_, t') # _ \<Rightarrow> t'"
  have es: "sorted (map snd es)" "\<forall>e \<in> set es. snd e \<le> t" using assms(2) by (auto simp: sorted_append)
  then have "\<forall>e \<in> set es. ?t0 \<le> snd e" by (cases es) auto
  then obtain w where w: "max_all (NewMaxWindow window) es = Inr w" "mw_window w = window"
      "mw_deque w = suffix_maxima (live window (if es = [] then ?t0 else snd (last es)) es)"
    using max_all_inv[of "NewMaxWindow window" ?t0 "[]" es] assms(1) es(1) by (auto simp: NewMaxWindow_def live_def)
  have "(if es = [] then ?t0 else snd (last es)) \<le> t" using es(2) by auto
  moreover have "fst ` set (live window t (es @ [(v, t)])) = {v'. \<exists>t'. (v', t') \<in> set (es @ [(v, t)]) \<and> t - window < t'}"
    by (force simp: live_def image_iff)
  ultimately show ?thesis
    using MaxWindow_Add_step[of w _ es v t] w assms by fastforce
qed

theorem max_window_exact_witness:
  "\<exists>w w'. max_all (NewMaxWindow 10) [(7, 1), (3, 5)] = Inr w \<and> MaxWindow_Add 2 12 w = Inr (3, w')"
proof -
  have "{v'. \<exists>t'. (v', t') \<in> set ([(7, 1), (3, 5)] @ [(2, 12)]) \<and> (12 :: int) - 10 < t'} = {3, 2 :: int}" by auto
  moreover have "Max {3, 2 :: int} = 3" by simp
  ultimately show ?thesis using max_window_exact[of 10 "[(7, 1), (3, 5)]" 2 12] by simp
qed

text \<open>
  A correlation window with positive capacity that is only given finite, non-zero values returns a
  correlation between -1 and 1: zero, or Pearson's correlation coefficient of the last pairs.
\<close>

theorem correlation_exact:
  assumes "0 < capacity" "\<forall>p \<in> set (ps @ [(x, y)]). nonzero_pair p"
  shows "\<exists>w c cvX cvY w'. corr_all (NewCorrelationWindow capacity warmup) ps = Inr w
    \<and> CorrelationWindow_Add x y w = Inr ((c, cvX, cvY), w') \<and> - 1 \<le> c \<and> c \<le> 1
    \<and> (c \<noteq> 0 \<longrightarrow> c = pearson (last_n (unat capacity) (ps @ [(x, y)])))"
proof -
  have n: "0 < unat capacity" using assms(1) by (simp add: unat_gt_0)
  obtain w where w: "corr_all (NewCorrelationWindow capacity warmup) ps = Inr w" "corr_inv (unat capacity) ps w"
    using corr_all_inv[OF n _ corr_inv_new, of ps warmup] assms(2) by auto
  have "nonzero_pair (x, y)" using assms(2) by simp
  from CorrelationWindow_Add_step[OF n this w(2)] w(1) show ?thesis by (fastforce simp: abs_le_iff)
qed

theorem correlation_exact_witness:
  "\<exists>w c cvX cvY w'. corr_all (NewCorrelationWindow 3 0) [(1, 2), (2, 4)] = Inr w
    \<and> CorrelationWindow_Add 3 6 w = Inr ((c, cvX, cvY), w') \<and> - 1 \<le> c \<and> c \<le> 1"
  using correlation_exact[of 3 "[(1, 2), (2, 4)]" 3 6 0] by (auto simp: nonzero_pair_def)

text \<open>
  A zero is skipped by the window that it is added to, but not by the other one, and the two windows
  then pair values that were not added together: the result leaves the range from -1 to 1 that the
  code documents.
\<close>

theorem correlation_zero_misaligns:
  "\<exists>w c cvX cvY w'. corr_all (NewCorrelationWindow 3 0) [(0, 1), (1, 10)] = Inr w
    \<and> CorrelationWindow_Add 2 20 w = Inr ((c, cvX, cvY), w') \<and> 2 < c"
proof -
  define xs where "xs = \<lparr>ms_samples = [1, 2, 0], ms_size = Suc (Suc 0), ms_index = Suc (Suc 0), ms_sumY = 3, ms_sumSquares = 5 :: real\<rparr>"
  define ys where "ys = \<lparr>ms_samples = [1, 10, 20], ms_size = Suc (Suc (Suc 0)), ms_index = 0, ms_sumY = 31, ms_sumSquares = 501 :: real\<rparr>"
  define w' where "w' = \<lparr>cw_warmupSamples = 0, cw_xSamples = xs, cw_ySamples = ys, cw_corrSumXY = 50\<rparr>"
  let ?w = "\<lambda>x y c. \<lparr>cw_warmupSamples = 0, cw_xSamples = x, cw_ySamples = y, cw_corrSumXY = c\<rparr> :: CorrelationWindow"
  let ?s = "\<lambda>b n i s q. \<lparr>ms_samples = b, ms_size = n, ms_index = i, ms_sumY = s, ms_sumSquares = q\<rparr> :: MovingSum"
  note add = CorrelationWindow_Add_def MovingSum_Add_def Let_def
  have "unat (3 :: uint) = Suc (Suc (Suc 0))" by simp
  then have three: "replicate (unat (3 :: uint)) 0 = [0, 0, 0 :: real]" by (simp only: replicate.simps)
  have "NewCorrelationWindow 3 0 = ?w (?s [0, 0, 0] 0 0 0 0) (?s [0, 0, 0] 0 0 0 0) 0"
    unfolding NewCorrelationWindow_def NewMovingSum_def three ..
  moreover have "CorrelationWindow_Add 0 1 (?w (?s [0, 0, 0] 0 0 0 0) (?s [0, 0, 0] 0 0 0 0) 0)
      = Inr (window_correlation (?w (?s [0, 0, 0] 0 0 0 0) (?s [1, 0, 0] 1 (Suc 0) 1 1) 0), ?w (?s [0, 0, 0] 0 0 0 0) (?s [1, 0, 0] 1 (Suc 0) 1 1) 0)"
    by (simp add: add)
  moreover have "CorrelationWindow_Add 1 10 (?w (?s [0, 0, 0] 0 0 0 0) (?s [1, 0, 0] 1 (Suc 0) 1 1) 0)
      = Inr (window_correlation (?w (?s [1, 0, 0] 1 (Suc 0) 1 1) (?s [1, 10, 0] (Suc (Suc 0)) (Suc (Suc 0)) 11 101) 10),
          ?w (?s [1, 0, 0] 1 (Suc 0) 1 1) (?s [1, 10, 0] (Suc (Suc 0)) (Suc (Suc 0)) 11 101) 10)"
    by (simp add: add)
  moreover have "CorrelationWindow_Add 2 20 (?w (?s [1, 0, 0] 1 (Suc 0) 1 1) (?s [1, 10, 0] (Suc (Suc 0)) (Suc (Suc 0)) 11 101) 10)
      = Inr (window_correlation w', w')"
    by (simp add: add w'_def xs_def ys_def)
  ultimately have run: "\<exists>w. corr_all (NewCorrelationWindow 3 0) [(0, 1), (1, 10)] = Inr w \<and> CorrelationWindow_Add 2 20 w = Inr (window_correlation w', w')"
    by auto
  have cv: "CalculateCV xs = Some (sqrt (1 / 4) / (3 / 2), 3 / 2, 1 / 4)" "CalculateCV ys = Some (sqrt (542 / 9) / (31 / 3), 31 / 3, 542 / 9)"
    by (simp_all add: CalculateCV_def xs_def ys_def Let_def)
  have half: "sqrt (1 / 4) = 1 / (2 :: real)" by (simp add: real_sqrt_divide)
  have root: "1 < sqrt (542 / 9)" "sqrt (542 / 9) < 8" by (simp, rule real_less_lsqrt) (simp_all add: power2_eq_square)
  have small: "31 \<le> 300 * sqrt (542 / 9)" using root(1) by linarith
  have "window_correlation w' = (19 / sqrt (542 / 9), 1 / 3, sqrt (542 / 9) / (31 / 3))"
    using root(1) small by (simp add: window_correlation_def w'_def cv half Let_def) (simp add: xs_def)
  moreover have "2 < 19 / sqrt (542 / 9)" using root by (simp add: field_simps)
  ultimately show ?thesis using run by (metis (no_types))
qed

fun median_all :: "MovingMedian \<Rightarrow> float64 list \<Rightarrow> MovingMedian go" where
  "median_all m [] = Inr m"
| "median_all m (v # vs) = go_bind (MovingMedian_Add v m) (\<lambda>(_, m'). median_all m' vs)"

definition median_inv :: "nat \<Rightarrow> float64 list \<Rightarrow> MovingMedian \<Rightarrow> bool" where
  "median_inv n vs m \<longleftrightarrow> ring n vs (mm_values m) (mm_index m) \<and> mm_size m = min (n - 1) (length vs)"

lemma sort_ring: "ring n vs buf i \<Longrightarrow> n \<le> length vs \<Longrightarrow> sort buf = sort (last_n n vs)"
  using properties_for_sort[of "sort (last_n n vs)" buf] ring_mset[of n vs buf i] by simp

lemma MovingMedian_Add_step:
  assumes n: "0 < n" and m: "median_inv n vs m"
  shows "\<exists>m'. MovingMedian_Add v m = Inr (if length vs < n - 1 then v else sort (last_n n (vs @ [v])) ! (n div 2), m') \<and> median_inv n (vs @ [v]) m'"
proof -
  have ring: "ring n vs (mm_values m) (mm_index m)" and size: "mm_size m = min (n - 1) (length vs)" using m by (auto simp: median_inv_def)
  then have l: "length (mm_values m) = n" "mm_index m < n" using n by (auto simp: ring_def)
  note push = ring_push[OF ring n, of v]
  define m1 where "m1 = m\<lparr>mm_values := (mm_values m)[mm_index m := v], mm_index := Suc (mm_index m) mod n\<rparr>"
  have add: "MovingMedian_Add v m = (if mm_size m < n - 1 then Inr (v, m1\<lparr>mm_size := mm_size m + 1\<rparr>)
      else go_bind (Median (m1\<lparr>mm_sorted := sort (mm_values m1)\<rparr>)) (\<lambda>u. Inr (u, m1\<lparr>mm_sorted := sort (mm_values m1)\<rparr>)))"
    using l n by (auto simp: MovingMedian_Add_def m1_def Let_def)
  show ?thesis
  proof (cases "length vs < n - 1")
    case True
    then show ?thesis using add size push by (auto simp: median_inv_def m1_def)
  next
    case False
    then have full: "n \<le> length (vs @ [v])" by simp
    have "sort (mm_values m1) = sort (last_n n (vs @ [v]))" using sort_ring[OF push full] by (simp add: m1_def)
    moreover have "length (mm_values m1) = n" using l by (simp add: m1_def)
    ultimately have "Median (m1\<lparr>mm_sorted := sort (mm_values m1)\<rparr>) = Inr (sort (last_n n (vs @ [v])) ! (n div 2))"
      using size False n full by (simp add: Median_def m1_def slice_index_def div_less_dividend)
    then show ?thesis using add size push False by (auto simp: median_inv_def m1_def)
  qed
qed

lemma median_all_inv:
  assumes "0 < n" "median_inv n vs m"
  shows "\<exists>m'. median_all m us = Inr m' \<and> median_inv n (vs @ us) m'"
  using assms(2)
proof (induction us arbitrary: vs m)
  case (Cons u us)
  obtain r m1 where "MovingMedian_Add u m = Inr (r, m1)" "median_inv n (vs @ [u]) m1"
    using MovingMedian_Add_step[OF assms(1) Cons.prems] by blast
  with Cons.IH[of "vs @ [u]" m1] show ?case by simp
qed simp

text \<open>
  A moving median over a window of \<open>n\<close> values returns the value itself from an \<^verbatim>\<open>Add\<close> that finds fewer
  than \<open>n - 1\<close> earlier ones, and otherwise the element at \<open>n div 2\<close> of the last \<open>n\<close> values in order.
\<close>

theorem moving_median_exact:
  assumes "0 < n"
  shows "\<exists>m m'. median_all (NewMovingMedian n) vs = Inr m
    \<and> MovingMedian_Add v m = Inr (if length vs < n - 1 then v else sort (last_n n (vs @ [v])) ! (n div 2), m')"
proof -
  have "median_inv n [] (NewMovingMedian n)" by (simp add: median_inv_def NewMovingMedian_def ring_empty)
  then obtain m where "median_all (NewMovingMedian n) vs = Inr m" "median_inv n vs m"
    using median_all_inv[OF assms, of "[]"] by auto
  with MovingMedian_Add_step[OF assms] show ?thesis by blast
qed

theorem moving_median_exact_witness:
  "\<exists>m m'. median_all (NewMovingMedian 3) [9, 5, 7] = Inr m \<and> MovingMedian_Add 1 m = Inr (5, m')"
proof -
  have "sort (last_n 3 ([9, 5, 7] @ [1])) ! (3 div 2) = (5 :: real)" by (simp add: last_n_def numeral_3_eq_3)
  then show ?thesis using moving_median_exact[of 3 "[9, 5, 7]" 1] by simp
qed

section \<open>Averages stay between their samples\<close>

lemma smooth_between:
  assumes "lo \<le> x" "x \<le> hi" "lo \<le> y" "y \<le> hi" "0 \<le> f" "f \<le> 1"
  shows "lo \<le> util_Smooth x y f \<and> util_Smooth x y f \<le> hi"
proof -
  have "lo * (1 - f) + lo * f \<le> x * (1 - f) + y * f" "x * (1 - f) + y * f \<le> hi * (1 - f) + hi * f"
    using assms by (intro add_mono mult_right_mono; simp)+
  then show ?thesis by (simp add: util_Smooth_def algebra_simps)
qed

definition average_inv :: "real \<Rightarrow> real \<Rightarrow> MovingAverage \<Rightarrow> bool" where
  "average_inv lo hi e \<longleftrightarrow> 0 \<le> ma_smoothingFactor e \<and> ma_smoothingFactor e \<le> 1 \<and> ma_count e \<le> ma_warmupSamples e
     \<and> real (unat (ma_count e)) * lo \<le> ma_sum e \<and> ma_sum e \<le> real (unat (ma_count e)) * hi
     \<and> (0 < ma_count e \<longrightarrow> lo \<le> ma_value e \<and> ma_value e \<le> hi) \<and> 0 < ma_warmupSamples e"

lemma average_inv_new:
  assumes "0 < age" "0 < warmup"
  shows "average_inv lo hi (NewMovingAverage age warmup)"
proof -
  have "0 < unat age" using assms(1) by (simp add: unat_gt_0)
  then have "1 \<le> real (unat age)" by linarith
  then show ?thesis using assms(2) by (simp add: average_inv_def NewMovingAverage_def float_of_uint_def)
qed

lemma average_Add:
  assumes e: "average_inv lo hi e" and v: "lo \<le> v" "v \<le> hi"
  shows "lo \<le> fst (MovingAverage_Add v e)" "fst (MovingAverage_Add v e) \<le> hi" "average_inv lo hi (snd (MovingAverage_Add v e))"
proof -
  have "lo \<le> fst (MovingAverage_Add v e) \<and> fst (MovingAverage_Add v e) \<le> hi \<and> average_inv lo hi (snd (MovingAverage_Add v e))"
  proof (cases "ma_count e < ma_warmupSamples e")
    case True
    then have u: "unat (ma_count e + 1) = unat (ma_count e) + 1"
    proof -
      have "unat (ma_count e) < unat (ma_warmupSamples e)" using True by (simp add: word_less_nat_alt)
      moreover have "unat (ma_warmupSamples e) < 2 ^ LENGTH(8)" by (rule unsigned_less)
      ultimately have "unat (ma_count e) + unat (1 :: 8 word) < 2 ^ LENGTH(8)" by simp
      then show ?thesis using unat_add_lem[of "ma_count e" 1] by simp
    qed
    define k where "k = real (unat (ma_count e))"
    have k: "0 \<le> k" "real (unat (ma_count e + 1)) = k + 1" unfolding k_def u by (rule of_nat_0_le_iff) (simp only: of_nat_add of_nat_1)
    have sum: "(k + 1) * lo \<le> ma_sum e + v" "ma_sum e + v \<le> (k + 1) * hi"
      using e v unfolding average_inv_def k_def[symmetric] by (simp_all add: algebra_simps)
    then have "lo \<le> (ma_sum e + v) / (k + 1)" "(ma_sum e + v) / (k + 1) \<le> hi"
      using k(1) by (simp_all add: le_divide_eq divide_le_eq mult.commute)
    moreover have "ma_count e + 1 \<le> ma_warmupSamples e" using True by (simp add: inc_le)
    ultimately show ?thesis
      using e True sum unfolding average_inv_def MovingAverage_Add_def Let_def float_of_uint_def by (simp add: k del: of_nat_unat)
  next
    case False
    then have c: "0 < ma_count e" using e by (auto simp: average_inv_def not_less)
    then show ?thesis
      using False e smooth_between[of lo "ma_value e" hi v "ma_smoothingFactor e"] v by (auto simp: average_inv_def MovingAverage_Add_def Let_def)
  qed
  then show "lo \<le> fst (MovingAverage_Add v e)" "fst (MovingAverage_Add v e) \<le> hi" "average_inv lo hi (snd (MovingAverage_Add v e))" by auto
qed

end
