(* ===== verification/Hedge_Policy.thy ===== *)
theory Hedge_Policy
  imports Executor Moving_Stats Budget
begin

text \<open>
  Hedge policies: src/hedgepolicy/hedge.go and hedgeexecutor.go. The attempts of an execution run in goroutines of their own, so the executor is a state machine: its own
  steps (prepare and start an attempt, receive a result, see the timer expire), the ends of attempts, and what the attempts and other executions do meanwhile. The budget and the moving quantile
  are shared objects, which others change, too. An attempt ends in one step: it gives its permit back, adds its duration to the quantile and sends its result.
\<close>

section \<open>Configuration\<close>

record 'r hedge_config =
  hp_abort :: "'r BaseAbortablePolicy"
  hp_delayFunc :: "MovingQuantile \<Rightarrow> 'r exec_info \<Rightarrow> duration"
  hp_maxHedges :: int
  hp_budget :: bool
  hp_onHedge :: bool
  hp_quantile :: bool
  hp_quantileValue :: float64
  hp_quantileAge :: uint
  hp_executionThreshold :: uint

definition NewBuilderWithDelayFunc :: "('r exec_info \<Rightarrow> duration) \<Rightarrow> 'r hedge_config" where
  "NewBuilderWithDelayFunc delayFunc =
     \<lparr>hp_abort = \<lparr>abortConditions = []\<rparr>, hp_delayFunc = (\<lambda>_. delayFunc), hp_maxHedges = 1, hp_budget = False, hp_onHedge = False, hp_quantile = False,
      hp_quantileValue = 0, hp_quantileAge = 0, hp_executionThreshold = 0\<rparr>"

definition NewBuilderWithDelay :: "duration \<Rightarrow> 'r hedge_config" where
  "NewBuilderWithDelay delay = NewBuilderWithDelayFunc (\<lambda>_. delay)"

text \<open>The delay function of this builder is nil until \<^verbatim>\<open>Build\<close> sets it.\<close>

definition NewBuilderWithDelayQuantile :: "float64 \<Rightarrow> uint \<Rightarrow> uint \<Rightarrow> 'r hedge_config go" where
  "NewBuilderWithDelayQuantile quantile quantileAge executionThreshold =
     go_bind (Assert (quantile > 0 \<and> quantile < 1) ''quantile must be between 0 and 1 exclusive'') (\<lambda>_.
     go_bind (Assert (quantileAge > 0) ''quantileAge must be > 0'') (\<lambda>_.
     go_bind (Assert (executionThreshold > 0) ''executionThreshold must be > 0'') (\<lambda>_.
     Inr ((NewBuilderWithDelay 0)\<lparr>hp_quantileValue := quantile, hp_quantileAge := quantileAge, hp_executionThreshold := executionThreshold\<rparr>))))"

definition CancelOnResult :: "'r \<Rightarrow> 'r hedge_config \<Rightarrow> 'r hedge_config" where
  "CancelOnResult result c = c\<lparr>hp_abort := AbortOnResult result (hp_abort c)\<rparr>"

definition CancelOnErrors :: "'r error option list \<Rightarrow> 'r hedge_config \<Rightarrow> 'r hedge_config" where
  "CancelOnErrors errs c = c\<lparr>hp_abort := AbortOnErrors errs (hp_abort c)\<rparr>"

definition CancelOnErrorTypes :: "('r error \<Rightarrow> bool) list \<Rightarrow> 'r hedge_config \<Rightarrow> 'r hedge_config" where
  "CancelOnErrorTypes errs c = c\<lparr>hp_abort := AbortOnErrorTypes errs (hp_abort c)\<rparr>"

definition CancelIf :: "'r condition \<Rightarrow> 'r hedge_config \<Rightarrow> 'r hedge_config" where
  "CancelIf predicate c = c\<lparr>hp_abort := AbortIf predicate (hp_abort c)\<rparr>"

definition WithMaxHedges :: "int \<Rightarrow> 'r hedge_config \<Rightarrow> 'r hedge_config" where
  "WithMaxHedges maxHedges c = c\<lparr>hp_maxHedges := maxHedges\<rparr>"

definition hedge_WithBudget :: "'r hedge_config \<Rightarrow> 'r hedge_config" where
  "hedge_WithBudget c = c\<lparr>hp_budget := True\<rparr>"

definition OnHedge :: "bool \<Rightarrow> 'r hedge_config \<Rightarrow> 'r hedge_config" where
  "OnHedge listener c = c\<lparr>hp_onHedge := listener\<rparr>"

text \<open>The policy and its moving quantile, which only policies with a quantile use.\<close>

definition hedge_Build :: "'r hedge_config \<Rightarrow> 'r hedge_config \<times> MovingQuantile" where
  "hedge_Build c =
     (let c1 = (if \<not> IsConfigured (hp_abort c) then CancelIf (\<lambda>_ _. True) c else c);
          mq = NewMovingQuantile (hp_quantileValue c1) (1 / 100) (hp_quantileAge c1)
      in if hp_quantileValue c1 \<noteq> 0
         then (c1\<lparr>hp_quantile := True,
                  hp_delayFunc := (\<lambda>mq _. if mq_count mq < sint (hp_executionThreshold c1) then - 1 else float_to_int (mq_value mq))\<rparr>, mq)
         else (c1, mq))"

section \<open>The executor\<close>

record 'r exec_result =
  xr_result :: "'r PolicyResult"
  xr_index :: nat
  xr_final :: bool

text \<open>Where the executor is: before an attempt, or waiting, until a time if there is a timer, or done.\<close>

datatype 'r hedge_phase = Prepare nat | Await nat "nanotime option" | Returned "'r PolicyResult" | Panicked go_panic

record ('r, 's) hedge_run =
  hr_world :: "('r, 's) world"
  hr_budget :: budget
  hr_quantile :: MovingQuantile
  hr_phase :: "'r hedge_phase"
  hr_executions :: "nat option list"
  hr_chan :: "'r exec_result list"
  hr_started :: nat
  hr_completed :: nat
  hr_lastResult :: "'r exec_result option"
  hr_running :: "(nat \<times> nanotime) list"

definition hedge_start :: "'r hedge_config \<Rightarrow> ('r, 's) world \<Rightarrow> budget \<Rightarrow> MovingQuantile \<Rightarrow> ('r, 's) hedge_run" where
  "hedge_start c w b q =
     \<lparr>hr_world = w, hr_budget = (if hp_maxHedges c + 1 \<ge> 0 \<and> hp_budget c then RecordExecution b else b), hr_quantile = q,
      hr_phase = (if hp_maxHedges c + 1 < 0 then Panicked (Panic ''makeslice: len out of range'') else Prepare 0),
      hr_executions = replicate (nat (hp_maxHedges c + 1)) None, hr_chan = [], hr_started = 0, hr_completed = 0, hr_lastResult = None, hr_running = []\<rparr>"

text \<open>A new attempt, with its copy of the parent execution \<open>x\<close>.\<close>

definition hedge_copy :: "'r hedge_config \<Rightarrow> nat \<Rightarrow> nat \<Rightarrow> ('r, 's) world \<Rightarrow> nat \<times> ('r, 's) world" where
  "hedge_copy c x i w =
     (if i = 0 then CopyForCancellable x w
      else let (y, w1) = CopyForHedge x w in
           (y, if hp_onHedge c then let w2 = snd (CopyWithResult y None w1) in w2\<lparr>w_events := w_events w2 @ [Event ''onHedge'' (LastResult y w1) (LastError y w1)]\<rparr> else w1))"

text \<open>How long to wait after attempt \<open>i\<close> was started, or not allowed.\<close>

definition hedge_await :: "'r hedge_config \<Rightarrow> nat \<Rightarrow> nat \<Rightarrow> bool \<Rightarrow> ('r, 's) hedge_run \<Rightarrow> ('r, 's) hedge_run" where
  "hedge_await c x i allowed h =
     (let delay = hp_delayFunc c (hr_quantile h) (exec_info_of x (hr_world h)) in
      h\<lparr>hr_phase := Await i (if allowed \<and> int i < hp_maxHedges c \<and> delay \<ge> 0 then Some (clock (w_env (hr_world h)) + delay) else None)\<rparr>)"

definition hedge_launch :: "'r hedge_config \<Rightarrow> nat \<Rightarrow> nat \<Rightarrow> ('r, 's) hedge_run \<Rightarrow> ('r, 's) hedge_run" where
  "hedge_launch c x i h =
     (let (permit, b) = (if i > 0 \<and> hp_budget c then budget_TryAcquirePermit (hr_budget h) else (True, hr_budget h)) in
      if \<not> permit then hedge_await c x i False (h\<lparr>hr_budget := OnBudgetExceeded HedgeExecution b\<rparr>)
      else if i \<ge> length (hr_executions h) then h\<lparr>hr_budget := b, hr_phase := Panicked IndexOutOfRange\<rparr>
      else let (y, w) = hedge_copy c x i (hr_world h) in
           hedge_await c x i True
             (h\<lparr>hr_world := w, hr_budget := b, hr_executions := (hr_executions h)[i := Some y], hr_started := hr_started h + 1,
                hr_running := hr_running h @ [(i, clock (w_env w))]\<rparr>))"

text \<open>The end of an attempt's goroutine, when its function returned \<open>r\<close>.\<close>

definition attempt_done :: "'r hedge_config \<Rightarrow> nat \<Rightarrow> nanotime \<Rightarrow> 'r PolicyResult \<Rightarrow> ('r, 's) hedge_run \<Rightarrow> ('r, 's) hedge_run" where
  "attempt_done c i startTime r h =
     (let isDone = IsAbortable (hp_abort c) (Result r) (Error r) in
      h\<lparr>hr_running := remove1 (i, startTime) (hr_running h),
        hr_budget := (if i > 0 \<and> hp_budget c then budget_ReleasePermit (hr_budget h) else hr_budget h),
        hr_quantile := (if isDone \<and> hp_quantile c then snd (MovingQuantile_Add (of_int (time_Since startTime (hr_world h))) (hr_quantile h)) else hr_quantile h),
        hr_chan := hr_chan h @ [\<lparr>xr_result = r, xr_index = i, xr_final = isDone\<rparr>]\<rparr>)"

definition cancel_attempts :: "'r \<Rightarrow> 'r exec_result \<Rightarrow> nat option list \<Rightarrow> ('r, 's) world \<Rightarrow> ('r, 's) world" where
  "cancel_attempts zero result executions w =
     fold (\<lambda>i w. case executions ! i of
             None \<Rightarrow> w
           | Some y \<Rightarrow> if i = xr_index result then exec_Cancel zero y None w else exec_Cancel zero y (Some (xr_result result)) w) [0..<length executions] w"

text \<open>The rest of a round once \<^verbatim>\<open>awaitResult\<close> has returned; a return runs the deferred \<^verbatim>\<open>ReleaseExecution\<close>.\<close>

definition hedge_return :: "'r hedge_config \<Rightarrow> 'r PolicyResult \<Rightarrow> ('r, 's) hedge_run \<Rightarrow> ('r, 's) hedge_run" where
  "hedge_return c r h = h\<lparr>hr_phase := Returned r, hr_budget := (if hp_budget c then ReleaseExecution (hr_budget h) else hr_budget h)\<rparr>"

definition hedge_finish :: "'r hedge_config \<Rightarrow> 'r \<Rightarrow> nat \<Rightarrow> nat \<Rightarrow> 'r exec_result option \<Rightarrow> ('r, 's) hedge_run \<Rightarrow> ('r, 's) hedge_run" where
  "hedge_finish c zero x i result h =
     (case isCanceledWithResult zero x (hr_world h) of
        Some cancelResult \<Rightarrow> hedge_return c cancelResult h
      | None \<Rightarrow>
          (case result of
             Some e \<Rightarrow> hedge_return c (xr_result e) (h\<lparr>hr_world := cancel_attempts zero e (hr_executions h) (hr_world h)\<rparr>)
           | None \<Rightarrow> h\<lparr>hr_phase := Prepare (i + 1)\<rparr>))"

definition hedge_receive :: "'r hedge_config \<Rightarrow> 'r \<Rightarrow> nat \<Rightarrow> nat \<Rightarrow> 'r exec_result \<Rightarrow> 'r exec_result list \<Rightarrow> ('r, 's) hedge_run \<Rightarrow> ('r, 's) hedge_run" where
  "hedge_receive c zero x i e es h =
     (let h1 = h\<lparr>hr_chan := es, hr_completed := hr_completed h + 1, hr_lastResult := Some e\<rparr>
      in if xr_final e then hedge_finish c zero x i (Some e) h1 else h1)"

inductive hedge_step :: "'r hedge_config \<Rightarrow> 'r \<Rightarrow> nat \<Rightarrow> ('r, 's) hedge_run \<Rightarrow> ('r, 's) hedge_run \<Rightarrow> bool" for c zero x h where
  launch: "hr_phase h = Prepare i \<Longrightarrow> hedge_step c zero x h (hedge_launch c x i h)"
| attempt: "(i, t) \<in> set (hr_running h) \<Longrightarrow> hedge_step c zero x h (attempt_done c i t r h)"
| receive: "hr_phase h = Await i timer \<Longrightarrow> timer \<noteq> None \<or> hr_completed h < hr_started h \<Longrightarrow> hr_chan h = e # es
     \<Longrightarrow> hedge_step c zero x h (hedge_receive c zero x i e es h)"
| expire: "hr_phase h = Await i (Some deadline) \<Longrightarrow> deadline \<le> clock (w_env (hr_world h)) \<Longrightarrow> hedge_step c zero x h (hedge_finish c zero x i None h)"
| drained: "hr_phase h = Await i None \<Longrightarrow> \<not> hr_completed h < hr_started h \<Longrightarrow> hedge_step c zero x h (hedge_finish c zero x i (hr_lastResult h) h)"

text \<open>
  What the functions of the attempts may do to the world, when no policy inside is a hedge policy: time passes, they make executions and contexts of their own, and count attempts, but the
  contexts of the executions that exist stay the same. Other executions may use the budget and the quantile in any way.
\<close>

definition inner_work :: "('r, 's) world \<Rightarrow> ('r, 's) world \<Rightarrow> bool" where
  "inner_work w w' \<longleftrightarrow> clock (w_env w) \<le> clock (w_env w') \<and> w_hedges w' = w_hedges w \<and> w_next_exec w \<le> w_next_exec w'
     \<and> (\<forall>y < w_next_exec w. e_ctx (get_exec y w') = e_ctx (get_exec y w) \<and> e_cancelFunc (get_exec y w') = e_cancelFunc (get_exec y w))"

inductive hedge_reachable :: "'r hedge_config \<Rightarrow> 'r \<Rightarrow> nat \<Rightarrow> ('r, 's) world \<Rightarrow> ('r, 's) hedge_run \<Rightarrow> bool" for c zero x w where
  start: "hedge_reachable c zero x w (hedge_start c w b q)"
| step: "hedge_reachable c zero x w h \<Longrightarrow> hedge_step c zero x h h' \<Longrightarrow> hedge_reachable c zero x w h'"
| others: "hedge_reachable c zero x w h \<Longrightarrow> inner_work (hr_world h) w' \<Longrightarrow> hedge_reachable c zero x w (h\<lparr>hr_world := w', hr_budget := b, hr_quantile := q\<rparr>)"

section \<open>Executions and their contexts\<close>

lemma inner_work_refl [simp]: "inner_work w w"
  by (simp add: inner_work_def)

lemma inner_work_trans: "inner_work w w1 \<Longrightarrow> inner_work w1 w2 \<Longrightarrow> inner_work w w2"
  by (auto simp: inner_work_def)

text \<open>An execution that can be canceled through a context of its own.\<close>

definition cancellable :: "nat \<Rightarrow> ('r, 's) world \<Rightarrow> bool" where
  "cancellable y w \<longleftrightarrow> y < w_next_exec w \<and> e_cancelFunc (get_exec y w) \<and> e_ctx (get_exec y w) \<noteq> []"

lemma cancellable_work: "cancellable y w \<Longrightarrow> inner_work w w' \<Longrightarrow> cancellable y w'"
  by (auto simp: cancellable_def inner_work_def)

lemmas copy_defs = exec_copy_def with_cancel_def ctx_WithCancel_def set_exec_def get_exec_def set_env_def

lemma hedge_copy_facts:
  assumes "hedge_copy c x i w = (y, w')"
  shows "cancellable y w'" "inner_work w (w'\<lparr>w_hedges := w_hedges w\<rparr>)" "w_hedges w' = (if i = 0 then w_hedges w else w_hedges w + 1)"
  using assms by (auto simp: hedge_copy_def CopyForCancellable_def CopyForHedge_def CopyWithResult_def set_last_def copy_defs
      cancellable_def inner_work_def Let_def split: if_splits)

lemma exec_Cancel_work: "inner_work w (exec_Cancel zero y r w)"
  by (auto simp: exec_Cancel_def inner_work_def set_last_def set_exec_def get_exec_def set_env_def cancel_ctx_def Let_def split: option.split list.split)

lemma canceled_mono: "IsCanceled y w \<Longrightarrow> IsCanceled y (exec_Cancel zero z r w)"
proof -
  have err: "ctx_Err errs ctx \<noteq> None \<Longrightarrow> ctx_Err (errs(k := Some e)) ctx \<noteq> None" for errs :: "nat \<Rightarrow> 'a error option" and ctx k e
    by (induction ctx) (auto split: option.splits)
  assume "IsCanceled y w"
  then show ?thesis
    using err by (auto simp: IsCanceled_def exec_Cancel_def exec_err_def set_last_def set_exec_def get_exec_def set_env_def cancel_ctx_def Let_def split: option.split list.split)
qed

lemma exec_Cancel_cancels:
  assumes "cancellable y w" "r \<noteq> None \<or> \<not> w_deferCancel w"
  shows "IsCanceled y (exec_Cancel zero y r w)"
  using assms by (auto simp: IsCanceled_def cancellable_def exec_Cancel_def isCanceledWithResult_def exec_err_def set_last_def set_exec_def get_exec_def set_env_def cancel_ctx_def
      Let_def split: option.splits list.splits)

lemma cancel_deferred: "w_deferCancel (exec_Cancel zero y r w) = w_deferCancel w"
  by (simp add: exec_Cancel_def set_last_def set_exec_def set_env_def Let_def split: option.split)

lemma cancel_attempts_work:
  "inner_work w (cancel_attempts zero e es w) \<and> w_deferCancel (cancel_attempts zero e es w) = w_deferCancel w"
proof -
  let ?f = "\<lambda>i w. case es ! i of None \<Rightarrow> w | Some y \<Rightarrow> if i = xr_index e then exec_Cancel zero y None w else exec_Cancel zero y (Some (xr_result e)) w"
  have "inner_work w (fold ?f is w) \<and> w_deferCancel (fold ?f is w) = w_deferCancel w" for "is"
  proof (induction "is" arbitrary: w)
    case (Cons j js)
    have "inner_work w (?f j w) \<and> w_deferCancel (?f j w) = w_deferCancel w" by (auto simp: exec_Cancel_work cancel_deferred split: option.split)
    then show ?case using Cons[of "?f j w"] inner_work_trans by fastforce
  qed simp
  then show ?thesis by (simp add: cancel_attempts_def)
qed

text \<open>All attempts are canceled in the end, the one with the result unless its cancellation is deferred.\<close>

lemma cancel_attempts_cancels:
  fixes w :: "('r, 's) world"
  assumes "j < length es" "es ! j = Some y" "cancellable y w" "j \<noteq> xr_index e \<or> \<not> w_deferCancel w"
  shows "IsCanceled y (cancel_attempts zero e es w)"
proof -
  define f where "f = (\<lambda>i (w :: ('r, 's) world). case es ! i of None \<Rightarrow> w | Some y \<Rightarrow> if i = xr_index e then exec_Cancel zero y None w else exec_Cancel zero y (Some (xr_result e)) w)"
  have one: "inner_work w (f i w) \<and> w_deferCancel (f i w) = w_deferCancel w \<and> (IsCanceled y w \<longrightarrow> IsCanceled y (f i w))" for i w
    by (auto simp: f_def exec_Cancel_work cancel_deferred canceled_mono split: option.split)
  have kept: "IsCanceled y (fold f is w)" if "IsCanceled y w" for "is" w
    using that
  proof (induction "is" arbitrary: w)
    case (Cons k ks)
    have "IsCanceled y (f k w)" using one[of w k] Cons.prems by blast
    then show ?case using Cons.IH by simp
  qed simp
  have "IsCanceled y (fold f is w)" if "j \<in> set is" "cancellable y w" "j \<noteq> xr_index e \<or> \<not> w_deferCancel w" for "is" w
    using that
  proof (induction "is" arbitrary: w)
    case (Cons k ks)
    show ?case
    proof (cases "k = j")
      case True
      have "IsCanceled y (f j w)" using Cons.prems assms(2) by (auto simp: f_def exec_Cancel_cancels)
      then show ?thesis using True kept by simp
    next
      case False
      have "cancellable y (f k w)" "w_deferCancel (f k w) = w_deferCancel w" using one[of w k] cancellable_work Cons.prems(2) by blast+
      then show ?thesis using False Cons.IH[of "f k w"] Cons.prems by simp
    qed
  qed simp
  then show ?thesis using assms by (simp add: cancel_attempts_def f_def)
qed

section \<open>The invariant of a hedged execution\<close>

definition result_ok :: "'r hedge_config \<Rightarrow> nat \<Rightarrow> 'r exec_result \<Rightarrow> bool" where
  "result_ok c n e \<longleftrightarrow> xr_index e < n \<and> xr_final e = IsAbortable (hp_abort c) (Result (xr_result e)) (Error (xr_result e))"

text \<open>Where the executor is, against the number of attempts it has started.\<close>

definition phase_ok :: "'r hedge_config \<Rightarrow> 'r hedge_phase \<Rightarrow> nat \<Rightarrow> bool" where
  "phase_ok c ph n \<longleftrightarrow>
     (case ph of
        Prepare i \<Rightarrow> n = i \<and> int i \<le> hp_maxHedges c
      | Await i (Some _) \<Rightarrow> n = i + 1 \<and> int i < hp_maxHedges c
      | Await i None \<Rightarrow> (n = i + 1 \<or> n = i) \<and> 1 \<le> n \<and> int i \<le> hp_maxHedges c
      | Returned _ \<Rightarrow> 1 \<le> n
      | Panicked _ \<Rightarrow> False)"

definition is_returned :: "'r hedge_phase \<Rightarrow> bool" where
  "is_returned ph \<longleftrightarrow> (case ph of Returned _ \<Rightarrow> True | _ \<Rightarrow> False)"

definition count_inv :: "'r hedge_config \<Rightarrow> ('r, 's) world \<Rightarrow> ('r, 's) hedge_run \<Rightarrow> bool" where
  "count_inv c w0 h \<longleftrightarrow> length (hr_executions h) = nat (hp_maxHedges c + 1) \<and> int (hr_started h) \<le> hp_maxHedges c + 1
     \<and> length (hr_running h) + length (hr_chan h) + hr_completed h = hr_started h
     \<and> w_hedges (hr_world h) = w_hedges w0 + of_nat (hr_started h - 1) \<and> phase_ok c (hr_phase h) (hr_started h)"

definition result_inv :: "'r hedge_config \<Rightarrow> ('r, 's) hedge_run \<Rightarrow> bool" where
  "result_inv c h \<longleftrightarrow> (\<forall>e \<in> set (hr_chan h). result_ok c (hr_started h) e) \<and> (\<forall>(i, t) \<in> set (hr_running h). i < hr_started h)
     \<and> (hr_lastResult h = None \<longleftrightarrow> hr_completed h = 0)
     \<and> (\<forall>e. hr_lastResult h = Some e \<longrightarrow> result_ok c (hr_started h) e \<and> (\<not> is_returned (hr_phase h) \<longrightarrow> \<not> xr_final e))"

definition execs_inv :: "('r, 's) hedge_run \<Rightarrow> bool" where
  "execs_inv h \<longleftrightarrow> (\<forall>j < length (hr_executions h).
     (hr_executions h ! j = None \<longleftrightarrow> hr_started h \<le> j) \<and> (\<forall>y. hr_executions h ! j = Some y \<longrightarrow> cancellable y (hr_world h)))"

definition hedge_inv :: "'r hedge_config \<Rightarrow> ('r, 's) world \<Rightarrow> ('r, 's) hedge_run \<Rightarrow> bool" where
  "hedge_inv c w0 h \<longleftrightarrow> count_inv c w0 h \<and> result_inv c h \<and> execs_inv h"

lemmas inv_defs = hedge_inv_def count_inv_def result_inv_def execs_inv_def

lemma hedge_await_fields [simp]:
  "hr_world (hedge_await c x i a h) = hr_world h" "hr_executions (hedge_await c x i a h) = hr_executions h" "hr_chan (hedge_await c x i a h) = hr_chan h"
  "hr_started (hedge_await c x i a h) = hr_started h" "hr_completed (hedge_await c x i a h) = hr_completed h" "hr_lastResult (hedge_await c x i a h) = hr_lastResult h"
  "hr_running (hedge_await c x i a h) = hr_running h" "hr_budget (hedge_await c x i a h) = hr_budget h"
  by (simp_all add: hedge_await_def Let_def)

lemma hedge_await_phase: "\<exists>d. hr_phase (hedge_await c x i a h) = Await i d \<and> (d \<noteq> None \<longrightarrow> a \<and> int i < hp_maxHedges c)"
  by (auto simp: hedge_await_def Let_def)

lemma is_returned_simps [simp]: "\<not> is_returned (Prepare i)" "\<not> is_returned (Await i d)" "is_returned (Returned r)"
  by (simp_all add: is_returned_def)

lemma execs_work: "execs_inv h \<Longrightarrow> inner_work (hr_world h) w' \<Longrightarrow> execs_inv (h\<lparr>hr_world := w'\<rparr>)"
  by (auto simp: execs_inv_def intro: cancellable_work split: option.splits)

lemma launch_inv:
  assumes inv: "hedge_inv c w0 h" and ph: "hr_phase h = Prepare i"
  shows "hedge_inv c w0 (hedge_launch c x i h)"
proof -
  have s: "hr_started h = i" "int i \<le> hp_maxHedges c" "i < length (hr_executions h)" using inv ph by (auto simp: inv_defs phase_ok_def)
  obtain permit b where b: "(if i > 0 \<and> hp_budget c then budget_TryAcquirePermit (hr_budget h) else (True, hr_budget h)) = (permit, b)" by fastforce
  show ?thesis
  proof (cases permit)
    case False
    then have i: "0 < i" using b by (auto split: if_splits)
    obtain d where "hr_phase (hedge_await c x i False (h\<lparr>hr_budget := OnBudgetExceeded HedgeExecution b\<rparr>)) = Await i d" "d = None"
      using hedge_await_phase[of c x i False] by blast
    then show ?thesis using inv False b s i ph by (simp add: hedge_launch_def inv_defs phase_ok_def)
  next
    case True
    obtain y w where y: "hedge_copy c x i (hr_world h) = (y, w)" by fastforce
    note f = hedge_copy_facts[OF y]
    define h1 where "h1 = h\<lparr>hr_world := w, hr_budget := b, hr_executions := (hr_executions h)[i := Some y], hr_started := hr_started h + 1,
        hr_running := hr_running h @ [(i, clock (w_env w))]\<rparr>"
    obtain d where d: "hr_phase (hedge_await c x i True h1) = Await i d" "d \<noteq> None \<longrightarrow> int i < hp_maxHedges c" using hedge_await_phase by blast
    have launch: "hedge_launch c x i h = hedge_await c x i True h1" using True b y s by (simp add: hedge_launch_def h1_def)
    have "w_hedges w = w_hedges w0 + of_nat i" using f(3) inv s(1) by (cases i) (auto simp: inv_defs)
    then have "count_inv c w0 (hedge_launch c x i h)"
      using inv s d unfolding launch by (cases d) (auto simp: inv_defs h1_def phase_ok_def)
    moreover have "result_inv c (hedge_launch c x i h)"
      using inv s ph unfolding launch inv_defs by (auto simp: h1_def d(1) result_ok_def split: option.splits)
    moreover have "cancellable z w" if "cancellable z (hr_world h)" for z
      using cancellable_work[OF that f(2)] by (simp add: cancellable_def get_exec_def)
    then have "execs_inv (hedge_launch c x i h)"
      using inv s f(1) unfolding launch inv_defs by (auto simp: h1_def nth_list_update split: option.splits)
    ultimately show ?thesis by (simp add: hedge_inv_def)
  qed
qed

lemma finish_inv:
  assumes inv: "hedge_inv c w0 h" and started: "1 \<le> hr_started h"
    and final: "\<And>e. result = Some e \<Longrightarrow> hr_lastResult h = Some e"
    and next_round: "result = None \<Longrightarrow> hr_started h = i + 1 \<and> int i < hp_maxHedges c" and ph: "\<not> is_returned (hr_phase h)"
  shows "hedge_inv c w0 (hedge_finish c zero x i result h)"
proof (cases "isCanceledWithResult zero x (hr_world h)")
  case (Some r)
  then show ?thesis using inv started by (simp add: hedge_finish_def hedge_return_def inv_defs phase_ok_def)
next
  case None
  show ?thesis
  proof (cases result)
    case None
    then show ?thesis using inv next_round ph \<open>isCanceledWithResult zero x (hr_world h) = None\<close>
      by (auto simp: hedge_finish_def inv_defs phase_ok_def)
  next
    case (Some e)
    define w where "w = cancel_attempts zero e (hr_executions h) (hr_world h)"
    have w: "inner_work (hr_world h) w" using cancel_attempts_work[THEN conjunct1] by (simp add: w_def)
    then have "w_hedges w = w_hedges (hr_world h)" by (simp add: inner_work_def)
    moreover have "execs_inv (h\<lparr>hr_world := w\<rparr>)" using execs_work inv w by (auto simp: hedge_inv_def)
    ultimately show ?thesis using inv started Some None
      by (simp add: hedge_finish_def hedge_return_def inv_defs phase_ok_def flip: w_def split: option.splits)
  qed
qed

lemma attempt_inv:
  assumes inv: "hedge_inv c w0 h" and i: "(i, t) \<in> set (hr_running h)"
  shows "hedge_inv c w0 (attempt_done c i t r h)"
proof -
  have "length (hr_running h) = Suc (length (remove1 (i, t) (hr_running h)))" using length_pos_if_in_set[OF i] i by (simp add: length_remove1)
  moreover have "i < hr_started h" using inv i by (auto simp: inv_defs)
  moreover have "set (remove1 (i, t) (hr_running h)) \<subseteq> set (hr_running h)" by (rule set_remove1_subset)
  ultimately show ?thesis using inv by (auto simp: inv_defs attempt_done_def Let_def result_ok_def)
qed

lemma hedge_step_inv:
  assumes inv: "hedge_inv c w0 h" and step: "hedge_step c zero x h h'"
  shows "hedge_inv c w0 h'"
  using step
proof cases
  case (launch i)
  then show ?thesis using launch_inv[OF inv] by simp
next
  case (attempt i t r)
  then show ?thesis using attempt_inv[OF inv] by simp
next
  case (receive i timer e es)
  define h1 where "h1 = h\<lparr>hr_chan := es, hr_completed := hr_completed h + 1, hr_lastResult := Some e\<rparr>"
  have e: "result_ok c (hr_started h) e" "1 \<le> hr_started h" using inv receive by (auto simp: inv_defs)
  show ?thesis
  proof (cases "xr_final e")
    case False
    then show ?thesis using inv receive e by (auto simp: inv_defs hedge_receive_def Let_def)
  next
    case True
    define h2 where "h2 = h1\<lparr>hr_phase := Returned (xr_result e)\<rparr>"
    have "hedge_inv c w0 h2" using inv receive e by (auto simp: inv_defs h2_def h1_def phase_ok_def)
    then have "hedge_inv c w0 (hedge_finish c zero x i (Some e) h1)"
    proof (cases "isCanceledWithResult zero x (hr_world h1)")
      case None
      define w where "w = cancel_attempts zero e (hr_executions h1) (hr_world h1)"
      have w: "inner_work (hr_world h2) w" using cancel_attempts_work[THEN conjunct1] by (simp add: w_def h2_def)
      then have "w_hedges w = w_hedges (hr_world h2)" by (simp add: inner_work_def)
      moreover have "execs_inv (h2\<lparr>hr_world := w\<rparr>)" using execs_work \<open>hedge_inv c w0 h2\<close> w by (auto simp: hedge_inv_def)
      ultimately show ?thesis using \<open>hedge_inv c w0 h2\<close> None
        by (simp add: hedge_finish_def hedge_return_def inv_defs phase_ok_def h2_def flip: w_def split: option.splits)
    next
      case (Some r)
      then show ?thesis using \<open>hedge_inv c w0 h2\<close> by (simp add: hedge_finish_def hedge_return_def inv_defs phase_ok_def h2_def split: option.splits)
    qed
    then show ?thesis using True receive(1) by (simp add: hedge_receive_def h1_def)
  qed
next
  case (expire i deadline)
  then have "hr_started h = i + 1" "int i < hp_maxHedges c" using inv by (auto simp: inv_defs phase_ok_def)
  then show ?thesis unfolding expire(1) using expire(2) by (intro finish_inv[OF inv]) auto
next
  case (drained i)
  have s: "1 \<le> hr_started h" "hr_completed h = hr_started h" using inv drained(2,3) by (auto simp: inv_defs phase_ok_def)
  then have "hr_lastResult h \<noteq> None" using inv by (auto simp: inv_defs split: option.splits)
  then show ?thesis unfolding drained(1) using s drained(2) by (intro finish_inv[OF inv]) auto
qed

lemma hedge_start_inv: "0 \<le> hp_maxHedges c \<Longrightarrow> hedge_inv c w (hedge_start c w b q)"
  by (simp add: inv_defs hedge_start_def phase_ok_def)

lemma hedge_reachable_inv:
  assumes "hedge_reachable c zero x w h" "0 \<le> hp_maxHedges c"
  shows "hedge_inv c w h"
  using assms(1)
proof induction
  case (start b q)
  then show ?case using hedge_start_inv[OF assms(2)] .
next
  case (step h h')
  show ?case by (rule hedge_step_inv[OF step.IH step.hyps(2)])
next
  case (others h w' b q)
  then have "execs_inv (h\<lparr>hr_world := w'\<rparr>)" "w_hedges w' = w_hedges (hr_world h)" using execs_work by (auto simp: hedge_inv_def inner_work_def)
  then show ?case using others.IH by (simp add: inv_defs)
qed

section \<open>Properties\<close>

text \<open>
  C32. A hedged execution starts at most one attempt and the configured number of hedges, which the execution's counter of hedges counts. Every attempt is running, or its result is
  in the channel or was received, so the channel is never over its capacity and the goroutines never block; and the executor does not panic.
\<close>

theorem hedge_attempts_bounded:
  assumes "0 \<le> hp_maxHedges c" "hedge_reachable c zero x w h"
  shows "int (hr_started h) \<le> hp_maxHedges c + 1 \<and> w_hedges (hr_world h) = w_hedges w + of_nat (hr_started h - 1)
    \<and> length (hr_running h) + length (hr_chan h) + hr_completed h = hr_started h
    \<and> int (length (hr_chan h)) \<le> hp_maxHedges c + 1 \<and> (\<forall>pn. hr_phase h \<noteq> Panicked pn)"
proof -
  have "count_inv c w h" using hedge_reachable_inv[OF assms(2,1)] by (simp add: hedge_inv_def)
  moreover from this have "length (hr_chan h) \<le> hr_started h" by (simp add: count_inv_def)
  ultimately show ?thesis by (auto simp: count_inv_def phase_ok_def)
qed

lemma hedge_finish_returned:
  assumes "hr_phase (hedge_finish c zero x i result h) = Returned r" "hr_phase h \<noteq> Returned r"
  shows "isCanceledWithResult zero x (hr_world h) = Some r
    \<or> (\<exists>e. result = Some e \<and> r = xr_result e \<and> hr_world (hedge_finish c zero x i result h) = cancel_attempts zero e (hr_executions h) (hr_world h))"
  using assms by (auto simp: hedge_finish_def hedge_return_def split: option.splits)

lemma hedge_finish_fields [simp]:
  "hr_executions (hedge_finish c zero x i result h) = hr_executions h" "hr_chan (hedge_finish c zero x i result h) = hr_chan h"
  "hr_started (hedge_finish c zero x i result h) = hr_started h" "hr_completed (hedge_finish c zero x i result h) = hr_completed h"
  "hr_lastResult (hedge_finish c zero x i result h) = hr_lastResult h" "hr_running (hedge_finish c zero x i result h) = hr_running h"
  by (auto simp: hedge_finish_def hedge_return_def split: option.split)

text \<open>
  C33. What a hedged execution returns: the result of its parent, if that was canceled, or else the last result that was received. This is one that the policy cancels the other attempts for, or
  all attempts have ended without one. Then every other attempt is canceled, and so is the one with the result unless its cancellation is deferred.
\<close>

theorem hedge_returns_result:
  assumes "0 \<le> hp_maxHedges c" "hedge_reachable c zero x w h" "hedge_step c zero x h h'" "hr_phase h' = Returned r" "\<not> is_returned (hr_phase h)"
  shows "isCanceledWithResult zero x (hr_world h) = Some r
    \<or> (\<exists>e. hr_lastResult h' = Some e \<and> r = xr_result e \<and> xr_index e < hr_started h'
        \<and> (IsAbortable (hp_abort c) (Result r) (Error r) \<or> hr_running h' = [] \<and> hr_chan h' = [] \<and> hr_completed h' = hr_started h')
        \<and> (\<forall>j y. j < length (hr_executions h') \<and> hr_executions h' ! j = Some y \<and> (j \<noteq> xr_index e \<or> \<not> w_deferCancel (hr_world h))
             \<longrightarrow> IsCanceled y (hr_world h')))"
proof -
  have inv: "hedge_inv c w h" using hedge_reachable_inv[OF assms(2,1)] .
  have exe: "cancellable y (hr_world h)" if "j < length (hr_executions h)" "hr_executions h ! j = Some y" for j y
    using inv that by (auto simp: inv_defs)
  note cancels = cancel_attempts_cancels[OF _ _ exe]
  have np: "hr_phase h \<noteq> Returned r" using assms(5) by auto
  show ?thesis using assms(3)
  proof cases
    case (launch i)
    have "hedge_inv c w h'" using hedge_step_inv[OF inv assms(3)] .
    have "\<not> is_returned (hr_phase h')" unfolding launch(1)
      using hedge_await_phase[of c x i] by (auto simp: hedge_launch_def hedge_await_def Let_def is_returned_def split: prod.splits if_splits)
    then show ?thesis using assms(4) by simp
  next
    case (attempt i t r')
    then show ?thesis using assms(4) np by (simp add: attempt_done_def Let_def)
  next
    case (receive i timer e es)
    define h1 where "h1 = h\<lparr>hr_chan := es, hr_completed := hr_completed h + 1, hr_lastResult := Some e\<rparr>"
    have e: "result_ok c (hr_started h) e" using inv receive(4) by (simp add: inv_defs)
    have fin: "xr_final e" "h' = hedge_finish c zero x i (Some e) h1"
      using receive(1) assms(4) np by (auto simp: hedge_receive_def h1_def Let_def split: if_splits)
    have "isCanceledWithResult zero x (hr_world h) = Some r \<or> r = xr_result e \<and> hr_world h' = cancel_attempts zero e (hr_executions h) (hr_world h)"
      using hedge_finish_returned[of c zero x i "Some e" h1 r] assms(4) fin(2) np by (auto simp: h1_def)
    then show ?thesis using fin e cancels by (auto simp: result_ok_def h1_def)
  next
    case (expire i deadline)
    then show ?thesis using hedge_finish_returned[of c zero x i None h r] assms(4) np by simp
  next
    case (drained i)
    obtain e where e: "hr_lastResult h = Some e" "result_ok c (hr_started h) e"
      using inv drained(2,3) by (cases "hr_lastResult h") (auto simp: inv_defs phase_ok_def)
    have "length (hr_running h) + length (hr_chan h) + hr_completed h = hr_started h" using inv by (simp add: hedge_inv_def count_inv_def)
    then have "length (hr_running h) = 0 \<and> length (hr_chan h) = 0 \<and> hr_completed h = hr_started h" using drained(3) by linarith
    then have all: "hr_running h = []" "hr_chan h = []" "hr_completed h = hr_started h" by simp_all
    have "isCanceledWithResult zero x (hr_world h) = Some r \<or> r = xr_result e \<and> hr_world h' = cancel_attempts zero e (hr_executions h) (hr_world h)"
      using hedge_finish_returned[of c zero x i "Some e" h r] assms(4) drained(1) e(1) np by auto
    then show ?thesis using e all cancels drained(1) by (auto simp: result_ok_def)
  qed
qed

text \<open>How many steps are left, at most: four for an attempt that has not started, two for one that runs, one for a result in the channel, and two for a round.\<close>

definition hedge_measure :: "'r hedge_config \<Rightarrow> ('r, 's) hedge_run \<Rightarrow> nat" where
  "hedge_measure c h =
     (let n = nat (hp_maxHedges c + 1) in
      4 * (n - hr_started h) + 2 * length (hr_running h) + length (hr_chan h)
      + (case hr_phase h of Prepare i \<Rightarrow> 2 * (n + 1 - i) + 1 | Await i _ \<Rightarrow> 2 * (n + 1 - i) | _ \<Rightarrow> 0))"

lemma hedge_finish_phase:
  "hr_phase (hedge_finish c zero x i result h) = Prepare (i + 1) \<and> result = None \<or> is_returned (hr_phase (hedge_finish c zero x i result h))"
  by (auto simp: hedge_finish_def hedge_return_def split: option.split)

lemma hedge_step_measure:
  assumes inv: "hedge_inv c w0 h" and step: "hedge_step c zero x h h'"
  shows "hedge_measure c h' < hedge_measure c h"
  using step
proof cases
  case (launch i)
  have s: "hr_started h = i" "i < nat (hp_maxHedges c + 1)" "length (hr_executions h) = nat (hp_maxHedges c + 1)"
    using inv launch(2) by (auto simp: inv_defs phase_ok_def)
  obtain permit b where b: "(if i > 0 \<and> hp_budget c then budget_TryAcquirePermit (hr_budget h) else (True, hr_budget h)) = (permit, b)" by fastforce
  obtain y w where y: "hedge_copy c x i (hr_world h) = (y, w)" by fastforce
  have aw: "\<exists>d. hr_phase (hedge_await c x i a k) = Await i d" for a k using hedge_await_phase by blast
  obtain k a where k: "hedge_launch c x i h = hedge_await c x i a k" "hr_chan k = hr_chan h"
     "hr_started k = hr_started h \<and> length (hr_running k) = length (hr_running h) \<or> hr_started k = Suc (hr_started h) \<and> length (hr_running k) = Suc (length (hr_running h))"
    using b y s by (cases permit) (simp_all add: hedge_launch_def)
  obtain d where "hr_phase (hedge_await c x i a k) = Await i d" using aw by blast
  then show ?thesis using launch s k by (auto simp: hedge_measure_def Let_def)
next
  case (attempt i t r)
  have "length (hr_running h) = Suc (length (remove1 (i, t) (hr_running h)))" using length_pos_if_in_set[OF attempt(2)] attempt(2) by (simp add: length_remove1)
  then show ?thesis using attempt(1) by (simp add: hedge_measure_def attempt_done_def Let_def)
next
  case (receive i timer e es)
  define h1 where "h1 = h\<lparr>hr_chan := es, hr_completed := hr_completed h + 1, hr_lastResult := Some e\<rparr>"
  have "hr_phase (hedge_finish c zero x i (Some e) h1) = hr_phase h1 \<or> is_returned (hr_phase (hedge_finish c zero x i (Some e) h1))"
    using hedge_finish_phase[of c zero x i "Some e" h1] by auto
  then show ?thesis unfolding receive(1) hedge_receive_def h1_def[symmetric] Let_def
    using receive(2,4) by (auto simp: hedge_measure_def Let_def h1_def is_returned_def split: hedge_phase.splits)
next
  case (expire i deadline)
  have "i < nat (hp_maxHedges c + 1)" using inv expire(2) by (auto simp: inv_defs phase_ok_def)
  then show ?thesis using hedge_finish_phase[of c zero x i None h] expire(1,2)
    by (auto simp: hedge_measure_def Let_def is_returned_def split: hedge_phase.splits)
next
  case (drained i)
  have s: "i < nat (hp_maxHedges c + 1) + 1" "hr_lastResult h \<noteq> None" using inv drained(2,3) by (auto simp: inv_defs phase_ok_def)
  then have "is_returned (hr_phase h')" using hedge_finish_phase[of c zero x i "hr_lastResult h" h] drained(1) by auto
  then show ?thesis using drained(1,2) s(1) by (auto simp: hedge_measure_def Let_def is_returned_def split: hedge_phase.splits)
qed

text \<open>
  C34. A hedged execution ends: every step of it, the ends of attempts included, brings it nearer to its end, and until it has returned, there is such a step, once its
  timer has expired if it waits for one.
\<close>

theorem hedge_ends:
  assumes "0 \<le> hp_maxHedges c" "hedge_reachable c zero x w h"
  shows "(\<forall>h'. hedge_step c zero x h h' \<longrightarrow> hedge_measure c h' < hedge_measure c h)
    \<and> (is_returned (hr_phase h) \<or> (\<exists>h'. hedge_step c zero x h h') \<or> (\<exists>i deadline. hr_phase h = Await i (Some deadline) \<and> clock (w_env (hr_world h)) < deadline))"
proof -
  have inv: "hedge_inv c w h" using hedge_reachable_inv[OF assms(2,1)] .
  have "is_returned (hr_phase h) \<or> (\<exists>h'. hedge_step c zero x h h') \<or> (\<exists>i deadline. hr_phase h = Await i (Some deadline) \<and> clock (w_env (hr_world h)) < deadline)"
  proof (cases "hr_phase h")
    case (Prepare i)
    then show ?thesis using hedge_step.launch[OF Prepare] by blast
  next
    case (Await i timer)
    show ?thesis
    proof (cases timer)
      case (Some deadline)
      then show ?thesis using Await hedge_step.expire[of h i deadline c zero x] by (cases "deadline \<le> clock (w_env (hr_world h))") auto
    next
      case None
      note drained = hedge_step.drained[of h i c zero x] and receive = hedge_step.receive[of h i timer _ _ c zero x] and attempt = hedge_step.attempt[of _ _ h c zero x]
      consider "\<not> hr_completed h < hr_started h" | e es where "hr_chan h = e # es" "hr_completed h < hr_started h" | p ps where "hr_running h = p # ps"
        using inv by (cases "hr_chan h"; cases "hr_running h") (auto simp: inv_defs)
      then show ?thesis
      proof cases
        case 1
        then show ?thesis using drained Await None by blast
      next
        case 2
        then show ?thesis using receive Await by blast
      next
        case 3
        then show ?thesis using attempt[of "fst p" "snd p"] by auto
      qed
    qed
  next
    case (Returned r)
    then show ?thesis by simp
  next
    case (Panicked pn)
    then show ?thesis using inv by (simp add: inv_defs phase_ok_def)
  qed
  then show ?thesis using hedge_step_measure[OF inv] by blast
qed

text \<open>A negative number of hedges is accepted, and panics when an execution starts.\<close>

lemma negative_hedges_panic: "hr_phase (hedge_start (WithMaxHedges (- 2) c) w b q) = Panicked (Panic ''makeslice: len out of range'')"
  "hr_phase (hedge_launch (WithMaxHedges (- 1) c) x 0 (hedge_start (WithMaxHedges (- 1) c) w b q)) = Panicked IndexOutOfRange"
  by (simp_all add: hedge_start_def WithMaxHedges_def hedge_launch_def)

section \<open>An example\<close>

text \<open>A policy with one hedge after 5 nanoseconds. The first attempt is started, returns 7, and is received.\<close>

definition sample_hedge :: "int hedge_config" where
  "sample_hedge = fst (hedge_Build (NewBuilderWithDelay 5))"

definition sample_start :: "(int, unit) hedge_run" where
  "sample_start = hedge_start sample_hedge (newExecution 0 [] \<lparr>clock = 100, ctx_errs = (\<lambda>_. None), objs = ()\<rparr>) (budget_Build budget_NewBuilder) (NewMovingQuantile 0 0 0)"

definition seven :: "int PolicyResult" where
  "seven = \<lparr>Result = 7, Error = None, Done = True, Success = True, SuccessAll = True\<rparr>"

definition sample_done :: "(int, unit) hedge_run" where
  "sample_done = attempt_done sample_hedge 0 100 seven (hedge_launch sample_hedge 0 0 sample_start)"

lemmas sample_defs = sample_hedge_def hedge_Build_def NewBuilderWithDelay_def NewBuilderWithDelayFunc_def IsConfigured_def CancelIf_def AbortIf_def

lemma sample_hedge_facts [simp]:
  "hp_maxHedges sample_hedge = 1" "hp_budget sample_hedge = False" "hp_quantile sample_hedge = False" "hp_delayFunc sample_hedge q info = 5"
  "IsAbortable (hp_abort sample_hedge) r err"
  by (simp_all add: sample_defs IsAbortable_def AppliesToAny_iff)

lemma sample_launched: "hr_running (hedge_launch sample_hedge 0 0 sample_start) = [(0, 100)]" "hr_phase (hedge_launch sample_hedge 0 0 sample_start) = Await 0 (Some 105)"
  "hr_chan (hedge_launch sample_hedge 0 0 sample_start) = []" "Context 0 (hr_world (hedge_launch sample_hedge 0 0 sample_start)) = []"
  by (simp_all add: hedge_launch_def sample_start_def hedge_start_def hedge_copy_def CopyForCancellable_def copy_defs hedge_await_def newExecution_def Context_def Let_def)

lemma sample_reachable:
  "hedge_reachable sample_hedge 0 0 (newExecution 0 [] \<lparr>clock = 100, ctx_errs = (\<lambda>_. None), objs = ()\<rparr>) sample_done"
proof -
  have "hr_phase sample_start = Prepare 0" by (simp add: sample_start_def hedge_start_def)
  from hedge_reachable.step[OF hedge_reachable.start hedge_step.launch[OF this[unfolded sample_start_def]]]
  have "hedge_reachable sample_hedge 0 0 (newExecution 0 [] \<lparr>clock = 100, ctx_errs = (\<lambda>_. None), objs = ()\<rparr>) (hedge_launch sample_hedge 0 0 sample_start)"
    unfolding sample_start_def .
  then show ?thesis unfolding sample_done_def by (rule hedge_reachable.step) (rule hedge_step.attempt, simp add: sample_launched)
qed

theorem hedge_attempts_bounded_witness: "int (hr_started sample_done) \<le> 2"
  using hedge_attempts_bounded[OF _ sample_reachable] by simp

theorem hedge_returns_result_witness:
  "\<exists>h'. hedge_step sample_hedge 0 0 sample_done h' \<and> hr_phase h' = Returned seven \<and> (\<exists>e. hr_lastResult h' = Some e \<and> xr_index e < hr_started h')"
proof -
  let ?e = "\<lparr>xr_result = seven, xr_index = 0, xr_final = True\<rparr>"
  define h' where "h' = hedge_receive sample_hedge 0 0 0 ?e [] sample_done"
  have ph: "hr_phase sample_done = Await 0 (Some 105)" "hr_chan sample_done = [?e]" "hr_world sample_done = hr_world (hedge_launch sample_hedge 0 0 sample_start)"
    by (simp_all add: sample_done_def attempt_done_def sample_launched Let_def)
  have step: "hedge_step sample_hedge 0 0 sample_done h'" unfolding h'_def by (rule hedge_step.receive) (use ph in auto)
  have none: "isCanceledWithResult 0 0 (hr_world sample_done) = None" using sample_launched(4) by (simp add: ph(3) isCanceledWithResult_def exec_err_def Context_def)
  then have "hr_phase h' = Returned seven" by (simp add: h'_def hedge_receive_def hedge_finish_def hedge_return_def)
  with hedge_returns_result[OF _ sample_reachable step this] none ph(1) step show ?thesis by auto
qed

theorem hedge_ends_witness: "\<exists>h'. hedge_step sample_hedge 0 0 sample_done h' \<and> hedge_measure sample_hedge h' < hedge_measure sample_hedge sample_done"
proof -
  have ph: "hr_phase sample_done = Await 0 (Some 105)" "hr_chan sample_done = [\<lparr>xr_result = seven, xr_index = 0, xr_final = True\<rparr>]"
    by (simp_all add: sample_done_def attempt_done_def sample_launched Let_def)
  have "\<exists>h'. hedge_step sample_hedge 0 0 sample_done h'" using hedge_step.receive[OF ph(1) _ ph(2)] by blast
  then show ?thesis using hedge_ends[OF _ sample_reachable] by auto
qed

end
