(* ===== verification/Bucketed_Window.thy ===== *)
theory Bucketed_Window
  imports Go_Prelude
begin

text \<open>
  \<^verbatim>\<open>util.BucketedWindow\<close> (src/internal/util/windows.go): a time based sliding window of
  \<open>BucketCount\<close> buckets of \<open>BucketNanos\<close> nanoseconds each, with a running summary of the
  buckets. The window is a record with the source's fields, its function fields included; a pointer
  into \<^verbatim>\<open>Buckets\<close> is an index. The locale \<open>bucket_fns\<close> states what the window needs of the
  three functions, and its lemmas relate the ring of buckets to the abstract view of the window, a
  function from time slots to what was recorded in them (\<open>window_slots\<close>).
\<close>

section \<open>The window and its operations\<close>

record 'a bucketed_window =
  BucketCount :: int
  BucketNanos :: int
  AddFn :: "'a \<Rightarrow> 'a \<Rightarrow> 'a"
  RemoveFn :: "'a \<Rightarrow> 'a \<Rightarrow> 'a"
  ResetFn :: "'a \<Rightarrow> 'a"
  Buckets :: "'a list"
  Summary :: 'a
  HeadTime :: int

text \<open>One iteration of the loop of \<^verbatim>\<open>ExpireBuckets\<close>, then the loop over the offsets \<open>i\<close>.\<close>

definition expire_bucket :: "'a bucketed_window \<Rightarrow> int \<Rightarrow> 'a bucketed_window go" where
  "expire_bucket w i =
     go_bind (go_mod (i64 (i64 (HeadTime w + i) + 1)) (BucketCount w)) (\<lambda>k.
     go_bind (slice_index (Buckets w) k) (\<lambda>j.
       let bucket = Buckets w ! j in
       Inr (w\<lparr>Summary := RemoveFn w (Summary w) bucket,
              Buckets := (Buckets w)[j := ResetFn w bucket]\<rparr>)))"

fun expire_loop :: "'a bucketed_window \<Rightarrow> int list \<Rightarrow> 'a bucketed_window go" where
  "expire_loop w [] = Inr w"
| "expire_loop w (i # is) = go_bind (expire_bucket w i) (\<lambda>w'. expire_loop w' is)"

definition ExpireBuckets :: "'a bucketed_window \<Rightarrow> nanotime \<Rightarrow> ('a bucketed_window \<times> nat) go" where
  "ExpireBuckets w now =
     go_bind (go_div now (BucketNanos w)) (\<lambda>newHead.
     go_bind
       (if newHead > HeadTime w
        then let bucketsToMove = min (BucketCount w) (i64 (newHead - HeadTime w)) in
             go_bind (expire_loop w (map int [0..<nat bucketsToMove])) (\<lambda>w'.
             Inr (w'\<lparr>HeadTime := newHead\<rparr>))
        else Inr w) (\<lambda>w'.
     go_bind (go_mod (HeadTime w') (BucketCount w')) (\<lambda>k.
     go_bind (slice_index (Buckets w') k) (\<lambda>j.
     Inr (w', j)))))"

definition BucketedWindow_Reset :: "'a bucketed_window \<Rightarrow> 'a bucketed_window" where
  "BucketedWindow_Reset w =
     w\<lparr>Buckets := map (ResetFn w) (Buckets w), Summary := ResetFn w (Summary w), HeadTime := 0\<rparr>"

lemma expire_loop_append:
  "expire_loop w (is @ js) = go_bind (expire_loop w is) (\<lambda>w'. expire_loop w' js)"
proof (induction "is" arbitrary: w)
  case (Cons i "is")
  then show ?case by (cases "expire_bucket w i") simp_all
qed simp

section \<open>The abstract window\<close>

text \<open>
  Slot \<open>s\<close> covers the times \<open>t\<close> with \<open>t div BucketNanos = s\<close>. The window holds the
  \<open>BucketCount\<close> slots that end at \<open>HeadTime\<close>; sliding it forgets the slots it leaves.
\<close>

definition in_window :: "int \<Rightarrow> int \<Rightarrow> int \<Rightarrow> bool" where
  "in_window n head s \<longleftrightarrow> head - n < s \<and> s \<le> head"

definition window_slots :: "'a::zero bucketed_window \<Rightarrow> int \<Rightarrow> 'a" where
  "window_slots w s =
     (if in_window (BucketCount w) (HeadTime w) s
      then Buckets w ! nat (s mod BucketCount w) else 0)"

definition slide :: "int \<Rightarrow> int \<Rightarrow> (int \<Rightarrow> 'a::zero) \<Rightarrow> int \<Rightarrow> 'a" where
  "slide n head f s = (if in_window n head s then f s else 0)"

definition window_shape :: "'a bucketed_window \<Rightarrow> bool" where
  "window_shape w \<longleftrightarrow> 0 < BucketCount w \<and> BucketCount w = int (length (Buckets w))
     \<and> 0 < BucketNanos w \<and> 0 \<le> HeadTime w \<and> in_i64 (HeadTime w)"

lemma in_window_unique:
  assumes "in_window n h s" "in_window n h s'" "s mod n = s' mod n"
  shows "s = s'"
proof -
  have "n dvd s - s'" using assms(3) by (simp add: mod_eq_dvd_iff)
  moreover have "\<bar>s - s'\<bar> < n" using assms(1,2) by (auto simp: in_window_def)
  ultimately have "\<not> s - s' \<noteq> 0"
    using dvd_imp_le_int[of "s - s'" n] by (cases "n \<ge> 0") auto
  then show ?thesis by simp
qed

lemma window_shape_index: "window_shape w \<Longrightarrow> nat (s mod BucketCount w) < length (Buckets w)"
  by (auto simp: window_shape_def nat_less_iff)

text \<open>
  The \<open>m\<close> buckets past the old head \<open>h\<close> that the loop clears are, among the slots of the window
  that ends at \<open>nh\<close>, the buckets of the slots after \<open>h\<close>.
\<close>

lemma cleared_offsets:
  assumes m: "int m \<le> nh - h" "m = nat (nh - h) \<or> int m = n" and n: "0 < n" and h: "h < nh"
    and s: "in_window n nh s"
  shows "(\<exists>i < m. nat ((h + int i + 1) mod n) = nat (s mod n)) \<longleftrightarrow> h < s"
proof
  assume "\<exists>i < m. nat ((h + int i + 1) mod n) = nat (s mod n)"
  then obtain i where i: "i < m" "(h + int i + 1) mod n = s mod n"
    using n by (auto simp: nat_eq_iff)
  show "h < s"
  proof (rule ccontr)
    assume "\<not> h < s"
    then have "in_window n nh (h + int i + 1)" using s i(1) m(1) by (auto simp: in_window_def)
    with s i(2) have "s = h + int i + 1" by (metis in_window_unique)
    with \<open>\<not> h < s\<close> show False by simp
  qed
next
  assume "h < s"
  show "\<exists>i < m. nat ((h + int i + 1) mod n) = nat (s mod n)"
  proof (cases "m = nat (nh - h)")
    case True
    with \<open>h < s\<close> s have "nat (s - h - 1) < m" "h + int (nat (s - h - 1)) + 1 = s"
      by (auto simp: in_window_def)
    then show ?thesis by metis
  next
    case False
    then have mn: "int m = n" using m(2) by simp
    define i where "i = nat ((s - h - 1) mod n)"
    have "(h + int i + 1) mod n = ((s - h - 1) mod n + (h + 1)) mod n"
      using n by (simp add: i_def algebra_simps)
    also have "\<dots> = s mod n" by (simp only: mod_add_left_eq) simp
    finally have "(h + int i + 1) mod n = s mod n" .
    moreover have "i < m" using n mn by (simp add: i_def nat_less_iff)
    ultimately show ?thesis by auto
  qed
qed

section \<open>Windows whose functions add, subtract and clear\<close>

locale bucket_fns =
  fixes add_fn remove_fn :: "'a::ab_group_add \<Rightarrow> 'a \<Rightarrow> 'a" and reset_fn :: "'a \<Rightarrow> 'a"
  assumes add_fn: "add_fn s b = s + b"
    and remove_fn: "remove_fn s b = s - b"
    and reset_fn: "reset_fn b = 0"
begin

definition window_inv :: "'a bucketed_window \<Rightarrow> bool" where
  "window_inv w \<longleftrightarrow> window_shape w \<and> AddFn w = add_fn \<and> RemoveFn w = remove_fn
     \<and> ResetFn w = reset_fn \<and> Summary w = sum_list (Buckets w)"

lemma expire_bucket_step:
  assumes w: "window_inv w" and range: "0 \<le> HeadTime w + i + 1" "in_i64 (HeadTime w + i + 1)" "0 \<le> i"
  defines "j \<equiv> nat ((HeadTime w + i + 1) mod BucketCount w)"
  shows "expire_bucket w i = Inr (w\<lparr>Summary := Summary w - Buckets w ! j, Buckets := (Buckets w)[j := 0]\<rparr>)"
    and "window_inv (w\<lparr>Summary := Summary w - Buckets w ! j, Buckets := (Buckets w)[j := 0]\<rparr>)"
proof -
  have sh: "window_shape w" using w by (simp add: window_inv_def)
  have n: "0 < BucketCount w" and len: "BucketCount w = int (length (Buckets w))"
    using sh by (auto simp: window_shape_def)
  have "in_i64 (HeadTime w + i)"
    using range sh by (auto simp: in_i64_def window_shape_def)
  then have ix: "i64 (i64 (HeadTime w + i) + 1) = HeadTime w + i + 1"
    using range by (simp add: wrap_simps add.assoc)
  have "j < length (Buckets w)" unfolding j_def using sh by (rule window_shape_index)
  moreover have "slice_index (Buckets w) ((HeadTime w + i + 1) mod BucketCount w) = Inr j"
    unfolding slice_index_def j_def using n len by simp
  ultimately show "expire_bucket w i = Inr (w\<lparr>Summary := Summary w - Buckets w ! j, Buckets := (Buckets w)[j := 0]\<rparr>)"
    using w n range ix by (simp add: expire_bucket_def go_mod_def go_rem_nonneg window_inv_def remove_fn reset_fn)
  show "window_inv (w\<lparr>Summary := Summary w - Buckets w ! j, Buckets := (Buckets w)[j := 0]\<rparr>)"
    using w \<open>j < length (Buckets w)\<close>
    by (auto simp: window_inv_def window_shape_def sum_list_update_group)
qed

text \<open>
  After \<open>n\<close> iterations exactly the buckets at the offsets \<open>0..<n\<close> past the head are cleared.
\<close>

lemma expire_loop_run:
  assumes "window_inv w" and "in_i64 (HeadTime w + int n)"
  shows "\<exists>w'. expire_loop w (map int [0..<n]) = Inr w' \<and> window_inv w'
     \<and> HeadTime w' = HeadTime w \<and> BucketCount w' = BucketCount w \<and> BucketNanos w' = BucketNanos w
     \<and> length (Buckets w') = length (Buckets w)
     \<and> (\<forall>k < length (Buckets w). Buckets w' ! k =
          (if \<exists>i < n. nat ((HeadTime w + int i + 1) mod BucketCount w) = k then 0 else Buckets w ! k))"
  using assms(2)
proof (induction n)
  case 0
  with assms(1) show ?case by simp
next
  case (Suc n)
  have sh: "0 \<le> HeadTime w" using assms(1) by (simp add: window_inv_def window_shape_def)
  have r: "in_i64 (HeadTime w + int n)" "in_i64 (HeadTime w + int n + 1)"
    using Suc.prems sh by (auto simp: in_i64_def)
  then obtain w' where w': "expire_loop w (map int [0..<n]) = Inr w'" "window_inv w'"
      "HeadTime w' = HeadTime w" "BucketCount w' = BucketCount w" "BucketNanos w' = BucketNanos w"
      "length (Buckets w') = length (Buckets w)"
      and ks: "\<forall>k < length (Buckets w). Buckets w' ! k =
          (if \<exists>i < n. nat ((HeadTime w + int i + 1) mod BucketCount w) = k then 0 else Buckets w ! k)"
    using Suc.IH by blast
  define j where "j = nat ((HeadTime w + int n + 1) mod BucketCount w)"
  have step: "expire_bucket w' (int n) = Inr (w'\<lparr>Summary := Summary w' - Buckets w' ! j, Buckets := (Buckets w')[j := 0]\<rparr>)"
       "window_inv (w'\<lparr>Summary := Summary w' - Buckets w' ! j, Buckets := (Buckets w')[j := 0]\<rparr>)"
    using expire_bucket_step[of w' "int n"] w' r sh by (simp_all add: j_def)
  have "expire_loop w (map int [0..<Suc n])
      = Inr (w'\<lparr>Summary := Summary w' - Buckets w' ! j, Buckets := (Buckets w')[j := 0]\<rparr>)"
    using w'(1) step(1) by (simp add: expire_loop_append)
  moreover have "\<forall>k < length (Buckets w). (Buckets w')[j := 0] ! k =
          (if \<exists>i < Suc n. nat ((HeadTime w + int i + 1) mod BucketCount w) = k then 0 else Buckets w ! k)"
  proof (intro allI impI)
    fix k assume k: "k < length (Buckets w)"
    have "(\<exists>i < Suc n. nat ((HeadTime w + int i + 1) mod BucketCount w) = k)
        \<longleftrightarrow> j = k \<or> (\<exists>i < n. nat ((HeadTime w + int i + 1) mod BucketCount w) = k)"
      by (auto simp: less_Suc_eq j_def)
    with ks k w'(6) show "(Buckets w')[j := 0] ! k =
          (if \<exists>i < Suc n. nat ((HeadTime w + int i + 1) mod BucketCount w) = k then 0 else Buckets w ! k)"
      by (cases "j = k") simp_all
  qed
  ultimately show ?case using w' step(2) by simp
qed

text \<open>The loop, run for the slots between the old and the new head, slides the abstract window.\<close>

lemma expire_loop_slides:
  assumes w: "window_inv w" and nh: "HeadTime w < nh" "in_i64 nh"
  defines "m \<equiv> nat (min (BucketCount w) (nh - HeadTime w))"
  shows "\<exists>w'. expire_loop w (map int [0..<m]) = Inr w' \<and> window_inv (w'\<lparr>HeadTime := nh\<rparr>)
     \<and> BucketCount w' = BucketCount w \<and> BucketNanos w' = BucketNanos w
     \<and> window_slots (w'\<lparr>HeadTime := nh\<rparr>) = slide (BucketCount w) nh (window_slots w)"
proof -
  have sh: "window_shape w" and n: "0 < BucketCount w" and h0: "0 \<le> HeadTime w"
    using w by (auto simp: window_inv_def window_shape_def)
  have m: "int m \<le> nh - HeadTime w" "int m \<le> BucketCount w" "m = nat (nh - HeadTime w) \<or> int m = BucketCount w"
    using nh n by (auto simp: m_def)
  have "in_i64 (HeadTime w + int m)" using m(1) nh h0 by (auto simp: in_i64_def)
  then obtain w' where w': "expire_loop w (map int [0..<m]) = Inr w'" "window_inv w'"
      "HeadTime w' = HeadTime w" "BucketCount w' = BucketCount w" "BucketNanos w' = BucketNanos w"
      and ks: "\<forall>k < length (Buckets w). Buckets w' ! k =
        (if \<exists>i < m. nat ((HeadTime w + int i + 1) mod BucketCount w) = k then 0 else Buckets w ! k)"
    using expire_loop_run[OF w, of m] by blast
  have inv': "window_inv (w'\<lparr>HeadTime := nh\<rparr>)"
    using w'(2) nh h0 by (auto simp: window_inv_def window_shape_def)
  have "window_slots (w'\<lparr>HeadTime := nh\<rparr>) s = slide (BucketCount w) nh (window_slots w) s" for s
  proof (cases "in_window (BucketCount w) nh s")
    case inw: True
    have k: "nat (s mod BucketCount w) < length (Buckets w)" using sh by (rule window_shape_index)
    have "(\<exists>i < m. nat ((HeadTime w + int i + 1) mod BucketCount w) = nat (s mod BucketCount w))
        \<longleftrightarrow> HeadTime w < s"
      by (rule cleared_offsets) (use m n inw nh in auto)
    moreover have "in_window (BucketCount w) (HeadTime w) s \<longleftrightarrow> s \<le> HeadTime w"
      using inw nh by (auto simp: in_window_def)
    ultimately show ?thesis
      using inw ks k w'(4) by (simp add: window_slots_def slide_def)
  qed (use w'(4) in \<open>simp add: window_slots_def slide_def\<close>)
  with inv' w' show ?thesis by auto
qed

text \<open>\<^verbatim>\<open>ExpireBuckets\<close> slides the abstract window to the slot of the current time.\<close>

lemma ExpireBuckets_slides:
  assumes w: "window_inv w" and now: "0 \<le> now" "in_i64 now"
  defines "head \<equiv> max (HeadTime w) (now div BucketNanos w)"
  shows "\<exists>w'. ExpireBuckets w now = Inr (w', nat (head mod BucketCount w)) \<and> window_inv w'
     \<and> HeadTime w' = head \<and> BucketCount w' = BucketCount w \<and> BucketNanos w' = BucketNanos w
     \<and> window_slots w' = slide (BucketCount w) head (window_slots w)"
proof -
  have sh: "window_shape w" and nanos: "0 < BucketNanos w" and h0: "0 \<le> HeadTime w"
    using w by (auto simp: window_inv_def window_shape_def)
  define nh where "nh = now div BucketNanos w"
  have "0 \<le> nh" using now nanos by (simp add: nh_def pos_imp_zdiv_nonneg_iff)
  moreover have "nh \<le> now" unfolding nh_def using now(1) nanos by (rule int_div_le)
  ultimately have nh: "0 \<le> nh" "in_i64 nh" using now by (auto simp: in_i64_def)
  have div: "go_div now (BucketNanos w) = Inr nh"
    using nanos now nh by (simp add: go_div_def go_quot_nonneg wrap_simps nh_def)
  have ret: "go_bind (go_mod (HeadTime v) (BucketCount v)) (\<lambda>k. go_bind (slice_index (Buckets v) k) (\<lambda>j. Inr (v, j)))
      = Inr (v, nat (HeadTime v mod BucketCount v))" if "window_shape v" for v :: "'a bucketed_window"
    using that by (auto simp: go_mod_def go_rem_nonneg slice_index_def window_shape_def)
  show ?thesis
  proof (cases "HeadTime w < nh")
    case False
    then have "head = HeadTime w" by (simp add: head_def nh_def)
    moreover have "window_slots w = slide (BucketCount w) (HeadTime w) (window_slots w)"
      by (simp add: fun_eq_iff slide_def window_slots_def)
    ultimately show ?thesis
      using False div ret[OF sh] w by (simp add: ExpireBuckets_def)
  next
    case True
    then have head: "head = nh" by (simp add: head_def nh_def)
    obtain w' where w': "expire_loop w (map int [0..<nat (min (BucketCount w) (nh - HeadTime w))]) = Inr w'"
        "window_inv (w'\<lparr>HeadTime := nh\<rparr>)" "BucketCount w' = BucketCount w" "BucketNanos w' = BucketNanos w"
        "window_slots (w'\<lparr>HeadTime := nh\<rparr>) = slide (BucketCount w) nh (window_slots w)"
      using expire_loop_slides[OF w True nh(2)] by blast
    have "i64 (nh - HeadTime w) = nh - HeadTime w"
      using True h0 nh by (intro i64_id) (auto simp: in_i64_def)
    moreover have "window_shape (w'\<lparr>HeadTime := nh\<rparr>)" using w'(2) by (simp add: window_inv_def)
    ultimately have "ExpireBuckets w now = Inr (w'\<lparr>HeadTime := nh\<rparr>, nat (nh mod BucketCount w))"
      using True div w'(1,3) ret[of "w'\<lparr>HeadTime := nh\<rparr>"] by (simp add: ExpireBuckets_def Let_def)
    with head w' show ?thesis by auto
  qed
qed

text \<open>Adding to the head bucket and to the summary adds to the head slot.\<close>

lemma head_bucket_add:
  fixes d :: 'a
  assumes w: "window_inv w" and j: "j = nat (HeadTime w mod BucketCount w)"
  defines "w' \<equiv> w\<lparr>Buckets := (Buckets w)[j := Buckets w ! j + d], Summary := Summary w + d\<rparr>"
  shows "window_inv w'"
    and "window_slots w' = (window_slots w)(HeadTime w := window_slots w (HeadTime w) + d)"
proof -
  have sh: "window_shape w" using w by (simp add: window_inv_def)
  have jl: "j < length (Buckets w)" unfolding j using sh by (rule window_shape_index)
  with w show "window_inv w'"
    by (auto simp: window_inv_def window_shape_def w'_def sum_list_update_group)
  have n: "0 < BucketCount w" using sh by (auto simp: window_shape_def)
  show "window_slots w' = (window_slots w)(HeadTime w := window_slots w (HeadTime w) + d)"
  proof
    fix s
    have "s = HeadTime w" if "in_window (BucketCount w) (HeadTime w) s" "nat (s mod BucketCount w) = j"
      using in_window_unique[of "BucketCount w" "HeadTime w" s "HeadTime w"] that n j
      by (auto simp: in_window_def nat_eq_iff)
    then show "window_slots w' s = ((window_slots w)(HeadTime w := window_slots w (HeadTime w) + d)) s"
      using jl n j by (auto simp: window_slots_def w'_def in_window_def nth_list_update)
  qed
qed

text \<open>The summary is the sum over the slots of the window.\<close>

lemma window_summary:
  assumes w: "window_inv w"
  shows "Summary w = (\<Sum>s \<in> {HeadTime w - BucketCount w <.. HeadTime w}. window_slots w s)"
proof -
  let ?n = "BucketCount w" and ?h = "HeadTime w"
  have n: "0 < ?n" "?n = int (length (Buckets w))" using w by (auto simp: window_inv_def window_shape_def)
  have bij: "bij_betw (\<lambda>s. nat (s mod ?n)) {?h - ?n <.. ?h} {..<length (Buckets w)}"
  proof (rule bij_betwI')
    fix x y assume "x \<in> {?h - ?n <.. ?h}" "y \<in> {?h - ?n <.. ?h}"
    then show "(nat (x mod ?n) = nat (y mod ?n)) = (x = y)"
      using in_window_unique[of ?n ?h x y] n by (auto simp: in_window_def nat_eq_iff)
  next
    fix x assume "x \<in> {?h - ?n <.. ?h}"
    then show "nat (x mod ?n) \<in> {..<length (Buckets w)}" using n by (simp add: nat_less_iff)
  next
    fix k assume "k \<in> {..<length (Buckets w)}"
    then have k: "int k < ?n" using n by simp
    define s where "s = ?h - (?h - int k) mod ?n"
    have "s mod ?n = (?h - (?h - int k)) mod ?n" unfolding s_def by (simp only: mod_diff_right_eq)
    then have "nat (s mod ?n) = k" using k by simp
    moreover have "s \<in> {?h - ?n <.. ?h}" using n by (simp add: s_def)
    ultimately show "\<exists>x\<in>{?h - ?n <.. ?h}. k = nat (x mod ?n)" by auto
  qed
  have "Summary w = (\<Sum>k<length (Buckets w). Buckets w ! k)"
    using w by (simp add: window_inv_def sum_list_sum_nth atLeast0LessThan)
  also have "\<dots> = (\<Sum>s \<in> {?h - ?n <.. ?h}. Buckets w ! nat (s mod ?n))"
    by (rule sum.reindex_bij_betw[OF bij, symmetric])
  also have "\<dots> = (\<Sum>s \<in> {?h - ?n <.. ?h}. window_slots w s)"
    by (rule sum.cong) (auto simp: window_slots_def in_window_def)
  finally show ?thesis .
qed

lemma Reset_inv:
  assumes "window_inv w"
  shows "window_inv (BucketedWindow_Reset w)" and "window_slots (BucketedWindow_Reset w) s = 0"
    and "Summary (BucketedWindow_Reset w) = 0"
proof -
  have len: "0 < length (Buckets w)" "BucketCount w = int (length (Buckets w))"
    using assms by (auto simp: window_inv_def window_shape_def)
  have map0: "map reset_fn (Buckets w) = replicate (length (Buckets w)) 0"
    by (simp add: list_eq_iff_nth_eq reset_fn)
  show "window_inv (BucketedWindow_Reset w)" "Summary (BucketedWindow_Reset w) = 0"
    using assms len map0
    by (auto simp: window_inv_def window_shape_def BucketedWindow_Reset_def reset_fn in_i64_def sum_list_replicate)
  have "nat (s mod BucketCount w) < length (Buckets w)" using len by (simp add: nat_less_iff)
  then show "window_slots (BucketedWindow_Reset w) s = 0"
    using assms map0 by (simp add: window_inv_def window_slots_def BucketedWindow_Reset_def)
qed

end

end
