(* ===== verification/Execution_Stats.thy ===== *)
theory Execution_Stats
  imports Bucketed_Window
begin

text \<open>
  \<^verbatim>\<open>util.ExecutionStats\<close> (src/internal/util/stats.go): the statistics of recent execution results
  that circuit breakers and adaptive throttlers decide on, in a count based implementation on a ring
  of bits (\<open>countingStats\<close>) and a time based one on a bucketed window (\<open>timedStats\<close>). The bit set
  is the package github.com/bits-and-blooms/bitset, whose operations are the argument \<open>B\<close> of the
  model; the locale \<open>bitset_laws\<close> states what its documentation promises. The current time, which
  the Go code reads from its clock, is an argument.
\<close>

section \<open>The bit set the counting statistics use\<close>

record 'b bitset_api =
  bitset_New :: "uint \<Rightarrow> 'b"
  bitset_Len :: "'b \<Rightarrow> uint"
  bitset_Test :: "'b \<Rightarrow> uint \<Rightarrow> bool"
  bitset_SetTo :: "'b \<Rightarrow> uint \<Rightarrow> bool \<Rightarrow> 'b"
  bitset_ClearAll :: "'b \<Rightarrow> 'b"

locale bitset_laws =
  fixes B :: "'b bitset_api"
  assumes Len_New: "bitset_Len B (bitset_New B n) = n"
    and Len_SetTo: "i < bitset_Len B b \<Longrightarrow> bitset_Len B (bitset_SetTo B b i v) = bitset_Len B b"
    and Test_SetTo: "i < bitset_Len B b \<Longrightarrow>
          bitset_Test B (bitset_SetTo B b i v) j = (if j = i then v else bitset_Test B b j)"
    and Len_ClearAll: "bitset_Len B (bitset_ClearAll B b) = bitset_Len B b"

section \<open>Rates\<close>

definition Round :: "float64 \<Rightarrow> float64" where
  "Round v = math_Round (v * 100) / 100"

section \<open>Counting statistics\<close>

record 'b countingStats =
  cs_bitSet :: 'b
  cs_head :: uint
  cs_occupiedBits :: uint
  cs_successes :: uint
  cs_failures :: uint

definition NewCountingStats :: "'b bitset_api \<Rightarrow> uint \<Rightarrow> 'b countingStats" where
  "NewCountingStats B sz =
     \<lparr>cs_bitSet = bitset_New B sz, cs_head = 0, cs_occupiedBits = 0, cs_successes = 0, cs_failures = 0\<rparr>"

definition setNext :: "'b bitset_api \<Rightarrow> 'b countingStats \<Rightarrow> bool \<Rightarrow> (int \<times> 'b countingStats) go" where
  "setNext B c value =
     (let (previousValue, c1) =
        (if cs_occupiedBits c < bitset_Len B (cs_bitSet c)
         then (-1, c\<lparr>cs_occupiedBits := cs_occupiedBits c + 1\<rparr>)
         else if bitset_Test B (cs_bitSet c) (cs_head c)
         then (1, c\<lparr>cs_successes := cs_successes c - 1\<rparr>)
         else (0, c\<lparr>cs_failures := cs_failures c - 1\<rparr>));
        c2 = (if value then c1\<lparr>cs_successes := cs_successes c1 + 1\<rparr> else c1\<lparr>cs_failures := cs_failures c1 + 1\<rparr>);
        bits = bitset_SetTo B (cs_bitSet c2) (cs_head c2) value
      in if bitset_Len B bits = 0 then Inl DivideByZero
         else Inr (previousValue, c2\<lparr>cs_bitSet := bits, cs_head := (cs_head c2 + 1) mod bitset_Len B bits\<rparr>))"

definition counting_ExecutionCount :: "'b countingStats \<Rightarrow> uint" where
  "counting_ExecutionCount c = cs_occupiedBits c"

definition counting_FailureCount :: "'b countingStats \<Rightarrow> uint" where
  "counting_FailureCount c = cs_failures c"

definition counting_FailureRate :: "'b countingStats \<Rightarrow> float64" where
  "counting_FailureRate c =
     (if cs_occupiedBits c = 0 then 0 else Round (float_of_uint (cs_failures c) / float_of_uint (cs_occupiedBits c)))"

definition counting_SuccessCount :: "'b countingStats \<Rightarrow> uint" where
  "counting_SuccessCount c = cs_successes c"

definition counting_SuccessRate :: "'b countingStats \<Rightarrow> float64" where
  "counting_SuccessRate c =
     (if cs_occupiedBits c = 0 then 0 else Round (float_of_uint (cs_successes c) / float_of_uint (cs_occupiedBits c)))"

definition counting_RecordFailure :: "'b bitset_api \<Rightarrow> 'b countingStats \<Rightarrow> 'b countingStats go" where
  "counting_RecordFailure B c = go_bind (setNext B c False) (\<lambda>(_, c'). Inr c')"

definition counting_RecordSuccess :: "'b bitset_api \<Rightarrow> 'b countingStats \<Rightarrow> 'b countingStats go" where
  "counting_RecordSuccess B c = go_bind (setNext B c True) (\<lambda>(_, c'). Inr c')"

definition counting_Reset :: "'b bitset_api \<Rightarrow> 'b countingStats \<Rightarrow> 'b countingStats" where
  "counting_Reset B c =
     c\<lparr>cs_bitSet := bitset_ClearAll B (cs_bitSet c), cs_head := 0, cs_occupiedBits := 0, cs_successes := 0, cs_failures := 0\<rparr>"

section \<open>Timed statistics\<close>

datatype timedStat = TimedStat (ts_successes: uint) (ts_failures: uint)

type_synonym timedStats = "timedStat bucketed_window"

definition timed_AddFn :: "timedStat \<Rightarrow> timedStat \<Rightarrow> timedStat" where
  "timed_AddFn summary bucket =
     TimedStat (ts_successes summary + ts_successes bucket) (ts_failures summary + ts_failures bucket)"

definition timed_RemoveFn :: "timedStat \<Rightarrow> timedStat \<Rightarrow> timedStat" where
  "timed_RemoveFn summary bucket =
     TimedStat (ts_successes summary - ts_successes bucket) (ts_failures summary - ts_failures bucket)"

definition timed_ResetFn :: "timedStat \<Rightarrow> timedStat" where
  "timed_ResetFn s = TimedStat 0 0"

definition NewTimedStats :: "int \<Rightarrow> duration \<Rightarrow> timedStats go" where
  "NewTimedStats bucketCount thresholdingPeriod =
     go_bind (Assert (0 \<le> bucketCount) ''makeslice: len out of range'') (\<lambda>_.
     go_bind (go_div thresholdingPeriod bucketCount) (\<lambda>nanos.
     Inr \<lparr>BucketCount = bucketCount, BucketNanos = nanos, AddFn = timed_AddFn,
          RemoveFn = timed_RemoveFn, ResetFn = timed_ResetFn,
          Buckets = replicate (nat bucketCount) (TimedStat 0 0), Summary = TimedStat 0 0, HeadTime = 0\<rparr>))"

definition timed_ExecutionCount :: "timedStats \<Rightarrow> uint" where
  "timed_ExecutionCount s = ts_successes (Summary s) + ts_failures (Summary s)"

definition timed_FailureCount :: "timedStats \<Rightarrow> uint" where
  "timed_FailureCount s = ts_failures (Summary s)"

definition timed_FailureRate :: "timedStats \<Rightarrow> float64" where
  "timed_FailureRate s =
     (let executions = timed_ExecutionCount s in
      if executions = 0 then 0
      else Round (float_of_uint (ts_failures (Summary s)) / float_of_uint executions))"

definition timed_SuccessCount :: "timedStats \<Rightarrow> uint" where
  "timed_SuccessCount s = ts_successes (Summary s)"

definition timed_SuccessRate :: "timedStats \<Rightarrow> float64" where
  "timed_SuccessRate s =
     (let executions = timed_ExecutionCount s in
      if executions = 0 then 0
      else Round (float_of_uint (ts_successes (Summary s)) / float_of_uint executions))"

definition timed_RecordFailure :: "timedStats \<Rightarrow> nanotime \<Rightarrow> timedStats go" where
  "timed_RecordFailure s now =
     go_bind (ExpireBuckets s now) (\<lambda>(s', j).
     let bucket = Buckets s' ! j; summary = Summary s' in
     Inr (s'\<lparr>Buckets := (Buckets s')[j := TimedStat (ts_successes bucket) (ts_failures bucket + 1)],
             Summary := TimedStat (ts_successes summary) (ts_failures summary + 1)\<rparr>))"

definition timed_RecordSuccess :: "timedStats \<Rightarrow> nanotime \<Rightarrow> timedStats go" where
  "timed_RecordSuccess s now =
     go_bind (ExpireBuckets s now) (\<lambda>(s', j).
     let bucket = Buckets s' ! j; summary = Summary s' in
     Inr (s'\<lparr>Buckets := (Buckets s')[j := TimedStat (ts_successes bucket + 1) (ts_failures bucket)],
             Summary := TimedStat (ts_successes summary + 1) (ts_failures summary)\<rparr>))"

section \<open>The interface, as the two implementations dispatch\<close>

datatype 'b executionStats = Counting "'b countingStats" | Timed timedStats

fun ExecutionCount :: "'b executionStats \<Rightarrow> uint" where
  "ExecutionCount (Counting c) = counting_ExecutionCount c"
| "ExecutionCount (Timed s) = timed_ExecutionCount s"

fun FailureCount :: "'b executionStats \<Rightarrow> uint" where
  "FailureCount (Counting c) = counting_FailureCount c"
| "FailureCount (Timed s) = timed_FailureCount s"

fun FailureRate :: "'b executionStats \<Rightarrow> float64" where
  "FailureRate (Counting c) = counting_FailureRate c"
| "FailureRate (Timed s) = timed_FailureRate s"

fun SuccessCount :: "'b executionStats \<Rightarrow> uint" where
  "SuccessCount (Counting c) = counting_SuccessCount c"
| "SuccessCount (Timed s) = timed_SuccessCount s"

fun SuccessRate :: "'b executionStats \<Rightarrow> float64" where
  "SuccessRate (Counting c) = counting_SuccessRate c"
| "SuccessRate (Timed s) = timed_SuccessRate s"

fun RecordFailure :: "'b bitset_api \<Rightarrow> 'b executionStats \<Rightarrow> nanotime \<Rightarrow> 'b executionStats go" where
  "RecordFailure B (Counting c) now = go_bind (counting_RecordFailure B c) (\<lambda>c'. Inr (Counting c'))"
| "RecordFailure B (Timed s) now = go_bind (timed_RecordFailure s now) (\<lambda>s'. Inr (Timed s'))"

fun RecordSuccess :: "'b bitset_api \<Rightarrow> 'b executionStats \<Rightarrow> nanotime \<Rightarrow> 'b executionStats go" where
  "RecordSuccess B (Counting c) now = go_bind (counting_RecordSuccess B c) (\<lambda>c'. Inr (Counting c'))"
| "RecordSuccess B (Timed s) now = go_bind (timed_RecordSuccess s now) (\<lambda>s'. Inr (Timed s'))"

fun Stats_Reset :: "'b bitset_api \<Rightarrow> 'b executionStats \<Rightarrow> 'b executionStats" where
  "Stats_Reset B (Counting c) = Counting (counting_Reset B c)"
| "Stats_Reset B (Timed s) = Timed (BucketedWindow_Reset s)"

section \<open>Counting statistics refine a bounded list of results\<close>

definition push_bounded :: "nat \<Rightarrow> 'a list \<Rightarrow> 'a \<Rightarrow> 'a list" where
  "push_bounded n xs x = drop (length xs + 1 - n) (xs @ [x])"

definition cs_bits :: "'b bitset_api \<Rightarrow> 'b countingStats \<Rightarrow> bool list" where
  "cs_bits B c = map (\<lambda>i. bitset_Test B (cs_bitSet c) (of_nat i)) [0..<unat (bitset_Len B (cs_bitSet c))]"

definition cs_results :: "'b bitset_api \<Rightarrow> 'b countingStats \<Rightarrow> bool list" where
  "cs_results B c =
     (if cs_occupiedBits c < bitset_Len B (cs_bitSet c)
      then take (unat (cs_occupiedBits c)) (cs_bits B c)
      else rotate (unat (cs_head c)) (cs_bits B c))"

definition counters_ok :: "uint \<Rightarrow> uint \<Rightarrow> bool list \<Rightarrow> bool" where
  "counters_ok s f xs \<longleftrightarrow> unat s = count_list xs True \<and> unat f = count_list xs False"

definition cs_inv :: "'b bitset_api \<Rightarrow> 'b countingStats \<Rightarrow> bool" where
  "cs_inv B c \<longleftrightarrow> 0 < bitset_Len B (cs_bitSet c) \<and> cs_occupiedBits c \<le> bitset_Len B (cs_bitSet c)
     \<and> cs_head c < bitset_Len B (cs_bitSet c)
     \<and> (cs_occupiedBits c < bitset_Len B (cs_bitSet c) \<longrightarrow> cs_head c = cs_occupiedBits c)
     \<and> counters_ok (cs_successes c) (cs_failures c) (cs_results B c)"

lemma length_cs_bits [simp]: "length (cs_bits B c) = unat (bitset_Len B (cs_bitSet c))"
  by (simp add: cs_bits_def)

lemma cs_results_length:
  "cs_inv B c \<Longrightarrow> length (cs_results B c) = unat (cs_occupiedBits c)"
  by (auto simp: cs_inv_def cs_results_def word_less_nat_alt word_le_nat_alt)

lemma counters_push:
  assumes "counters_ok s f xs" "length xs < unat (L :: uint)"
  shows "counters_ok (if v then s + 1 else s) (if v then f else f + 1) (xs @ [v])"
proof -
  have "unat s < unat L" "unat f < unat L"
    using assms count_list_bool[of xs] by (auto simp: counters_ok_def)
  then have "unat (s + 1) = Suc (unat s)" "unat (f + 1) = Suc (unat f)"
    by (auto simp: unat_inc word_less_nat_alt)
  with assms(1) show ?thesis by (simp add: counters_ok_def)
qed

lemma counters_pop:
  assumes "counters_ok s f xs" "xs \<noteq> []"
  shows "counters_ok (if hd xs then s - 1 else s) (if hd xs then f else f - 1) (tl xs)"
proof -
  have "s \<noteq> 0" if "hd xs" using that assms by (cases xs) (auto simp: counters_ok_def)
  moreover have "f \<noteq> 0" if "\<not> hd xs" using that assms by (cases xs) (auto simp: counters_ok_def)
  ultimately show ?thesis
    using assms by (cases xs) (auto simp: counters_ok_def unat_minus_one)
qed

context bitset_laws begin

lemma cs_bits_SetTo:
  assumes "cs_head c < bitset_Len B (cs_bitSet c)"
  shows "cs_bits B (c\<lparr>cs_bitSet := bitset_SetTo B (cs_bitSet c) (cs_head c) v, cs_head := h\<rparr>)
    = (cs_bits B c)[unat (cs_head c) := v]"
proof (rule nth_equalityI)
  fix i assume "i < length (cs_bits B (c\<lparr>cs_bitSet := bitset_SetTo B (cs_bitSet c) (cs_head c) v, cs_head := h\<rparr>))"
  then have i: "i < unat (bitset_Len B (cs_bitSet c))" by (simp add: Len_SetTo assms)
  then have "(of_nat i = cs_head c) = (unat (cs_head c) = i)"
    by (auto simp: of_nat_eq_word_iff)
  with i show "cs_bits B (c\<lparr>cs_bitSet := bitset_SetTo B (cs_bitSet c) (cs_head c) v, cs_head := h\<rparr>) ! i
      = (cs_bits B c)[unat (cs_head c) := v] ! i"
    by (auto simp: cs_bits_def Len_SetTo Test_SetTo assms nth_list_update)
qed (simp add: Len_SetTo assms)

text \<open>What the ring shows after the next bit is written, in a ring with room and in a full one.\<close>

lemma results_room:
  assumes h: "unat h < length bits"
  shows "(if Suc (unat h) < length bits then take (Suc (unat h)) (bits[unat h := v])
      else rotate (Suc (unat h) mod length bits) (bits[unat h := v])) = take (unat h) bits @ [v]"
proof (cases "Suc (unat h) < length bits")
  case True
  with h show ?thesis by (simp add: take_Suc_conv_app_nth)
next
  case False
  with h have n: "length bits = Suc (unat h)" by simp
  then have "bits[unat h := v] = take (unat h) bits @ [v]"
    using take_Suc_conv_app_nth[of "unat h" "bits[unat h := v]"] by simp
  with n show ?thesis by simp
qed

text \<open>One \<^verbatim>\<open>setNext\<close> appends the result and drops the oldest one when the ring is full.\<close>

lemma setNext_room:
  assumes inv: "cs_inv B c" and True: "cs_occupiedBits c < bitset_Len B (cs_bitSet c)"
  defines "n \<equiv> unat (bitset_Len B (cs_bitSet c))"
  shows "\<exists>c'. setNext B c v = Inr (- 1, c') \<and> cs_inv B c'
     \<and> bitset_Len B (cs_bitSet c') = bitset_Len B (cs_bitSet c)
     \<and> cs_results B c' = push_bounded n (cs_results B c) v"
proof -
  let ?L = "bitset_Len B (cs_bitSet c)" and ?o = "cs_occupiedBits c"
  define c' where "c' = (if v then c\<lparr>cs_occupiedBits := ?o + 1, cs_successes := cs_successes c + 1\<rparr>
     else c\<lparr>cs_occupiedBits := ?o + 1, cs_failures := cs_failures c + 1\<rparr>)
       \<lparr>cs_bitSet := bitset_SetTo B (cs_bitSet c) (cs_head c) v, cs_head := (cs_head c + 1) mod ?L\<rparr>"
  have hd: "cs_head c = ?o" "0 < ?L" using inv True by (auto simp: cs_inv_def)
  have run: "setNext B c v = Inr (- 1, c')"
    using True hd by (auto simp: setNext_def Let_def c'_def Len_SetTo)
  have len: "bitset_Len B (cs_bitSet c') = ?L" using hd True by (simp add: c'_def Len_SetTo)
  have fld: "cs_occupiedBits c' = ?o + 1" "cs_head c' = (?o + 1) mod ?L"
      "cs_successes c' = (if v then cs_successes c + 1 else cs_successes c)"
      "cs_failures c' = (if v then cs_failures c else cs_failures c + 1)"
    using hd by (simp_all add: c'_def)
  have bits: "cs_bits B c' = (cs_bits B c)[unat ?o := v]"
    using cs_bits_SetTo[of c] True hd by (simp add: c'_def cs_bits_def)
  have o: "unat ?o < n" "unat (?o + 1) = Suc (unat ?o)"
    using True unat_inc[OF True] by (simp_all add: n_def word_less_nat_alt)
  have "cs_results B c' = take (unat ?o) (cs_bits B c) @ [v]"
    using results_room[of ?o "cs_bits B c" v] o len bits fld True
    by (simp add: cs_results_def n_def word_less_nat_alt unat_Suc_mod split: if_splits)
  moreover have "cs_results B c = take (unat ?o) (cs_bits B c)" using True by (simp add: cs_results_def)
  ultimately have res: "cs_results B c' = cs_results B c @ [v]"
    and l: "length (cs_results B c) = unat ?o" using o by (simp_all add: n_def)
  have "counters_ok (cs_successes c') (cs_failures c') (cs_results B c')"
    using counters_push[of "cs_successes c" "cs_failures c" "cs_results B c" ?L v] inv l o(1)
    by (simp add: cs_inv_def fld(3,4) res n_def)
  then have "cs_inv B c'"
    using inv len fld(1,2) hd True ring_next[OF True] by (simp add: cs_inv_def)
  then show ?thesis using run len res l o by (simp add: push_bounded_def)
qed

lemma setNext_full:
  assumes inv: "cs_inv B c" and False: "\<not> cs_occupiedBits c < bitset_Len B (cs_bitSet c)"
  defines "n \<equiv> unat (bitset_Len B (cs_bitSet c))"
  shows "\<exists>c'. setNext B c v = Inr (if hd (cs_results B c) then 1 else 0, c') \<and> cs_inv B c'
     \<and> bitset_Len B (cs_bitSet c') = bitset_Len B (cs_bitSet c)
     \<and> cs_results B c' = push_bounded n (cs_results B c) v"
proof -
  let ?L = "bitset_Len B (cs_bitSet c)" and ?h = "cs_head c"
  have hd: "?h < ?L" "0 < ?L" "cs_occupiedBits c = ?L" using inv False by (auto simp: cs_inv_def)
  define old where "old = cs_bits B c ! unat ?h"
  define c1 where "c1 = (if old then c\<lparr>cs_successes := cs_successes c - 1\<rparr> else c\<lparr>cs_failures := cs_failures c - 1\<rparr>)"
  define c' where "c' = (if v then c1\<lparr>cs_successes := cs_successes c1 + 1\<rparr> else c1\<lparr>cs_failures := cs_failures c1 + 1\<rparr>)
       \<lparr>cs_bitSet := bitset_SetTo B (cs_bitSet c) ?h v, cs_head := (?h + 1) mod ?L\<rparr>"
  have test: "bitset_Test B (cs_bitSet c) ?h = old"
    using hd by (simp add: old_def cs_bits_def word_less_nat_alt)
  have run: "setNext B c v = Inr (if old then 1 else 0, c')"
    using False hd test by (auto simp: setNext_def Let_def c'_def c1_def Len_SetTo)
  have len: "bitset_Len B (cs_bitSet c') = ?L" using hd by (simp add: c'_def Len_SetTo)
  have bits: "cs_bits B c' = (cs_bits B c)[unat ?h := v]"
    using cs_bits_SetTo[of c] hd by (simp add: c'_def cs_bits_def)
  have fld: "cs_occupiedBits c' = ?L" "cs_head c' = (?h + 1) mod ?L"
    using hd by (simp_all add: c'_def c1_def)
  have h: "unat ?h < n" using hd by (simp add: n_def word_less_nat_alt)
  have rc: "cs_results B c = rotate (unat ?h) (cs_bits B c)" using False by (simp add: cs_results_def)
  have res: "cs_results B c' = tl (cs_results B c) @ [v]"
    using rotate_Suc_update[of "unat ?h" "cs_bits B c" v] h len bits fld hd rc
    by (simp add: cs_results_def n_def unat_Suc_mod)
  have l: "hd (cs_results B c) = old" "length (cs_results B c) = n"
    using h by (simp_all add: rc old_def n_def hd_rotate)
  then have ne: "cs_results B c \<noteq> []" using h by auto
  have "counters_ok (cs_successes c1) (cs_failures c1) (tl (cs_results B c))"
    using counters_pop[of "cs_successes c" "cs_failures c" "cs_results B c"] inv l ne
    by (simp add: cs_inv_def c1_def split: if_splits)
  moreover have "cs_successes c' = (if v then cs_successes c1 + 1 else cs_successes c1)"
      "cs_failures c' = (if v then cs_failures c1 else cs_failures c1 + 1)"
    by (simp_all add: c'_def)
  ultimately have "counters_ok (cs_successes c') (cs_failures c') (cs_results B c')"
    using counters_push[of "cs_successes c1" "cs_failures c1" "tl (cs_results B c)" ?L v] l h
    by (simp add: res n_def)
  then have "cs_inv B c'"
    using inv len fld hd ring_next[OF hd(1)] by (simp add: cs_inv_def)
  moreover have "push_bounded n (cs_results B c) v = tl (cs_results B c) @ [v]"
    using l ne by (cases "cs_results B c") (simp_all add: push_bounded_def)
  ultimately show ?thesis using run len res l by auto
qed

lemma setNext_pushes:
  assumes "cs_inv B c"
  shows "\<exists>p c'. setNext B c v = Inr (p, c') \<and> cs_inv B c'
     \<and> bitset_Len B (cs_bitSet c') = bitset_Len B (cs_bitSet c)
     \<and> cs_results B c' = push_bounded (unat (bitset_Len B (cs_bitSet c))) (cs_results B c) v"
  using setNext_room[OF assms, of v] setNext_full[OF assms, of v] by blast

lemma NewCountingStats_inv:
  assumes "0 < n"
  shows "cs_inv B (NewCountingStats B n)" "cs_results B (NewCountingStats B n) = []"
    "bitset_Len B (cs_bitSet (NewCountingStats B n)) = n"
  using assms by (simp_all add: cs_inv_def cs_results_def NewCountingStats_def Len_New counters_ok_def)

lemma counting_Reset_inv:
  assumes "cs_inv B c"
  shows "cs_inv B (counting_Reset B c)" "cs_results B (counting_Reset B c) = []"
  using assms by (simp_all add: cs_inv_def cs_results_def counting_Reset_def Len_ClearAll counters_ok_def)

end

section \<open>Timed statistics count the results of the slots in the window\<close>

instantiation timedStat :: ab_group_add
begin
definition zero_timedStat :: timedStat where
  "0 = TimedStat 0 0"
definition plus_timedStat :: "timedStat \<Rightarrow> timedStat \<Rightarrow> timedStat" where
  "a + b = TimedStat (ts_successes a + ts_successes b) (ts_failures a + ts_failures b)"
definition minus_timedStat :: "timedStat \<Rightarrow> timedStat \<Rightarrow> timedStat" where
  "a - b = TimedStat (ts_successes a - ts_successes b) (ts_failures a - ts_failures b)"
definition uminus_timedStat :: "timedStat \<Rightarrow> timedStat" where
  "- a = TimedStat (- ts_successes a) (- ts_failures a)"
instance
  by standard (auto simp: zero_timedStat_def plus_timedStat_def minus_timedStat_def uminus_timedStat_def
      timedStat.expand)
end

lemmas timedStat_group = zero_timedStat_def plus_timedStat_def minus_timedStat_def uminus_timedStat_def

interpretation timed: bucket_fns timed_AddFn timed_RemoveFn timed_ResetFn
  by unfold_locales (simp_all add: timedStat_group timed_AddFn_def timed_RemoveFn_def timed_ResetFn_def)

definition stat_of :: "bool \<Rightarrow> timedStat" where
  "stat_of success = (if success then TimedStat 1 0 else TimedStat 0 1)"

definition timed_Record :: "bool \<Rightarrow> timedStats \<Rightarrow> nanotime \<Rightarrow> timedStats go" where
  "timed_Record success s now = (if success then timed_RecordSuccess s now else timed_RecordFailure s now)"

lemma timed_Record_slides:
  assumes w: "timed.window_inv s" and now: "0 \<le> now" "in_i64 now"
  defines "head \<equiv> max (HeadTime s) (now div BucketNanos s)"
  shows "\<exists>s'. timed_Record v s now = Inr s' \<and> timed.window_inv s' \<and> HeadTime s' = head
     \<and> BucketCount s' = BucketCount s \<and> BucketNanos s' = BucketNanos s
     \<and> window_slots s' = (let f = slide (BucketCount s) head (window_slots s) in f(head := f head + stat_of v))"
proof -
  obtain s1 where s1: "ExpireBuckets s now = Inr (s1, nat (head mod BucketCount s))" "timed.window_inv s1"
      "HeadTime s1 = head" "BucketCount s1 = BucketCount s" "BucketNanos s1 = BucketNanos s"
      "window_slots s1 = slide (BucketCount s) head (window_slots s)"
    using timed.ExpireBuckets_slides[OF w now] unfolding head_def by blast
  define j where "j = nat (head mod BucketCount s)"
  define s2 where "s2 = s1\<lparr>Buckets := (Buckets s1)[j := Buckets s1 ! j + stat_of v], Summary := Summary s1 + stat_of v\<rparr>"
  have "timed.window_inv s2" "window_slots s2 = (window_slots s1)(head := window_slots s1 head + stat_of v)"
    using timed.head_bucket_add[OF s1(2), of j "stat_of v"] s1 by (simp_all add: s2_def j_def)
  moreover have "timed_Record v s now = Inr s2"
    using s1(1) by (cases v) (simp_all add: timed_Record_def timed_RecordSuccess_def timed_RecordFailure_def
        Let_def s2_def j_def stat_of_def plus_timedStat_def)
  ultimately show ?thesis using s1 by (simp add: s2_def Let_def)
qed

fun timed_record_all :: "timedStats \<Rightarrow> (nanotime \<times> bool) list \<Rightarrow> timedStats go" where
  "timed_record_all s [] = Inr s"
| "timed_record_all s ((now, success) # rs) =
     go_bind (timed_Record success s now) (\<lambda>s'. timed_record_all s' rs)"

text \<open>What was recorded in each slot, and the slot of the last record, of a sequence of records.\<close>

definition slot_stat :: "int \<Rightarrow> (nanotime \<times> bool) list \<Rightarrow> int \<Rightarrow> timedStat" where
  "slot_stat nanos rs sl = sum_list (map (stat_of \<circ> snd) (filter (\<lambda>(t, _). t div nanos = sl) rs))"

definition last_slot :: "int \<Rightarrow> (nanotime \<times> bool) list \<Rightarrow> int" where
  "last_slot nanos rs = (if rs = [] then 0 else fst (last rs) div nanos)"

lemma timed_record_all_append:
  "timed_record_all s (rs @ ts) = go_bind (timed_record_all s rs) (\<lambda>s'. timed_record_all s' ts)"
proof (induction rs arbitrary: s)
  case (Cons r rs)
  then show ?case by (cases r; cases "timed_Record (snd r) s (fst r)") auto
qed simp

lemma slide_slide:
  assumes "h \<le> h'" "\<And>s. h < s \<Longrightarrow> f s = 0"
  shows "slide n h' (slide n h f) = slide n h' f"
  using assms by (fastforce simp: slide_def in_window_def fun_eq_iff)

lemma slot_stat_snoc:
  "slot_stat nanos (rs @ [(t, v)]) sl = slot_stat nanos rs sl + (if t div nanos = sl then stat_of v else 0)"
  by (simp add: slot_stat_def)

lemma last_slot_snoc [simp]: "last_slot nanos (rs @ [(t, v)]) = t div nanos"
  by (simp add: last_slot_def)

lemma last_slot_le:
  assumes "sorted (map fst (rs @ [(t, v)]))" "0 < nanos" "0 \<le> t"
  shows "last_slot nanos rs \<le> t div nanos"
  using assms by (cases "rs = []") (auto simp: last_slot_def sorted_append zdiv_mono1 pos_imp_zdiv_nonneg_iff)

lemma slot_stat_above:
  assumes "sorted (map fst rs)" "0 < nanos" "last_slot nanos rs < sl"
  shows "slot_stat nanos rs sl = 0"
proof -
  have "t div nanos \<le> last_slot nanos rs" if "(t, v) \<in> set rs" for t v
  proof -
    have ne: "rs \<noteq> []" using that by auto
    have "t \<le> fst (last rs)"
      using sorted_le_last[OF assms(1), of t] that ne by (force simp: last_map)
    then show ?thesis using ne assms(2) by (simp add: last_slot_def zdiv_mono1)
  qed
  then have none: "filter (\<lambda>(t, _). t div nanos = sl) rs = []"
    using assms(3) by (fastforce simp: filter_empty_conv)
  show ?thesis unfolding slot_stat_def none by simp
qed

lemma timed_record_all_slots:
  assumes "timed.window_inv s0" "HeadTime s0 = 0" "\<And>sl. window_slots s0 sl = 0"
    and "sorted (map fst rs)" "\<forall>(t, _) \<in> set rs. 0 \<le> t \<and> in_i64 t"
  defines "n \<equiv> BucketCount s0" and "nanos \<equiv> BucketNanos s0"
  shows "\<exists>s. timed_record_all s0 rs = Inr s \<and> timed.window_inv s \<and> HeadTime s = last_slot nanos rs
     \<and> BucketCount s = n \<and> BucketNanos s = nanos \<and> window_slots s = slide n (last_slot nanos rs) (slot_stat nanos rs)"
  using assms(4,5)
proof (induction rs rule: rev_induct)
  case Nil
  have "window_slots s0 = slide n 0 (slot_stat nanos [])"
    using assms(3) by (simp add: fun_eq_iff slide_def slot_stat_def)
  with assms(1,2) show ?case by (simp add: last_slot_def n_def nanos_def)
next
  case (snoc r rs)
  obtain t v where r: "r = (t, v)" by (cases r)
  have nanos: "0 < nanos" using assms(1) by (auto simp: nanos_def timed.window_inv_def window_shape_def)
  obtain s where s: "timed_record_all s0 rs = Inr s" "timed.window_inv s" "HeadTime s = last_slot nanos rs"
     "BucketCount s = n" "BucketNanos s = nanos" "window_slots s = slide n (last_slot nanos rs) (slot_stat nanos rs)"
    using snoc by (auto simp: sorted_append)
  have t: "0 \<le> t" "in_i64 t" using snoc.prems(2) r by auto
  have le: "last_slot nanos rs \<le> t div nanos"
    using snoc.prems(1) nanos t(1) unfolding r by (rule last_slot_le)
  then have head: "max (HeadTime s) (t div BucketNanos s) = t div nanos" using s by simp
  obtain s' where s': "timed_Record v s t = Inr s'" "timed.window_inv s'" "HeadTime s' = t div nanos"
      "BucketCount s' = n" "BucketNanos s' = nanos"
      "window_slots s' = (let f = slide n (t div nanos) (window_slots s) in f(t div nanos := f (t div nanos) + stat_of v))"
    using timed_Record_slides[OF s(2) t, of v] s(4,5) unfolding head by auto
  have n0: "0 < n" using assms(1) by (auto simp: n_def timed.window_inv_def window_shape_def)
  have "slide n (t div nanos) (window_slots s) = slide n (t div nanos) (slot_stat nanos rs)"
    unfolding s(6) by (rule slide_slide[OF le]) (rule slot_stat_above, use snoc.prems(1) nanos in \<open>auto simp: sorted_append\<close>)
  with s'(6) have "window_slots s' = (slide n (t div nanos) (slot_stat nanos rs))
      (t div nanos := slide n (t div nanos) (slot_stat nanos rs) (t div nanos) + stat_of v)"
    by (simp only: Let_def)
  then have "window_slots s' = slide n (t div nanos) (slot_stat nanos (rs @ [r]))"
    using n0 by (auto simp: fun_eq_iff slide_def in_window_def r slot_stat_snoc)
  moreover have "timed_record_all s0 (rs @ [r]) = Inr s'" using s(1) s'(1) r by (simp add: timed_record_all_append)
  ultimately show ?case using s' r by simp
qed

lemma sum_stat_of:
  "sum_list (map stat_of vs) = TimedStat (of_nat (count_list vs True)) (of_nat (count_list vs False))"
  by (induction vs) (auto simp: stat_of_def timedStat_group)

text \<open>Summing the slots of a window sums the records whose slot lies in the window.\<close>

lemma sum_slot_stat:
  assumes "finite A"
  shows "(\<Sum>sl \<in> A. slot_stat nanos rs sl) = sum_list (map (stat_of \<circ> snd) (filter (\<lambda>(t, _). t div nanos \<in> A) rs))"
proof (induction rs rule: rev_induct)
  case (snoc r rs)
  obtain t v where "r = (t, v)" by (cases r)
  then show ?case using assms snoc by (simp add: slot_stat_snoc sum.distrib sum.delta)
qed (simp add: slot_stat_def)

lemma NewTimedStats_ok:
  assumes "0 < n" "n \<le> period" "in_i64 period"
  shows "\<exists>s. NewTimedStats n period = Inr s \<and> timed.window_inv s \<and> HeadTime s = 0
     \<and> BucketCount s = n \<and> BucketNanos s = period div n \<and> (\<forall>sl. window_slots s sl = 0)"
proof -
  have "period div n \<le> period" "0 < period div n"
    using assms int_div_le[of period n] by (auto simp: pos_imp_zdiv_pos_iff)
  then have "i64 (period div n) = period div n" using assms by (intro i64_id) (auto simp: in_i64_def)
  moreover have "nat (sl mod n) < nat n" for sl using assms by simp
  ultimately show ?thesis
    using assms \<open>0 < period div n\<close>
    by (auto simp: NewTimedStats_def Assert_def go_div_def go_quot_nonneg timed.window_inv_def window_shape_def
        in_i64_def window_slots_def sum_list_replicate_zero simp flip: zero_timedStat_def)
qed

lemma timed_record_all_counts:
  assumes "0 < n" "n \<le> period" "in_i64 period"
    and "sorted (map fst rs)" "\<forall>(t, _) \<in> set rs. 0 \<le> t \<and> in_i64 t"
  defines "nanos \<equiv> period div n"
  defines "recent \<equiv> map snd (filter (\<lambda>(t, _). in_window n (last_slot nanos rs) (t div nanos)) rs)"
  shows "\<exists>s. go_bind (NewTimedStats n period) (\<lambda>s0. timed_record_all s0 rs) = Inr s
     \<and> timed_SuccessCount s = of_nat (count_list recent True)
     \<and> timed_FailureCount s = of_nat (count_list recent False)
     \<and> timed_ExecutionCount s = of_nat (length recent)"
proof -
  obtain s0 where s0: "NewTimedStats n period = Inr s0" "timed.window_inv s0" "HeadTime s0 = 0"
      "BucketCount s0 = n" "BucketNanos s0 = nanos" "\<And>sl. window_slots s0 sl = 0"
    using NewTimedStats_ok[OF assms(1-3)] unfolding nanos_def by blast
  obtain s where s: "timed_record_all s0 rs = Inr s" "timed.window_inv s" "HeadTime s = last_slot nanos rs"
      "BucketCount s = n" "window_slots s = slide n (last_slot nanos rs) (slot_stat nanos rs)"
    using timed_record_all_slots[OF s0(2,3,6) assms(4,5)] s0(4,5) by auto
  let ?A = "{last_slot nanos rs - n <.. last_slot nanos rs}"
  have "Summary s = (\<Sum>sl \<in> ?A. window_slots s sl)" using timed.window_summary[OF s(2)] s(3,4) by simp
  also have "\<dots> = (\<Sum>sl \<in> ?A. slot_stat nanos rs sl)"
    by (rule sum.cong) (auto simp: s(5) slide_def in_window_def)
  also have "\<dots> = sum_list (map stat_of recent)"
    by (simp add: sum_slot_stat recent_def in_window_def comp_def)
  finally have "Summary s = TimedStat (of_nat (count_list recent True)) (of_nat (count_list recent False))"
    by (simp only: sum_stat_of)
  moreover have "of_nat (length recent) = (of_nat (count_list recent True) + of_nat (count_list recent False) :: uint)"
    by (simp flip: count_list_bool)
  ultimately show ?thesis
    using s0(1) s(1) by (simp add: timed_SuccessCount_def timed_FailureCount_def timed_ExecutionCount_def)
qed

text \<open>
  C5. Time based statistics with \<open>n\<close> buckets over a period never panic, and after any sequence of
  results at non-decreasing times their counts are, modulo \<open>2 ^ 64\<close>, the numbers of successes and
  failures among the results recorded in the last \<open>n\<close> time slots, the last record's slot included.
\<close>

theorem timed_stats_exact:
  assumes "0 < n" "n \<le> period" "in_i64 period"
    and "sorted (map fst rs)" "\<forall>(t, _) \<in> set rs. 0 \<le> t \<and> in_i64 t"
  defines "nanos \<equiv> period div n"
  defines "recent \<equiv> map snd (filter (\<lambda>(t, _). in_window n (last_slot nanos rs) (t div nanos)) rs)"
  shows "\<exists>s. go_bind (NewTimedStats n period) (\<lambda>s0. timed_record_all s0 rs) = Inr s
     \<and> timed_SuccessCount s = of_nat (count_list recent True)
     \<and> timed_FailureCount s = of_nat (count_list recent False)
     \<and> timed_ExecutionCount s = of_nat (length recent)"
  unfolding recent_def nanos_def by (rule timed_record_all_counts[OF assms(1-5)])

section \<open>Rates after rounding\<close>

lemma Round_mono: "x \<le> y \<Longrightarrow> Round x \<le> Round y"
  by (simp add: Round_def math_Round_mono)

lemma Round_0 [simp]: "Round 0 = 0" and Round_1 [simp]: "Round 1 = 1"
  using math_Round_of_int[of 0] math_Round_of_int[of 100] by (simp_all add: Round_def)

lemma Round_unit: "0 \<le> x \<Longrightarrow> 0 \<le> Round x" "x \<le> 1 \<Longrightarrow> Round x \<le> 1"
  using Round_mono[of 0 x] Round_mono[of x 1] by simp_all

lemma Round_complement:
  assumes "0 \<le> x" "x \<le> 1"
  shows "1 \<le> Round x + Round (1 - x)"
proof -
  have "99 < real_of_int (\<lfloor>x * 100 + 1 / 2\<rfloor> + \<lfloor>(1 - x) * 100 + 1 / 2\<rfloor>)"
    by (simp add: algebra_simps) linarith
  then have "100 \<le> \<lfloor>x * 100 + 1 / 2\<rfloor> + \<lfloor>(1 - x) * 100 + 1 / 2\<rfloor>" by linarith
  then have "100 \<le> real_of_int \<lfloor>x * 100 + 1 / 2\<rfloor> + real_of_int \<lfloor>(1 - x) * 100 + 1 / 2\<rfloor>" by linarith
  with assms show ?thesis by (simp add: Round_def math_Round_def add_divide_distrib [symmetric])
qed
section \<open>The interface of execution statistics\<close>

locale execution_stats =
  fixes execution_count success_count failure_count :: "'s \<Rightarrow> uint"
    and success_rate failure_rate :: "'s \<Rightarrow> float64"
    and record_result :: "bool \<Rightarrow> 's \<Rightarrow> nanotime \<Rightarrow> 's go"
    and reset :: "'s \<Rightarrow> 's" and invar :: "'s \<Rightarrow> bool"
  assumes count_sum: "invar s \<Longrightarrow> execution_count s = success_count s + failure_count s"
    and success_rate: "invar s \<Longrightarrow> success_rate s = (if execution_count s = 0 then 0
          else Round (float_of_uint (success_count s) / float_of_uint (execution_count s)))"
    and failure_rate: "invar s \<Longrightarrow> failure_rate s = (if execution_count s = 0 then 0
          else Round (float_of_uint (failure_count s) / float_of_uint (execution_count s)))"
    and record_result: "invar s \<Longrightarrow> 0 \<le> now \<Longrightarrow> in_i64 now \<Longrightarrow>
          \<exists>s'. record_result v s now = Inr s' \<and> invar s'"
    and reset: "invar s \<Longrightarrow> invar (reset s)" "invar s \<Longrightarrow> execution_count (reset s) = 0"
      "invar s \<Longrightarrow> success_count (reset s) = 0" "invar s \<Longrightarrow> failure_count (reset s) = 0"
begin

definition no_overflow :: "'s \<Rightarrow> bool" where
  "no_overflow s \<longleftrightarrow> unat (success_count s) + unat (failure_count s) < 2 ^ 64"

lemma unat_execution_count:
  "invar s \<Longrightarrow> no_overflow s \<Longrightarrow> unat (execution_count s) = unat (success_count s) + unat (failure_count s)"
  by (simp add: count_sum no_overflow_def unat_plus_if')

lemma rates_in_unit:
  assumes "invar s" "no_overflow s"
  shows "0 \<le> failure_rate s" "failure_rate s \<le> 1" "0 \<le> success_rate s" "success_rate s \<le> 1"
proof -
  have "float_of_uint (execution_count s) = float_of_uint (success_count s) + float_of_uint (failure_count s)"
    using unat_execution_count[OF assms] by (rule float_of_uint_sum)
  then have "float_of_uint (success_count s) \<le> float_of_uint (execution_count s)"
      "float_of_uint (failure_count s) \<le> float_of_uint (execution_count s)" by simp_all
  then show "0 \<le> failure_rate s" "failure_rate s \<le> 1" "0 \<le> success_rate s" "success_rate s \<le> 1"
    using assms(1) by (auto simp: failure_rate success_rate intro!: Round_unit frac_le_1)
qed

lemma rates_cover:
  assumes "invar s" "no_overflow s" "execution_count s \<noteq> 0"
  shows "1 \<le> failure_rate s + success_rate s"
proof -
  let ?n = "float_of_uint (execution_count s)" and ?f = "float_of_uint (failure_count s)"
  have n: "?n \<noteq> 0" "0 \<le> float_of_uint (success_count s)" using assms(3) by simp_all
  have "?n = float_of_uint (success_count s) + ?f" using unat_execution_count[OF assms(1,2)] by (rule float_of_uint_sum)
  then have "float_of_uint (success_count s) / ?n = 1 - ?f / ?n" "?f / ?n \<le> 1" "0 \<le> ?f / ?n"
    using n by (simp_all add: field_simps frac_le_1)
  then show ?thesis
    using Round_complement[of "?f / ?n"] assms by (simp add: failure_rate success_rate)
qed

end

definition Stats_Record :: "'b bitset_api \<Rightarrow> bool \<Rightarrow> 'b executionStats \<Rightarrow> nanotime \<Rightarrow> 'b executionStats go" where
  "Stats_Record B success s now = (if success then RecordSuccess B s now else RecordFailure B s now)"

fun stats_inv :: "'b bitset_api \<Rightarrow> 'b executionStats \<Rightarrow> bool" where
  "stats_inv B (Counting c) \<longleftrightarrow> cs_inv B c"
| "stats_inv B (Timed s) \<longleftrightarrow> timed.window_inv s"

lemma counting_count_sum:
  assumes "cs_inv B c"
  shows "cs_occupiedBits c = cs_successes c + cs_failures c"
    "unat (cs_successes c) + unat (cs_failures c) = unat (cs_occupiedBits c)"
proof -
  have "unat (cs_successes c) + unat (cs_failures c) = length (cs_results B c)"
    using assms count_list_bool[of "cs_results B c"] by (simp add: cs_inv_def counters_ok_def)
  then show u: "unat (cs_successes c) + unat (cs_failures c) = unat (cs_occupiedBits c)"
    using cs_results_length[OF assms] by simp
  then have "(of_nat (unat (cs_occupiedBits c)) :: uint) = of_nat (unat (cs_successes c) + unat (cs_failures c))"
    by simp
  then show "cs_occupiedBits c = cs_successes c + cs_failures c" by simp
qed

context bitset_laws begin

lemma Stats_Record_inv:
  assumes "stats_inv B s" "0 \<le> now" "in_i64 now"
  shows "\<exists>s'. Stats_Record B v s now = Inr s' \<and> stats_inv B s'"
proof (cases s)
  case (Counting c)
  then obtain p c' where "setNext B c v = Inr (p, c')" "cs_inv B c'"
    using setNext_pushes[of c v] assms(1) by auto
  with Counting show ?thesis
    by (cases v) (simp_all add: Stats_Record_def counting_RecordSuccess_def counting_RecordFailure_def)
next
  case (Timed w)
  then obtain w' where "timed_Record v w now = Inr w'" "timed.window_inv w'"
    using timed_Record_slides[of w now v] assms by auto
  with Timed show ?thesis by (cases v) (simp_all add: Stats_Record_def timed_Record_def)
qed

lemma Stats_Reset_inv:
  assumes "stats_inv B s"
  shows "stats_inv B (Stats_Reset B s)" "ExecutionCount (Stats_Reset B s) = 0"
    "SuccessCount (Stats_Reset B s) = 0" "FailureCount (Stats_Reset B s) = 0"
  using assms counting_Reset_inv timed.Reset_inv
  by (cases s; simp add: counting_Reset_def counting_ExecutionCount_def counting_SuccessCount_def
      counting_FailureCount_def timed_ExecutionCount_def timed_SuccessCount_def timed_FailureCount_def
      zero_timedStat_def)+

end

lemma stats_count_sum:
  "stats_inv B s \<Longrightarrow> ExecutionCount s = SuccessCount s + FailureCount s"
  by (cases s) (auto simp: counting_count_sum counting_ExecutionCount_def counting_SuccessCount_def
      counting_FailureCount_def timed_ExecutionCount_def timed_SuccessCount_def timed_FailureCount_def)

lemma stats_rates:
  "SuccessRate s = (if ExecutionCount s = 0 then 0
     else Round (float_of_uint (SuccessCount s) / float_of_uint (ExecutionCount s)))"
  "FailureRate s = (if ExecutionCount s = 0 then 0
     else Round (float_of_uint (FailureCount s) / float_of_uint (ExecutionCount s)))"
  by (cases s; simp add: counting_ExecutionCount_def counting_SuccessCount_def counting_FailureCount_def
      timed_SuccessCount_def timed_FailureCount_def counting_SuccessRate_def counting_FailureRate_def
      timed_SuccessRate_def timed_FailureRate_def Let_def)+

sublocale bitset_laws \<subseteq> stats: execution_stats ExecutionCount SuccessCount FailureCount
  SuccessRate FailureRate "Stats_Record B" "Stats_Reset B" "stats_inv B"
  by unfold_locales (auto simp: stats_count_sum stats_rates Stats_Record_inv Stats_Reset_inv)

text \<open>A bit set as a list of Booleans; indexes past its end read as cleared.\<close>

definition list_bitset :: "bool list bitset_api" where
  "list_bitset = \<lparr>bitset_New = (\<lambda>n. replicate (unat n) False), bitset_Len = (\<lambda>b. of_nat (length b)),
     bitset_Test = (\<lambda>b i. unat i < length b \<and> b ! unat i),
     bitset_SetTo = (\<lambda>b i v. b[unat i := v]),
     bitset_ClearAll = (\<lambda>b. replicate (length b) False)\<rparr>"

lemma list_bitset_index: "i < bitset_Len list_bitset b \<Longrightarrow> unat i < length b"
proof -
  assume "i < bitset_Len list_bitset b"
  then have "unat i < unat (of_nat (length b) :: uint)" by (simp add: list_bitset_def word_less_nat_alt)
  also have "\<dots> \<le> length b" by (simp add: unat_of_nat)
  finally show ?thesis .
qed

interpretation list_bits: bitset_laws list_bitset
proof
  fix b :: "bool list" and i j :: uint and v
  assume "i < bitset_Len list_bitset b"
  then have "unat i < length b" by (rule list_bitset_index)
  then show "bitset_Test list_bitset (bitset_SetTo list_bitset b i v) j
      = (if j = i then v else bitset_Test list_bitset b j)"
    by (auto simp: list_bitset_def nth_list_update word_unat_eq_iff)
qed (simp_all add: list_bitset_def)

section \<open>Properties of sequences of records\<close>

fun counting_record_all :: "'b bitset_api \<Rightarrow> 'b countingStats \<Rightarrow> bool list \<Rightarrow> 'b countingStats go" where
  "counting_record_all B c [] = Inr c"
| "counting_record_all B c (v # vs) =
     go_bind (if v then counting_RecordSuccess B c else counting_RecordFailure B c)
       (\<lambda>c'. counting_record_all B c' vs)"

lemma counting_record_all_append:
  "counting_record_all B c (vs @ ws) = go_bind (counting_record_all B c vs) (\<lambda>c'. counting_record_all B c' ws)"
proof (induction vs arbitrary: c)
  case (Cons v vs)
  then show ?case
    by (cases "if v then counting_RecordSuccess B c else counting_RecordFailure B c") auto
qed simp

lemma push_bounded_recent:
  assumes "0 < n"
  shows "push_bounded n (drop (length vs - n) vs) v = drop (length (vs @ [v]) - n) (vs @ [v])"
proof (cases "length vs < n")
  case False
  then have "length vs - (length vs - n) = n" by simp
  with False show ?thesis using assms by (simp add: push_bounded_def drop_append Suc_diff_le)
qed (use assms in \<open>simp add: push_bounded_def\<close>)

context bitset_laws begin

lemma counting_record_step:
  assumes "cs_inv B c"
  shows "\<exists>c'. (if v then counting_RecordSuccess B c else counting_RecordFailure B c) = Inr c' \<and> cs_inv B c'
     \<and> bitset_Len B (cs_bitSet c') = bitset_Len B (cs_bitSet c)
     \<and> cs_results B c' = push_bounded (unat (bitset_Len B (cs_bitSet c))) (cs_results B c) v"
proof -
  obtain p c' where "setNext B c v = Inr (p, c')" "cs_inv B c'" "bitset_Len B (cs_bitSet c') = bitset_Len B (cs_bitSet c)"
     "cs_results B c' = push_bounded (unat (bitset_Len B (cs_bitSet c))) (cs_results B c) v"
    using setNext_pushes[OF assms] by blast
  then show ?thesis
    by (cases v) (simp_all add: counting_RecordSuccess_def counting_RecordFailure_def)
qed

lemma counting_record_all_recent:
  assumes "0 < n"
  shows "\<exists>c. counting_record_all B (NewCountingStats B n) vs = Inr c \<and> cs_inv B c
     \<and> bitset_Len B (cs_bitSet c) = n \<and> cs_results B c = drop (length vs - unat n) vs"
proof (induction vs rule: rev_induct)
  case Nil
  then show ?case using assms NewCountingStats_inv[of n] by auto
next
  case (snoc v vs)
  then obtain c where c: "counting_record_all B (NewCountingStats B n) vs = Inr c" "cs_inv B c"
     "bitset_Len B (cs_bitSet c) = n" "cs_results B c = drop (length vs - unat n) vs" by blast
  obtain c' where c': "(if v then counting_RecordSuccess B c else counting_RecordFailure B c) = Inr c'" "cs_inv B c'"
     "bitset_Len B (cs_bitSet c') = n" "cs_results B c' = push_bounded (unat n) (cs_results B c) v"
    using counting_record_step[OF c(2), of v] c(3) by auto
  have "counting_record_all B (NewCountingStats B n) (vs @ [v]) = Inr c'"
    using c(1) c'(1) by (auto simp: counting_record_all_append)
  moreover have "cs_results B c' = drop (length (vs @ [v]) - unat n) (vs @ [v])"
    using c'(4) c(4) assms push_bounded_recent[of "unat n" vs v] by (simp add: unat_gt_0)
  ultimately show ?case using c' by blast
qed

end

text \<open>
  C4. Count based statistics of capacity \<open>n > 0\<close>, over any bit set that behaves as documented, never
  panic, and after any sequence of recorded results they hold exactly the last \<open>n\<close> of them: the
  execution count is the number of results recorded, at most \<open>n\<close>, and the success and failure
  counts are the numbers of successes and failures among these last results.
\<close>

theorem counting_stats_exact:
  assumes "bitset_laws B" and "0 < n"
  shows "\<exists>c. counting_record_all B (NewCountingStats B n) vs = Inr c
     \<and> unat (counting_ExecutionCount c) = min (unat n) (length vs)
     \<and> unat (counting_SuccessCount c) = count_list (drop (length vs - unat n) vs) True
     \<and> unat (counting_FailureCount c) = count_list (drop (length vs - unat n) vs) False"
proof -
  obtain c where c: "counting_record_all B (NewCountingStats B n) vs = Inr c" "cs_inv B c"
     "bitset_Len B (cs_bitSet c) = n" "cs_results B c = drop (length vs - unat n) vs"
    using bitset_laws.counting_record_all_recent[OF assms] by blast
  have "unat (cs_occupiedBits c) = min (unat n) (length vs)"
    using cs_results_length[OF c(2)] c(4) by simp
  with c show ?thesis
    by (auto simp: counting_ExecutionCount_def counting_SuccessCount_def counting_FailureCount_def
        cs_inv_def counters_ok_def)
qed

theorem counting_stats_exact_witness:
  "\<exists>c. counting_record_all list_bitset (NewCountingStats list_bitset 3) [True, True, False, False, True] = Inr c
     \<and> unat (counting_ExecutionCount c) = 3 \<and> unat (counting_SuccessCount c) = 1
     \<and> unat (counting_FailureCount c) = 2"
  using counting_stats_exact[OF list_bits.bitset_laws_axioms, of 3 "[True, True, False, False, True]"]
  by (simp add: drop_Cons' flip: numeral_3_eq_3 numeral_2_eq_2)

theorem timed_stats_exact_witness:
  "\<exists>s. go_bind (NewTimedStats 10 1000)
       (\<lambda>s0. timed_record_all s0 [(5, True), (150, False), (990, True), (1200, False)]) = Inr s
     \<and> timed_SuccessCount s = 1 \<and> timed_FailureCount s = 1 \<and> timed_ExecutionCount s = 2"
  using timed_stats_exact[of 10 1000 "[(5, True), (150, False), (990, True), (1200, False)]"]
  by (simp add: in_i64_def last_slot_def in_window_def)

end
