(* ===== verification/Circuit_Breaker.thy ===== *)
theory Circuit_Breaker
  imports Execution_Stats Policy_Base
begin

text \<open>
  The circuit breaker: src/circuitbreaker/circuitbreaker.go, circuitstates.go and
  circuitbreakerbuilder.go. The three state objects of the Go code are the constructors of
  \<open>circuitState\<close>; every exported operation, which holds the breaker's mutex, is one function on the
  breaker, with the clock reading as the argument \<open>now\<close>. Calls of the registered listeners are
  appended to a log, in order; what a listener itself does while the mutex is released is not modelled.
\<close>

section \<open>Configuration\<close>

record ('r, 'x) cb_config =
  cb_failurePolicy :: "'r BaseFailurePolicy"
  cb_delayPolicy :: "'x BaseDelayablePolicy"
  stateChangedListener :: bool
  openListener :: bool
  halfOpenListener :: bool
  closeListener :: bool
  failureThreshold :: uint
  failureRateThreshold :: float64
  failureThresholdingCapacity :: uint
  failureExecutionThreshold :: uint
  failureThresholdingPeriod :: duration
  successThreshold :: uint
  successThresholdingCapacity :: uint

definition Minute :: duration where
  "Minute = 60000000000"

definition cb_NewBuilder :: "('r, 'x) cb_config" where
  "cb_NewBuilder =
     \<lparr>cb_failurePolicy = new_BaseFailurePolicy, cb_delayPolicy = \<lparr>Delay = Minute, DelayFunc = None\<rparr>,
      stateChangedListener = False, openListener = False, halfOpenListener = False, closeListener = False,
      failureThreshold = 1, failureRateThreshold = 0, failureThresholdingCapacity = 1,
      failureExecutionThreshold = 0, failureThresholdingPeriod = 0,
      successThreshold = 0, successThresholdingCapacity = 0\<rparr>"

definition cb_HandleErrors :: "'r error option list \<Rightarrow> ('r, 'x) cb_config \<Rightarrow> ('r, 'x) cb_config" where
  "cb_HandleErrors errs c = c\<lparr>cb_failurePolicy := HandleErrors errs (cb_failurePolicy c)\<rparr>"

definition cb_HandleErrorTypes :: "('r error \<Rightarrow> bool) list \<Rightarrow> ('r, 'x) cb_config \<Rightarrow> ('r, 'x) cb_config" where
  "cb_HandleErrorTypes errs c = c\<lparr>cb_failurePolicy := HandleErrorTypes errs (cb_failurePolicy c)\<rparr>"

definition cb_HandleResult :: "'r \<Rightarrow> ('r, 'x) cb_config \<Rightarrow> ('r, 'x) cb_config" where
  "cb_HandleResult result c = c\<lparr>cb_failurePolicy := HandleResult result (cb_failurePolicy c)\<rparr>"

definition cb_HandleIf :: "'r condition \<Rightarrow> ('r, 'x) cb_config \<Rightarrow> ('r, 'x) cb_config" where
  "cb_HandleIf predicate c = c\<lparr>cb_failurePolicy := HandleIf predicate (cb_failurePolicy c)\<rparr>"

definition WithFailureThresholdRatio :: "uint \<Rightarrow> uint \<Rightarrow> ('r, 'x) cb_config \<Rightarrow> ('r, 'x) cb_config" where
  "WithFailureThresholdRatio threshold capacity c =
     c\<lparr>failureThreshold := threshold, failureThresholdingCapacity := capacity\<rparr>"

definition WithFailureThreshold :: "uint \<Rightarrow> ('r, 'x) cb_config \<Rightarrow> ('r, 'x) cb_config" where
  "WithFailureThreshold threshold c = WithFailureThresholdRatio threshold threshold c"

definition WithFailureThresholdPeriod :: "uint \<Rightarrow> duration \<Rightarrow> ('r, 'x) cb_config \<Rightarrow> ('r, 'x) cb_config" where
  "WithFailureThresholdPeriod threshold period c =
     c\<lparr>failureThreshold := threshold, failureThresholdingCapacity := threshold,
       failureExecutionThreshold := threshold, failureThresholdingPeriod := period\<rparr>"

definition WithFailureRateThreshold ::
    "float64 \<Rightarrow> uint \<Rightarrow> duration \<Rightarrow> ('r, 'x) cb_config \<Rightarrow> ('r, 'x) cb_config go" where
  "WithFailureRateThreshold rate execThreshold period c =
     go_bind (Assert (rate \<ge> 0 \<and> rate \<le> 1) ''failureRateThreshold must be between 0 and 1'') (\<lambda>_.
     Inr (c\<lparr>failureRateThreshold := rate, failureExecutionThreshold := execThreshold,
            failureThresholdingPeriod := period\<rparr>))"

definition WithSuccessThresholdRatio :: "uint \<Rightarrow> uint \<Rightarrow> ('r, 'x) cb_config \<Rightarrow> ('r, 'x) cb_config" where
  "WithSuccessThresholdRatio threshold capacity c =
     c\<lparr>successThreshold := threshold, successThresholdingCapacity := capacity\<rparr>"

definition WithSuccessThreshold :: "uint \<Rightarrow> ('r, 'x) cb_config \<Rightarrow> ('r, 'x) cb_config" where
  "WithSuccessThreshold threshold c = WithSuccessThresholdRatio threshold threshold c"

definition cb_WithDelay :: "duration \<Rightarrow> ('r, 'x) cb_config \<Rightarrow> ('r, 'x) cb_config" where
  "cb_WithDelay delay c = c\<lparr>cb_delayPolicy := WithDelay delay (cb_delayPolicy c)\<rparr>"

definition cb_WithDelayFunc :: "('x \<Rightarrow> duration) option \<Rightarrow> ('r, 'x) cb_config \<Rightarrow> ('r, 'x) cb_config" where
  "cb_WithDelayFunc delayFunc c = c\<lparr>cb_delayPolicy := WithDelayFunc delayFunc (cb_delayPolicy c)\<rparr>"

definition OnStateChanged :: "bool \<Rightarrow> ('r, 'x) cb_config \<Rightarrow> ('r, 'x) cb_config" where
  "OnStateChanged listener c = c\<lparr>stateChangedListener := listener\<rparr>"

definition OnClose :: "bool \<Rightarrow> ('r, 'x) cb_config \<Rightarrow> ('r, 'x) cb_config" where
  "OnClose listener c = c\<lparr>closeListener := listener\<rparr>"

definition OnOpen :: "bool \<Rightarrow> ('r, 'x) cb_config \<Rightarrow> ('r, 'x) cb_config" where
  "OnOpen listener c = c\<lparr>openListener := listener\<rparr>"

definition OnHalfOpen :: "bool \<Rightarrow> ('r, 'x) cb_config \<Rightarrow> ('r, 'x) cb_config" where
  "OnHalfOpen listener c = c\<lparr>halfOpenListener := listener\<rparr>"

definition cb_OnSuccess :: "('r, 'x) cb_config \<Rightarrow> ('r, 'x) cb_config" where
  "cb_OnSuccess c = c\<lparr>cb_failurePolicy := OnSuccess (cb_failurePolicy c)\<rparr>"

definition cb_OnFailure :: "('r, 'x) cb_config \<Rightarrow> ('r, 'x) cb_config" where
  "cb_OnFailure c = c\<lparr>cb_failurePolicy := OnFailure (cb_failurePolicy c)\<rparr>"

section \<open>States\<close>

datatype State = ClosedState | OpenState | HalfOpenState

fun State_String :: "State \<Rightarrow> string" where
  "State_String ClosedState = ''closed''"
| "State_String OpenState = ''open''"
| "State_String HalfOpenState = ''half-open''"

text \<open>
  \<open>Open\<close> carries the statistics of the state it came from, the time it was entered and the delay;
  \<open>HalfOpen\<close> carries \<^verbatim>\<open>permittedExecutions\<close>.
\<close>

datatype 'b circuitState =
    Closed "'b executionStats"
  | Open "'b executionStats" nanotime duration
  | HalfOpen "'b executionStats" uint

fun state_stats :: "'b circuitState \<Rightarrow> 'b executionStats" where
  "state_stats (Closed st) = st"
| "state_stats (Open st _ _) = st"
| "state_stats (HalfOpen st _) = st"

fun with_stats :: "'b circuitState \<Rightarrow> 'b executionStats \<Rightarrow> 'b circuitState" where
  "with_stats (Closed _) st = Closed st"
| "with_stats (Open _ t d) st = Open st t d"
| "with_stats (HalfOpen _ p) st = HalfOpen st p"

fun cs_state :: "'b circuitState \<Rightarrow> State" where
  "cs_state (Closed _) = ClosedState"
| "cs_state (Open _ _ _) = OpenState"
| "cs_state (HalfOpen _ _) = HalfOpenState"

definition defaultBucketCount :: int where
  "defaultBucketCount = 10"

definition newStats :: "'b bitset_api \<Rightarrow> ('r, 'x) cb_config \<Rightarrow> bool \<Rightarrow> uint \<Rightarrow> 'b executionStats go" where
  "newStats B config supportsTimeBased capacity =
     (if supportsTimeBased \<and> failureThresholdingPeriod config \<noteq> 0
      then go_bind (NewTimedStats defaultBucketCount (failureThresholdingPeriod config)) (\<lambda>s. Inr (Timed s))
      else Inr (Counting (NewCountingStats B capacity)))"

definition closed_capacity :: "('r, 'x) cb_config \<Rightarrow> uint" where
  "closed_capacity c =
     (if failureExecutionThreshold c \<noteq> 0 then failureExecutionThreshold c
      else failureThresholdingCapacity c)"

definition newClosedState :: "'b bitset_api \<Rightarrow> ('r, 'x) cb_config \<Rightarrow> 'b circuitState go" where
  "newClosedState B c = go_bind (newStats B c True (closed_capacity c)) (\<lambda>st. Inr (Closed st))"

definition newOpenState :: "'b circuitState \<Rightarrow> duration \<Rightarrow> nanotime \<Rightarrow> 'b circuitState" where
  "newOpenState previousState delay now = Open (state_stats previousState) now delay"

definition half_open_capacity :: "('r, 'x) cb_config \<Rightarrow> uint" where
  "half_open_capacity c =
     (let capacity = successThresholdingCapacity c;
          capacity = (if capacity = 0 then failureExecutionThreshold c else capacity)
      in if capacity = 0 then failureThresholdingCapacity c else capacity)"

definition newHalfOpenState :: "'b bitset_api \<Rightarrow> ('r, 'x) cb_config \<Rightarrow> 'b circuitState go" where
  "newHalfOpenState B c =
     go_bind (newStats B c False (half_open_capacity c)) (\<lambda>st. Inr (HalfOpen st (half_open_capacity c)))"

text \<open>\<^verbatim>\<open>remainingDelay\<close> of the three state objects.\<close>

fun cs_remainingDelay :: "'b circuitState \<Rightarrow> nanotime \<Rightarrow> duration" where
  "cs_remainingDelay (Closed _) now = 0"
| "cs_remainingDelay (Open _ startTime delay) now = max 0 (i64 (delay - i64 (now - startTime)))"
| "cs_remainingDelay (HalfOpen _ _) now = 0"

section \<open>The breaker\<close>

datatype cb_listener = OpenListener | HalfOpenListener | CloseListener | StateChangedListener

record 'b StateChangedEvent =
  OldState :: State
  NewState :: State
  event_metrics :: "'b executionStats"

record ('b, 'r, 'x) circuitBreaker =
  config :: "('r, 'x) cb_config"
  cb_state :: "'b circuitState"
  listener_calls :: "(cb_listener \<times> 'b StateChangedEvent) list"

definition cb_Build :: "'b bitset_api \<Rightarrow> ('r, 'x) cb_config \<Rightarrow> ('b, 'r, 'x) circuitBreaker go" where
  "cb_Build B c =
     go_bind (newClosedState B c) (\<lambda>st. Inr \<lparr>config = c, cb_state = st, listener_calls = []\<rparr>)"

text \<open>
  \<^verbatim>\<open>transitionTo\<close>: \<open>registered\<close> says whether the transition's own listener is not nil, \<open>which\<close>
  names it in the log; \<open>exec\<close> is the execution, nil being \<open>None\<close>.
\<close>

definition transitionTo :: "'b bitset_api \<Rightarrow> State \<Rightarrow> 'x option \<Rightarrow> bool \<Rightarrow> cb_listener \<Rightarrow> nanotime
    \<Rightarrow> ('b, 'r, 'x) circuitBreaker \<Rightarrow> ('b, 'r, 'x) circuitBreaker go" where
  "transitionTo B newState exec registered which now cb =
     (let currentState = cb_state cb in
      if cs_state currentState \<noteq> newState
      then go_bind
        (case newState of
           ClosedState \<Rightarrow> newClosedState B (config cb)
         | OpenState \<Rightarrow>
             (let delay = ComputeDelay (cb_delayPolicy (config cb)) exec;
                  delay = (if delay = -1 then Delay (cb_delayPolicy (config cb)) else delay)
              in Inr (newOpenState currentState delay now))
         | HalfOpenState \<Rightarrow> newHalfOpenState B (config cb))
        (\<lambda>st.
          let event = \<lparr>OldState = cs_state currentState, NewState = newState,
                       event_metrics = state_stats currentState\<rparr>
          in Inr (cb\<lparr>cb_state := st,
                     listener_calls := listener_calls cb
                       @ (if registered then [(which, event)] else [])
                       @ (if stateChangedListener (config cb) then [(StateChangedListener, event)] else [])\<rparr>))
      else Inr cb)"

definition cb_open :: "'b bitset_api \<Rightarrow> 'x option \<Rightarrow> nanotime \<Rightarrow> ('b, 'r, 'x) circuitBreaker \<Rightarrow> ('b, 'r, 'x) circuitBreaker go" where
  "cb_open B exec now cb = transitionTo B OpenState exec (openListener (config cb)) OpenListener now cb"

definition cb_close :: "'b bitset_api \<Rightarrow> nanotime \<Rightarrow> ('b, 'r, 'x) circuitBreaker \<Rightarrow> ('b, 'r, 'x) circuitBreaker go" where
  "cb_close B now cb = transitionTo B ClosedState None (closeListener (config cb)) CloseListener now cb"

definition cb_halfOpen :: "'b bitset_api \<Rightarrow> nanotime \<Rightarrow> ('b, 'r, 'x) circuitBreaker \<Rightarrow> ('b, 'r, 'x) circuitBreaker go" where
  "cb_halfOpen B now cb = transitionTo B HalfOpenState None (halfOpenListener (config cb)) HalfOpenListener now cb"

text \<open>
  \<^verbatim>\<open>tryAcquirePermit\<close> of the three state objects. The open state half-opens the breaker once its
  delay has elapsed and asks the breaker, then half-open, again.
\<close>

definition halfOpen_tryAcquirePermit :: "('b, 'r, 'x) circuitBreaker \<Rightarrow> bool \<times> ('b, 'r, 'x) circuitBreaker" where
  "halfOpen_tryAcquirePermit cb =
     (case cb_state cb of
        HalfOpen st permitted \<Rightarrow>
          if permitted > 0 then (True, cb\<lparr>cb_state := HalfOpen st (permitted - 1)\<rparr>) else (False, cb)
      | Closed _ \<Rightarrow> (True, cb)
      | Open _ _ _ \<Rightarrow> (False, cb))"

definition TryAcquirePermit :: "'b bitset_api \<Rightarrow> nanotime \<Rightarrow> ('b, 'r, 'x) circuitBreaker
    \<Rightarrow> (bool \<times> ('b, 'r, 'x) circuitBreaker) go" where
  "TryAcquirePermit B now cb =
     (case cb_state cb of
        Closed _ \<Rightarrow> Inr (True, cb)
      | Open _ startTime delay \<Rightarrow>
          if i64 (now - startTime) \<ge> delay
          then go_bind (cb_halfOpen B now cb) (\<lambda>cb'. Inr (halfOpen_tryAcquirePermit cb'))
          else Inr (False, cb)
      | HalfOpen _ _ \<Rightarrow> Inr (halfOpen_tryAcquirePermit cb))"

section \<open>Recording results\<close>

definition closed_checkThreshold :: "'b bitset_api \<Rightarrow> 'b executionStats \<Rightarrow> 'x option \<Rightarrow> nanotime
    \<Rightarrow> ('b, 'r, 'x) circuitBreaker \<Rightarrow> ('b, 'r, 'x) circuitBreaker go" where
  "closed_checkThreshold B st exec now cb =
     (if ExecutionCount st \<ge> failureExecutionThreshold (config cb)
      then let rateThreshold = failureRateThreshold (config cb) in
           if (rateThreshold \<noteq> 0 \<and> FailureRate st \<ge> rateThreshold)
              \<or> (rateThreshold = 0 \<and> FailureCount st \<ge> failureThreshold (config cb))
           then cb_open B exec now cb
           else Inr cb
      else Inr cb)"

text \<open>The two decisions of the half-open state: successes exceeded, failures exceeded.\<close>

definition half_open_exceeded :: "('r, 'x) cb_config \<Rightarrow> 'b executionStats \<Rightarrow> bool \<times> bool" where
  "half_open_exceeded c st =
     (if successThreshold c \<noteq> 0
      then (SuccessCount st \<ge> successThreshold c,
            FailureCount st > successThresholdingCapacity c - successThreshold c)
      else if failureRateThreshold c \<noteq> 0
      then let executionThresholdExceeded = (ExecutionCount st \<ge> failureExecutionThreshold c) in
           (executionThresholdExceeded \<and> SuccessRate st > 1 - failureRateThreshold c,
            executionThresholdExceeded \<and> FailureRate st \<ge> failureRateThreshold c)
      else (SuccessCount st > failureThresholdingCapacity c - failureThreshold c,
            FailureCount st \<ge> failureThreshold c))"

text \<open>
  The permit that is released last counts on the half-open state object; after a transition that
  object is no longer the breaker's state.
\<close>

definition halfOpen_checkThreshold :: "'b bitset_api \<Rightarrow> 'b executionStats \<Rightarrow> uint \<Rightarrow> 'x option \<Rightarrow> nanotime
    \<Rightarrow> ('b, 'r, 'x) circuitBreaker \<Rightarrow> ('b, 'r, 'x) circuitBreaker go" where
  "halfOpen_checkThreshold B st permitted exec now cb =
     (let (successesExceeded, failuresExceeded) = half_open_exceeded (config cb) st in
      if successesExceeded then cb_close B now cb
      else if failuresExceeded then cb_open B exec now cb
      else Inr (cb\<lparr>cb_state := HalfOpen st (permitted + 1)\<rparr>))"

definition checkThresholdAndReleasePermit :: "'b bitset_api \<Rightarrow> 'x option \<Rightarrow> nanotime
    \<Rightarrow> ('b, 'r, 'x) circuitBreaker \<Rightarrow> ('b, 'r, 'x) circuitBreaker go" where
  "checkThresholdAndReleasePermit B exec now cb =
     (case cb_state cb of
        Closed st \<Rightarrow> closed_checkThreshold B st exec now cb
      | Open _ _ _ \<Rightarrow> Inr cb
      | HalfOpen st permitted \<Rightarrow> halfOpen_checkThreshold B st permitted exec now cb)"

definition cb_recordSuccess :: "'b bitset_api \<Rightarrow> nanotime \<Rightarrow> ('b, 'r, 'x) circuitBreaker \<Rightarrow> ('b, 'r, 'x) circuitBreaker go" where
  "cb_recordSuccess B now cb =
     go_bind (RecordSuccess B (state_stats (cb_state cb)) now) (\<lambda>st.
     checkThresholdAndReleasePermit B None now (cb\<lparr>cb_state := with_stats (cb_state cb) st\<rparr>))"

definition cb_recordFailure :: "'b bitset_api \<Rightarrow> 'x option \<Rightarrow> nanotime \<Rightarrow> ('b, 'r, 'x) circuitBreaker \<Rightarrow> ('b, 'r, 'x) circuitBreaker go" where
  "cb_recordFailure B exec now cb =
     go_bind (RecordFailure B (state_stats (cb_state cb)) now) (\<lambda>st.
     checkThresholdAndReleasePermit B exec now (cb\<lparr>cb_state := with_stats (cb_state cb) st\<rparr>))"

definition cb_recordResult :: "'b bitset_api \<Rightarrow> 'r \<Rightarrow> 'r error option \<Rightarrow> nanotime \<Rightarrow> ('b, 'r, 'x) circuitBreaker
    \<Rightarrow> ('b, 'r, 'x) circuitBreaker go" where
  "cb_recordResult B result err now cb =
     (if IsFailure (cb_failurePolicy (config cb)) result err
      then cb_recordFailure B None now cb else cb_recordSuccess B now cb)"

section \<open>Exported operations\<close>

definition cb_RecordFailure :: "'b bitset_api \<Rightarrow> nanotime \<Rightarrow> ('b, 'r, 'x) circuitBreaker \<Rightarrow> ('b, 'r, 'x) circuitBreaker go" where
  "cb_RecordFailure B now cb = cb_recordFailure B None now cb"

definition cb_RecordError :: "'b bitset_api \<Rightarrow> 'r \<Rightarrow> 'r error option \<Rightarrow> nanotime \<Rightarrow> ('b, 'r, 'x) circuitBreaker
    \<Rightarrow> ('b, 'r, 'x) circuitBreaker go" where
  "cb_RecordError B zero err now cb = cb_recordResult B zero err now cb"

definition cb_RecordResult :: "'b bitset_api \<Rightarrow> 'r \<Rightarrow> nanotime \<Rightarrow> ('b, 'r, 'x) circuitBreaker
    \<Rightarrow> ('b, 'r, 'x) circuitBreaker go" where
  "cb_RecordResult B result now cb = cb_recordResult B result None now cb"

definition cb_RecordSuccess :: "'b bitset_api \<Rightarrow> nanotime \<Rightarrow> ('b, 'r, 'x) circuitBreaker \<Rightarrow> ('b, 'r, 'x) circuitBreaker go" where
  "cb_RecordSuccess B now cb = cb_recordSuccess B now cb"

definition cb_Open :: "'b bitset_api \<Rightarrow> nanotime \<Rightarrow> ('b, 'r, 'x) circuitBreaker \<Rightarrow> ('b, 'r, 'x) circuitBreaker go" where
  "cb_Open B now cb = cb_open B None now cb"

definition cb_HalfOpen :: "'b bitset_api \<Rightarrow> nanotime \<Rightarrow> ('b, 'r, 'x) circuitBreaker \<Rightarrow> ('b, 'r, 'x) circuitBreaker go" where
  "cb_HalfOpen B now cb = cb_halfOpen B now cb"

definition cb_Close :: "'b bitset_api \<Rightarrow> nanotime \<Rightarrow> ('b, 'r, 'x) circuitBreaker \<Rightarrow> ('b, 'r, 'x) circuitBreaker go" where
  "cb_Close B now cb = cb_close B now cb"

definition cb_Reset :: "'b bitset_api \<Rightarrow> nanotime \<Rightarrow> ('b, 'r, 'x) circuitBreaker \<Rightarrow> ('b, 'r, 'x) circuitBreaker go" where
  "cb_Reset B now cb =
     go_bind (cb_close B now cb) (\<lambda>cb'.
     Inr (cb'\<lparr>cb_state := with_stats (cb_state cb') (Stats_Reset B (state_stats (cb_state cb')))\<rparr>))"

definition cb_State :: "('b, 'r, 'x) circuitBreaker \<Rightarrow> State" where
  "cb_State cb = cs_state (cb_state cb)"

definition IsOpen :: "('b, 'r, 'x) circuitBreaker \<Rightarrow> bool" where
  "IsOpen cb \<longleftrightarrow> cb_State cb = OpenState"

definition IsHalfOpen :: "('b, 'r, 'x) circuitBreaker \<Rightarrow> bool" where
  "IsHalfOpen cb \<longleftrightarrow> cb_State cb = HalfOpenState"

definition IsClosed :: "('b, 'r, 'x) circuitBreaker \<Rightarrow> bool" where
  "IsClosed cb \<longleftrightarrow> cb_State cb = ClosedState"

definition RemainingDelay :: "nanotime \<Rightarrow> ('b, 'r, 'x) circuitBreaker \<Rightarrow> duration" where
  "RemainingDelay now cb = cs_remainingDelay (cb_state cb) now"

definition cb_Executions :: "('b, 'r, 'x) circuitBreaker \<Rightarrow> uint" where
  "cb_Executions cb = ExecutionCount (state_stats (cb_state cb))"

definition cb_Failures :: "('b, 'r, 'x) circuitBreaker \<Rightarrow> uint" where
  "cb_Failures cb = FailureCount (state_stats (cb_state cb))"

definition cb_FailureRate :: "('b, 'r, 'x) circuitBreaker \<Rightarrow> float64" where
  "cb_FailureRate cb = FailureRate (state_stats (cb_state cb))"

definition cb_Successes :: "('b, 'r, 'x) circuitBreaker \<Rightarrow> uint" where
  "cb_Successes cb = SuccessCount (state_stats (cb_state cb))"

definition cb_SuccessRate :: "('b, 'r, 'x) circuitBreaker \<Rightarrow> float64" where
  "cb_SuccessRate cb = SuccessRate (state_stats (cb_state cb))"

section \<open>Operations as steps, and the invariant of the breaker\<close>

text \<open>
  A configuration the constructors accept and the statistics can serve: positive capacities, and a
  thresholding period of none or at least one nanosecond per bucket.
\<close>

definition cfg_ok :: "('r, 'x) cb_config \<Rightarrow> bool" where
  "cfg_ok c \<longleftrightarrow> 0 < closed_capacity c \<and> 0 < half_open_capacity c
     \<and> (failureThresholdingPeriod c = 0
        \<or> defaultBucketCount \<le> failureThresholdingPeriod c \<and> in_i64 (failureThresholdingPeriod c))"

fun counting_capacity :: "'b bitset_api \<Rightarrow> uint \<Rightarrow> 'b executionStats \<Rightarrow> bool" where
  "counting_capacity B n (Counting c) \<longleftrightarrow> bitset_Len B (cs_bitSet c) = n"
| "counting_capacity B n (Timed s) \<longleftrightarrow> False"

definition state_ok :: "'b bitset_api \<Rightarrow> ('r, 'x) cb_config \<Rightarrow> 'b circuitState \<Rightarrow> bool" where
  "state_ok B c s \<longleftrightarrow> stats_inv B (state_stats s) \<and>
     (case s of
        Closed st \<Rightarrow> failureThresholdingPeriod c = 0 \<longrightarrow> counting_capacity B (closed_capacity c) st
      | Open _ _ _ \<Rightarrow> True
      | HalfOpen st _ \<Rightarrow> counting_capacity B (half_open_capacity c) st)"

definition cb_inv :: "'b bitset_api \<Rightarrow> ('b, 'r, 'x) circuitBreaker \<Rightarrow> bool" where
  "cb_inv B cb \<longleftrightarrow> cfg_ok (config cb) \<and> state_ok B (config cb) (cb_state cb)"

text \<open>One recorded result, a success or a failure of the execution \<open>exec\<close>.\<close>

definition cb_record :: "'b bitset_api \<Rightarrow> bool \<Rightarrow> 'x option \<Rightarrow> nanotime \<Rightarrow> ('b, 'r, 'x) circuitBreaker
    \<Rightarrow> ('b, 'r, 'x) circuitBreaker go" where
  "cb_record B success exec now cb =
     (if success then cb_recordSuccess B now cb else cb_recordFailure B exec now cb)"

datatype ('r, 'x) cb_op =
    OpTryAcquirePermit | OpRecordSuccess | OpRecordFailure "'x option"
  | OpRecordResult 'r "'r error option" | OpOpen | OpHalfOpen | OpClose | OpReset

fun cb_step :: "'b bitset_api \<Rightarrow> ('r, 'x) cb_op \<Rightarrow> nanotime \<Rightarrow> ('b, 'r, 'x) circuitBreaker
    \<Rightarrow> ('b, 'r, 'x) circuitBreaker go" where
  "cb_step B OpTryAcquirePermit now cb = go_bind (TryAcquirePermit B now cb) (\<lambda>(_, cb'). Inr cb')"
| "cb_step B OpRecordSuccess now cb = cb_RecordSuccess B now cb"
| "cb_step B (OpRecordFailure exec) now cb = cb_recordFailure B exec now cb"
| "cb_step B (OpRecordResult r err) now cb = cb_recordResult B r err now cb"
| "cb_step B OpOpen now cb = cb_Open B now cb"
| "cb_step B OpHalfOpen now cb = cb_HalfOpen B now cb"
| "cb_step B OpClose now cb = cb_Close B now cb"
| "cb_step B OpReset now cb = cb_Reset B now cb"

inductive cb_reachable :: "'b bitset_api \<Rightarrow> ('r, 'x) cb_config \<Rightarrow> ('b, 'r, 'x) circuitBreaker \<Rightarrow> bool"
  for B c where
  built: "cb_Build B c = Inr cb \<Longrightarrow> cb_reachable B c cb"
| op: "cb_reachable B c cb \<Longrightarrow> 0 \<le> now \<Longrightarrow> in_i64 now \<Longrightarrow> cb_step B oper now cb = Inr cb'
     \<Longrightarrow> cb_reachable B c cb'"

lemmas transition_defs = cb_open_def cb_close_def cb_halfOpen_def
lemmas cb_export_defs = cb_RecordSuccess_def cb_RecordFailure_def cb_Open_def cb_HalfOpen_def cb_Close_def

lemma state_stats_with_stats [simp]: "state_stats (with_stats s st) = st"
  and cs_state_with_stats [simp]: "cs_state (with_stats s st) = cs_state s"
  and with_stats_same [simp]: "with_stats s (state_stats s) = s"
  by (cases s; simp)+

lemma transitionTo_same [simp]:
  "cs_state (cb_state cb) = target \<Longrightarrow> transitionTo B target exec reg which now cb = Inr cb"
  by (simp add: transitionTo_def)

context bitset_laws begin

lemma newStats_ok:
  assumes "0 < n" "cfg_ok c"
  shows "\<exists>st. newStats B c tb n = Inr st \<and> stats_inv B st
     \<and> (\<not> tb \<or> failureThresholdingPeriod c = 0 \<longrightarrow> st = Counting (NewCountingStats B n) \<and> counting_capacity B n st)"
proof -
  have "\<exists>s. NewTimedStats defaultBucketCount (failureThresholdingPeriod c) = Inr s \<and> timed.window_inv s"
    if "failureThresholdingPeriod c \<noteq> 0"
    using NewTimedStats_ok[of defaultBucketCount "failureThresholdingPeriod c"] assms(2) that
    by (auto simp: cfg_ok_def defaultBucketCount_def)
  then show ?thesis
    using NewCountingStats_inv[OF assms(1)] by (auto simp: newStats_def)
qed

lemma Stats_Record_capacity:
  assumes "stats_inv B st" "counting_capacity B n st" "Stats_Record B v st now = Inr st'"
  shows "counting_capacity B n st'"
proof (cases st)
  case (Counting c)
  then have "cs_inv B c" using assms(1) by simp
  from counting_record_step[OF this, of v] show ?thesis
    using assms Counting by (cases v) (auto simp: Stats_Record_def)
qed (use assms in simp)

lemma Stats_Reset_capacity: "counting_capacity B n st \<Longrightarrow> counting_capacity B n (Stats_Reset B st)"
  by (cases st) (simp_all add: counting_Reset_def Len_ClearAll)

text \<open>Every transition keeps the invariant and ends in the state it aims at.\<close>

lemma transitionTo_ok:
  assumes "cb_inv B cb"
  shows "\<exists>cb'. transitionTo B target exec reg which now cb = Inr cb' \<and> cb_inv B cb'
     \<and> config cb' = config cb \<and> cs_state (cb_state cb') = target"
proof (cases "cs_state (cb_state cb) = target")
  case False
  have c: "cfg_ok (config cb)" "stats_inv B (state_stats (cb_state cb))"
    "0 < closed_capacity (config cb)" "0 < half_open_capacity (config cb)"
    using assms by (simp_all add: cb_inv_def state_ok_def cfg_ok_def)
  show ?thesis
    using False c newStats_ok[OF c(3,1), of True] newStats_ok[OF c(4,1), of False]
    by (cases target) (auto simp: transitionTo_def Let_def newClosedState_def newHalfOpenState_def newOpenState_def
        cb_inv_def state_ok_def)
qed (use assms in simp)

lemmas open_ok = transitionTo_ok[of _ OpenState, folded cb_open_def]

lemma with_stats_ok:
  assumes "cb_inv B cb" "Stats_Record B v (state_stats (cb_state cb)) now = Inr st" "0 \<le> now" "in_i64 now"
  shows "cb_inv B (cb\<lparr>cb_state := with_stats (cb_state cb) st\<rparr>)"
proof -
  have i: "stats_inv B (state_stats (cb_state cb))" using assms(1) by (simp add: cb_inv_def state_ok_def)
  have "stats_inv B st" using Stats_Record_inv[OF i assms(3,4), of v] assms(2) by auto
  with assms(1) show ?thesis
    using Stats_Record_capacity[OF i _ assms(2)]
    by (cases "cb_state cb") (auto simp: cb_inv_def state_ok_def)
qed

lemma check_ok:
  assumes "cb_inv B cb"
  shows "\<exists>cb'. checkThresholdAndReleasePermit B exec now cb = Inr cb' \<and> cb_inv B cb' \<and> config cb' = config cb"
proof (cases "cb_state cb")
  case (Closed st)
  then show ?thesis using transitionTo_ok[OF assms, of OpenState] assms
    by (fastforce simp: checkThresholdAndReleasePermit_def closed_checkThreshold_def cb_open_def Let_def)
next
  case (HalfOpen st p)
  have "cb_inv B (cb\<lparr>cb_state := HalfOpen st q\<rparr>)" for q
    using assms HalfOpen by (simp add: cb_inv_def state_ok_def)
  then show ?thesis using transitionTo_ok[OF assms] HalfOpen
    by (fastforce simp: checkThresholdAndReleasePermit_def halfOpen_checkThreshold_def transition_defs Let_def split: prod.split)
qed (use assms in \<open>simp add: checkThresholdAndReleasePermit_def\<close>)

lemma cb_record_unfold:
  assumes "Stats_Record B v (state_stats (cb_state cb)) now = Inr st"
  shows "cb_record B v exec now cb = checkThresholdAndReleasePermit B (if v then None else exec) now
     (cb\<lparr>cb_state := with_stats (cb_state cb) st\<rparr>)"
  using assms by (cases v) (simp_all add: cb_record_def cb_recordSuccess_def cb_recordFailure_def Stats_Record_def)

lemma cb_record_ok:
  assumes "cb_inv B cb" "0 \<le> now" "in_i64 now"
  shows "\<exists>cb'. cb_record B v exec now cb = Inr cb' \<and> cb_inv B cb' \<and> config cb' = config cb"
proof -
  obtain st where st: "Stats_Record B v (state_stats (cb_state cb)) now = Inr st"
    using Stats_Record_inv[OF _ assms(2,3)] assms(1) by (auto simp: cb_inv_def state_ok_def)
  from check_ok[OF with_stats_ok[OF assms(1) st assms(2,3)]] show ?thesis
    by (auto simp: cb_record_unfold[OF st])
qed

lemma halfOpen_tryAcquirePermit_ok:
  assumes "cb_inv B cb"
  shows "cb_inv B (snd (halfOpen_tryAcquirePermit cb))" "config (snd (halfOpen_tryAcquirePermit cb)) = config cb"
  using assms by (auto simp: halfOpen_tryAcquirePermit_def cb_inv_def state_ok_def split: circuitState.splits)

lemma TryAcquirePermit_ok:
  assumes "cb_inv B cb"
  shows "\<exists>b cb'. TryAcquirePermit B now cb = Inr (b, cb') \<and> cb_inv B cb' \<and> config cb' = config cb"
proof (cases "cb_state cb")
  case (Open st t d)
  obtain cb' where "cb_halfOpen B now cb = Inr cb'" "cb_inv B cb'" "config cb' = config cb"
    using transitionTo_ok[OF assms, of HalfOpenState] unfolding cb_halfOpen_def by blast
  then show ?thesis using Open assms halfOpen_tryAcquirePermit_ok[of cb']
    by (cases "halfOpen_tryAcquirePermit cb'") (auto simp: TryAcquirePermit_def)
next
  case (HalfOpen st p)
  then show ?thesis using halfOpen_tryAcquirePermit_ok[OF assms]
    by (cases "halfOpen_tryAcquirePermit cb") (simp add: TryAcquirePermit_def)
qed (use assms in \<open>auto simp: TryAcquirePermit_def\<close>)

lemma cb_Reset_ok:
  assumes "cb_inv B cb"
  shows "\<exists>cb'. cb_Reset B now cb = Inr cb' \<and> cb_inv B cb' \<and> config cb' = config cb"
proof -
  obtain cb1 where cb1: "cb_close B now cb = Inr cb1" "cb_inv B cb1" "config cb1 = config cb"
    using transitionTo_ok[OF assms] unfolding cb_close_def by blast
  have "cb_inv B (cb1\<lparr>cb_state := with_stats (cb_state cb1) (Stats_Reset B (state_stats (cb_state cb1)))\<rparr>)"
    using cb1(2) Stats_Reset_inv(1)[of "state_stats (cb_state cb1)"] Stats_Reset_capacity
    by (cases "cb_state cb1") (auto simp: cb_inv_def state_ok_def)
  with cb1 show ?thesis by (simp add: cb_Reset_def)
qed

lemma cb_step_ok:
  assumes "cb_inv B cb" "0 \<le> now" "in_i64 now"
  shows "\<exists>cb'. cb_step B oper now cb = Inr cb' \<and> cb_inv B cb' \<and> config cb' = config cb"
proof (cases oper)
  case OpTryAcquirePermit
  then show ?thesis using TryAcquirePermit_ok[OF assms(1), of now] by auto
next
  case OpRecordSuccess
  then show ?thesis using cb_record_ok[OF assms, of True None] by (simp add: cb_record_def cb_export_defs)
next
  case (OpRecordFailure exec)
  then show ?thesis using cb_record_ok[OF assms, of False exec] by (simp add: cb_record_def)
next
  case (OpRecordResult r err)
  then show ?thesis using cb_record_ok[OF assms, of True None] cb_record_ok[OF assms, of False None]
    by (simp add: cb_record_def cb_recordResult_def)
qed (use transitionTo_ok[OF assms(1)] cb_Reset_ok[OF assms(1)] in \<open>fastforce simp: cb_export_defs transition_defs\<close>)+

lemma cb_Build_ok:
  assumes "cfg_ok c"
  shows "\<exists>cb. cb_Build B c = Inr cb \<and> cb_inv B cb \<and> config cb = c"
  using newStats_ok[of "closed_capacity c" c True] assms
  by (auto simp: cb_Build_def newClosedState_def cb_inv_def state_ok_def cfg_ok_def)

lemma cb_reachable_inv:
  assumes "cb_reachable B c cb" "cfg_ok c"
  shows "cb_inv B cb \<and> config cb = c"
  using assms
proof (induction rule: cb_reachable.induct)
  case (built cb)
  then show ?case using cb_Build_ok[of c] by auto
next
  case (op cb now oper cb')
  then show ?case using cb_step_ok[of cb now oper] by auto
qed

end


section \<open>The transitions reported to the listener\<close>

fun event_path :: "State \<Rightarrow> 'b StateChangedEvent list \<Rightarrow> State \<Rightarrow> bool" where
  "event_path s [] t \<longleftrightarrow> s = t"
| "event_path s (e # es) t \<longleftrightarrow> OldState e = s \<and> NewState e \<noteq> s \<and> event_path (NewState e) es t"

definition state_changes :: "('b, 'r, 'x) circuitBreaker \<Rightarrow> 'b StateChangedEvent list" where
  "state_changes cb = map snd (filter (\<lambda>(which, _). which = StateChangedListener) (listener_calls cb))"

definition log_ok :: "('b, 'r, 'x) circuitBreaker \<Rightarrow> bool" where
  "log_ok cb \<longleftrightarrow> (stateChangedListener (config cb) \<longrightarrow> event_path ClosedState (state_changes cb) (cb_State cb))"

lemma event_path_snoc:
  "event_path s (es @ [e]) t \<longleftrightarrow> event_path s es (OldState e) \<and> NewState e \<noteq> OldState e \<and> NewState e = t"
  by (induction es arbitrary: s) auto

lemma log_ok_state:
  "log_ok cb \<Longrightarrow> cs_state s = cs_state (cb_state cb) \<Longrightarrow> log_ok (cb\<lparr>cb_state := s\<rparr>)"
  by (simp add: log_ok_def cb_State_def state_changes_def)

lemma new_state:
  "newClosedState B c = Inr s \<Longrightarrow> cs_state s = ClosedState"
  "newHalfOpenState B c = Inr s \<Longrightarrow> cs_state s = HalfOpenState"
  "cs_state (newOpenState s0 d now) = OpenState"
  by (auto simp: newClosedState_def newHalfOpenState_def newOpenState_def go_bind_Inr_iff)

lemma transitionTo_log:
  assumes "log_ok cb" "transitionTo B target exec reg which now cb = Inr cb'" "which \<noteq> StateChangedListener"
  shows "log_ok cb'"
proof (cases "cs_state (cb_state cb) = target")
  case False
  define ev :: "'a StateChangedEvent" where "ev = \<lparr>OldState = cs_state (cb_state cb), NewState = target, event_metrics = state_stats (cb_state cb)\<rparr>"
  obtain s where ns: "(case target of ClosedState \<Rightarrow> newClosedState B (config cb)
      | OpenState \<Rightarrow> (let d = ComputeDelay (cb_delayPolicy (config cb)) exec;
             d = (if d = -1 then Delay (cb_delayPolicy (config cb)) else d)
           in Inr (newOpenState (cb_state cb) d now))
      | HalfOpenState \<Rightarrow> newHalfOpenState B (config cb)) = Inr s"
    and s: "cb' = cb\<lparr>cb_state := s, listener_calls := listener_calls cb
      @ (if reg then [(which, ev)] else []) @ (if stateChangedListener (config cb) then [(StateChangedListener, ev)] else [])\<rparr>"
    using False assms(2) by (auto simp: transitionTo_def Let_def go_bind_Inr_iff ev_def)
  have "cs_state s = target" using ns by (cases target) (auto simp: new_state Let_def)
  have "state_changes cb' = (if stateChangedListener (config cb) then state_changes cb @ [ev] else state_changes cb)"
    using s assms(3) by (simp add: state_changes_def)
  with assms(1) s False \<open>cs_state s = target\<close> show ?thesis
    by (auto simp: log_ok_def event_path_snoc cb_State_def ev_def)
qed (use assms in simp)

lemma check_log:
  assumes "log_ok cb" "checkThresholdAndReleasePermit B exec now cb = Inr cb'"
  shows "log_ok cb'"
  using assms transitionTo_log[OF assms(1)] log_ok_state[OF assms(1)]
  by (fastforce simp: checkThresholdAndReleasePermit_def closed_checkThreshold_def halfOpen_checkThreshold_def
      transition_defs Let_def split: circuitState.splits if_splits prod.splits)

lemma record_log:
  assumes "log_ok cb"
  shows "cb_recordSuccess B now cb = Inr cb' \<Longrightarrow> log_ok cb'" "cb_recordFailure B exec now cb = Inr cb' \<Longrightarrow> log_ok cb'"
  using check_log[OF log_ok_state[OF assms cs_state_with_stats]]
  by (auto simp: cb_recordSuccess_def cb_recordFailure_def go_bind_Inr_iff)

lemma acquire_log:
  assumes "log_ok cb" "TryAcquirePermit B now cb = Inr (b, cb')"
  shows "log_ok cb'"
proof -
  have h: "log_ok (snd (halfOpen_tryAcquirePermit cb1))" if "log_ok cb1" for cb1 :: "('a, 'b, 'c) circuitBreaker"
    using that log_ok_state[OF that] by (auto simp: halfOpen_tryAcquirePermit_def split: circuitState.splits)
  show ?thesis
    using assms h[OF assms(1)] transitionTo_log[OF assms(1), of B HalfOpenState] h
    by (fastforce simp: TryAcquirePermit_def cb_halfOpen_def go_bind_Inr_iff split: circuitState.splits if_splits)
qed

lemma cb_step_log:
  assumes "log_ok cb" "cb_step B oper now cb = Inr cb'"
  shows "log_ok cb'"
proof (cases oper)
  case OpReset
  then obtain cb1 where "transitionTo B ClosedState None (closeListener (config cb)) CloseListener now cb = Inr cb1"
      "cb' = cb1\<lparr>cb_state := with_stats (cb_state cb1) (Stats_Reset B (state_stats (cb_state cb1)))\<rparr>"
    using assms by (auto simp: cb_Reset_def cb_close_def go_bind_Inr_iff)
  then show ?thesis using transitionTo_log[OF assms(1)] log_ok_state by force
qed (use assms record_log[OF assms(1)] acquire_log[OF assms(1)] transitionTo_log[OF assms(1)] in
    \<open>auto simp: cb_export_defs transition_defs cb_recordResult_def go_bind_Inr_iff split: if_splits\<close>)

lemma cb_reachable_log: "cb_reachable B c cb \<Longrightarrow> log_ok cb"
proof (induction rule: cb_reachable.induct)
  case (built cb)
  then show ?case
    by (auto simp: cb_Build_def go_bind_Inr_iff log_ok_def state_changes_def cb_State_def new_state)
next
  case (op cb now oper cb')
  then show ?case using cb_step_log by blast
qed

section \<open>Sequences of results\<close>

fun cb_record_all :: "'b bitset_api \<Rightarrow> ('b, 'r, 'x) circuitBreaker \<Rightarrow> (nanotime \<times> bool) list
    \<Rightarrow> ('b, 'r, 'x) circuitBreaker go" where
  "cb_record_all B cb [] = Inr cb"
| "cb_record_all B cb ((now, success) # rs) =
     go_bind (cb_record B success None now cb) (\<lambda>cb'. cb_record_all B cb' rs)"

definition valid_times :: "(nanotime \<times> bool) list \<Rightarrow> bool" where
  "valid_times rs \<longleftrightarrow> (\<forall>(t, _) \<in> set rs. 0 \<le> t \<and> in_i64 t)"

text \<open>A closed or half-open breaker whose counting statistics hold the results \<open>xs\<close>.\<close>

fun holds_results :: "'b bitset_api \<Rightarrow> uint \<Rightarrow> bool list \<Rightarrow> 'b executionStats \<Rightarrow> bool" where
  "holds_results B n xs (Counting c) \<longleftrightarrow> cs_inv B c \<and> bitset_Len B (cs_bitSet c) = n \<and> cs_results B c = xs"
| "holds_results B n xs (Timed s) \<longleftrightarrow> False"

lemma holds_results_counts:
  assumes "holds_results B n xs st"
  shows "unat (SuccessCount st) = count_list xs True" "unat (FailureCount st) = count_list xs False"
    "unat (ExecutionCount st) = length xs" "stats_inv B st" "counting_capacity B n st"
proof -
  obtain c where c: "st = Counting c" "cs_inv B c" "bitset_Len B (cs_bitSet c) = n" "cs_results B c = xs"
    using assms by (cases st) simp_all
  then show "unat (SuccessCount st) = count_list xs True" "unat (FailureCount st) = count_list xs False"
    "unat (ExecutionCount st) = length xs" "stats_inv B st" "counting_capacity B n st"
    using cs_results_length[OF c(2)] by (simp_all add: counting_SuccessCount_def counting_FailureCount_def
      counting_ExecutionCount_def cs_inv_def counters_ok_def)
qed

lemma cb_record_all_append:
  "cb_record_all B cb (rs @ ts) = go_bind (cb_record_all B cb rs) (\<lambda>cb'. cb_record_all B cb' ts)"
proof (induction rs arbitrary: cb)
  case (Cons r rs)
  then show ?case by (cases r; cases "cb_record B (snd r) None (fst r) cb") auto
qed simp

text \<open>Count based thresholding, and the results at which a threshold of \<open>k\<close> failures of \<open>n\<close> is met.\<close>

definition count_based :: "('r, 'x) cb_config \<Rightarrow> bool" where
  "count_based c \<longleftrightarrow> failureThresholdingPeriod c = 0 \<and> failureExecutionThreshold c = 0 \<and> failureRateThreshold c = 0"

definition hits :: "nat \<Rightarrow> nat \<Rightarrow> bool list \<Rightarrow> bool" where
  "hits k n vs \<longleftrightarrow> (\<exists>m \<le> length vs. k \<le> count_list (drop (m - n) (take m vs)) False)"

lemma hits_snoc:
  "hits k n (vs @ [v]) \<longleftrightarrow> hits k n vs \<or> k \<le> count_list (drop (Suc (length vs) - n) (vs @ [v])) False"
  by (auto simp: hits_def le_Suc_eq)

context bitset_laws begin

lemma holds_results_record:
  assumes "holds_results B n xs st"
  shows "\<exists>st'. Stats_Record B v st now = Inr st' \<and> holds_results B n (push_bounded (unat n) xs v) st'"
proof (cases st)
  case (Counting c)
  then obtain c' where "(if v then counting_RecordSuccess B c else counting_RecordFailure B c) = Inr c'" "cs_inv B c'"
     "bitset_Len B (cs_bitSet c') = n" "cs_results B c' = push_bounded (unat n) xs v"
    using counting_record_step[of c v] assms by auto
  with Counting show ?thesis by (cases v) (auto simp: Stats_Record_def)
qed (use assms in simp)

lemma holds_results_new: "0 < n \<Longrightarrow> holds_results B n [] (Counting (NewCountingStats B n))"
  using NewCountingStats_inv[of n] by simp

lemma record_all_ok:
  assumes "cb_inv B cb" "valid_times rs"
  shows "\<exists>cb'. cb_record_all B cb rs = Inr cb' \<and> cb_inv B cb' \<and> config cb' = config cb"
  using assms
proof (induction rs arbitrary: cb)
  case (Cons r rs)
  obtain t v where r: "r = (t, v)" by (cases r)
  with Cons obtain cb1 where "cb_record B v None t cb = Inr cb1" "cb_inv B cb1" "config cb1 = config cb"
    using cb_record_ok[of cb t v None] by (auto simp: valid_times_def)
  with Cons r show ?case using Cons.IH[of cb1] by (auto simp: valid_times_def)
qed simp

text \<open>An open breaker stays open while results are recorded.\<close>

lemma open_record:
  assumes "cb_state cb = Open st t d" "cb_record B v exec now cb = Inr cb'"
  shows "\<exists>st'. cb_state cb' = Open st' t d"
  using assms by (auto simp: cb_record_def cb_recordSuccess_def cb_recordFailure_def go_bind_Inr_iff
      checkThresholdAndReleasePermit_def split: if_splits)

text \<open>Recording in the closed state of a breaker with a failure threshold and no period.\<close>

lemma closed_record:
  fixes v
  assumes "cb_state cb = Closed st" "holds_results B n xs st" "count_based (config cb)"
  defines "xs' \<equiv> push_bounded (unat n) xs v"
  shows "\<exists>cb' st'. cb_record B v exec now cb = Inr cb' \<and> config cb' = config cb \<and> holds_results B n xs' st' \<and>
     cb_state cb' = (if unat (failureThreshold (config cb)) \<le> count_list xs' False
        then newOpenState (Closed st') (let d = ComputeDelay (cb_delayPolicy (config cb)) (if v then None else exec)
           in if d = -1 then Delay (cb_delayPolicy (config cb)) else d) now else Closed st')"
proof -
  obtain st' where st': "Stats_Record B v st now = Inr st'" "holds_results B n xs' st'"
    using holds_results_record[OF assms(2)] unfolding xs'_def by blast
  have "failureThreshold (config cb) \<le> FailureCount st'
      \<longleftrightarrow> unat (failureThreshold (config cb)) \<le> count_list xs' False"
    using holds_results_counts(2)[OF st'(2)] by (simp add: word_le_nat_alt)
  then show ?thesis
    using cb_record_unfold[of v cb now st' exec] assms(1,3) st'
    by (auto simp: checkThresholdAndReleasePermit_def closed_checkThreshold_def cb_open_def transitionTo_def
        count_based_def Let_def newOpenState_def)
qed

lemma closed_run:
  assumes "cb_inv B cb0" "cb_state cb0 = Closed (Counting (NewCountingStats B n))" "0 < n"
    and "count_based (config cb0)" "0 < failureThreshold (config cb0)" "valid_times rs"
  defines "k \<equiv> unat (failureThreshold (config cb0))"
  shows "\<exists>cb. cb_record_all B cb0 rs = Inr cb \<and> cb_inv B cb \<and> config cb = config cb0
     \<and> (if hits k (unat n) (map snd rs) then IsOpen cb
        else \<exists>st. cb_state cb = Closed st
               \<and> holds_results B n (drop (length rs - unat n) (map snd rs)) st)"
  using assms(6)
proof (induction rs rule: rev_induct)
  case Nil
  have "0 < k" using assms(5) by (simp add: k_def unat_gt_0)
  then show ?case using assms(1-3) holds_results_new by (auto simp: hits_def)
next
  case (snoc r rs)
  obtain t v where r: "r = (t, v)" by (cases r)
  define vs where "vs = map snd rs"
  obtain cb where cb: "cb_record_all B cb0 rs = Inr cb" "cb_inv B cb" "config cb = config cb0"
      "if hits k (unat n) vs then IsOpen cb
       else \<exists>st. cb_state cb = Closed st \<and> holds_results B n (drop (length rs - unat n) vs) st"
    using snoc by (auto simp: valid_times_def vs_def)
  have t: "0 \<le> t" "in_i64 t" using snoc.prems r by (auto simp: valid_times_def)
  obtain cb' where cb': "cb_record B v None t cb = Inr cb'" "cb_inv B cb'" "config cb' = config cb0"
    using cb_record_ok[OF cb(2) t, of v None] cb(3) by auto
  have run: "cb_record_all B cb0 (rs @ [r]) = Inr cb'"
    using cb(1) cb'(1) r by (simp add: cb_record_all_append)
  have n: "0 < unat n" using assms(3) by (simp add: unat_gt_0)
  show ?case
  proof (cases "hits k (unat n) vs")
    case True
    then obtain st t0 d where "cb_state cb = Open st t0 d"
      using cb(4) by (cases "cb_state cb") (auto simp: IsOpen_def cb_State_def)
    then have "IsOpen cb'" using open_record[OF _ cb'(1)] by (auto simp: IsOpen_def cb_State_def)
    moreover have "hits k (unat n) (map snd (rs @ [r]))"
      using True by (simp add: hits_snoc vs_def)
    ultimately show ?thesis using run cb' by simp
  next
    case False
    then obtain st where st: "cb_state cb = Closed st" "holds_results B n (drop (length rs - unat n) vs) st"
      using cb(4) by auto
    define xs' where "xs' = drop (length (rs @ [r]) - unat n) (map snd (rs @ [r]))"
    have xs': "push_bounded (unat n) (drop (length rs - unat n) vs) v = xs'"
      using push_bounded_recent[OF n, of vs v] by (simp add: xs'_def vs_def r)
    obtain st' d where st': "holds_results B n xs' st'"
        "cb_state cb' = (if k \<le> count_list xs' False then newOpenState (Closed st') d t else Closed st')"
      using closed_record[OF st, of v None t] cb(3) cb'(1) assms(4) unfolding xs' k_def by auto
    have "hits k (unat n) (map snd (rs @ [r])) \<longleftrightarrow> k \<le> count_list xs' False"
      using False by (simp add: hits_snoc vs_def xs'_def r)
    then show ?thesis
      using run cb' st' by (auto simp: xs'_def IsOpen_def cb_State_def newOpenState_def)
  qed
qed

end

section \<open>Half-open trials\<close>

text \<open>
  The thresholds are consistent: the success or failure threshold does not exceed its capacity, and
  the trial of the half-open state is long enough for the threshold it decides on.
\<close>

definition thresholds_ok :: "('r, 'x) cb_config \<Rightarrow> bool" where
  "thresholds_ok c \<longleftrightarrow>
     (if successThreshold c \<noteq> 0 then successThreshold c \<le> successThresholdingCapacity c
      else if failureRateThreshold c \<noteq> 0 then failureExecutionThreshold c \<le> half_open_capacity c
      else failureThreshold c \<le> failureThresholdingCapacity c \<and> failureThresholdingCapacity c \<le> half_open_capacity c)"

lemma half_open_capacity_success:
  "successThreshold c \<noteq> 0 \<Longrightarrow> thresholds_ok c \<Longrightarrow> half_open_capacity c = successThresholdingCapacity c"
  by (auto simp: half_open_capacity_def thresholds_ok_def Let_def)

text \<open>
  The successes a trial needs to close the circuit, when it is not decided by a rate; with a failure
  threshold of \<open>k\<close> of \<open>n\<close>, one more than \<open>n - k\<close>.
\<close>

definition required_successes :: "('r, 'x) cb_config \<Rightarrow> nat" where
  "required_successes c =
     (if successThreshold c \<noteq> 0 then unat (successThreshold c)
      else unat (failureThresholdingCapacity c) - unat (failureThreshold c) + 1)"

definition trial_length :: "('r, 'x) cb_config \<Rightarrow> nat" where
  "trial_length c =
     unat (if successThreshold c \<noteq> 0 then successThresholdingCapacity c else failureThresholdingCapacity c)"

definition count_trial :: "('r, 'x) cb_config \<Rightarrow> bool" where
  "count_trial c \<longleftrightarrow> thresholds_ok c
     \<and> (successThreshold c = 0 \<longrightarrow> failureRateThreshold c = 0 \<and> 0 < failureThreshold c)"

lemma half_open_exceeded_count:
  assumes "count_trial c"
  shows "half_open_exceeded c st = (required_successes c \<le> unat (SuccessCount st),
     trial_length c - required_successes c < unat (FailureCount st))"
proof (cases "successThreshold c = 0")
  case True
  have k: "failureThreshold c \<le> failureThresholdingCapacity c" "0 < unat (failureThreshold c)"
    using assms True by (auto simp: count_trial_def thresholds_ok_def unat_gt_0)
  show ?thesis
    using assms True k(2) unat_sub_le[OF k(1)] k(1)
    by (auto simp: half_open_exceeded_def required_successes_def trial_length_def count_trial_def
        word_less_nat_alt word_le_nat_alt)
next
  case False
  then have "successThreshold c \<le> successThresholdingCapacity c"
    using assms by (simp add: count_trial_def thresholds_ok_def)
  with False show ?thesis
    by (auto simp: half_open_exceeded_def required_successes_def trial_length_def unat_sub_le
        word_less_nat_alt word_le_nat_alt)
qed

lemma required_successes_bounds:
  assumes "count_trial c"
  shows "required_successes c \<le> trial_length c" "0 < required_successes c" "trial_length c \<le> unat (half_open_capacity c)"
proof -
  have "required_successes c \<le> trial_length c \<and> 0 < required_successes c"
  proof (cases "successThreshold c = 0")
    case True
    then have "0 < unat (failureThreshold c)" "unat (failureThreshold c) \<le> unat (failureThresholdingCapacity c)"
      using assms by (auto simp: count_trial_def thresholds_ok_def word_less_nat_alt word_le_nat_alt split: if_splits)
    with True show ?thesis unfolding required_successes_def trial_length_def by simp
  next
    case False
    with assms show ?thesis
      by (simp add: count_trial_def thresholds_ok_def required_successes_def trial_length_def word_le_nat_alt unat_gt_0)
  qed
  then show "required_successes c \<le> trial_length c" "0 < required_successes c" by simp_all
  show "trial_length c \<le> unat (half_open_capacity c)"
    using assms half_open_capacity_success[of c]
    by (auto simp: count_trial_def thresholds_ok_def trial_length_def word_le_nat_alt split: if_splits)
qed

text \<open>A trial records results until the breaker leaves the half-open state.\<close>

fun half_open_trial :: "'b bitset_api \<Rightarrow> ('b, 'r, 'x) circuitBreaker \<Rightarrow> (nanotime \<times> bool) list
    \<Rightarrow> ('b, 'r, 'x) circuitBreaker go" where
  "half_open_trial B cb [] = Inr cb"
| "half_open_trial B cb ((now, success) # rs) =
     (if IsHalfOpen cb
      then go_bind (cb_record B success None now cb) (\<lambda>cb'. half_open_trial B cb' rs)
      else Inr cb)"

lemma half_open_trial_done: "\<not> IsHalfOpen cb \<Longrightarrow> half_open_trial B cb rs = Inr cb"
  by (induction rs) auto

context bitset_laws begin

lemma half_open_record:
  fixes v
  assumes "cb_inv B cb" "cb_state cb = HalfOpen st p" "holds_results B n xs st" "length xs < unat n"
  shows "\<exists>cb' st'. cb_record B v exec now cb = Inr cb' \<and> cb_inv B cb' \<and> config cb' = config cb
     \<and> holds_results B n (xs @ [v]) st'
     \<and> (let (s, f) = half_open_exceeded (config cb) st' in
          if s then IsClosed cb' else if f then IsOpen cb'
          else cb_state cb' = HalfOpen st' (p + 1) \<and> listener_calls cb' = listener_calls cb)"
proof -
  obtain st' where st': "Stats_Record B v st now = Inr st'" "holds_results B n (xs @ [v]) st'"
    using holds_results_record[OF assms(3), of v now] assms(4) by (auto simp: push_bounded_def)
  define cb1 where "cb1 = cb\<lparr>cb_state := HalfOpen st' p\<rparr>"
  have inv1: "cb_inv B cb1"
    using assms(1-3) holds_results_counts[OF st'(2)] holds_results_counts(5)[OF assms(3)]
    by (cases st; cases st') (auto simp: cb1_def cb_inv_def state_ok_def)
  obtain cb2 cb3 where t: "transitionTo B ClosedState None (closeListener (config cb1)) CloseListener now cb1 = Inr cb2"
     "cb_inv B cb2" "config cb2 = config cb" "cs_state (cb_state cb2) = ClosedState"
     "transitionTo B OpenState (if v then None else exec) (openListener (config cb1)) OpenListener now cb1 = Inr cb3"
     "cb_inv B cb3" "config cb3 = config cb" "cs_state (cb_state cb3) = OpenState"
    using transitionTo_ok[OF inv1] by (metis cb1_def circuitBreaker.select_convs(1) circuitBreaker.surjective circuitBreaker.update_convs(2))
  have "cb_inv B (cb1\<lparr>cb_state := HalfOpen st' (p + 1)\<rparr>)"
    using inv1 by (simp add: cb1_def cb_inv_def state_ok_def)
  then have "\<exists>cb'. cb_record B v exec now cb = Inr cb' \<and> cb_inv B cb' \<and> config cb' = config cb
     \<and> (let (s, f) = half_open_exceeded (config cb) st' in
          if s then IsClosed cb' else if f then IsOpen cb'
          else cb_state cb' = HalfOpen st' (p + 1) \<and> listener_calls cb' = listener_calls cb)"
    using cb_record_unfold[of v cb now st' exec] assms(2) st'(1) t
    by (auto simp: checkThresholdAndReleasePermit_def halfOpen_checkThreshold_def transition_defs
        cb1_def IsClosed_def IsOpen_def cb_State_def Let_def split: prod.split)
  with st'(2) show ?thesis by blast
qed

lemma half_open_trial_run:
  assumes "cb_inv B cb" "cb_state cb = HalfOpen st p" "holds_results B n xs st" "n = half_open_capacity (config cb)"
    and c: "count_trial (config cb)" and len: "length xs + length rs = trial_length (config cb)"
    and undecided: "count_list xs True < required_successes (config cb)"
      "count_list xs False \<le> trial_length (config cb) - required_successes (config cb)"
  shows "\<exists>cb'. half_open_trial B cb rs = Inr cb'
     \<and> (if required_successes (config cb) \<le> count_list (xs @ map snd rs) True then IsClosed cb' else IsOpen cb')"
  using assms(1-3) len undecided assms(4) c
proof (induction rs arbitrary: cb st p xs)
  case Nil
  then show ?case
    using required_successes_bounds(1)[of "config cb"] count_list_bool[of xs] by simp
next
  case (Cons r rs)
  obtain t v where r: "r = (t, v)" by (cases r)
  let ?c = "config cb"
  have bnd: "required_successes ?c \<le> trial_length ?c" "trial_length ?c \<le> unat n"
    using required_successes_bounds[OF Cons.prems(8)] Cons.prems(7) by simp_all
  have room: "length xs < unat n" using Cons.prems(4) bnd by simp
  obtain cb' st' where cb': "cb_record B v None t cb = Inr cb'" "cb_inv B cb'" "config cb' = ?c"
      "holds_results B n (xs @ [v]) st'"
      "let (s, f) = half_open_exceeded ?c st' in if s then IsClosed cb' else if f then IsOpen cb'
          else cb_state cb' = HalfOpen st' (p + 1) \<and> listener_calls cb' = listener_calls cb"
    using half_open_record[OF Cons.prems(1-3) room, of v None t] by blast
  have ho: "IsHalfOpen cb" using Cons.prems(2) by (simp add: IsHalfOpen_def cb_State_def)
  note cnt = holds_results_counts[OF cb'(4)]
  have dec: "if required_successes ?c \<le> count_list (xs @ [v]) True then IsClosed cb'
      else if trial_length ?c - required_successes ?c < count_list (xs @ [v]) False then IsOpen cb'
      else cb_state cb' = HalfOpen st' (p + 1)"
    using cb'(5) cnt(1,2) by (simp add: half_open_exceeded_count[OF Cons.prems(8)] split: if_splits)
  have total: "count_list (xs @ map snd (r # rs)) True = count_list (xs @ [v]) True + count_list (map snd rs) True"
    "count_list (xs @ [v]) True + count_list (xs @ [v]) False + length rs = trial_length ?c"
    "count_list (map snd rs) True \<le> length rs"
    using Cons.prems(4) count_list_bool[of "xs @ [v]"] count_le_length[of "map snd rs" True] r by simp_all
  consider (closed) "required_successes ?c \<le> count_list (xs @ [v]) True"
    | (opened) "count_list (xs @ [v]) True < required_successes ?c"
        "trial_length ?c - required_successes ?c < count_list (xs @ [v]) False"
    | (more) "count_list (xs @ [v]) True < required_successes ?c"
        "count_list (xs @ [v]) False \<le> trial_length ?c - required_successes ?c" by linarith
  then show ?case
  proof cases
    case closed
    then have "IsClosed cb'" using dec by simp
    moreover from this have "\<not> IsHalfOpen cb'" by (simp add: IsClosed_def IsHalfOpen_def)
    ultimately show ?thesis using cb'(1) ho closed total(1) by (auto simp: r half_open_trial_done)
  next
    case opened
    then have o: "IsOpen cb'" "\<not> IsHalfOpen cb'" using dec by (auto simp: IsOpen_def IsHalfOpen_def)
    moreover have "\<not> required_successes ?c \<le> count_list (xs @ map snd (r # rs)) True"
      using opened total bnd by linarith
    ultimately show ?thesis using cb'(1) ho by (auto simp: r half_open_trial_done simp del: count_list_append)
  next
    case more
    then have s': "cb_state cb' = HalfOpen st' (p + 1)" using dec by simp
    have "length (xs @ [v]) + length rs = trial_length (config cb')" using Cons.prems(4) cb'(3) by simp
    from Cons.IH[OF cb'(2) s' cb'(4) this] show ?thesis
      using more cb'(1,3) Cons.prems(7,8) ho by (simp add: r)
  qed
qed

lemma half_open_decides_step:
  assumes "holds_results B n xs st" "n = half_open_capacity c" "thresholds_ok c" "unat n \<le> length xs" "0 < n"
  shows "fst (half_open_exceeded c st) \<or> snd (half_open_exceeded c st)"
proof -
  note cnt = holds_results_counts[OF assms(1)]
  have tot: "unat (SuccessCount st) + unat (FailureCount st) = unat (ExecutionCount st)"
    "unat n \<le> unat (ExecutionCount st)"
    using cnt count_list_bool[of xs] assms(4) by simp_all
  consider (count) "successThreshold c \<noteq> 0" | (rate) "successThreshold c = 0" "failureRateThreshold c \<noteq> 0"
    | (failures) "successThreshold c = 0" "failureRateThreshold c = 0" by blast
  then show ?thesis
  proof cases
    case count
    then have le: "successThreshold c \<le> successThresholdingCapacity c" using assms(3) by (simp add: thresholds_ok_def)
    show ?thesis
      using count le tot half_open_capacity_success[OF count assms(3)] assms(2)
      by (auto simp: half_open_exceeded_def unat_sub_le word_less_nat_alt word_le_nat_alt)
  next
    case rate
    have "stats.no_overflow st" using tot unsigned_less[of "ExecutionCount st"] by (simp add: stats.no_overflow_def)
    moreover have "ExecutionCount st \<noteq> 0"
    proof
      assume "ExecutionCount st = 0"
      then have "unat n = 0" using tot by simp
      with assms(5) show False by (simp add: unat_eq_0)
    qed
    ultimately have "1 \<le> FailureRate st + SuccessRate st"
      using stats.rates_cover[OF cnt(4)] by simp
    moreover have "failureExecutionThreshold c \<le> ExecutionCount st"
      using rate assms(2,3) tot by (simp add: thresholds_ok_def word_le_nat_alt)
    ultimately show ?thesis using rate by (auto simp: half_open_exceeded_def)
  next
    case failures
    then have le: "failureThreshold c \<le> failureThresholdingCapacity c"
      "unat (failureThresholdingCapacity c) \<le> unat n"
      using assms(2,3) by (simp_all add: thresholds_ok_def word_le_nat_alt)
    then show ?thesis
      using failures tot by (auto simp: half_open_exceeded_def unat_sub_le word_less_nat_alt word_le_nat_alt)
  qed
qed

end

section \<open>Executions in flight during a half-open period\<close>

text \<open>
  The executions admitted by a half-open breaker that have not been recorded yet, when only executions
  admitted in this half-open period record a result.
\<close>

inductive in_flight :: "'b bitset_api \<Rightarrow> ('b, 'r, 'x) circuitBreaker \<Rightarrow> nat \<Rightarrow> bool" for B where
  half_opened: "cb_state cb = HalfOpen st (half_open_capacity (config cb)) \<Longrightarrow> in_flight B cb 0"
| permitted: "in_flight B cb k \<Longrightarrow> TryAcquirePermit B now cb = Inr (True, cb') \<Longrightarrow> in_flight B cb' (Suc k)"
| refused: "in_flight B cb k \<Longrightarrow> TryAcquirePermit B now cb = Inr (False, cb') \<Longrightarrow> in_flight B cb' k"
| recorded: "in_flight B cb (Suc k) \<Longrightarrow> cb_record B v exec now cb = Inr cb' \<Longrightarrow> IsHalfOpen cb'
     \<Longrightarrow> in_flight B cb' k"

definition permits_left :: "('b, 'r, 'x) circuitBreaker \<Rightarrow> nat \<Rightarrow> bool" where
  "permits_left cb k \<longleftrightarrow> (case cb_state cb of
       HalfOpen _ p \<Rightarrow> unat p + k = unat (half_open_capacity (config cb)) | _ \<Rightarrow> False)"

lemma half_open_record_permits:
  assumes "cb_state cb = HalfOpen st p" "cb_record B v exec now cb = Inr cb'" "IsHalfOpen cb'"
  shows "\<exists>st'. cb_state cb' = HalfOpen st' (p + 1) \<and> config cb' = config cb"
proof -
  obtain st' exec' where "checkThresholdAndReleasePermit B exec' now (cb\<lparr>cb_state := HalfOpen st' p\<rparr>) = Inr cb'"
    using assms by (auto simp: cb_record_def cb_recordSuccess_def cb_recordFailure_def go_bind_Inr_iff split: if_splits)
  then show ?thesis using assms(3)
    by (auto simp: checkThresholdAndReleasePermit_def halfOpen_checkThreshold_def transition_defs Let_def
        transitionTo_def go_bind_Inr_iff new_state IsHalfOpen_def cb_State_def split: prod.splits if_splits)
qed

lemma in_flight_permits: "in_flight B cb k \<Longrightarrow> permits_left cb k"
proof (induction rule: in_flight.induct)
  case (half_opened cb st)
  then show ?case by (simp add: permits_left_def)
next
  case (permitted cb k now cb')
  then show ?case
    by (auto simp: permits_left_def TryAcquirePermit_def halfOpen_tryAcquirePermit_def word_less_nat_alt
        unat_dec simp flip: add_Suc split: circuitState.splits if_splits)
next
  case (refused cb k now cb')
  then show ?case
    by (auto simp: permits_left_def TryAcquirePermit_def halfOpen_tryAcquirePermit_def
        split: circuitState.splits if_splits)
next
  case (recorded cb k v exec now cb')
  then obtain st p where p: "cb_state cb = HalfOpen st p" "unat p + Suc k = unat (half_open_capacity (config cb))"
    by (auto simp: permits_left_def split: circuitState.splits)
  then have "p < half_open_capacity (config cb)" by (simp add: word_less_nat_alt)
  with p show ?case
    using half_open_record_permits[OF p(1) recorded.hyps(2,3)] by (auto simp: permits_left_def unat_inc)
qed

context bitset_laws begin

lemma reachable_half_open:
  assumes "cfg_ok c"
  shows "\<exists>cb. cb_reachable B c cb \<and> config cb = c
     \<and> cb_state cb = HalfOpen (Counting (NewCountingStats B (half_open_capacity c))) (half_open_capacity c)"
proof -
  obtain cb where cb: "cb_Build B c = Inr cb" "config cb = c" using cb_Build_ok[OF assms] by blast
  have "cs_state (cb_state cb) = ClosedState" using cb(1) by (auto simp: cb_Build_def go_bind_Inr_iff new_state)
  with cb(2) obtain cb' where cb': "cb_step B OpHalfOpen 0 cb = Inr cb'" "config cb' = c"
      "cb_state cb' = HalfOpen (Counting (NewCountingStats B (half_open_capacity c))) (half_open_capacity c)"
    by (auto simp: cb_export_defs transition_defs transitionTo_def newHalfOpenState_def newStats_def Let_def)
  have "cb_reachable B c cb'"
    using cb_reachable.op[OF cb_reachable.built[OF cb(1)] _ _ cb'(1)] by (simp add: in_i64_def)
  with cb' show ?thesis by blast
qed

end

text \<open>The configuration of the examples below: two failures of four open, two successes of three close.\<close>

definition sample_config :: "(int, unit) cb_config" where
  "sample_config = OnStateChanged True (WithSuccessThresholdRatio 2 3 (WithFailureThresholdRatio 2 4 cb_NewBuilder))"

lemmas sample_config_defs = sample_config_def OnStateChanged_def WithSuccessThresholdRatio_def
  WithFailureThresholdRatio_def cb_NewBuilder_def

lemma sample_config_ok: "cfg_ok sample_config" "count_trial sample_config" "thresholds_ok sample_config"
    "half_open_capacity sample_config = 3" "trial_length sample_config = 3" "required_successes sample_config = 2"
  by (simp_all add: cfg_ok_def closed_capacity_def half_open_capacity_def count_trial_def thresholds_ok_def
      trial_length_def required_successes_def sample_config_defs)

section \<open>Properties\<close>

text \<open>
  C3. For a configuration with positive capacities and a thresholding period of zero or at least ten
  nanoseconds, whatever sequence of operations is called on a new breaker, the next operation returns
  without a panic, the configuration never changes, the executions a breaker reports are the sum of
  the successes and the failures it reports, and a half-open breaker counts at most its trial capacity.
\<close>

theorem cb_operations_safe:
  assumes "bitset_laws B" "cfg_ok c" "cb_reachable B c cb" "0 \<le> now" "in_i64 now"
  shows "(\<exists>cb'. cb_step B oper now cb = Inr cb' \<and> config cb' = c)
     \<and> cb_Executions cb = cb_Successes cb + cb_Failures cb
     \<and> (IsHalfOpen cb \<longrightarrow> cb_Executions cb \<le> half_open_capacity c)"
proof -
  have inv: "cb_inv B cb" "config cb = c"
    using bitset_laws.cb_reachable_inv[OF assms(1,3,2)] by auto
  have "cb_Executions cb \<le> half_open_capacity c" if "IsHalfOpen cb"
    using inv that by (cases "cb_state cb"; cases "state_stats (cb_state cb)")
      (auto simp: cb_inv_def state_ok_def cs_inv_def cb_Executions_def counting_ExecutionCount_def IsHalfOpen_def cb_State_def)
  moreover have "cb_Executions cb = cb_Successes cb + cb_Failures cb"
    using inv stats_count_sum by (auto simp: cb_inv_def state_ok_def cb_Executions_def cb_Successes_def cb_Failures_def)
  ultimately show ?thesis
    using bitset_laws.cb_step_ok[OF assms(1) inv(1) assms(4,5), of oper] inv(2) by auto
qed

theorem cb_operations_safe_witness:
  "\<exists>cb :: (bool list, int, unit) circuitBreaker. cb_Build list_bitset (WithFailureThresholdRatio 2 4 cb_NewBuilder) = Inr cb
     \<and> (\<exists>cb'. cb_step list_bitset (OpRecordResult 3 None) 7 cb = Inr cb')"
proof -
  let ?c = "WithFailureThresholdRatio 2 4 cb_NewBuilder :: (int, unit) cb_config"
  have ok: "cfg_ok ?c" by (simp add: cfg_ok_def closed_capacity_def half_open_capacity_def WithFailureThresholdRatio_def cb_NewBuilder_def)
  obtain cb :: "(bool list, int, unit) circuitBreaker" where cb: "cb_Build list_bitset ?c = Inr cb"
    using list_bits.cb_Build_ok[OF ok] by blast
  have "\<exists>cb'. cb_step list_bitset (OpRecordResult 3 None) 7 cb = Inr cb'"
    using cb_operations_safe[OF list_bits.bitset_laws_axioms ok cb_reachable.built[OF cb], of 7 "OpRecordResult 3 None"]
    by (auto simp: in_i64_def)
  with cb show ?thesis by blast
qed

text \<open>
  C1. A count based breaker with a failure threshold of \<open>k\<close> of the last \<open>n\<close> executions, new and
  given any sequence of results, is open exactly when at some point at least \<open>k\<close> of the last
  \<open>n\<close> results were failures, and otherwise still closed.
\<close>

theorem cb_opens_iff_threshold_met:
  fixes c :: "('r, 'x) cb_config"
  assumes "bitset_laws B" "0 < n" "0 < k" "count_based c" "valid_times rs"
  shows "\<exists>cb. go_bind (cb_Build B (WithFailureThresholdRatio k n c)) (\<lambda>cb. cb_record_all B cb rs) = Inr cb
     \<and> (IsOpen cb \<longleftrightarrow> (\<exists>m \<le> length rs. unat k \<le> count_list (drop (m - unat n) (take m (map snd rs))) False))
     \<and> (IsClosed cb \<longleftrightarrow> \<not> IsOpen cb)"
proof -
  let ?c = "WithFailureThresholdRatio k n c"
  have b: "count_based ?c" "failureThreshold ?c = k" "closed_capacity ?c = n" "failureThresholdingPeriod ?c = 0"
    using assms(4) by (simp_all add: count_based_def WithFailureThresholdRatio_def closed_capacity_def)
  define cb0 :: "('a, 'r, 'x) circuitBreaker" where
    "cb0 = \<lparr>config = ?c, cb_state = Closed (Counting (NewCountingStats B n)), listener_calls = []\<rparr>"
  have build: "cb_Build B ?c = Inr cb0"
    using b by (simp add: cb_Build_def newClosedState_def newStats_def cb0_def)
  have "0 < half_open_capacity ?c" using assms(2,4)
    by (simp add: half_open_capacity_def Let_def WithFailureThresholdRatio_def count_based_def word_neq_0_conv)
  then have "cfg_ok ?c" using b assms(2) by (simp add: cfg_ok_def)
  then have inv: "cb_inv B cb0" using bitset_laws.cb_Build_ok[OF assms(1)] build by fastforce
  obtain cb where "cb_record_all B cb0 rs = Inr cb"
      "if hits (unat k) (unat n) (map snd rs) then IsOpen cb else \<exists>st. cb_state cb = Closed st"
    using bitset_laws.closed_run[OF assms(1) inv _ assms(2) _ _ assms(5)] b assms(3)
    by (auto simp: cb0_def split: if_splits)
  then show ?thesis
    using build by (auto simp: hits_def IsOpen_def IsClosed_def cb_State_def split: if_splits)
qed

theorem cb_opens_iff_threshold_met_witness:
  "\<exists>cb. go_bind (cb_Build list_bitset (WithFailureThresholdRatio 2 3 (cb_NewBuilder :: (int, unit) cb_config)))
       (\<lambda>cb. cb_record_all list_bitset cb [(1, False), (2, True), (3, False), (4, True)]) = Inr cb \<and> IsOpen cb"
proof -
  let ?rs = "[(1, False), (2, True), (3, False), (4, True)] :: (int \<times> bool) list"
  have hit: "\<exists>m \<le> length ?rs. unat (2 :: uint) \<le> count_list (drop (m - unat (3 :: uint)) (take m (map snd ?rs))) False"
    by (rule exI[of _ 3]) simp
  have "count_based (cb_NewBuilder :: (int, unit) cb_config)" "valid_times ?rs"
    by (simp_all add: count_based_def cb_NewBuilder_def valid_times_def in_i64_def)
  from cb_opens_iff_threshold_met[OF list_bits.bitset_laws_axioms _ _ this, of 3 2] hit
  show ?thesis by auto
qed

text \<open>
  C2. A half-open trial that is decided by counts (a success threshold, or the failure threshold when
  none is configured) closes the circuit exactly when the required number of the trial's results are
  successes and opens it otherwise; it is never left undecided.
\<close>

theorem half_open_trial_decides:
  fixes c :: "('r, 'x) cb_config"
  assumes "bitset_laws B" "cb_reachable B c cb" "cfg_ok c" "count_trial c" "cb_state cb = HalfOpen st p"
    and "ExecutionCount st = 0" "length rs = trial_length c"
  shows "\<exists>cb'. half_open_trial B cb rs = Inr cb'
     \<and> (if required_successes c \<le> count_list (map snd rs) True then IsClosed cb' else IsOpen cb')"
proof -
  have inv: "cb_inv B cb" "config cb = c"
    using bitset_laws.cb_reachable_inv[OF assms(1,2,3)] by auto
  obtain cs where cs: "st = Counting cs" "cs_inv B cs" "bitset_Len B (cs_bitSet cs) = half_open_capacity c"
    using inv assms(5) by (cases st) (auto simp: cb_inv_def state_ok_def)
  have "cs_results B cs = []"
    using cs_results_length[OF cs(2)] assms(6) cs(1) by (simp add: counting_ExecutionCount_def)
  then have h: "holds_results B (half_open_capacity c) [] st" using cs by simp
  show ?thesis
    using bitset_laws.half_open_trial_run[OF assms(1) inv(1) assms(5) h] inv(2) assms(4,7)
      required_successes_bounds[OF assms(4)] by simp
qed

theorem half_open_trial_decides_witness:
  "\<exists>cb cb'. cb_reachable list_bitset sample_config cb
     \<and> half_open_trial list_bitset cb [(1, True), (2, False), (3, True)] = Inr cb' \<and> IsClosed cb'"
proof -
  obtain cb :: "(bool list, int, unit) circuitBreaker" where cb: "cb_reachable list_bitset sample_config cb"
    "cb_state cb = HalfOpen (Counting (NewCountingStats list_bitset 3)) 3"
    using list_bits.reachable_half_open[OF sample_config_ok(1)] sample_config_ok(4) by auto
  have "ExecutionCount (Counting (NewCountingStats list_bitset 3)) = 0"
    by (simp add: counting_ExecutionCount_def NewCountingStats_def)
  from half_open_trial_decides[OF list_bits.bitset_laws_axioms cb(1) sample_config_ok(1,2) cb(2) this,
      of "[(1, True), (2, False), (3, True)]"]
  show ?thesis using cb(1) sample_config_ok(5,6) by auto
qed

text \<open>
  C6. With consistent thresholds, of any of the three kinds, the result that makes a half-open trial
  as long as its capacity makes the breaker leave the half-open state.
\<close>

theorem half_open_capacity_reached:
  assumes "bitset_laws B" "cb_reachable B c cb" "cfg_ok c" "thresholds_ok c" "IsHalfOpen cb"
    and "unat (half_open_capacity c) \<le> unat (cb_Executions cb) + 1"
  shows "\<exists>cb'. cb_record B v exec now cb = Inr cb' \<and> \<not> IsHalfOpen cb'"
proof -
  have inv: "cb_inv B cb" "config cb = c"
    using bitset_laws.cb_reachable_inv[OF assms(1,2,3)] by auto
  obtain st p where s: "cb_state cb = HalfOpen st p"
    using assms(5) by (cases "cb_state cb") (auto simp: IsHalfOpen_def cb_State_def)
  then obtain cs where cs: "st = Counting cs" "cs_inv B cs" "bitset_Len B (cs_bitSet cs) = half_open_capacity c"
    using inv by (cases st) (auto simp: cb_inv_def state_ok_def)
  let ?n = "half_open_capacity c"
  define xs where "xs = cs_results B cs"
  have h: "holds_results B ?n xs st" using cs by (simp add: xs_def)
  obtain st' where st': "Stats_Record B v st now = Inr st'" "holds_results B ?n (push_bounded (unat ?n) xs v) st'"
    using bitset_laws.holds_results_record[OF assms(1) h] by blast
  have "length xs \<le> unat ?n" "unat ?n \<le> length xs + 1"
    using cs_results_length[OF cs(2)] cs assms(6) s
    by (auto simp: xs_def cs_inv_def cb_Executions_def counting_ExecutionCount_def word_le_nat_alt)
  moreover have pos: "0 < ?n" using assms(3) by (simp add: cfg_ok_def)
  ultimately have "unat ?n \<le> length (push_bounded (unat ?n) xs v)" by (auto simp: push_bounded_def)
  from bitset_laws.half_open_decides_step[OF assms(1) st'(2) refl assms(4) this pos]
  have dec: "fst (half_open_exceeded c st') \<or> snd (half_open_exceeded c st')" .
  have run: "cb_record B v exec now cb = checkThresholdAndReleasePermit B (if v then None else exec) now
      (cb\<lparr>cb_state := HalfOpen st' p\<rparr>)"
    using bitset_laws.cb_record_unfold[OF assms(1), of v cb now st' exec] s st'(1) by simp
  have "cb_inv B (cb\<lparr>cb_state := HalfOpen st' p\<rparr>)"
    using inv holds_results_counts(4,5)[OF st'(2)] by (simp add: cb_inv_def state_ok_def)
  from bitset_laws.transitionTo_ok[OF assms(1) this] show ?thesis
    unfolding run using dec inv(2)
    by (fastforce simp: checkThresholdAndReleasePermit_def halfOpen_checkThreshold_def transition_defs
        IsHalfOpen_def cb_State_def Let_def split: prod.splits)
qed

theorem half_open_capacity_reached_witness:
  "\<exists>cb cb'. cb_reachable list_bitset (WithSuccessThreshold 1 sample_config) cb \<and> IsHalfOpen cb
     \<and> cb_record list_bitset False None 5 cb = Inr cb' \<and> \<not> IsHalfOpen cb'"
proof -
  let ?c = "WithSuccessThreshold 1 sample_config"
  have ok: "cfg_ok ?c" "thresholds_ok ?c" "half_open_capacity ?c = 1"
    by (simp_all add: cfg_ok_def closed_capacity_def half_open_capacity_def thresholds_ok_def
        WithSuccessThreshold_def sample_config_defs)
  obtain cb :: "(bool list, int, unit) circuitBreaker" where cb: "cb_reachable list_bitset ?c cb"
    "cb_state cb = HalfOpen (Counting (NewCountingStats list_bitset 1)) 1"
    using list_bits.reachable_half_open[OF ok(1)] ok(3) by auto
  have h: "IsHalfOpen cb" using cb(2) by (simp add: IsHalfOpen_def cb_State_def)
  have "unat (half_open_capacity ?c) \<le> unat (cb_Executions cb) + 1" by (simp add: ok(3))
  from half_open_capacity_reached[OF list_bits.bitset_laws_axioms cb(1) ok(1,2) h this, of False None 5]
  show ?thesis using cb(1) h by blast
qed

text \<open>
  C7. While a half-open breaker only gets results of executions it admitted itself, the executions in
  flight never exceed the trial capacity, and it admits another one exactly when there are fewer.
\<close>

theorem half_open_in_flight_bound:
  assumes "in_flight B cb k"
  shows "k \<le> unat (half_open_capacity (config cb))
     \<and> (\<exists>cb'. TryAcquirePermit B now cb = Inr (k < unat (half_open_capacity (config cb)), cb'))"
  using in_flight_permits[OF assms]
  by (auto simp: permits_left_def TryAcquirePermit_def halfOpen_tryAcquirePermit_def word_less_nat_alt
      split: circuitState.splits)

theorem half_open_in_flight_bound_witness:
  "\<exists>cb cb'. cb_reachable list_bitset sample_config cb \<and> in_flight list_bitset cb 0
     \<and> TryAcquirePermit list_bitset 5 cb = Inr (True, cb')"
proof -
  obtain cb :: "(bool list, int, unit) circuitBreaker" where cb: "cb_reachable list_bitset sample_config cb"
    "config cb = sample_config" "cb_state cb = HalfOpen (Counting (NewCountingStats list_bitset 3)) 3"
    using list_bits.reachable_half_open[OF sample_config_ok(1)] sample_config_ok(4) by auto
  then have f: "in_flight list_bitset cb 0"
    by (intro in_flight.half_opened[of _ "Counting (NewCountingStats list_bitset 3)"]) (simp add: sample_config_ok)
  from half_open_in_flight_bound[OF f, of 5] show ?thesis using cb f by (auto simp: sample_config_ok)
qed

text \<open>
  An open breaker refuses permits without changing as long as its remaining delay is positive;
  once it is zero, the next request half-opens it with a new trial and, if the capacity is positive,
  is admitted as the trial's first execution.
\<close>

theorem open_delay_gates:
  assumes "cb_state cb = Open st start d" "0 \<le> start" "start \<le> now" "in_i64 now" "0 \<le> d" "in_i64 d"
  shows "(0 < RemainingDelay now cb \<longrightarrow> TryAcquirePermit B now cb = Inr (False, cb))
     \<and> (RemainingDelay now cb = 0 \<longrightarrow> (\<exists>cb'. TryAcquirePermit B now cb = Inr (0 < half_open_capacity (config cb), cb')
          \<and> cb_state cb' = HalfOpen (Counting (NewCountingStats B (half_open_capacity (config cb))))
              (half_open_capacity (config cb) - (if 0 < half_open_capacity (config cb) then 1 else 0))))"
proof -
  have i: "i64 (now - start) = now - start" "i64 (d - (now - start)) = d - (now - start)"
    using assms(2-6) by (simp_all add: i64_id in_i64_def)
  show ?thesis
    using assms(1) by (auto simp: RemainingDelay_def TryAcquirePermit_def i cb_halfOpen_def transitionTo_def
        newHalfOpenState_def newStats_def halfOpen_tryAcquirePermit_def Let_def)
qed

definition sample_open :: "(bool list, int, unit) circuitBreaker" where
  "sample_open = \<lparr>config = sample_config, cb_state = Open (Counting (NewCountingStats list_bitset 4)) 100 50,
     listener_calls = []\<rparr>"

theorem open_delay_gates_witness:
  "TryAcquirePermit list_bitset 120 sample_open = Inr (False, sample_open)
   \<and> (\<exists>cb'. TryAcquirePermit list_bitset 150 sample_open = Inr (True, cb')
        \<and> cb_state cb' = HalfOpen (Counting (NewCountingStats list_bitset 3)) 2)"
proof
  have s: "cb_state sample_open = Open (Counting (NewCountingStats list_bitset 4)) 100 50"
    "config sample_open = sample_config" by (simp_all add: sample_open_def)
  have "RemainingDelay 120 sample_open = 30" "RemainingDelay 150 sample_open = 0"
    by (simp_all add: RemainingDelay_def s i64_def)
  then show "TryAcquirePermit list_bitset 120 sample_open = Inr (False, sample_open)"
    "\<exists>cb'. TryAcquirePermit list_bitset 150 sample_open = Inr (True, cb')
        \<and> cb_state cb' = HalfOpen (Counting (NewCountingStats list_bitset 3)) 2"
    using open_delay_gates[OF s(1), of 120 list_bitset] open_delay_gates[OF s(1), of 150 list_bitset]
    by (auto simp: in_i64_def s(2) sample_config_ok)
qed

text \<open>
  With a state change listener registered, the events it was given from the creation of the
  breaker on form a path of genuine transitions from the closed state to the breaker's current state,
  whatever operations were called.
\<close>

theorem state_change_events_path:
  assumes "cb_reachable B c cb" "stateChangedListener (config cb)"
  shows "event_path ClosedState (state_changes cb) (cb_State cb)"
  using cb_reachable_log[OF assms(1)] assms(2) by (simp add: log_ok_def)

theorem state_change_events_path_witness:
  "\<exists>cb. cb_reachable list_bitset sample_config cb \<and> event_path ClosedState (state_changes cb) HalfOpenState"
proof -
  obtain cb :: "(bool list, int, unit) circuitBreaker" where cb: "cb_reachable list_bitset sample_config cb"
    "config cb = sample_config" "cb_state cb = HalfOpen (Counting (NewCountingStats list_bitset 3)) 3"
    using list_bits.reachable_half_open[OF sample_config_ok(1)] sample_config_ok(4) by auto
  from state_change_events_path[OF cb(1)] show ?thesis
    using cb by (auto simp: sample_config_defs cb_State_def)
qed

text \<open>A schedule of operations at given times, with the answers to its permit requests and the final state.\<close>

fun run_schedule :: "'b bitset_api \<Rightarrow> (nanotime \<times> ('r, 'x) cb_op) list \<Rightarrow> ('b, 'r, 'x) circuitBreaker
    \<Rightarrow> (bool list \<times> State) go" where
  "run_schedule B [] cb = Inr ([], cb_State cb)"
| "run_schedule B ((now, OpTryAcquirePermit) # ops) cb =
     go_bind (TryAcquirePermit B now cb) (\<lambda>(permitted, cb').
     go_bind (run_schedule B ops cb') (\<lambda>(ps, s). Inr (permitted # ps, s)))"
| "run_schedule B ((now, oper) # ops) cb = go_bind (cb_step B oper now cb) (run_schedule B ops)"

text \<open>
  A result of an execution that was admitted while the circuit was closed, recorded when the
  breaker is half-open, gives the half-open state an extra permit: with a success threshold of two
  (a trial capacity of two) a third trial execution is admitted while the first two are still running.
\<close>

theorem late_result_adds_permit:
  "go_bind (cb_Build list_bitset (cb_WithDelay 0 (WithSuccessThreshold 2 (cb_NewBuilder :: (int, unit) cb_config))))
     (run_schedule list_bitset
        [(1, OpTryAcquirePermit), (2, OpTryAcquirePermit), (3, OpRecordFailure None),
         (4, OpTryAcquirePermit), (5, OpRecordSuccess), (6, OpTryAcquirePermit), (7, OpTryAcquirePermit)])
   = Inr ([True, True, True, True, True], HalfOpenState)"
  by code_simp

text \<open>
  The failure rate is compared after rounding it to two decimals, so a breaker with a failure rate
  threshold of 67 percent over three executions opens at two failures of three, a rate below 67 percent.
\<close>

theorem failure_rate_rounded_up:
  "go_bind (WithFailureRateThreshold (67 / 100) 3 1000 (cb_NewBuilder :: (int, unit) cb_config)) (\<lambda>c.
     go_bind (cb_Build list_bitset c)
       (run_schedule list_bitset [(1, OpRecordFailure None), (2, OpRecordFailure None), (3, OpRecordSuccess)]))
   = Inr ([], OpenState)"
  by code_simp

end
