(* ===== verification/Priority.thy ===== *)
theory Priority
  imports Moving_Stats Execution_Stats
begin

text \<open>
  Package \<^verbatim>\<open>priority\<close> (src/priority/priority.go, src/priority/usage.go): priorities and their ranges of levels, the
  context values that carry them, the tracker of recent levels and the tracker of usage per user. The chain
  of values of a context is the list of its keys and values, the last one added first. \<^verbatim>\<open>rand.Intn\<close> is an argument, and so
  is the clock of the usage tracker; one reading of it serves an operation. An entry of the usage tracker and its element of the list \<^verbatim>\<open>lru\<close> are
  identified by the user. The order in which \<^verbatim>\<open>Calibrate\<close> ranges over the map of users is an argument.
\<close>

section \<open>Priorities and levels\<close>

type_synonym Priority = int

abbreviation (input) "VeryLow \<equiv> (0 :: Priority)"
abbreviation (input) "Low \<equiv> (1 :: Priority)"
abbreviation (input) "Medium \<equiv> (2 :: Priority)"
abbreviation (input) "High \<equiv> (3 :: Priority)"
abbreviation (input) "VeryHigh \<equiv> (4 :: Priority)"

definition totalLevels :: nat where
  "totalLevels = 500"

record levelRange =
  lr_lower :: int
  lr_upper :: int

definition priorityLevelRanges :: "Priority \<Rightarrow> levelRange option" where
  "priorityLevelRanges = map_of [(VeryLow, \<lparr>lr_lower = 0, lr_upper = 99\<rparr>), (Low, \<lparr>lr_lower = 100, lr_upper = 199\<rparr>),
     (Medium, \<lparr>lr_lower = 200, lr_upper = 299\<rparr>), (High, \<lparr>lr_lower = 300, lr_upper = 399\<rparr>), (VeryHigh, \<lparr>lr_lower = 400, lr_upper = 499\<rparr>)]"

text \<open>A Go map returns the zero value for a key that it does not have.\<close>

definition priority_levelRange :: "Priority \<Rightarrow> levelRange" where
  "priority_levelRange p = (case priorityLevelRanges p of None \<Rightarrow> \<lparr>lr_lower = 0, lr_upper = 0\<rparr> | Some r \<Rightarrow> r)"

definition MaxLevel :: "Priority \<Rightarrow> int" where
  "MaxLevel p = lr_upper (priority_levelRange p)"

definition MinLevel :: "Priority \<Rightarrow> int" where
  "MinLevel p = lr_lower (priority_levelRange p)"

definition RandomLevel :: "(int \<Rightarrow> int) \<Rightarrow> Priority \<Rightarrow> int" where
  "RandomLevel intn p = (let r = priority_levelRange p in intn (lr_upper r - lr_lower r + 1) + lr_lower r)"

section \<open>Values of a context\<close>

datatype ctx_key = Key int | ForeignKey nat

datatype ctx_any = PriorityAny Priority | IntAny int | StringAny string | ForeignAny nat

type_synonym ctx_values = "(ctx_key \<times> ctx_any) list"

definition PriorityKey :: ctx_key where "PriorityKey = Key 0"
definition LevelKey :: ctx_key where "LevelKey = Key 1"
definition UserKey :: ctx_key where "UserKey = Key 2"

definition WithValue :: "ctx_values \<Rightarrow> ctx_key \<Rightarrow> ctx_any \<Rightarrow> ctx_values" where
  "WithValue ctx k v = (k, v) # ctx"

definition ContextWithPriority :: "ctx_values \<Rightarrow> Priority \<Rightarrow> ctx_values" where
  "ContextWithPriority ctx p = WithValue ctx PriorityKey (PriorityAny p)"

definition AddTo :: "Priority \<Rightarrow> ctx_values \<Rightarrow> ctx_values" where
  "AddTo p ctx = ContextWithPriority ctx p"

definition ContextWithLevel :: "ctx_values \<Rightarrow> int \<Rightarrow> ctx_values" where
  "ContextWithLevel ctx level = WithValue ctx LevelKey (IntAny level)"

definition ContextWithUser :: "ctx_values \<Rightarrow> string \<Rightarrow> ctx_values" where
  "ContextWithUser ctx userID = WithValue ctx UserKey (StringAny userID)"

definition FromContext :: "ctx_values \<Rightarrow> Priority" where
  "FromContext ctx = (case map_of ctx PriorityKey of Some (PriorityAny p) \<Rightarrow> p | _ \<Rightarrow> - 1)"

definition LevelFromContext :: "(int \<Rightarrow> int) \<Rightarrow> ctx_values \<Rightarrow> int" where
  "LevelFromContext intn ctx =
     (case map_of ctx LevelKey of
        Some (IntAny level) \<Rightarrow> level
      | _ \<Rightarrow> (case map_of ctx PriorityKey of Some (PriorityAny p) \<Rightarrow> RandomLevel intn p | _ \<Rightarrow> - 1))"

definition UserFromContext :: "ctx_values \<Rightarrow> string" where
  "UserFromContext ctx = (case map_of ctx UserKey of Some (StringAny userID) \<Rightarrow> userID | _ \<Rightarrow> [])"

section \<open>The tracker of recent levels\<close>

record windowedLevelTracker =
  lt_window :: "int list"
  lt_levelCounts :: "int list"
  lt_head :: nat
  lt_filled :: bool

definition NewLevelTracker :: "int \<Rightarrow> windowedLevelTracker go" where
  "NewLevelTracker windowSize =
     go_bind (Assert (0 \<le> windowSize) ''makeslice: len out of range'') (\<lambda>_.
     Inr \<lparr>lt_window = replicate (nat windowSize) 0, lt_levelCounts = replicate totalLevels 0, lt_head = 0, lt_filled = False\<rparr>)"

text \<open>\<^verbatim>\<open>lt.levelCounts[level] += d\<close>.\<close>

definition add_count :: "int \<Rightarrow> int \<Rightarrow> windowedLevelTracker \<Rightarrow> windowedLevelTracker go" where
  "add_count level d lt =
     go_bind (slice_index (lt_levelCounts lt) level) (\<lambda>k.
     Inr (lt\<lparr>lt_levelCounts := (lt_levelCounts lt)[k := lt_levelCounts lt ! k + d]\<rparr>))"

definition RecordLevel :: "int \<Rightarrow> windowedLevelTracker \<Rightarrow> windowedLevelTracker go" where
  "RecordLevel level lt =
     go_bind (slice_index (lt_window lt) (int (lt_head lt))) (\<lambda>h.
     go_bind (if lt_filled lt then add_count (lt_window lt ! h) (- 1) lt else Inr lt) (\<lambda>lt.
     go_bind (add_count level 1 (lt\<lparr>lt_window := (lt_window lt)[h := level]\<rparr>)) (\<lambda>lt.
     Inr (if lt_head lt + 1 \<ge> length (lt_window lt) then lt\<lparr>lt_head := 0, lt_filled := True\<rparr>
          else lt\<lparr>lt_head := lt_head lt + 1\<rparr>))))"

text \<open>The loop of \<^verbatim>\<open>GetLevel\<close> from \<open>level\<close> on, over the counts that are left; 0 when it runs out of levels.\<close>

fun level_loop :: "int list \<Rightarrow> int \<Rightarrow> int \<Rightarrow> int \<Rightarrow> int" where
  "level_loop [] targetLevels countedLevels level = 0"
| "level_loop (c # cs) targetLevels countedLevels level =
     (if countedLevels + c \<ge> targetLevels then level else level_loop cs targetLevels (countedLevels + c) (level + 1))"

definition tracker_GetLevel :: "float64 \<Rightarrow> windowedLevelTracker \<Rightarrow> int" where
  "tracker_GetLevel quantile lt =
     (let currentSize = (if lt_filled lt then length (lt_window lt) else lt_head lt)
      in if currentSize > 0
         then level_loop (lt_levelCounts lt) (max 1 (float_to_int (math_Ceil (real currentSize * quantile)))) 0 0
         else 0)"

section \<open>Ranks in sorted lists\<close>

lemma sorted_filter_takeWhile:
  fixes ys :: "'a::linorder list"
  assumes "sorted ys"
  shows "filter (\<lambda>y. y < v) ys = takeWhile (\<lambda>y. y < v) ys" "filter (\<lambda>y. y \<le> v) ys = takeWhile (\<lambda>y. y \<le> v) ys"
proof -
  have tw: "filter P ys = takeWhile P ys" if down: "\<And>x y. P y \<Longrightarrow> x \<le> y \<Longrightarrow> P x" for P
    using assms
  proof (induction ys)
    case (Cons y ys)
    have "\<not> P x" if "\<not> P y" "x \<in> set ys" for x using Cons.prems that down[of x y] by auto
    then have "filter P ys = []" if "\<not> P y" using that by (simp add: filter_empty_conv)
    with Cons show ?case by auto
  qed simp
  show "filter (\<lambda>y. y < v) ys = takeWhile (\<lambda>y. y < v) ys" "filter (\<lambda>y. y \<le> v) ys = takeWhile (\<lambda>y. y \<le> v) ys"
    by (rule tw; simp)+
qed

lemma sort_nth_by_ranks:
  fixes xs :: "'a::linorder list"
  assumes "length (filter (\<lambda>x. x < v) xs) \<le> k" "k < length (filter (\<lambda>x. x \<le> v) xs)"
  shows "sort xs ! k = v"
proof -
  let ?ys = "sort xs" and ?lt = "takeWhile (\<lambda>y. y < v) (sort xs)" and ?le = "takeWhile (\<lambda>y. y \<le> v) (sort xs)"
  have len: "length (filter P (sort xs)) = length (filter P xs)" for P by (simp add: filter_sort)
  have r: "length ?lt \<le> k" "k < length ?le" using assms by (simp_all add: len flip: sorted_filter_takeWhile)
  then have "?ys ! k \<in> set ?le" by (metis nth_mem takeWhile_nth)
  then have up: "?ys ! k \<le> v" by (auto dest: set_takeWhileD)
  have k: "k < length ?ys" using r(2) length_takeWhile_le[of "\<lambda>y. y \<le> v" ?ys] by linarith
  then have "\<not> ?ys ! length ?lt < v" using r(1) by (intro nth_length_takeWhile) simp
  moreover have "?ys ! length ?lt \<le> ?ys ! k" using r(1) k by (intro sorted_nth_mono) simp_all
  ultimately show ?thesis using up by simp
qed

lemma length_filter_le_lt: "length (filter (\<lambda>x. x \<le> v) xs) = length (filter (\<lambda>x. x < v) xs) + count_list xs (v :: 'a::linorder)"
  by (induction xs) auto

section \<open>The level tracker keeps the last levels\<close>

definition level_counts :: "int list \<Rightarrow> int list" where
  "level_counts ls = map (\<lambda>l. int (count_list ls (int l))) [0..<totalLevels]"

definition tracker_inv :: "nat \<Rightarrow> int list \<Rightarrow> windowedLevelTracker \<Rightarrow> bool" where
  "tracker_inv n ls lt \<longleftrightarrow> ring n ls (lt_window lt) (lt_head lt) \<and> lt_filled lt = (n \<le> length ls)
     \<and> lt_levelCounts lt = level_counts (last_n n ls)"

abbreviation valid_level :: "int \<Rightarrow> bool" where
  "valid_level l \<equiv> 0 \<le> l \<and> l < int totalLevels"

lemma count_list_int: "int (count_list xs x) = (\<Sum>y \<leftarrow> xs. if y = x then 1 else 0)"
  by (induction xs) auto

lemma add_count_level_counts:
  assumes "valid_level l" "lt_levelCounts lt = level_counts ls" "\<And>i. int (count_list ls' i) = int (count_list ls i) + (if i = l then d else 0)"
  shows "add_count l d lt = Inr (lt\<lparr>lt_levelCounts := level_counts ls'\<rparr>)"
proof -
  have "(level_counts ls)[nat l := level_counts ls ! nat l + d] = level_counts ls'"
    using assms(1,3) by (intro nth_equalityI) (auto simp: level_counts_def nth_list_update nat_less_iff)
  then show ?thesis using assms(1,2) by (simp add: add_count_def slice_index_def level_counts_def)
qed

lemma RecordLevel_step:
  assumes n: "0 < n" and l: "valid_level l" and ls: "\<forall>l' \<in> set ls. valid_level l'" and inv: "tracker_inv n ls lt"
  shows "\<exists>lt'. RecordLevel l lt = Inr lt' \<and> tracker_inv n (ls @ [l]) lt'"
proof -
  have r: "ring n ls (lt_window lt) (lt_head lt)" and f: "lt_filled lt = (n \<le> length ls)"
    and c: "lt_levelCounts lt = level_counts (last_n n ls)" using inv by (auto simp: tracker_inv_def)
  have h: "lt_head lt < n" "length (lt_window lt) = n" "lt_head lt = length ls mod n" using r n by (auto simp: ring_def)
  note push = ring_push[OF r n, of l]
  define w where "w = (lt_window lt)[lt_head lt := l]"
  define ltw where "ltw cs = lt\<lparr>lt_window := w, lt_levelCounts := cs\<rparr>" for cs
  have wrap: "(if lt_head lt + 1 \<ge> n then lt'\<lparr>lt_head := 0, lt_filled := True\<rparr> else lt'\<lparr>lt_head := lt_head lt + 1\<rparr>)
      = lt'\<lparr>lt_head := Suc (lt_head lt) mod n, lt_filled := (n \<le> length (ls @ [l]))\<rparr>"
    if "lt_filled lt' = lt_filled lt" for lt' :: windowedLevelTracker
  proof (cases "Suc (lt_head lt) < n")
    case True
    then have "Suc (length ls) \<noteq> n" using h(3) by auto
    then show ?thesis using True that f by auto
  next
    case False
    then have "Suc (lt_head lt) = n" using h(1) by simp
    moreover from this have "n \<le> Suc (length ls)" using mod_less_eq_dividend[of "length ls" n] h(3) by linarith
    ultimately show ?thesis by simp
  qed
  have "\<exists>lt1. (if lt_filled lt then add_count (lt_window lt ! lt_head lt) (- 1) lt else Inr lt) = Inr lt1
      \<and> lt1 = lt\<lparr>lt_levelCounts := level_counts (if n \<le> length ls then tl (last_n n ls) else ls)\<rparr>"
  proof (cases "n \<le> length ls")
    case True
    then obtain old rest where xs: "last_n n ls = old # rest" using n by (cases "last_n n ls") (auto dest: arg_cong[where f = length])
    then have "old \<in> set ls" by (metis last_n_def in_set_dropD list.set_intros(1))
    then have "add_count old (- 1) lt = Inr (lt\<lparr>lt_levelCounts := level_counts rest\<rparr>)"
      using ls c xs by (intro add_count_level_counts[where ls = "last_n n ls"]) simp_all
    then show ?thesis using True f xs ring_oldest[OF r True n] by simp
  next
    case False
    then show ?thesis using f c by (cases lt) simp
  qed
  then obtain lt1 where lt1: "(if lt_filled lt then add_count (lt_window lt ! lt_head lt) (- 1) lt else Inr lt) = Inr lt1"
      "lt1 = lt\<lparr>lt_levelCounts := level_counts (if n \<le> length ls then tl (last_n n ls) else ls)\<rparr>" by blast
  have "last_n n (ls @ [l]) = (if n \<le> length ls then tl (last_n n ls) else ls) @ [l]"
    using last_n_snoc[of n ls l] n by (auto simp: Suc_le_eq)
  then have "add_count l 1 (lt1\<lparr>lt_window := w\<rparr>) = Inr (lt1\<lparr>lt_window := w, lt_levelCounts := level_counts (last_n n (ls @ [l]))\<rparr>)"
    using l lt1(2) by (intro add_count_level_counts[where ls = "if n \<le> length ls then tl (last_n n ls) else ls"]) auto
  then have "RecordLevel l lt = Inr (lt1\<lparr>lt_window := w, lt_levelCounts := level_counts (last_n n (ls @ [l])),
      lt_head := Suc (lt_head lt) mod n, lt_filled := (n \<le> length (ls @ [l]))\<rparr>)"
    using h(1,2) lt1 wrap[of "lt\<lparr>lt_window := w, lt_levelCounts := level_counts (last_n n (ls @ [l]))\<rparr>"]
    by (cases "lt_filled lt"; cases "n \<le> Suc (lt_head lt)") (simp_all add: RecordLevel_def w_def)
  then show ?thesis using push by (simp add: tracker_inv_def w_def)
qed

fun record_levels :: "windowedLevelTracker \<Rightarrow> int list \<Rightarrow> windowedLevelTracker go" where
  "record_levels lt [] = Inr lt"
| "record_levels lt (l # ls) = go_bind (RecordLevel l lt) (\<lambda>lt'. record_levels lt' ls)"

lemma record_levels_inv:
  assumes "0 < n" "\<forall>l \<in> set (ks @ ls). valid_level l" "tracker_inv n ks lt"
  shows "\<exists>lt'. record_levels lt ls = Inr lt' \<and> tracker_inv n (ks @ ls) lt'"
  using assms(2,3)
proof (induction ls arbitrary: ks lt)
  case (Cons l ls)
  obtain lt1 where "RecordLevel l lt = Inr lt1" "tracker_inv n (ks @ [l]) lt1"
    using RecordLevel_step[OF assms(1), of l ks lt] Cons.prems by auto
  with Cons.IH[of "ks @ [l]" lt1] Cons.prems show ?case by simp
qed simp

lemma NewLevelTracker_inv:
  assumes "0 < n"
  shows "\<exists>lt. NewLevelTracker (int n) = Inr lt \<and> tracker_inv n [] lt"
  using assms by (simp add: NewLevelTracker_def Assert_def tracker_inv_def ring_empty level_counts_def map_replicate_const)

text \<open>The loop finds the element of rank \<open>target\<close>.\<close>

lemma level_loop_rank:
  assumes "\<forall>x \<in> set xs. valid_level x" "1 \<le> t" "t \<le> int (length xs)" "l \<le> totalLevels"
    "int (length (filter (\<lambda>x. x < int l) xs)) < t"
  shows "level_loop (map (\<lambda>l. int (count_list xs (int l))) [l..<totalLevels]) t (int (length (filter (\<lambda>x. x < int l) xs))) (int l)
    = sort xs ! nat (t - 1)"
  using assms(4,5)
proof (induction "totalLevels - l" arbitrary: l)
  case 0
  then have "l = totalLevels" by simp
  then have "filter (\<lambda>x. x < int l) xs = xs" using assms(1) by (simp add: filter_id_conv)
  with 0 assms(3) show ?case by simp
next
  case (Suc k)
  then have l: "[l..<totalLevels] = l # [Suc l..<totalLevels]" by (simp add: upt_conv_Cons)
  have s: "(\<lambda>x. x < int (Suc l)) = (\<lambda>x. x \<le> int l)" by (auto simp: fun_eq_iff)
  have c: "int (length (filter (\<lambda>x. x < int l) xs)) + int (count_list xs (int l)) = int (length (filter (\<lambda>x. x < int (Suc l)) xs))"
    by (simp only: s length_filter_le_lt of_nat_add)
  show ?case
  proof (cases "t \<le> int (length (filter (\<lambda>x. x < int (Suc l)) xs))")
    case True
    then have "sort xs ! nat (t - 1) = int l"
      using Suc.prems(2) assms(2) unfolding s by (intro sort_nth_by_ranks) linarith+
    then show ?thesis using True l c by simp
  next
    case False
    then have "level_loop (map (\<lambda>l. int (count_list xs (int l))) [Suc l..<totalLevels]) t (int (length (filter (\<lambda>x. x < int (Suc l)) xs))) (int (Suc l))
        = sort xs ! nat (t - 1)" using Suc by (intro Suc.hyps) auto
    then show ?thesis using False l c by (simp add: add.commute)
  qed
qed

text \<open>The nearest rank of a quantile among \<open>n\<close> values, counted from 0.\<close>

definition nearest_rank :: "nat \<Rightarrow> real \<Rightarrow> nat" where
  "nearest_rank n q = nat (max 1 \<lceil>real n * q\<rceil> - 1)"

lemma GetLevel_rank:
  assumes "0 < n" "\<forall>l \<in> set ls. valid_level l" "tracker_inv n ls lt" "q \<le> 1" "ls \<noteq> []"
  shows "tracker_GetLevel q lt = sort (last_n n ls) ! nearest_rank (length (last_n n ls)) q"
proof -
  let ?xs = "last_n n ls"
  have size: "(if lt_filled lt then length (lt_window lt) else lt_head lt) = length ?xs"
    using assms(3) by (auto simp: tracker_inv_def ring_def)
  have pos: "0 < length ?xs" using assms(1,5) by simp
  have "real (length ?xs) * q \<le> real (length ?xs)" using assms(4) by (simp add: mult_left_le)
  then have up: "\<lceil>real (length ?xs) * q\<rceil> \<le> int (length ?xs)" by (simp add: ceiling_le_iff)
  define t where "t = max 1 \<lceil>real (length ?xs) * q\<rceil>"
  have t: "1 \<le> t" "t \<le> int (length ?xs)" using up pos unfolding t_def by linarith+
  have "\<forall>x \<in> set ?xs. valid_level x" using assms(2) by (auto simp: last_n_def dest: in_set_dropD)
  moreover from this have "filter (\<lambda>x. x < 0) ?xs = []" by (auto simp: filter_empty_conv)
  ultimately have "level_loop (level_counts ?xs) t 0 0 = sort ?xs ! nat (t - 1)"
    using level_loop_rank[of ?xs t 0] t by (simp add: level_counts_def)
  moreover have "float_to_int (math_Ceil x) = \<lceil>x\<rceil>" for x by (simp add: float_to_int_def math_Ceil_def)
  ultimately show ?thesis
    using size pos assms(3) unfolding tracker_GetLevel_def Let_def tracker_inv_def nearest_rank_def t_def[symmetric]
    by (simp add: t_def)
qed

section \<open>Usage windows\<close>

datatype usageStat = UsageStat (us_totalUsage: "64 word") (us_samples: uint32)

type_synonym usageWindow = "usageStat bucketed_window"

definition usage_AddFn :: "usageStat \<Rightarrow> usageStat \<Rightarrow> usageStat" where
  "usage_AddFn summary bucket =
     UsageStat (us_totalUsage summary + us_totalUsage bucket) (us_samples summary + us_samples bucket)"

definition usage_RemoveFn :: "usageStat \<Rightarrow> usageStat \<Rightarrow> usageStat" where
  "usage_RemoveFn summary bucket =
     UsageStat (us_totalUsage summary - us_totalUsage bucket) (us_samples summary - us_samples bucket)"

definition usage_ResetFn :: "usageStat \<Rightarrow> usageStat" where
  "usage_ResetFn s = UsageStat 0 0"

definition newUsageWindow :: "int \<Rightarrow> duration \<Rightarrow> usageWindow go" where
  "newUsageWindow bucketCount thresholdingPeriod =
     go_bind (Assert (0 \<le> bucketCount) ''makeslice: len out of range'') (\<lambda>_.
     go_bind (go_div thresholdingPeriod bucketCount) (\<lambda>nanos.
     Inr \<lparr>BucketCount = bucketCount, BucketNanos = nanos, AddFn = usage_AddFn, RemoveFn = usage_RemoveFn, ResetFn = usage_ResetFn,
          Buckets = replicate (nat bucketCount) (UsageStat 0 0), Summary = UsageStat 0 0, HeadTime = 0\<rparr>))"

definition window_RecordUsage :: "int \<Rightarrow> nanotime \<Rightarrow> usageWindow \<Rightarrow> usageWindow go" where
  "window_RecordUsage usage now w =
     go_bind (ExpireBuckets w now) (\<lambda>(w', j).
     let bucket = Buckets w' ! j; summary = Summary w' in
     Inr (w'\<lparr>Buckets := (Buckets w')[j := UsageStat (us_totalUsage bucket + word_of_int usage) (us_samples bucket + 1)],
             Summary := UsageStat (us_totalUsage summary + word_of_int usage) (us_samples summary + 1)\<rparr>))"

definition TotalUsage :: "usageWindow \<Rightarrow> int" where
  "TotalUsage w = sint (us_totalUsage (Summary w))"

definition Samples :: "usageWindow \<Rightarrow> uint32" where
  "Samples w = us_samples (Summary w)"

section \<open>The usage tracker\<close>

record userEntry =
  ue_window :: usageWindow
  ue_quantile :: float64
  ue_lastActive :: nanotime

record usageTracker =
  ut_newWindowFn :: "usageWindow go"
  ut_maxUsers :: int
  ut_expirationDuration :: duration
  ut_users :: "string \<rightharpoonup> userEntry"
  ut_lru :: "string list"

definition NewUsageTracker :: "duration \<Rightarrow> int \<Rightarrow> usageTracker" where
  "NewUsageTracker windowDuration maxUsers =
     \<lparr>ut_newWindowFn = newUsageWindow 30 windowDuration, ut_maxUsers = maxUsers,
      ut_expirationDuration = i64 (2 * windowDuration), ut_users = Map.empty, ut_lru = []\<rparr>"

definition evictOldest :: "usageTracker \<Rightarrow> usageTracker" where
  "evictOldest ut =
     (if ut_lru ut = [] then ut
      else ut\<lparr>ut_users := (ut_users ut)(last (ut_lru ut) := None), ut_lru := butlast (ut_lru ut)\<rparr>)"

text \<open>The entry of the user, a new one if there is none, with the user moved or added to the front of the list.\<close>

definition find_entry :: "string \<Rightarrow> usageTracker \<Rightarrow> (userEntry \<times> usageTracker) go" where
  "find_entry userID ut =
     (case ut_users ut userID of
        None \<Rightarrow>
          let ut = (if int (card (dom (ut_users ut))) \<ge> ut_maxUsers ut then evictOldest ut else ut) in
          go_bind (ut_newWindowFn ut) (\<lambda>window.
          Inr (\<lparr>ue_window = window, ue_quantile = - 1, ue_lastActive = 0\<rparr>, ut\<lparr>ut_lru := userID # ut_lru ut\<rparr>))
      | Some entry \<Rightarrow> Inr (entry, ut\<lparr>ut_lru := userID # remove1 userID (ut_lru ut)\<rparr>))"

definition usage_RecordUsage :: "string \<Rightarrow> int \<Rightarrow> nanotime \<Rightarrow> usageTracker \<Rightarrow> usageTracker go" where
  "usage_RecordUsage userID usage now ut =
     go_bind (find_entry userID ut) (\<lambda>(entry, ut).
     go_bind (window_RecordUsage usage now (ue_window entry)) (\<lambda>w.
     Inr (ut\<lparr>ut_users := (ut_users ut)(userID \<mapsto> entry\<lparr>ue_lastActive := now, ue_window := w\<rparr>)\<rparr>)))"

definition usage_GetLevel :: "string \<Rightarrow> Priority \<Rightarrow> usageTracker \<Rightarrow> int" where
  "usage_GetLevel userID p ut =
     (let lRange = priority_levelRange p in
      case ut_users ut userID of
        None \<Rightarrow> lr_upper lRange
      | Some entry \<Rightarrow>
          if TotalUsage (ue_window entry) = 0 then lr_upper lRange
          else if ue_quantile entry < 0 then lr_upper lRange
          else lr_lower lRange + float_to_int (99 * (1 - ue_quantile entry)))"

definition GetUsage :: "string \<Rightarrow> usageTracker \<Rightarrow> int \<times> bool" where
  "GetUsage userID ut = (case ut_users ut userID of None \<Rightarrow> (0, False) | Some entry \<Rightarrow> (TotalUsage (ue_window entry), True))"

text \<open>\<^verbatim>\<open>sort.Search\<close> of the standard library: binary search for the least index at which \<open>f\<close> holds.\<close>

function search_between :: "(nat \<Rightarrow> bool) \<Rightarrow> nat \<Rightarrow> nat \<Rightarrow> nat" where
  "search_between f i j =
     (if i < j then let h = (i + j) div 2 in if \<not> f h then search_between f (h + 1) j else search_between f i h else i)"
  by auto
termination by (relation "measure (\<lambda>(f, i, j). j - i)") auto

declare search_between.simps [simp del]

definition sort_Search :: "nat \<Rightarrow> (nat \<Rightarrow> bool) \<Rightarrow> nat" where
  "sort_Search n f = search_between f 0 n"

definition computeQuantile :: "int \<Rightarrow> int list \<Rightarrow> float64" where
  "computeQuantile usage sortedUsages =
     (if length sortedUsages = 0 then 0
      else let index = sort_Search (length sortedUsages) (\<lambda>i. sortedUsages ! i \<ge> usage)
           in Round (real index / real (length sortedUsages)))"

text \<open>The first loop of \<^verbatim>\<open>Calibrate\<close>, over the users in the given order.\<close>

fun calibrate_users :: "nanotime \<Rightarrow> nanotime \<Rightarrow> string list \<Rightarrow> usageTracker \<Rightarrow> int list \<Rightarrow> (int list \<times> usageTracker) go" where
  "calibrate_users now cleanupThreshold [] ut usages = Inr (usages, ut)"
| "calibrate_users now cleanupThreshold (userID # order) ut usages =
     (case ut_users ut userID of
        None \<Rightarrow> calibrate_users now cleanupThreshold order ut usages
      | Some entry \<Rightarrow>
          go_bind (ExpireBuckets (ue_window entry) now) (\<lambda>(w, _).
          let ut' = ut\<lparr>ut_users := (ut_users ut)(userID \<mapsto> entry\<lparr>ue_window := w\<rparr>)\<rparr> in
          if TotalUsage w > 0 then calibrate_users now cleanupThreshold order ut' (usages @ [TotalUsage w])
          else if ue_lastActive entry < cleanupThreshold
          then calibrate_users now cleanupThreshold order
                 (ut'\<lparr>ut_users := (ut_users ut')(userID := None), ut_lru := remove1 userID (ut_lru ut')\<rparr>) usages
          else calibrate_users now cleanupThreshold order ut' usages))"

definition set_quantile :: "int list \<Rightarrow> userEntry \<Rightarrow> userEntry" where
  "set_quantile usages entry =
     (let usage = TotalUsage (ue_window entry)
      in entry\<lparr>ue_quantile := if usage > 0 then computeQuantile usage usages else - 1\<rparr>)"

definition usage_Calibrate :: "nanotime \<Rightarrow> string list \<Rightarrow> usageTracker \<Rightarrow> usageTracker go" where
  "usage_Calibrate now order ut =
     go_bind (calibrate_users now (now + i64 (- ut_expirationDuration ut)) order ut []) (\<lambda>(usages, ut').
     Inr (ut'\<lparr>ut_users := \<lambda>userID. map_option (set_quantile (sort usages)) (ut_users ut' userID)\<rparr>))"

section \<open>Reachable usage trackers\<close>

instantiation usageStat :: ab_group_add
begin
definition zero_usageStat :: usageStat where
  "0 = UsageStat 0 0"
definition plus_usageStat :: "usageStat \<Rightarrow> usageStat \<Rightarrow> usageStat" where
  "a + b = UsageStat (us_totalUsage a + us_totalUsage b) (us_samples a + us_samples b)"
definition minus_usageStat :: "usageStat \<Rightarrow> usageStat \<Rightarrow> usageStat" where
  "a - b = UsageStat (us_totalUsage a - us_totalUsage b) (us_samples a - us_samples b)"
definition uminus_usageStat :: "usageStat \<Rightarrow> usageStat" where
  "- a = UsageStat (- us_totalUsage a) (- us_samples a)"
instance
  by standard (auto simp: zero_usageStat_def plus_usageStat_def minus_usageStat_def uminus_usageStat_def usageStat.expand)
end

lemmas usageStat_group = zero_usageStat_def plus_usageStat_def minus_usageStat_def uminus_usageStat_def

interpretation usage: bucket_fns usage_AddFn usage_RemoveFn usage_ResetFn
  by unfold_locales (simp_all add: usageStat_group usage_AddFn_def usage_RemoveFn_def usage_ResetFn_def)

text \<open>Trackers made by a window duration and a maximum, after operations at times that do not run backwards.\<close>

inductive usage_run :: "duration \<Rightarrow> int \<Rightarrow> nanotime \<Rightarrow> usageTracker \<Rightarrow> bool" for d m where
  "usage_run d m 0 (NewUsageTracker d m)"
| "usage_run d m now ut \<Longrightarrow> now \<le> t \<Longrightarrow> in_i64 t \<Longrightarrow> usage_RecordUsage userID n t ut = Inr ut' \<Longrightarrow> usage_run d m t ut'"
| "usage_run d m now ut \<Longrightarrow> now \<le> t \<Longrightarrow> in_i64 t \<Longrightarrow> distinct order \<Longrightarrow> set order = dom (ut_users ut)
     \<Longrightarrow> usage_Calibrate t order ut = Inr ut' \<Longrightarrow> usage_run d m t ut'"

definition last_active :: "usageTracker \<Rightarrow> string \<Rightarrow> nanotime" where
  "last_active ut userID = (case ut_users ut userID of None \<Rightarrow> 0 | Some entry \<Rightarrow> ue_lastActive entry)"

definition usage_inv :: "duration \<Rightarrow> int \<Rightarrow> nanotime \<Rightarrow> usageTracker \<Rightarrow> bool" where
  "usage_inv d m now ut \<longleftrightarrow> ut_newWindowFn ut = newUsageWindow 30 d \<and> ut_maxUsers ut = m
     \<and> set (ut_lru ut) = dom (ut_users ut) \<and> distinct (ut_lru ut) \<and> int (length (ut_lru ut)) \<le> max 1 m
     \<and> sorted_wrt (\<lambda>u v. last_active ut v \<le> last_active ut u) (ut_lru ut)
     \<and> (\<forall>entry \<in> ran (ut_users ut). usage.window_inv (ue_window entry) \<and> ue_lastActive entry \<le> now)"

lemma newUsageWindow_inv:
  assumes "30 \<le> d" "in_i64 d"
  shows "\<exists>w. newUsageWindow 30 d = Inr w \<and> usage.window_inv w"
proof -
  have "0 < d div 30" "d div 30 \<le> d" using assms(1) int_div_le[of d 30] by auto
  then have "in_i64 (d div 30)" using assms by (auto simp: in_i64_def)
  then have "go_div d 30 = Inr (d div 30)" using assms by (simp add: go_div_def go_quot_nonneg i64_id)
  moreover have "sum_list (replicate n (UsageStat 0 0)) = UsageStat 0 0" for n
    using sum_list_replicate_zero[where ?'a = usageStat] by (simp add: zero_usageStat_def)
  ultimately show ?thesis
    using \<open>0 < d div 30\<close> by (simp add: newUsageWindow_def Assert_def usage.window_inv_def window_shape_def in_i64_def)
qed

lemma window_RecordUsage_inv:
  assumes w: "usage.window_inv w" and now: "0 \<le> now" "in_i64 now"
  shows "\<exists>w'. window_RecordUsage n now w = Inr w' \<and> usage.window_inv w'"
proof -
  obtain w1 where w1: "ExpireBuckets w now = Inr (w1, nat (HeadTime w1 mod BucketCount w1))" "usage.window_inv w1"
    using usage.ExpireBuckets_slides[OF w now] by force
  have plus: "UsageStat (us_totalUsage b + x) (us_samples b + y) = b + UsageStat x y" for b x y
    by (simp add: plus_usageStat_def)
  show ?thesis
    using w1 usage.head_bucket_add(1)[OF w1(2) refl, of "UsageStat (word_of_int n) 1"] by (simp add: window_RecordUsage_def Let_def plus)
qed

lemma sorted_wrt_remove:
  assumes "sorted_wrt P xs" "distinct xs"
  shows "sorted_wrt P (remove1 x xs)"
  using assms by (simp add: distinct_remove1_removeAll removeAll_filter_not_eq sorted_wrt_filter)

lemma last_active_upd [simp]:
  "last_active (ut\<lparr>ut_users := (ut_users ut')(u \<mapsto> e)\<rparr>) = (last_active ut')(u := ue_lastActive e)"
  by (auto simp: last_active_def fun_eq_iff)

lemma usage_inv_entry: "usage_inv d m now ut \<Longrightarrow> ut_users ut u = Some e \<Longrightarrow> usage.window_inv (ue_window e) \<and> ue_lastActive e \<le> now"
  by (auto simp: usage_inv_def ran_def)

lemma usage_inv_last_active: "usage_inv d m now ut \<Longrightarrow> u \<in> set (ut_lru ut) \<Longrightarrow> last_active ut u \<le> now"
  by (auto simp: usage_inv_def ran_def last_active_def split: option.splits)

text \<open>Removing a user, and replacing a window.\<close>

lemma usage_inv_remove:
  assumes "usage_inv d m now ut"
  shows "usage_inv d m now (ut\<lparr>ut_users := (ut_users ut)(u := None), ut_lru := remove1 u (ut_lru ut)\<rparr>)"
proof -
  let ?ut = "ut\<lparr>ut_users := (ut_users ut)(u := None), ut_lru := remove1 u (ut_lru ut)\<rparr>"
  have d: "distinct (ut_lru ut)" "sorted_wrt (\<lambda>u v. last_active ut v \<le> last_active ut u) (ut_lru ut)" using assms by (auto simp: usage_inv_def)
  have "sorted_wrt (\<lambda>u v. last_active ?ut v \<le> last_active ?ut u) (remove1 u (ut_lru ut))"
    by (rule sorted_wrt_mono_rel[OF _ sorted_wrt_remove[OF d(2,1)]]) (use d(1) in \<open>auto simp: last_active_def\<close>)
  moreover have "ran ((ut_users ut)(u := None)) \<subseteq> ran (ut_users ut)" by (auto simp: ran_def)
  moreover have "length (remove1 u (ut_lru ut)) \<le> length (ut_lru ut)" by (simp add: length_remove1)
  ultimately show ?thesis using assms d(1) by (auto simp: usage_inv_def)
qed

lemma usage_inv_window:
  assumes "usage_inv d m now ut" "ut_users ut u = Some e" "usage.window_inv w" "ue_lastActive e' = ue_lastActive e" "ue_window e' = w"
  shows "usage_inv d m now (ut\<lparr>ut_users := (ut_users ut)(u \<mapsto> e')\<rparr>)"
proof -
  have "last_active ut u = ue_lastActive e" using assms(2) by (simp add: last_active_def)
  then have "last_active (ut\<lparr>ut_users := (ut_users ut)(u \<mapsto> e')\<rparr>) = last_active ut" using assms(4) by (simp add: fun_upd_idem)
  then show ?thesis
    using assms usage_inv_entry[OF assms(1,2)] by (auto simp: usage_inv_def ran_def)
qed

lemma evictOldest_inv:
  assumes "usage_inv d m now ut"
  shows "usage_inv d m now (evictOldest ut)" "int (length (ut_lru (evictOldest ut))) \<le> max 1 m - 1"
    "dom (ut_users (evictOldest ut)) = dom (ut_users ut) - (if ut_lru ut = [] then {} else {last (ut_lru ut)})"
proof -
  have r: "remove1 (last (ut_lru ut)) (ut_lru ut) = butlast (ut_lru ut)" if "ut_lru ut \<noteq> []"
  proof -
    have "distinct (butlast (ut_lru ut) @ [last (ut_lru ut)])" using assms that by (simp add: usage_inv_def)
    then have "last (ut_lru ut) \<notin> set (butlast (ut_lru ut))" by simp
    then show ?thesis by (metis append_butlast_last_id remove1_append remove1.simps(2) self_append_conv that remove1.simps(1))
  qed
  show "usage_inv d m now (evictOldest ut)"
    using assms usage_inv_remove[OF assms, of "last (ut_lru ut)"] r by (auto simp: evictOldest_def)
  show "int (length (ut_lru (evictOldest ut))) \<le> max 1 m - 1"
    using assms by (cases "ut_lru ut") (auto simp: usage_inv_def evictOldest_def)
  show "dom (ut_users (evictOldest ut)) = dom (ut_users ut) - (if ut_lru ut = [] then {} else {last (ut_lru ut)})"
    by (auto simp: evictOldest_def)
qed

text \<open>Adding a user at the front whose last activity is the newest.\<close>

lemma usage_inv_front:
  assumes inv: "usage_inv d m now ut" and t: "now \<le> t" and len: "int (length (remove1 u (ut_lru ut))) \<le> max 1 m - 1"
    and w: "usage.window_inv (ue_window e)" "ue_lastActive e = t"
  shows "usage_inv d m t (ut\<lparr>ut_lru := u # remove1 u (ut_lru ut), ut_users := (ut_users ut)(u \<mapsto> e)\<rparr>)"
proof -
  let ?lru = "remove1 u (ut_lru ut)" and ?la = "(last_active ut)(u := t)"
  have d: "distinct (ut_lru ut)" "sorted_wrt (\<lambda>u v. last_active ut v \<le> last_active ut u) (ut_lru ut)" "set (ut_lru ut) = dom (ut_users ut)"
    using inv by (auto simp: usage_inv_def)
  have u: "u \<notin> set ?lru" using d(1) by simp
  have "sorted_wrt (\<lambda>u v. ?la v \<le> ?la u) ?lru"
    by (rule sorted_wrt_mono_rel[OF _ sorted_wrt_remove[OF d(2,1)]]) (use u in auto)
  moreover have "\<forall>v \<in> set ?lru. ?la v \<le> ?la u"
    using u t usage_inv_last_active[OF inv] set_remove1_subset[of u "ut_lru ut"] by (auto intro: order_trans)
  ultimately have "sorted_wrt (\<lambda>u v. ?la v \<le> ?la u) (u # ?lru)" by auto
  moreover have "\<forall>entry \<in> ran ((ut_users ut)(u \<mapsto> e)). usage.window_inv (ue_window entry) \<and> ue_lastActive entry \<le> t"
  proof -
    have "ran ((ut_users ut)(u \<mapsto> e)) \<subseteq> insert e (ran (ut_users ut))" by (auto simp: ran_def split: if_splits)
    moreover have "\<forall>entry \<in> ran (ut_users ut). usage.window_inv (ue_window entry) \<and> ue_lastActive entry \<le> now" using inv by (simp add: usage_inv_def)
    ultimately show ?thesis using t w by (auto intro: order_trans)
  qed
  moreover have "last_active (ut\<lparr>ut_lru := u # ?lru, ut_users := (ut_users ut)(u \<mapsto> e)\<rparr>) = ?la"
    using w(2) by (auto simp: last_active_def fun_eq_iff)
  moreover have "set (u # ?lru) = dom ((ut_users ut)(u \<mapsto> e))" "distinct (u # ?lru)" using d by auto
  ultimately show ?thesis using inv len unfolding usage_inv_def by simp
qed

text \<open>The users after recording a usage: a new user takes the place of the one with the oldest activity when the tracker is full.\<close>

definition evicted :: "string \<Rightarrow> usageTracker \<Rightarrow> string set" where
  "evicted u ut = (if u \<in> dom (ut_users ut) \<or> int (card (dom (ut_users ut))) < ut_maxUsers ut \<or> ut_lru ut = [] then {} else {last (ut_lru ut)})"

lemma RecordUsage_inv:
  assumes inv: "usage_inv d m now ut" and t: "now \<le> t" "0 \<le> t" "in_i64 t" and d: "30 \<le> d" "in_i64 d"
  shows "\<exists>ut'. usage_RecordUsage u n t ut = Inr ut' \<and> usage_inv d m t ut' \<and> dom (ut_users ut') = insert u (dom (ut_users ut) - evicted u ut)"
proof (cases "ut_users ut u")
  case (Some e)
  then have u: "u \<in> set (ut_lru ut)" using inv by (auto simp: usage_inv_def)
  obtain w where w: "window_RecordUsage n t (ue_window e) = Inr w" "usage.window_inv w"
    using window_RecordUsage_inv[of "ue_window e" t n] usage_inv_entry[OF inv Some] t by auto
  have "int (length (remove1 u (ut_lru ut))) \<le> max 1 m - 1"
  proof -
    have "int (length (ut_lru ut)) \<le> max 1 m" using inv by (simp add: usage_inv_def)
    moreover have "Suc (length (remove1 u (ut_lru ut))) = length (ut_lru ut)" using u length_pos_if_in_set[OF u] by (simp add: length_remove1)
    ultimately show ?thesis by linarith
  qed
  from usage_inv_front[OF inv t(1) this, of "e\<lparr>ue_lastActive := t, ue_window := w\<rparr>"] w Some show ?thesis
    by (auto simp: usage_RecordUsage_def find_entry_def evicted_def)
next
  case None
  define ut1 where "ut1 = (if int (card (dom (ut_users ut))) \<ge> ut_maxUsers ut then evictOldest ut else ut)"
  have ut1: "usage_inv d m now ut1" unfolding ut1_def using inv evictOldest_inv(1)[OF inv] by simp
  have "card (dom (ut_users ut)) = length (ut_lru ut)" using inv by (metis distinct_card usage_inv_def)
  then have len: "int (length (ut_lru ut1)) \<le> max 1 m - 1"
    using inv evictOldest_inv(2)[OF inv] by (auto simp: ut1_def usage_inv_def)
  have dom: "dom (ut_users ut1) = dom (ut_users ut) - evicted u ut" 
    using None evictOldest_inv(3)[OF inv] by (auto simp: ut1_def evicted_def)
  then have "u \<notin> set (ut_lru ut1)" using None ut1 by (auto simp: usage_inv_def)
  then have r: "remove1 u (ut_lru ut1) = ut_lru ut1" by (simp add: remove1_idem)
  obtain w0 where w0: "newUsageWindow 30 d = Inr w0" "usage.window_inv w0" using newUsageWindow_inv[OF d] by blast
  obtain w where w: "window_RecordUsage n t w0 = Inr w" "usage.window_inv w" using window_RecordUsage_inv[OF w0(2) t(2,3)] by blast
  have nw: "ut_newWindowFn ut1 = Inr w0" using ut1 w0 by (simp add: usage_inv_def)
  have "usage_RecordUsage u n t ut = Inr (ut1\<lparr>ut_lru := u # remove1 u (ut_lru ut1),
      ut_users := (ut_users ut1)(u \<mapsto> \<lparr>ue_window = w, ue_quantile = - 1, ue_lastActive = t\<rparr>)\<rparr>)"
    using None nw w r by (simp add: usage_RecordUsage_def find_entry_def Let_def flip: ut1_def)
  moreover have "usage_inv d m t (ut1\<lparr>ut_lru := u # remove1 u (ut_lru ut1),
      ut_users := (ut_users ut1)(u \<mapsto> \<lparr>ue_window = w, ue_quantile = - 1, ue_lastActive = t\<rparr>)\<rparr>)"
    by (rule usage_inv_front[OF ut1 t(1)]) (use len r w in simp_all)
  ultimately show ?thesis using dom by simp
qed

text \<open>The first loop of \<^verbatim>\<open>Calibrate\<close> collects the positive usages of the users it keeps.\<close>

abbreviation usage_of :: "usageTracker \<Rightarrow> string \<Rightarrow> int" where
  "usage_of ut u \<equiv> fst (GetUsage u ut)"

lemma calibrate_users_spec:
  assumes "usage_inv d m now ut" "distinct order" "0 \<le> t" "in_i64 t"
  shows "\<exists>ut'. calibrate_users t th order ut us = Inr (us @ map (usage_of ut') (filter (\<lambda>u. 0 < usage_of ut' u) order), ut')
     \<and> usage_inv d m now ut' \<and> (\<forall>u. u \<notin> set order \<longrightarrow> ut_users ut' u = ut_users ut u) \<and> dom (ut_users ut') \<subseteq> dom (ut_users ut)"
  using assms(1,2)
proof (induction order arbitrary: ut us)
  case (Cons u order)
  note IH = Cons.IH[OF _ distinct.simps(2)[THEN iffD1, OF Cons.prems(2), THEN conjunct2]]
  have fresh: "u \<notin> set order" using Cons.prems(2) by simp
  show ?case
  proof (cases "ut_users ut u")
    case None
    obtain ut' where "calibrate_users t th order ut us = Inr (us @ map (usage_of ut') (filter (\<lambda>u. 0 < usage_of ut' u) order), ut')"
       "usage_inv d m now ut'" "\<forall>u. u \<notin> set order \<longrightarrow> ut_users ut' u = ut_users ut u" "dom (ut_users ut') \<subseteq> dom (ut_users ut)"
      using IH[OF Cons.prems(1)] by blast
    then show ?thesis using None fresh by (auto simp: GetUsage_def)
  next
    case (Some e)
    obtain w j where w: "ExpireBuckets (ue_window e) t = Inr (w, j)" "usage.window_inv w"
      using usage.ExpireBuckets_slides[OF _ assms(3,4)] usage_inv_entry[OF Cons.prems(1) Some] by blast
    define ut1 where "ut1 = ut\<lparr>ut_users := (ut_users ut)(u \<mapsto> e\<lparr>ue_window := w\<rparr>)\<rparr>"
    define ut2 where "ut2 = (if TotalUsage w > 0 \<or> \<not> ue_lastActive e < th then ut1
       else ut1\<lparr>ut_users := (ut_users ut1)(u := None), ut_lru := remove1 u (ut_lru ut1)\<rparr>)"
    define us2 where "us2 = us @ (if TotalUsage w > 0 then [TotalUsage w] else [])"
    have run: "calibrate_users t th (u # order) ut us = calibrate_users t th order ut2 us2"
      using w Some by (simp add: ut1_def ut2_def us2_def)
    have "usage_inv d m now ut1" unfolding ut1_def by (rule usage_inv_window[OF Cons.prems(1) Some w(2)]) simp_all
    then have "usage_inv d m now ut2" using usage_inv_remove[of d m now ut1 u] by (simp add: ut2_def)
    then obtain ut' where ut': "calibrate_users t th order ut2 us2 = Inr (us2 @ map (usage_of ut') (filter (\<lambda>u. 0 < usage_of ut' u) order), ut')"
       "usage_inv d m now ut'" "\<forall>u. u \<notin> set order \<longrightarrow> ut_users ut' u = ut_users ut2 u" "dom (ut_users ut') \<subseteq> dom (ut_users ut2)"
      using IH by blast
    have "usage_of ut' u = (if TotalUsage w > 0 \<or> \<not> ue_lastActive e < th then TotalUsage w else 0)"
      using ut'(3) fresh by (simp add: GetUsage_def ut2_def ut1_def)
    then have "us2 @ map (usage_of ut') (filter (\<lambda>u. 0 < usage_of ut' u) order) = us @ map (usage_of ut') (filter (\<lambda>u. 0 < usage_of ut' u) (u # order))"
      by (auto simp: us2_def)
    moreover have "dom (ut_users ut2) \<subseteq> dom (ut_users ut)" "\<And>v. v \<noteq> u \<Longrightarrow> ut_users ut2 v = ut_users ut v" using Some by (auto simp: ut2_def ut1_def)
    ultimately show ?thesis using run ut' by auto
  qed
qed simp

lemma search_between_spec:
  assumes "i \<le> k" "k \<le> j" "\<And>a. a < j \<Longrightarrow> f a \<longleftrightarrow> k \<le> a"
  shows "search_between f i j = k"
  using assms
proof (induction f i j rule: search_between.induct)
  case (1 f i j)
  show ?case
  proof (cases "i < j")
    case True
    let ?h = "(i + j) div 2"
    have "f ?h \<longleftrightarrow> k \<le> ?h" using 1(5) True by simp
    then show ?thesis using 1 True by (subst search_between.simps) (auto simp: Let_def)
  next
    case False
    then show ?thesis using 1 by (subst search_between.simps) simp
  qed
qed

lemma sort_Search_sorted:
  assumes "sorted ys"
  shows "sort_Search (length ys) (\<lambda>i. ys ! i \<ge> v) = length (filter (\<lambda>y. y < v) ys)"
proof -
  let ?k = "length (takeWhile (\<lambda>y. y < v) ys)"
  have "(v \<le> ys ! a) = (?k \<le> a)" if "a < length ys" for a
  proof
    assume "v \<le> ys ! a"
    then show "?k \<le> a" by (metis leD not_le_imp_less nth_mem set_takeWhileD takeWhile_nth)
  next
    assume k: "?k \<le> a"
    then have "\<not> ys ! ?k < v" using that by (intro nth_length_takeWhile) simp
    then show "v \<le> ys ! a" using sorted_nth_mono[OF assms k that] by simp
  qed
  then show ?thesis
    unfolding sort_Search_def sorted_filter_takeWhile[OF assms] by (intro search_between_spec) (simp_all add: length_takeWhile_le)
qed

lemma usage_of_Calibrated:
  "usage_of (ut\<lparr>ut_users := \<lambda>u. map_option (set_quantile us) (ut_users ut u)\<rparr>) = usage_of ut"
  by (auto simp: fun_eq_iff GetUsage_def set_quantile_def Let_def split: option.splits)

lemma Calibrate_spec:
  assumes "usage_inv d m now ut" "distinct order" "0 \<le> t" "in_i64 t" "now \<le> t"
  shows "\<exists>ut'. usage_Calibrate t order ut = Inr ut' \<and> usage_inv d m t ut' \<and> dom (ut_users ut') \<subseteq> dom (ut_users ut)
    \<and> (\<forall>u e. ut_users ut' u = Some e \<longrightarrow> ue_quantile e
        = (if 0 < usage_of ut' u then computeQuantile (usage_of ut' u) (sort (map (usage_of ut') (filter (\<lambda>u. 0 < usage_of ut' u) order))) else - 1))"
proof -
  obtain ut1 where ut1: "calibrate_users t (t + i64 (- ut_expirationDuration ut)) order ut []
        = Inr (map (usage_of ut1) (filter (\<lambda>u. 0 < usage_of ut1 u) order), ut1)"
      "usage_inv d m now ut1" "dom (ut_users ut1) \<subseteq> dom (ut_users ut)"
    using calibrate_users_spec[OF assms(1-4), of "t + i64 (- ut_expirationDuration ut)" "[]"] by auto
  define us where "us = map (usage_of ut1) (filter (\<lambda>u. 0 < usage_of ut1 u) order)"
  define ut' where "ut' = ut1\<lparr>ut_users := \<lambda>u. map_option (set_quantile (sort us)) (ut_users ut1 u)\<rparr>"
  have same: "usage_of ut' = usage_of ut1" unfolding ut'_def by (rule usage_of_Calibrated)
  have la: "last_active ut' = last_active ut1"
    by (auto simp: ut'_def last_active_def fun_eq_iff set_quantile_def Let_def split: option.splits)
  have "\<forall>e \<in> ran (ut_users ut'). usage.window_inv (ue_window e) \<and> ue_lastActive e \<le> t"
  proof
    fix e assume "e \<in> ran (ut_users ut')"
    then obtain u e1 where "ut_users ut1 u = Some e1" "ue_window e = ue_window e1" "ue_lastActive e = ue_lastActive e1"
      by (auto simp: ut'_def ran_def set_quantile_def Let_def)
    with usage_inv_entry[OF ut1(2)] assms(5) show "usage.window_inv (ue_window e) \<and> ue_lastActive e \<le> t" by fastforce
  qed
  moreover have "dom (ut_users ut') = dom (ut_users ut1)" "ut_lru ut' = ut_lru ut1" "ut_maxUsers ut' = ut_maxUsers ut1" "ut_newWindowFn ut' = ut_newWindowFn ut1"
    by (auto simp: ut'_def dom_def)
  ultimately have "usage_inv d m t ut'" using ut1(2) unfolding usage_inv_def la by simp
  moreover have "usage_Calibrate t order ut = Inr ut'" using ut1(1) by (simp add: usage_Calibrate_def ut'_def us_def)
  moreover have "ue_quantile e = (if 0 < usage_of ut' u then computeQuantile (usage_of ut' u) (sort us) else - 1)" if "ut_users ut' u = Some e" for u e
    using that unfolding same by (auto simp: ut'_def set_quantile_def Let_def GetUsage_def)
  moreover have "us = map (usage_of ut') (filter (\<lambda>u. 0 < usage_of ut' u) order)" using fun_cong[OF same] by (simp add: us_def)
  ultimately show ?thesis using ut1(3) \<open>dom (ut_users ut') = _\<close> by (intro exI[of _ ut']) simp
qed

lemma usage_run_inv:
  assumes "usage_run d m now ut" "30 \<le> d" "in_i64 d"
  shows "usage_inv d m now ut \<and> 0 \<le> now"
  using assms(1)
proof induction
  case 1
  then show ?case by (auto simp: usage_inv_def NewUsageTracker_def)
next
  case (2 now ut t u n ut')
  then have inv: "usage_inv d m now ut" and t: "0 \<le> t" by auto
  show ?case using RecordUsage_inv[OF inv 2(2) t 2(3) assms(2,3), of u n] 2(4) t by auto
next
  case (3 now ut t order ut')
  then have inv: "usage_inv d m now ut" and t: "0 \<le> t" by auto
  show ?case using Calibrate_spec[OF inv 3(4) t 3(3,2)] 3(6) t by auto
qed

lemma computeQuantile_card:
  assumes "distinct order"
  shows "computeQuantile a (sort (map f (filter P order)))
    = (if filter P order = [] then 0 else Round (card {v \<in> set order. P v \<and> f v < a} / card {v \<in> set order. P v}))"
proof -
  let ?us = "map f (filter P order)"
  have "length (filter (\<lambda>y. y < a) (sort ?us)) = length (filter (\<lambda>y. y < a) ?us)" by (simp add: filter_sort)
  also have "\<dots> = length (filter (\<lambda>v. P v \<and> f v < a) order)" by (simp add: filter_map o_def conj_commute)
  also have "\<dots> = card {v \<in> set order. P v \<and> f v < a}" using assms by (metis distinct_card distinct_filter set_filter)
  finally have k: "length (filter (\<lambda>y. y < a) (sort ?us)) = card {v \<in> set order. P v \<and> f v < a}" .
  have n: "length (filter P order) = card {v \<in> set order. P v}" using assms by (metis distinct_card distinct_filter set_filter)
  show ?thesis
    using sort_Search_sorted[of "sort ?us" a] by (simp add: computeQuantile_def k n)
qed

definition usage_level :: "(string \<Rightarrow> int) \<Rightarrow> string \<Rightarrow> int" where
  "usage_level f u = \<lfloor>99 * (1 - Round (card {v. 0 < f v \<and> f v < f u} / card {v. 0 < f v}))\<rfloor>"

lemma usage_level_bounds:
  assumes "finite {v. 0 < f v}"
  shows "0 \<le> usage_level f u \<and> usage_level f u \<le> 99" "f u \<le> f v \<Longrightarrow> usage_level f v \<le> usage_level f u"
proof -
  let ?n = "card {v. 0 < f v}"
  have fin: "finite {v. 0 < f v \<and> f v < x}" for x by (rule finite_subset[OF _ assms]) auto
  have "card {v. 0 < f v \<and> f v < f u} \<le> ?n" by (rule card_mono[OF assms]) auto
  then have "0 \<le> card {v. 0 < f v \<and> f v < f u} / ?n \<and> card {v. 0 < f v \<and> f v < f u} / ?n \<le> 1"
    using frac_le_1[of "real ?n"] by simp
  then show "0 \<le> usage_level f u \<and> usage_level f u \<le> 99"
    using Round_unit[of "card {v. 0 < f v \<and> f v < f u} / ?n"] unfolding usage_level_def by (simp add: le_floor_iff floor_le_iff)
  assume "f u \<le> f v"
  then have "card {w. 0 < f w \<and> f w < f u} \<le> card {w. 0 < f w \<and> f w < f v}" by (intro card_mono[OF fin]) auto
  then have "Round (card {w. 0 < f w \<and> f w < f u} / ?n) \<le> Round (card {w. 0 < f w \<and> f w < f v} / ?n)" by (intro Round_mono divide_right_mono) simp_all
  then show "usage_level f v \<le> usage_level f u" unfolding usage_level_def by (intro floor_mono) simp
qed

lemma range_of_priority:
  assumes "p \<in> {0..4}"
  shows "MinLevel p = 100 * p" "MaxLevel p = 100 * p + 99"
proof -
  have "p = 0 \<or> p = 1 \<or> p = 2 \<or> p = 3 \<or> p = 4" using assms by auto
  then show "MinLevel p = 100 * p" "MaxLevel p = 100 * p + 99"
    by (auto simp: MinLevel_def MaxLevel_def priority_levelRange_def priorityLevelRanges_def)
qed

section \<open>Properties\<close>

text \<open>
  After any sequence of valid levels a tracker of the last \<open>n\<close> levels returns, for a quantile of at most 1, the
  level at the nearest rank of the quantile among them in order, and 0 when there are none.
\<close>

theorem level_tracker_quantile:
  assumes "0 < n" "\<forall>l \<in> set ls. valid_level l" "q \<le> 1"
  shows "\<exists>lt0 lt. NewLevelTracker (int n) = Inr lt0 \<and> record_levels lt0 ls = Inr lt
    \<and> tracker_GetLevel q lt = (if ls = [] then 0 else sort (last_n n ls) ! nearest_rank (length (last_n n ls)) q)"
proof -
  obtain lt0 where lt0: "NewLevelTracker (int n) = Inr lt0" "tracker_inv n [] lt0" using NewLevelTracker_inv[OF assms(1)] by blast
  obtain lt where lt: "record_levels lt0 ls = Inr lt" "tracker_inv n ls lt"
    using record_levels_inv[OF assms(1) _ lt0(2), of ls] assms(2) by auto
  have "tracker_GetLevel q lt = 0" if "ls = []"
    using lt(2) that assms(1) by (simp add: tracker_GetLevel_def tracker_inv_def ring_def Let_def)
  then show ?thesis using lt0(1) lt(1) GetLevel_rank[OF assms(1,2) lt(2) assms(3)] by auto
qed

theorem level_tracker_quantile_witness:
  "\<exists>lt0 lt. NewLevelTracker (int 3) = Inr lt0 \<and> record_levels lt0 [7, 450, 120, 300] = Inr lt \<and> tracker_GetLevel (1 / 2) lt = 300"
proof -
  have "\<lceil>real 3 * (1 / 2)\<rceil> = 2" by (simp add: ceiling_unique)
  then have "sort (last_n 3 [7, 450, 120, 300]) ! nearest_rank (length (last_n 3 [7, 450, 120, 300])) (1 / 2) = (300 :: int)"
    by (simp add: last_n_def nearest_rank_def)
  then show ?thesis using level_tracker_quantile[of 3 "[7, 450, 120, 300]" "1 / 2"] by (simp add: totalLevels_def)
qed

text \<open>
  A level drawn for a priority that is stored in a context determines the priority: it lies in the range of the
  priority, a hundredth of it is the priority, and the tracker records it without a panic. An explicit level or
  user is read back as it was stored and leaves the priority readable.
\<close>

theorem context_priority_roundtrip:
  assumes "\<forall>n > 0. 0 \<le> intn n \<and> intn n < n" "p \<in> {0..4}" "map_of ctx LevelKey = None" "0 < n" "tracker_inv n ls lt" "\<forall>l' \<in> set ls. valid_level l'"
  shows "FromContext (ContextWithUser (AddTo p ctx) u) = p
    \<and> UserFromContext (AddTo p (ContextWithUser ctx u)) = u
    \<and> LevelFromContext intn (AddTo p (ContextWithLevel ctx l)) = l
    \<and> LevelFromContext intn (AddTo p ctx) div 100 = p
    \<and> (\<exists>lt'. RecordLevel (LevelFromContext intn (AddTo p ctx)) lt = Inr lt')"
proof -
  let ?l = "LevelFromContext intn (AddTo p ctx)"
  note defs = FromContext_def UserFromContext_def LevelFromContext_def AddTo_def ContextWithPriority_def ContextWithLevel_def
    ContextWithUser_def WithValue_def PriorityKey_def LevelKey_def UserKey_def
  have "FromContext (ContextWithUser (AddTo p ctx) u) = p" "UserFromContext (AddTo p (ContextWithUser ctx u)) = u"
    "LevelFromContext intn (AddTo p (ContextWithLevel ctx l)) = l" by (simp_all add: defs)
  moreover have "?l = intn 100 + 100 * p"
    using assms(3) range_of_priority[OF assms(2)] by (simp add: defs RandomLevel_def Let_def MinLevel_def MaxLevel_def)
  moreover have "0 \<le> intn 100" "intn 100 < 100" using assms(1) by auto
  ultimately show ?thesis
    using RecordLevel_step[OF assms(4) _ assms(6,5), of ?l] assms(2) by (auto simp: totalLevels_def)
qed

theorem context_priority_roundtrip_witness:
  "LevelFromContext (\<lambda>n. 42 mod n) (AddTo 3 [(UserKey, StringAny ''u'')]) div 100 = 3"
proof -
  obtain lt where "tracker_inv 2 [] lt" using NewLevelTracker_inv[of 2] by auto
  from context_priority_roundtrip[where intn = "\<lambda>n. 42 mod n" and p = 3 and n = 2 and ctx = "[(UserKey, StringAny ''u'')]", OF _ _ _ _ this] show ?thesis
    by (simp add: UserKey_def LevelKey_def)
qed

text \<open>
  C27. Recording a usage keeps the number of users within the maximum (at least one), removes nobody while there is room or the user is known, and
  otherwise removes one user, whose last activity is the oldest.
\<close>

theorem usage_tracker_evicts_oldest:
  assumes "usage_run d m now ut" "30 \<le> d" "in_i64 d" "now \<le> t" "in_i64 t" "1 \<le> m"
  shows "\<exists>ut'. usage_RecordUsage u n t ut = Inr ut' \<and> int (card (dom (ut_users ut'))) \<le> m
    \<and> (if u \<in> dom (ut_users ut) \<or> int (card (dom (ut_users ut))) < m then dom (ut_users ut') = insert u (dom (ut_users ut))
       else \<exists>v \<in> dom (ut_users ut). dom (ut_users ut') = insert u (dom (ut_users ut) - {v})
              \<and> (\<forall>w \<in> dom (ut_users ut). last_active ut v \<le> last_active ut w))"
proof -
  have inv: "usage_inv d m now ut" "0 \<le> now" using usage_run_inv[OF assms(1-3)] by auto
  obtain ut' where ut': "usage_RecordUsage u n t ut = Inr ut'" "usage_inv d m t ut'" "dom (ut_users ut') = insert u (dom (ut_users ut) - evicted u ut)"
    using RecordUsage_inv[OF inv(1) assms(4) _ assms(5,2,3)] inv(2) assms(4) by (meson order_trans)
  have "card (dom (ut_users ut')) = length (ut_lru ut')" using ut'(2) by (metis distinct_card usage_inv_def)
  then have card: "int (card (dom (ut_users ut'))) \<le> m" using ut'(2) assms(6) by (simp add: usage_inv_def)
  have lru: "set (ut_lru ut) = dom (ut_users ut)" "sorted_wrt (\<lambda>u v. last_active ut v \<le> last_active ut u) (ut_lru ut)" "ut_maxUsers ut = m"
    using inv(1) by (auto simp: usage_inv_def)
  have "ut_lru ut \<noteq> []" if "\<not> int (card (dom (ut_users ut))) < m" using that lru(1) assms(6) by (cases "ut_lru ut") auto
  moreover have "\<forall>w \<in> dom (ut_users ut). last_active ut (last (ut_lru ut)) \<le> last_active ut w" if "ut_lru ut \<noteq> []"
  proof -
    have "sorted_wrt (\<lambda>u v. last_active ut v \<le> last_active ut u) (butlast (ut_lru ut) @ [last (ut_lru ut)])" using that lru(2) by simp
    then have "\<forall>w \<in> set (butlast (ut_lru ut) @ [last (ut_lru ut)]). last_active ut (last (ut_lru ut)) \<le> last_active ut w" by (auto simp: sorted_wrt_append)
    then show ?thesis using that lru(1) by simp
  qed
  moreover have "evicted u ut = (if u \<in> dom (ut_users ut) \<or> int (card (dom (ut_users ut))) < m then {} else {last (ut_lru ut)})"
    using calculation(1) lru(3) by (simp add: evicted_def)
  moreover have "last (ut_lru ut) \<in> dom (ut_users ut)" if "ut_lru ut \<noteq> []" using that lru(1) by auto
  ultimately show ?thesis
    using ut'(1,3) card by (cases "u \<in> dom (ut_users ut) \<or> int (card (dom (ut_users ut))) < m"; intro exI[of _ ut']) auto
qed

theorem usage_tracker_evicts_oldest_witness:
  "\<exists>ut ut'. usage_RecordUsage ''a'' 5 1 (NewUsageTracker 300 1) = Inr ut \<and> usage_RecordUsage ''b'' 7 2 ut = Inr ut' \<and> dom (ut_users ut') = {''b''}"
proof -
  note new = usage_run.intros(1)[of 300 1]
  have inv: "usage_inv 300 1 0 (NewUsageTracker 300 1)" using usage_run_inv[OF new] by (simp add: in_i64_def)
  obtain ut where ut: "usage_RecordUsage ''a'' 5 1 (NewUsageTracker 300 1) = Inr ut" "dom (ut_users ut) = {''a''}"
    using RecordUsage_inv[OF inv, of 1 "''a''" 5] by (auto simp: in_i64_def NewUsageTracker_def)
  have "usage_run 300 1 1 ut" using usage_run.intros(2)[OF new _ _ ut(1)] by (simp add: in_i64_def)
  from usage_tracker_evicts_oldest[OF this, of 2 "''b''" 7] ut show ?thesis by (auto simp: in_i64_def)
qed

text \<open>
  Calibration gives every user a level within the range of the execution's priority: the maximum without recent usage, and otherwise by the
  share of the active users with less usage. A user with more usage never gets a higher level. The result does not depend on the order in which the map of users is visited.
\<close>

theorem usage_levels_fair:
  assumes "usage_run d m now ut" "30 \<le> d" "in_i64 d" "now \<le> t" "in_i64 t" "distinct order" "set order = dom (ut_users ut)" "p \<in> {0..4}"
  shows "\<exists>ut'. usage_Calibrate t order ut = Inr ut'
    \<and> (\<forall>u. usage_GetLevel u p ut' = (if 0 < usage_of ut' u then MinLevel p + usage_level (usage_of ut') u else MaxLevel p))
    \<and> (\<forall>u. MinLevel p \<le> usage_GetLevel u p ut' \<and> usage_GetLevel u p ut' \<le> MaxLevel p)
    \<and> (\<forall>u v. usage_of ut' u \<le> usage_of ut' v \<longrightarrow> usage_GetLevel v p ut' \<le> usage_GetLevel u p ut')"
proof -
  have inv: "usage_inv d m now ut" "0 \<le> t" using usage_run_inv[OF assms(1-3)] assms(4) by auto
  obtain ut' where ut': "usage_Calibrate t order ut = Inr ut'" "dom (ut_users ut') \<subseteq> dom (ut_users ut)"
      "\<And>u e. ut_users ut' u = Some e \<Longrightarrow> ue_quantile e
        = (if 0 < usage_of ut' u then computeQuantile (usage_of ut' u) (sort (map (usage_of ut') (filter (\<lambda>u. 0 < usage_of ut' u) order))) else - 1)"
    using Calibrate_spec[OF inv(1) assms(6) inv(2) assms(5,4)] by blast
  have sub: "u \<in> set order" if "0 < usage_of ut' u" for u
    using that ut'(2) assms(7) by (cases "ut_users ut' u") (auto simp: GetUsage_def)
  then have sets: "{v \<in> set order. 0 < usage_of ut' v \<and> usage_of ut' v < a} = {v. 0 < usage_of ut' v \<and> usage_of ut' v < a}"
     "{v \<in> set order. 0 < usage_of ut' v} = {v. 0 < usage_of ut' v}" for a by auto
  have fin: "finite {v. 0 < usage_of ut' v}" using sub finite_subset[of "{v. 0 < usage_of ut' v}" "set order"] by auto
  note b = usage_level_bounds[OF fin]
  have exact: "usage_GetLevel u p ut' = (if 0 < usage_of ut' u then MinLevel p + usage_level (usage_of ut') u else MaxLevel p)" for u
  proof (cases "ut_users ut' u")
    case None
    then show ?thesis by (simp add: usage_GetLevel_def GetUsage_def MaxLevel_def)
  next
    case (Some e)
    have q: "99 * (1 - ue_quantile e) = 99 * (1 - Round (card {v. 0 < usage_of ut' v \<and> usage_of ut' v < usage_of ut' u} / card {v. 0 < usage_of ut' v}))" "0 \<le> ue_quantile e" "ue_quantile e \<le> 1"
      if "0 < usage_of ut' u"
    proof -
      have "ue_quantile e = Round (card {v. 0 < usage_of ut' v \<and> usage_of ut' v < usage_of ut' u} / card {v. 0 < usage_of ut' v})"
        using ut'(3)[OF Some] that computeQuantile_card[OF assms(6)] sub[OF that] by (auto simp: sets filter_empty_conv)
      moreover have "card {v. 0 < usage_of ut' v \<and> usage_of ut' v < usage_of ut' u} \<le> card {v. 0 < usage_of ut' v}" by (rule card_mono[OF fin]) auto
      ultimately show "99 * (1 - ue_quantile e) = 99 * (1 - Round (card {v. 0 < usage_of ut' v \<and> usage_of ut' v < usage_of ut' u} / card {v. 0 < usage_of ut' v}))"
         "0 \<le> ue_quantile e" "ue_quantile e \<le> 1"
        using Round_unit(1) Round_unit(2)[OF frac_le_1] by simp_all
    qed
    have total: "TotalUsage (ue_window e) = usage_of ut' u" using Some by (simp add: GetUsage_def)
    show ?thesis
    proof (cases "0 < usage_of ut' u")
      case True
      have "\<not> 99 * (1 - ue_quantile e) < 0" using q(3)[OF True] by simp
      then show ?thesis using Some total True q[OF True]
        by (simp add: usage_GetLevel_def float_to_int_def usage_level_def MinLevel_def Let_def)
    next
      case False
      then show ?thesis using Some total ut'(3)[OF Some] by (simp add: usage_GetLevel_def Let_def MaxLevel_def)
    qed
  qed
  have "MinLevel p \<le> usage_GetLevel u p ut' \<and> usage_GetLevel u p ut' \<le> MaxLevel p" for u
    using b(1)[of u] range_of_priority[OF assms(8)] by (simp add: exact)
  moreover have "usage_GetLevel v p ut' \<le> usage_GetLevel u p ut'" if "usage_of ut' u \<le> usage_of ut' v" for u v
    using b(1)[of v] b(2)[OF that] range_of_priority[OF assms(8)] that by (simp add: exact)
  ultimately show ?thesis using ut'(1) exact by blast
qed

theorem usage_levels_fair_witness:
  "\<exists>ut ut'. usage_RecordUsage ''a'' 5 1 (NewUsageTracker 300 1) = Inr ut \<and> usage_Calibrate 2 [''a''] ut = Inr ut'
    \<and> MinLevel 2 \<le> usage_GetLevel ''a'' 2 ut' \<and> usage_GetLevel ''a'' 2 ut' \<le> MaxLevel 2"
proof -
  note new = usage_run.intros(1)[of 300 1]
  have inv: "usage_inv 300 1 0 (NewUsageTracker 300 1)" using usage_run_inv[OF new] by (simp add: in_i64_def)
  obtain ut where ut: "usage_RecordUsage ''a'' 5 1 (NewUsageTracker 300 1) = Inr ut" "dom (ut_users ut) = {''a''}"
    using RecordUsage_inv[OF inv, of 1 "''a''" 5] by (auto simp: in_i64_def NewUsageTracker_def)
  have run: "usage_run 300 1 1 ut" using usage_run.intros(2)[OF new _ _ ut(1)] by (simp add: in_i64_def)
  have pre: "30 \<le> (300 :: int)" "in_i64 300" "(1 :: int) \<le> 2" "in_i64 2" "distinct [''a'']" "set [''a''] = dom (ut_users ut)" "(2 :: int) \<in> {0..4}"
    using ut(2) by (simp_all add: in_i64_def)
  from usage_levels_fair[OF run pre] ut(1) show ?thesis by blast
qed

end
