(* ===== verification/Prioritizer.thy ===== *)
theory Prioritizer
  imports Priority
begin

text \<open>
  \<^verbatim>\<open>BasePrioritizer\<close> (src/internal/prioritizer.go), which turns the statistics of the policies that are registered
  with it into a rejection rate and a threshold of levels. The registered functions read the policies in the state \<open>'w\<close>; the strategy
  combines what they return. A rate is \<open>None\<close> when it is not a number. The prioritizer is the only user of its trackers here. The
  methods of the usage tracker get the time and the order of their map as arguments. Logging is left out; the goroutine of
  \<^verbatim>\<open>ScheduleCalibrations\<close> is in \<open>Calibrations\<close>.
\<close>

section \<open>Prioritizers\<close>

type_synonym nfloat = "float64 option"

record 'q rejection_strategy =
  CombineStats :: "'q list \<Rightarrow> 'q"
  ComputeRejectionRate :: "'q \<Rightarrow> nfloat"

record 'q BasePrioritizerConfig =
  pc_LevelTracker :: "windowedLevelTracker option"
  pc_UsageTracker :: "usageTracker option"
  pc_Strategy :: "'q rejection_strategy"
  pc_onThresholdChanged :: bool

definition new_BasePrioritizerConfig :: "'q rejection_strategy \<Rightarrow> 'q BasePrioritizerConfig" where
  "new_BasePrioritizerConfig strategy =
     \<lparr>pc_LevelTracker = None, pc_UsageTracker = None, pc_Strategy = strategy, pc_onThresholdChanged = False\<rparr>"

definition WithLevelTracker :: "windowedLevelTracker \<Rightarrow> 'q BasePrioritizerConfig \<Rightarrow> 'q BasePrioritizerConfig" where
  "WithLevelTracker levelTracker c = c\<lparr>pc_LevelTracker := Some levelTracker\<rparr>"

definition OnThresholdChanged :: "bool \<Rightarrow> 'q BasePrioritizerConfig \<Rightarrow> 'q BasePrioritizerConfig" where
  "OnThresholdChanged listener c = c\<lparr>pc_onThresholdChanged := listener\<rparr>"

record ThresholdChangedEvent =
  OldThreshold :: uint
  NewThreshold :: uint

record ('w, 'q) BasePrioritizer =
  bp_LevelTracker :: windowedLevelTracker
  bp_UsageTracker :: "usageTracker option"
  bp_Strategy :: "'q rejection_strategy"
  bp_onThresholdChanged :: bool
  bp_statsFuncs :: "('w \<Rightarrow> 'q) list"
  bp_numStats :: int
  bp_rejectionRate :: nfloat
  bp_RejectionThresh :: int
  bp_events :: "ThresholdChangedEvent list"

definition prioritizer_Build :: "'q BasePrioritizerConfig \<Rightarrow> ('w, 'q) BasePrioritizer go" where
  "prioritizer_Build c =
     go_bind (case pc_LevelTracker c of Some lt \<Rightarrow> Inr lt | None \<Rightarrow> NewLevelTracker 1000) (\<lambda>lt.
     Inr \<lparr>bp_LevelTracker = lt, bp_UsageTracker = pc_UsageTracker c, bp_Strategy = pc_Strategy c,
          bp_onThresholdChanged = pc_onThresholdChanged c, bp_statsFuncs = [], bp_numStats = 0,
          bp_rejectionRate = Some 0, bp_RejectionThresh = 0, bp_events = []\<rparr>)"

definition Register :: "('w \<Rightarrow> 'q) \<Rightarrow> ('w, 'q) BasePrioritizer \<Rightarrow> ('w, 'q) BasePrioritizer" where
  "Register statsFunc p = p\<lparr>bp_statsFuncs := bp_statsFuncs p @ [statsFunc], bp_numStats := i32 (bp_numStats p + 1)\<rparr>"

definition bp_RejectionRate :: "('w, 'q) BasePrioritizer \<Rightarrow> nfloat" where
  "bp_RejectionRate p = bp_rejectionRate p"

definition RejectionThreshold :: "('w, 'q) BasePrioritizer \<Rightarrow> int" where
  "RejectionThreshold p = bp_RejectionThresh p"

definition RegisteredPolicies :: "('w, 'q) BasePrioritizer \<Rightarrow> int" where
  "RegisteredPolicies p = bp_numStats p"

text \<open>A comparison with a number that is not one is false.\<close>

definition prioritizer_Calibrate :: "'w \<Rightarrow> nanotime \<Rightarrow> string list \<Rightarrow> ('w, 'q) BasePrioritizer \<Rightarrow> ('w, 'q) BasePrioritizer go" where
  "prioritizer_Calibrate w now order p =
     (let combinedStats = CombineStats (bp_Strategy p) (map (\<lambda>f. f w) (bp_statsFuncs p));
          rate = ComputeRejectionRate (bp_Strategy p) combinedStats;
          newThresh = (case rate of Some r \<Rightarrow> if r > 0 then i32 (tracker_GetLevel r (bp_LevelTracker p)) else 0 | None \<Rightarrow> 0);
          oldThresh = bp_RejectionThresh p;
          p1 = p\<lparr>bp_rejectionRate := rate, bp_RejectionThresh := newThresh\<rparr>;
          p2 = (if oldThresh \<noteq> newThresh \<and> bp_onThresholdChanged p1
                then p1\<lparr>bp_events := bp_events p1 @ [\<lparr>OldThreshold = word_of_int oldThresh, NewThreshold = word_of_int newThresh\<rparr>]\<rparr>
                else p1)
      in case bp_UsageTracker p2 of
           None \<Rightarrow> Inr p2
         | Some ut \<Rightarrow> go_bind (usage_Calibrate now order ut) (\<lambda>ut'. Inr (p2\<lparr>bp_UsageTracker := Some ut'\<rparr>)))"

text \<open>A nil context is \<open>None\<close>.\<close>

definition bp_LevelFromContextWithPriority :: "(int \<Rightarrow> int) \<Rightarrow> ctx_values option \<Rightarrow> Priority \<Rightarrow> ('w, 'q) BasePrioritizer \<Rightarrow> int" where
  "bp_LevelFromContextWithPriority intn ctx prt p =
     (case ctx of
        None \<Rightarrow> RandomLevel intn prt
      | Some c \<Rightarrow>
          (case bp_UsageTracker p of
             Some ut \<Rightarrow>
               if UserFromContext c \<noteq> [] then usage_GetLevel (UserFromContext c) prt ut
               else if LevelFromContext intn c \<noteq> - 1 then LevelFromContext intn c else RandomLevel intn prt
           | None \<Rightarrow> if LevelFromContext intn c \<noteq> - 1 then LevelFromContext intn c else RandomLevel intn prt))"

definition bp_LevelFromContext :: "(int \<Rightarrow> int) \<Rightarrow> ctx_values option \<Rightarrow> ('w, 'q) BasePrioritizer \<Rightarrow> int" where
  "bp_LevelFromContext intn ctx p =
     (case ctx of
        None \<Rightarrow> 0
      | Some c \<Rightarrow>
          if bp_UsageTracker p \<noteq> None \<and> FromContext c \<noteq> - 1 then bp_LevelFromContextWithPriority intn ctx (FromContext c) p
          else if LevelFromContext intn c \<noteq> - 1 then LevelFromContext intn c else 0)"

section \<open>The threshold follows the rate\<close>

lemma rank_of_nth:
  fixes xs :: "'a::linorder list"
  assumes "k < length xs"
  shows "length (filter (\<lambda>x. x < sort xs ! k) xs) \<le> k \<and> Suc k \<le> length (filter (\<lambda>x. x \<le> sort xs ! k) xs)"
proof -
  let ?ys = "sort xs" and ?v = "sort xs ! k"
  have k: "k < length ?ys" using assms by simp
  have len: "length (filter P xs) = length (filter P ?ys)" for P by (simp add: filter_sort)
  have "length (takeWhile (\<lambda>y. y < ?v) ?ys) \<le> k"
    using nth_mem[of k "takeWhile (\<lambda>y. y < ?v) ?ys"] by (metis less_irrefl not_le_imp_less set_takeWhileD takeWhile_nth)
  moreover have "y \<le> ?v" if "y \<in> set (take (Suc k) ?ys)" for y
    using that k sorted_nth_mono[OF sorted_sort, of _ k xs] by (auto simp: in_set_conv_nth)
  then have "filter (\<lambda>y. y \<le> ?v) (take (Suc k) ?ys) = take (Suc k) ?ys" by (simp add: filter_id_conv)
  then have "Suc k \<le> length (filter (\<lambda>y. y \<le> ?v) (take (Suc k) ?ys @ drop (Suc k) ?ys))" using k by (simp only: filter_append length_append) simp
  then have "Suc k \<le> length (filter (\<lambda>y. y \<le> ?v) ?ys)" by simp
  ultimately show ?thesis by (simp add: len sorted_filter_takeWhile)
qed

text \<open>What a prioritizer needs of its strategy: the combined rate of well formed statistics, if it is a number, is between 0 and 1.\<close>

locale rejection_rates =
  fixes strategy :: "'q rejection_strategy" and stats_ok :: "'q \<Rightarrow> bool"
  assumes rate_bounds: "\<forall>q \<in> set qs. stats_ok q \<Longrightarrow> ComputeRejectionRate strategy (CombineStats strategy qs) = Some r \<Longrightarrow> 0 \<le> r \<and> r \<le> 1"
begin

text \<open>The levels among \<open>ls\<close> that the threshold refuses, and those that one more would refuse.\<close>

lemma calibrated_threshold:
  assumes p: "bp_Strategy p = strategy" "\<forall>f \<in> set (bp_statsFuncs p). stats_ok (f w)" "bp_UsageTracker p = None"
    and lt: "0 < n" "tracker_inv n ls (bp_LevelTracker p)" "\<forall>l \<in> set ls. valid_level l"
  shows "\<exists>p'. prioritizer_Calibrate w now order p = Inr p' \<and> 0 \<le> RejectionThreshold p' \<and> RejectionThreshold p' < int totalLevels
    \<and> bp_LevelTracker p' = bp_LevelTracker p
    \<and> (case bp_RejectionRate p' of
         None \<Rightarrow> RejectionThreshold p' = 0
       | Some r \<Rightarrow> 0 \<le> r \<and> r \<le> 1
           \<and> real (length (filter (\<lambda>l. l < RejectionThreshold p') (last_n n ls))) \<le> r * real (length (last_n n ls))
           \<and> (0 < r \<longrightarrow> r * real (length (last_n n ls)) \<le> real (length (filter (\<lambda>l. l \<le> RejectionThreshold p') (last_n n ls)))))"
proof -
  let ?xs = "last_n n ls"
  define rate where "rate = ComputeRejectionRate strategy (CombineStats strategy (map (\<lambda>f. f w) (bp_statsFuncs p)))"
  define thr where "thr = (case rate of Some r \<Rightarrow> if r > 0 then i32 (tracker_GetLevel r (bp_LevelTracker p)) else 0 | None \<Rightarrow> 0)"
  have b: "0 \<le> r \<and> r \<le> 1" if "rate = Some r" for r
    using rate_bounds[of "map (\<lambda>f. f w) (bp_statsFuncs p)" r] p(2) that by (simp add: rate_def)
  have vx: "\<forall>l \<in> set ?xs. valid_level l" using lt(3) by (auto simp: last_n_def dest: in_set_dropD)
  have none: "filter (\<lambda>l. l < 0) ?xs = []" using vx by (auto simp: filter_empty_conv)
  have main: "valid_level thr \<and> (case rate of None \<Rightarrow> thr = 0
       | Some r \<Rightarrow> real (length (filter (\<lambda>l. l < thr) ?xs)) \<le> r * real (length ?xs)
           \<and> (0 < r \<longrightarrow> r * real (length ?xs) \<le> real (length (filter (\<lambda>l. l \<le> thr) ?xs))))"
  proof (cases "\<exists>r > 0. rate = Some r \<and> ls \<noteq> []")
    case False
    have "tracker_GetLevel r (bp_LevelTracker p) = 0" if "ls = []" for r
      using lt(1,2) that by (simp add: tracker_GetLevel_def tracker_inv_def ring_def Let_def)
    then have "thr = 0" using False b by (auto simp: thr_def i32_def split: option.splits)
    then show ?thesis using b none False by (auto simp: totalLevels_def split: option.splits)
  next
    case True
    then obtain r where r: "rate = Some r" "0 < r" "ls \<noteq> []" "r \<le> 1" using b by blast
    define k where "k = nearest_rank (length ?xs) r"
    have len: "0 < length ?xs" using lt(1) r(3) by simp
    have get: "tracker_GetLevel r (bp_LevelTracker p) = sort ?xs ! k"
      unfolding k_def by (rule GetLevel_rank[OF lt(1,3,2) r(4,3)])
    have "r * real (length ?xs) \<le> 1 * real (length ?xs)" using r(4) by (rule mult_right_mono) simp
    then have c: "1 \<le> \<lceil>real (length ?xs) * r\<rceil>" "\<lceil>real (length ?xs) * r\<rceil> \<le> int (length ?xs)"
      using r(2) len by (simp_all add: ceiling_le_iff one_le_ceiling mult.commute)
    then have k: "k < length ?xs" "real k \<le> r * real (length ?xs)" "r * real (length ?xs) \<le> real (Suc k)"
      unfolding k_def nearest_rank_def by (auto simp: mult.commute) linarith+
    have "sort ?xs ! k \<in> set ?xs" using k(1) by (metis length_sort nth_mem set_sort)
    then have v: "valid_level (sort ?xs ! k)" using vx by blast
    then have thr: "thr = sort ?xs ! k" using r get by (simp add: thr_def totalLevels_def i32_def)
    have "length (filter (\<lambda>l. l < thr) ?xs) \<le> k \<and> Suc k \<le> length (filter (\<lambda>l. l \<le> thr) ?xs)"
      unfolding thr by (rule rank_of_nth[OF k(1)])
    then show ?thesis using k(2,3) v thr r(1) by (auto intro: order_trans)
  qed
  have "\<exists>p'. prioritizer_Calibrate w now order p = Inr p' \<and> bp_RejectionRate p' = rate \<and> RejectionThreshold p' = thr \<and> bp_LevelTracker p' = bp_LevelTracker p"
    using p(1,3) by (simp add: prioritizer_Calibrate_def RejectionThreshold_def bp_RejectionRate_def Let_def flip: rate_def thr_def)
  then obtain p' where "prioritizer_Calibrate w now order p = Inr p'" "bp_RejectionRate p' = rate" "RejectionThreshold p' = thr" "bp_LevelTracker p' = bp_LevelTracker p"
    by blast
  with main b show ?thesis by (intro exI[of _ p']) (cases rate; simp)
qed

end

end
