(* ===== verification/Adaptive_Limiter.thy ===== *)
theory Adaptive_Limiter
  imports Prioritizer Executor Semaphore
begin

text \<open>
  The adaptive limiter: src/adaptivelimiter/adaptivelimiter.go. The t-digest package is the record \<open>tdigest_api\<close>;
  its \<^verbatim>\<open>Quantile\<close> may be not a number (\<open>None\<close>). A run of an update is \<open>None\<close> when it goes on with a value that is not a finite number, which is where
  this model ends; the lemmas show when that does not happen. The time is an argument, and each method is one critical section: the calls of
  \<^verbatim>\<open>onLimitChanged\<close>, during which the code gives up its lock, are logged events; \<open>Limiter_Listeners\<close> takes an update apart at them. The debug log is left out.
\<close>

section \<open>Configuration\<close>

definition al_ErrExceeded :: "'r error" where
  "al_ErrExceeded = Err ''limit exceeded''"

definition alphaFunc :: "int \<Rightarrow> int go" where "alphaFunc = Log10Func 3"
definition betaFunc :: "int \<Rightarrow> int go" where "betaFunc = Log10Func 6"
definition increaseFunc :: "int \<Rightarrow> int go" where "increaseFunc = Log10Func 1"
definition decreaseFunc :: "int \<Rightarrow> int go" where "decreaseFunc = Log10Func 1"

definition al_warmupSamples :: "8 word" where "al_warmupSamples = 10"
definition smoothedSamples :: nat where "smoothedSamples = 5"

record al_config =
  al_maxWaitTime :: duration
  al_minLimit :: float64
  al_maxLimit :: float64
  al_initialLimit :: uint
  al_maxLimitFunc :: "(int \<Rightarrow> float64) option"
  al_maxLimitFactor :: float64
  al_maxLimitFactorDecay :: float64
  al_minLimitFactor :: float64
  al_maxLimitStabilizationWindow :: duration
  al_recentWindowMinDuration :: duration
  al_recentWindowMaxDuration :: duration
  al_recentWindowMinSamples :: uint
  al_recentQuantile :: float64
  al_baselineWindowAge :: uint
  al_correlationWindowSize :: uint
  al_initialRejectionFactor :: float64
  al_maxRejectionFactor :: float64
  al_onLimitExceeded :: bool
  al_onLimitChanged :: bool

definition al_NewBuilder :: al_config where
  "al_NewBuilder =
     \<lparr>al_maxWaitTime = 0, al_minLimit = 1, al_maxLimit = 200, al_initialLimit = 20, al_maxLimitFunc = None, al_maxLimitFactor = 5,
      al_maxLimitFactorDecay = 0, al_minLimitFactor = 0, al_maxLimitStabilizationWindow = 0,
      al_recentWindowMinDuration = 10 ^ 9, al_recentWindowMaxDuration = 30 * 10 ^ 9, al_recentWindowMinSamples = 50,
      al_recentQuantile = 9 / 10, al_baselineWindowAge = 10, al_correlationWindowSize = 50,
      al_initialRejectionFactor = 0, al_maxRejectionFactor = 0, al_onLimitExceeded = False, al_onLimitChanged = False\<rparr>"

definition WithLimits :: "uint \<Rightarrow> uint \<Rightarrow> uint \<Rightarrow> al_config \<Rightarrow> al_config go" where
  "WithLimits minLimit maxLimit initialLimit c =
     go_bind (Assert (minLimit \<le> maxLimit) ''minLimit must be <= maxLimit'') (\<lambda>_.
     go_bind (Assert (minLimit \<le> initialLimit \<and> initialLimit \<le> maxLimit) ''initialLimit must be between minLimit and maxLimit'') (\<lambda>_.
     Inr (c\<lparr>al_minLimit := float_of_uint (max 1 minLimit), al_maxLimit := float_of_uint maxLimit, al_initialLimit := initialLimit\<rparr>)))"

definition WithMaxLimitFactor :: "float64 \<Rightarrow> al_config \<Rightarrow> al_config go" where
  "WithMaxLimitFactor maxLimitFactor c =
     go_bind (Assert (maxLimitFactor \<ge> 1) ''maxLimitFactor must be >= 1'') (\<lambda>_. Inr (c\<lparr>al_maxLimitFactor := maxLimitFactor\<rparr>))"

definition WithMaxLimitFactorDecay :: "float64 \<Rightarrow> float64 \<Rightarrow> al_config \<Rightarrow> al_config go" where
  "WithMaxLimitFactorDecay maxLimitFactorDecay minLimitFactor c =
     go_bind (Assert (maxLimitFactorDecay \<ge> 0) ''maxLimitFactorDecay must be >= 0'') (\<lambda>_.
     go_bind (Assert (minLimitFactor \<ge> 1) ''minLimitFactor must be >= 1'') (\<lambda>_.
     Inr (c\<lparr>al_maxLimitFactorDecay := maxLimitFactorDecay, al_minLimitFactor := minLimitFactor\<rparr>)))"

definition WithMaxLimitFunc :: "(int \<Rightarrow> float64) option \<Rightarrow> al_config \<Rightarrow> al_config" where
  "WithMaxLimitFunc maxLimitFunc c = c\<lparr>al_maxLimitFunc := maxLimitFunc\<rparr>"

definition WithMaxLimitStabilizationWindow :: "duration \<Rightarrow> al_config \<Rightarrow> al_config go" where
  "WithMaxLimitStabilizationWindow window c =
     go_bind (Assert (window \<ge> 0) ''maxLimitStabilizationWindow must be >= 0'') (\<lambda>_. Inr (c\<lparr>al_maxLimitStabilizationWindow := window\<rparr>))"

definition WithRecentWindow :: "duration \<Rightarrow> duration \<Rightarrow> uint \<Rightarrow> al_config \<Rightarrow> al_config go" where
  "WithRecentWindow minDuration maxDuration minSamples c =
     go_bind (Assert (minDuration \<le> maxDuration) ''minDuration must be <= maxDuration'') (\<lambda>_.
     Inr (c\<lparr>al_recentWindowMinDuration := minDuration, al_recentWindowMaxDuration := maxDuration, al_recentWindowMinSamples := minSamples\<rparr>))"

definition WithRecentQuantile :: "float64 \<Rightarrow> al_config \<Rightarrow> al_config go" where
  "WithRecentQuantile quantile c =
     go_bind (Assert (quantile > 0 \<and> quantile < 1) ''recentQuantile must be between 0 and 1 exclusive'') (\<lambda>_.
     Inr (c\<lparr>al_recentQuantile := quantile\<rparr>))"

definition WithBaselineWindow :: "uint \<Rightarrow> al_config \<Rightarrow> al_config" where
  "WithBaselineWindow baselineAge c = c\<lparr>al_baselineWindowAge := baselineAge\<rparr>"

definition WithCorrelationWindow :: "uint \<Rightarrow> al_config \<Rightarrow> al_config" where
  "WithCorrelationWindow n c = c\<lparr>al_correlationWindowSize := n\<rparr>"

definition WithQueueing :: "float64 \<Rightarrow> float64 \<Rightarrow> al_config \<Rightarrow> al_config go" where
  "WithQueueing initialRejectionFactor maxRejectionFactor c =
     go_bind (Assert (initialRejectionFactor \<ge> 1) ''initialRejectionFactor must be >= 1'') (\<lambda>_.
     go_bind (Assert (maxRejectionFactor \<ge> 1) ''maxRejectionFactor must be >= 1'') (\<lambda>_.
     go_bind (Assert (initialRejectionFactor \<le> maxRejectionFactor) ''initialRejectionFactor must be <= maxRejectionFactor'') (\<lambda>_.
     Inr (c\<lparr>al_initialRejectionFactor := initialRejectionFactor, al_maxRejectionFactor := maxRejectionFactor\<rparr>))))"

definition al_WithMaxWaitTime :: "duration \<Rightarrow> al_config \<Rightarrow> al_config" where
  "al_WithMaxWaitTime maxWaitTime c = c\<lparr>al_maxWaitTime := maxWaitTime\<rparr>"

definition OnLimitExceeded :: "bool \<Rightarrow> al_config \<Rightarrow> al_config" where
  "OnLimitExceeded listener c = c\<lparr>al_onLimitExceeded := listener\<rparr>"

definition OnLimitChanged :: "bool \<Rightarrow> al_config \<Rightarrow> al_config" where
  "OnLimitChanged listener c = c\<lparr>al_onLimitChanged := listener\<rparr>"

section \<open>Samples of recent execution times\<close>

record 'd tdigest_api =
  td_New :: 'd
  td_Add :: "float64 \<Rightarrow> 'd \<Rightarrow> 'd"
  td_Reset :: "'d \<Rightarrow> 'd"
  td_Quantile :: "float64 \<Rightarrow> 'd \<Rightarrow> nfloat"

record 'd tdigestSample =
  MinRTT :: duration
  sample_MaxInflight :: int
  sample_Size :: uint
  TDigest :: 'd

definition sample_Add :: "'d tdigest_api \<Rightarrow> duration \<Rightarrow> int \<Rightarrow> 'd tdigestSample \<Rightarrow> 'd tdigestSample" where
  "sample_Add D rtt inflight td =
     (let td1 = (if sample_Size td = 0 then td\<lparr>MinRTT := rtt, sample_MaxInflight := inflight\<rparr>
                 else td\<lparr>MinRTT := min (MinRTT td) rtt, sample_MaxInflight := max (sample_MaxInflight td) inflight\<rparr>)
      in td1\<lparr>sample_Size := sample_Size td1 + 1, TDigest := td_Add D (of_int rtt) (TDigest td1)\<rparr>)"

definition sample_Reset :: "'d tdigest_api \<Rightarrow> 'd tdigestSample \<Rightarrow> 'd tdigestSample" where
  "sample_Reset D td = \<lparr>MinRTT = 0, sample_MaxInflight = 0, sample_Size = 0, TDigest = td_Reset D (TDigest td)\<rparr>"

section \<open>The limiter\<close>

record LimitChangedEvent =
  OldLimit :: uint
  NewLimit :: uint

record 'd adaptiveLimiter =
  al_config :: al_config
  al_semaphore :: DynamicSemaphore
  al_limit :: float64
  al_maxInflightWindow :: MaxWindow
  al_recentRTT :: "'d tdigestSample"
  al_lastMaxInflight :: int
  al_medianFilter :: MovingMedian
  al_smoothedRecentRTT :: MovingAverage
  al_baselineRTT :: MovingAverage
  al_nextUpdateTime :: nanotime
  al_throughputCorrelation :: CorrelationWindow
  al_rttCorrelation :: CorrelationWindow
  al_events :: "LimitChangedEvent list"

text \<open>The limiter that \<^verbatim>\<open>Build\<close> makes; with rejection factors it is wrapped in a queueing limiter, which waits indefinitely by default.\<close>

definition has_queue :: "al_config \<Rightarrow> bool" where
  "has_queue c \<longleftrightarrow> al_initialRejectionFactor c \<noteq> 0 \<and> al_maxRejectionFactor c \<noteq> 0"

definition al_Build :: "'d tdigest_api \<Rightarrow> nanotime \<Rightarrow> al_config \<Rightarrow> 'd adaptiveLimiter" where
  "al_Build D now c =
     \<lparr>al_config = (if has_queue c \<and> al_maxWaitTime c = 0 then c\<lparr>al_maxWaitTime := - 1\<rparr> else c),
      al_semaphore = NewDynamicSemaphore (int (unat (al_initialLimit c))), al_limit = float_of_uint (al_initialLimit c),
      al_maxInflightWindow = NewMaxWindow (al_maxLimitStabilizationWindow c),
      al_recentRTT = \<lparr>MinRTT = 0, sample_MaxInflight = 0, sample_Size = 0, TDigest = td_New D\<rparr>,
      al_lastMaxInflight = 0, al_medianFilter = NewMovingMedian smoothedSamples,
      al_smoothedRecentRTT = NewMovingAverage (of_nat smoothedSamples) al_warmupSamples,
      al_baselineRTT = NewMovingAverage (al_baselineWindowAge c) al_warmupSamples, al_nextUpdateTime = now,
      al_throughputCorrelation = NewCorrelationWindow (al_correlationWindowSize c) al_warmupSamples,
      al_rttCorrelation = NewCorrelationWindow (al_correlationWindowSize c) al_warmupSamples, al_events = []\<rparr>"

datatype limitChange = Increase | Decrease | Hold

definition computeChange :: "int \<Rightarrow> int \<Rightarrow> int \<Rightarrow> bool \<Rightarrow> float64 \<Rightarrow> float64 \<Rightarrow> float64 \<Rightarrow> limitChange \<times> string" where
  "computeChange queueSize alpha beta overloaded throughputCorr throughputCV rttCorr =
     (if queueSize > beta then (Decrease, ''queue'')
      else if overloaded \<and> throughputCorr < 0 then (Decrease, ''thrptCorr'')
      else if overloaded \<and> throughputCorr < 3 / 10 \<and> rttCorr > 5 / 10 then (Decrease, ''thrptCorrRtt'')
      else if overloaded \<and> throughputCV < 2 / 10 \<and> rttCorr > 5 / 10 then (Decrease, ''thrptCV'')
      else if queueSize < alpha then (Increase, ''queue'')
      else (Hold, ''queue''))"

definition computeMaxLimit :: "int \<Rightarrow> al_config \<Rightarrow> float64" where
  "computeMaxLimit inflight c =
     (case al_maxLimitFunc c of
        Some f \<Rightarrow> f inflight
      | None \<Rightarrow>
          of_int inflight *
            (if al_maxLimitFactorDecay c > 0 \<and> inflight > 0
             then max (al_maxLimitFactor c - al_maxLimitFactorDecay c * log 10 (of_int inflight)) (al_minLimitFactor c)
             else al_maxLimitFactor c))"

text \<open>The part of \<^verbatim>\<open>updateLimit\<close> that bounds the new limit by the maximum for the inflight executions, and by the absolute limits.\<close>

definition limit_by_max :: "float64 \<Rightarrow> float64 \<Rightarrow> float64 \<Rightarrow> float64 go" where
  "limit_by_max oldLimit newLimit maxLimit =
     (if newLimit > maxLimit
      then if oldLimit > maxLimit
           then go_bind (decreaseFunc (float_to_int oldLimit)) (\<lambda>d. Inr (oldLimit - of_int d))
           else Inr maxLimit
      else Inr newLimit)"

definition clamp_limit :: "al_config \<Rightarrow> float64 \<Rightarrow> float64" where
  "clamp_limit c newLimit =
     (if newLimit > al_maxLimit c then al_maxLimit c else if newLimit < al_minLimit c then al_minLimit c else newLimit)"

definition changed_limit :: "limitChange \<Rightarrow> float64 \<Rightarrow> float64 go" where
  "changed_limit change oldLimit =
     (case change of
        Decrease \<Rightarrow> go_bind (decreaseFunc (float_to_int oldLimit)) (\<lambda>d. Inr (oldLimit - of_int d))
      | Increase \<Rightarrow> go_bind (increaseFunc (float_to_int oldLimit)) (\<lambda>d. Inr (oldLimit + of_int d))
      | Hold \<Rightarrow> Inr oldLimit)"

definition max_inflight :: "int \<Rightarrow> nanotime \<Rightarrow> 'd adaptiveLimiter \<Rightarrow> (int \<times> 'd adaptiveLimiter) go" where
  "max_inflight inflight now l =
     (if Configured (al_maxInflightWindow l)
      then go_bind (MaxWindow_Add inflight now (al_maxInflightWindow l)) (\<lambda>(m, w). Inr (m, l\<lparr>al_maxInflightWindow := w\<rparr>))
      else Inr (inflight, l))"

text \<open>The call of the listener, during which the code gives up its lock, and what it does when it has the lock again.\<close>

definition limit_changes :: "float64 \<Rightarrow> 'd adaptiveLimiter \<Rightarrow> bool" where
  "limit_changes newLimit l \<longleftrightarrow>
     (word_of_int (float_to_int (al_limit l)) :: uint) \<noteq> word_of_int (float_to_int newLimit) \<and> al_onLimitChanged (al_config l)"

definition log_change :: "float64 \<Rightarrow> 'd adaptiveLimiter \<Rightarrow> 'd adaptiveLimiter" where
  "log_change newLimit l =
     (if limit_changes newLimit l
      then l\<lparr>al_events := al_events l @ [\<lparr>OldLimit = word_of_int (float_to_int (al_limit l)), NewLimit = word_of_int (float_to_int newLimit)\<rparr>]\<rparr>
      else l)"

definition store_limit :: "float64 \<Rightarrow> 'd adaptiveLimiter \<Rightarrow> 'd adaptiveLimiter" where
  "store_limit newLimit l = l\<lparr>al_semaphore := SetSize (float_to_int newLimit) (al_semaphore l), al_limit := newLimit\<rparr>"

definition set_limit :: "float64 \<Rightarrow> 'd adaptiveLimiter \<Rightarrow> 'd adaptiveLimiter" where
  "set_limit newLimit l = store_limit newLimit (log_change newLimit l)"

definition decideLimit :: "float64 \<Rightarrow> int \<Rightarrow> nanotime \<Rightarrow> 'd adaptiveLimiter \<Rightarrow> (float64 \<times> 'd adaptiveLimiter) run" where
  "decideLimit recentRTT inflight now l =
     (let (baselineRTT, baseline) = MovingAverage_Add recentRTT (al_baselineRTT l) in
      if recentRTT = 0 then None
      else let gradient = baselineRTT / recentRTT;
               queueSize = float_to_int (math_Ceil (al_limit l * (1 - gradient)));
               throughput = of_int inflight / (recentRTT / 10 ^ 9);
               oldLimit = al_limit l
           in run_go (CorrelationWindow_Add (of_int inflight) throughput (al_throughputCorrelation l)) (\<lambda>((throughputCorr, _, throughputCV), tw).
              run_go (CorrelationWindow_Add (of_int inflight) recentRTT (al_rttCorrelation l)) (\<lambda>((rttCorr, _, _), rw).
              run_go (alphaFunc (float_to_int oldLimit)) (\<lambda>alpha.
              run_go (betaFunc (float_to_int oldLimit)) (\<lambda>beta.
              let (change, reason) = computeChange queueSize alpha beta (IsFull (al_semaphore l)) throughputCorr throughputCV rttCorr in
              run_go (changed_limit change oldLimit) (\<lambda>newLimit.
              run_go (max_inflight inflight now (l\<lparr>al_baselineRTT := baseline, al_throughputCorrelation := tw, al_rttCorrelation := rw\<rparr>)) (\<lambda>(maxInflight, l1).
              run_go (limit_by_max oldLimit newLimit (computeMaxLimit maxInflight (al_config l1))) (\<lambda>newLimit.
              run_return (clamp_limit (al_config l1) newLimit, l1)))))))))"

definition updateLimit :: "float64 \<Rightarrow> int \<Rightarrow> nanotime \<Rightarrow> 'd adaptiveLimiter \<Rightarrow> 'd adaptiveLimiter run" where
  "updateLimit recentRTT inflight now l =
     run_bind (decideLimit recentRTT inflight now l) (\<lambda>(newLimit, l1). run_return (set_limit newLimit l1))"

definition al_record :: "'d tdigest_api \<Rightarrow> nanotime \<Rightarrow> duration \<Rightarrow> int \<Rightarrow> bool \<Rightarrow> 'd adaptiveLimiter \<Rightarrow> 'd adaptiveLimiter run" where
  "al_record D now rtt inflight dropped l =
     (let l1 = (if \<not> dropped then l\<lparr>al_recentRTT := sample_Add D rtt inflight (al_recentRTT l)\<rparr> else l) in
      run_bind
        (if now > al_nextUpdateTime l1 \<and> sample_Size (al_recentRTT l1) \<ge> al_recentWindowMinSamples (al_config l1)
         then case td_Quantile D (al_recentQuantile (al_config l1)) (TDigest (al_recentRTT l1)) of
                None \<Rightarrow> None
              | Some quantile \<Rightarrow>
                  run_go (MovingMedian_Add quantile (al_medianFilter l1)) (\<lambda>(filteredRTT, mf).
                  let (smoothedRTT, avg) = MovingAverage_Add filteredRTT (al_smoothedRecentRTT l1);
                      l2 = l1\<lparr>al_medianFilter := mf, al_smoothedRecentRTT := avg, al_lastMaxInflight := sample_MaxInflight (al_recentRTT l1)\<rparr>
                  in run_bind (updateLimit smoothedRTT (sample_MaxInflight (al_recentRTT l2)) now l2) (\<lambda>l3.
                     let minRTT = MinRTT (al_recentRTT l3);
                         minWindowTime = max (i64 (minRTT * 2)) (al_recentWindowMinDuration (al_config l3))
                     in run_return (l3\<lparr>al_recentRTT := sample_Reset D (al_recentRTT l3),
                          al_nextUpdateTime := now + min minWindowTime (al_recentWindowMaxDuration (al_config l3))\<rparr>)))
         else run_return l1)
        (\<lambda>l4. run_go (Release (al_semaphore l4)) (\<lambda>s. run_return (l4\<lparr>al_semaphore := s\<rparr>))))"

section \<open>Permits\<close>

record recordingPermit =
  pm_startTime :: nanotime
  pm_currentInflight :: int
  pm_userID :: string
  pm_tracksUsage :: bool

definition newPermit :: "nanotime \<Rightarrow> 'd adaptiveLimiter \<Rightarrow> recordingPermit" where
  "newPermit now l = \<lparr>pm_startTime = now, pm_currentInflight = Used (al_semaphore l), pm_userID = [], pm_tracksUsage = False\<rparr>"

text \<open>What acquiring returns: a permit, an error, or the waiter that the caller then blocks on.\<close>

datatype 'r permit_outcome = Granted recordingPermit | Denied "'r error" | Waiting nat

definition map_wait_error :: "'r error \<Rightarrow> 'r error" where
  "map_wait_error err = (if errors_Is (Some err) (Some ErrWaitExceeded) then al_ErrExceeded else err)"

definition outcome_permit :: "nanotime \<Rightarrow> 'r acquire_outcome \<times> DynamicSemaphore \<Rightarrow> 'd adaptiveLimiter \<Rightarrow> 'r permit_outcome \<times> 'd adaptiveLimiter" where
  "outcome_permit now r l =
     (let l' = l\<lparr>al_semaphore := snd r\<rparr> in
      (case fst r of Acquired \<Rightarrow> Granted (newPermit now l') | Refused err \<Rightarrow> Denied (map_wait_error err) | Blocked i \<Rightarrow> Waiting i, l'))"

definition al_AcquirePermit :: "nanotime \<Rightarrow> 'd adaptiveLimiter \<Rightarrow> 'r permit_outcome \<times> 'd adaptiveLimiter" where
  "al_AcquirePermit now l = outcome_permit now (sem_Acquire (al_semaphore l)) l"

definition al_AcquirePermitWithMaxWait :: "duration \<Rightarrow> nanotime \<Rightarrow> 'd adaptiveLimiter \<Rightarrow> 'r permit_outcome \<times> 'd adaptiveLimiter" where
  "al_AcquirePermitWithMaxWait maxWaitTime now l = outcome_permit now (AcquireWithMaxWait maxWaitTime (al_semaphore l)) l"

text \<open>
  The end of a wait: the waiter was woken, or the context or timer is done and the waiter is drained; \<open>wrap\<close> is what the method does with the error,
  \<open>map_wait_error\<close> in \<^verbatim>\<open>AcquirePermitWithMaxWait\<close>.
\<close>

definition al_finish_wait :: "('r error \<Rightarrow> 'r error) \<Rightarrow> nanotime \<Rightarrow> nat \<Rightarrow> 'r error option \<Rightarrow> 'd adaptiveLimiter \<Rightarrow> ('r permit_outcome \<times> 'd adaptiveLimiter) option" where
  "al_finish_wait wrap now i err l =
     (case err of
        None \<Rightarrow> if i \<in> set (sem_closed (al_semaphore l)) then Some (Granted (newPermit now l), l) else None
      | Some e \<Rightarrow>
          let (r, s) = drainWaiter i e (al_semaphore l); l' = l\<lparr>al_semaphore := s\<rparr>
          in Some (case r of None \<Rightarrow> Granted (newPermit now l') | Some e' \<Rightarrow> Denied (wrap e'), l'))"

definition al_TryAcquirePermit :: "nanotime \<Rightarrow> 'd adaptiveLimiter \<Rightarrow> recordingPermit option \<times> 'd adaptiveLimiter" where
  "al_TryAcquirePermit now l =
     (let (ok, s) = TryAcquire (al_semaphore l); l' = l\<lparr>al_semaphore := s\<rparr> in (if \<not> ok then None else Some (newPermit now l'), l'))"

definition al_CanAcquirePermit :: "'d adaptiveLimiter \<Rightarrow> bool" where
  "al_CanAcquirePermit l \<longleftrightarrow> \<not> IsFull (al_semaphore l)"

definition Limit :: "'d adaptiveLimiter \<Rightarrow> int" where
  "Limit l = float_to_int (al_limit l)"

definition Inflight :: "'d adaptiveLimiter \<Rightarrow> int" where
  "Inflight l = Used (al_semaphore l)"

definition MaxInflight :: "'d adaptiveLimiter \<Rightarrow> int" where
  "MaxInflight l = al_lastMaxInflight l"

definition Queued :: "'d adaptiveLimiter \<Rightarrow> int" where
  "Queued l = Waiters (al_semaphore l)"

definition al_Reset :: "'d tdigest_api \<Rightarrow> nanotime \<Rightarrow> 'd adaptiveLimiter \<Rightarrow> 'd adaptiveLimiter" where
  "al_Reset D now l =
     l\<lparr>al_semaphore := SetSize (int (unat (al_initialLimit (al_config l)))) (al_semaphore l),
       al_limit := float_of_uint (al_initialLimit (al_config l)), al_maxInflightWindow := MaxWindow_Reset (al_maxInflightWindow l),
       al_recentRTT := sample_Reset D (al_recentRTT l), al_medianFilter := MovingMedian_Reset (al_medianFilter l),
       al_smoothedRecentRTT := MovingAverage_Reset (al_smoothedRecentRTT l), al_baselineRTT := MovingAverage_Reset (al_baselineRTT l),
       al_nextUpdateTime := now, al_rttCorrelation := CorrelationWindow_Reset (al_rttCorrelation l),
       al_throughputCorrelation := CorrelationWindow_Reset (al_throughputCorrelation l)\<rparr>"

text \<open>The methods of a permit; the usage tracker of its prioritizer is threaded through.\<close>

definition permit_RecordUsage :: "'d tdigest_api \<Rightarrow> nanotime \<Rightarrow> string \<Rightarrow> int \<Rightarrow> recordingPermit \<Rightarrow> usageTracker \<Rightarrow> 'd adaptiveLimiter
    \<Rightarrow> ('d adaptiveLimiter \<times> usageTracker) run" where
  "permit_RecordUsage D now userID usage p ut l =
     (let duration = now - pm_startTime p in
      run_go (if userID \<noteq> [] \<and> pm_tracksUsage p then usage_RecordUsage userID (if usage = - 1 then duration else usage) now ut else Inr ut) (\<lambda>ut'.
      run_bind (al_record D now duration (pm_currentInflight p) False l) (\<lambda>l'. run_return (l', ut'))))"

definition permit_Record :: "'d tdigest_api \<Rightarrow> nanotime \<Rightarrow> recordingPermit \<Rightarrow> usageTracker \<Rightarrow> 'd adaptiveLimiter
    \<Rightarrow> ('d adaptiveLimiter \<times> usageTracker) run" where
  "permit_Record D now p ut l =
     (if pm_userID p \<noteq> [] \<and> pm_tracksUsage p then permit_RecordUsage D now (pm_userID p) (- 1) p ut l
      else run_bind (al_record D now (now - pm_startTime p) (pm_currentInflight p) False l) (\<lambda>l'. run_return (l', ut)))"

definition permit_Drop :: "'d tdigest_api \<Rightarrow> nanotime \<Rightarrow> recordingPermit \<Rightarrow> 'd adaptiveLimiter \<Rightarrow> 'd adaptiveLimiter run" where
  "permit_Drop D now p l = al_record D now (now - pm_startTime p) (pm_currentInflight p) True l"

section \<open>The interface of the t-digest\<close>

text \<open>\<open>holds xs d\<close> says that the digest was last reset before the samples \<open>xs\<close> were added; a quantile of samples lies between the least and the greatest.\<close>

locale tdigest_laws =
  fixes D :: "'d tdigest_api" and holds :: "float64 list \<Rightarrow> 'd \<Rightarrow> bool"
  assumes td_new: "holds [] (td_New D)"
    and td_reset: "holds xs d \<Longrightarrow> holds [] (td_Reset D d)"
    and td_add: "holds xs d \<Longrightarrow> holds (xs @ [x]) (td_Add D x d)"
    and td_quantile: "holds xs d \<Longrightarrow> xs \<noteq> [] \<Longrightarrow> 0 < q \<Longrightarrow> q < 1 \<Longrightarrow> \<forall>x \<in> set xs. lo \<le> x \<and> x \<le> hi
          \<Longrightarrow> \<exists>v. td_Quantile D q d = Some v \<and> lo \<le> v \<and> v \<le> hi"

text \<open>A digest that keeps every sample.\<close>

definition list_digest :: "float64 list tdigest_api" where
  "list_digest = \<lparr>td_New = [], td_Add = (\<lambda>x d. d @ [x]), td_Reset = (\<lambda>_. []),
     td_Quantile = (\<lambda>q d. if d = [] then None else Some (sort d ! nat \<lfloor>q * real (length d)\<rfloor>))\<rparr>"

interpretation list_td: tdigest_laws list_digest "(=)"
proof
  fix xs d :: "float64 list" and q lo hi :: real
  assume a: "xs = d" "xs \<noteq> []" "0 < q" "q < 1" "\<forall>x \<in> set xs. lo \<le> x \<and> x \<le> hi"
  have "q * real (length d) < real (length d)" using a by simp
  then have "nat \<lfloor>q * real (length d)\<rfloor> < length d" using a by (simp add: nat_less_iff floor_less_iff)
  then have "sort d ! nat \<lfloor>q * real (length d)\<rfloor> \<in> set d" by (metis length_sort nth_mem set_sort)
  then show "\<exists>v. td_Quantile list_digest q d = Some v \<and> lo \<le> v \<and> v \<le> hi" using a by (auto simp: list_digest_def)
qed (simp_all add: list_digest_def)

section \<open>The parts of an update\<close>

definition al_cfg_ok :: "al_config \<Rightarrow> bool" where
  "al_cfg_ok c \<longleftrightarrow> 1 \<le> al_minLimit c \<and> al_minLimit c \<le> float_of_uint (al_initialLimit c) \<and> float_of_uint (al_initialLimit c) \<le> al_maxLimit c
     \<and> al_maxLimit c \<le> 2 ^ 64 \<and> 0 < al_recentWindowMinSamples c \<and> 0 < al_recentQuantile c \<and> al_recentQuantile c < 1
     \<and> 0 < al_correlationWindowSize c \<and> 0 < al_baselineWindowAge c"

definition limit_step :: "int \<Rightarrow> int" where
  "limit_step n = (if n < 100 then 1 else if n < 1000 then 2 else \<lfloor>log 10 n\<rfloor>)"

lemma i64_small: "\<bar>x\<bar> \<le> 1000 \<Longrightarrow> i64 x = x"
  by (rule i64_id) (auto simp: in_i64_def abs_le_iff)

lemma log10_bounds:
  assumes "1000 \<le> n" "n \<le> 2 ^ 64"
  shows "3 \<le> log 10 (real_of_int n)" "log 10 (real_of_int n) \<le> 64"
proof -
  have "log 10 (10 ^ 3) \<le> log 10 (real_of_int n)" using assms(1) by (subst log_le_cancel_iff) simp_all
  then show "3 \<le> log 10 (real_of_int n)" using log_pow_cancel[of "10 :: real" 3] by simp
  have "real_of_int n \<le> 10 ^ 64" using assms(2) by (simp add: le_trans)
  then have "log 10 (real_of_int n) \<le> log 10 (10 ^ 64)" using assms(1) by (subst log_le_cancel_iff) simp_all
  then show "log 10 (real_of_int n) \<le> 64" using log_pow_cancel[of "10 :: real" 64] by simp
qed

lemma Log10Func_step:
  assumes "0 \<le> n" "n \<le> 2 ^ 64" "\<bar>k\<bar> \<le> 10"
  shows "Log10Func k n = Inr (k * limit_step n)"
proof -
  consider "n < 100" | "100 \<le> n" "n < 1000" | "1000 \<le> n" by linarith
  then show ?thesis
  proof cases
    case 1
    then have "log10Values ! nat n = 1" using assms(1) by (simp add: log10Values_def nth_append nat_less_iff)
    then show ?thesis using 1 assms by (simp add: Log10Func_def limit_step_def log10Values_def slice_index_def i64_small)
  next
    case 2
    then have "log10Values ! nat n = 2" by (simp add: log10Values_def nth_append nat_less_iff)
    then show ?thesis using 2 assms by (simp add: Log10Func_def limit_step_def slice_index_def i64_small) (simp add: log10Values_def)
  next
    case 3
    note b = log10_bounds[OF 3 assms(2)]
    have f: "float_to_int (log 10 (real_of_int n)) = \<lfloor>log 10 (real_of_int n)\<rfloor>" using b(1) by (simp add: float_to_int_def)
    have "0 \<le> \<lfloor>log 10 (real_of_int n)\<rfloor>" "\<lfloor>log 10 (real_of_int n)\<rfloor> \<le> 64" using b by (simp_all add: floor_le_iff le_floor_iff)
    then have "\<bar>k * \<lfloor>log 10 (real_of_int n)\<rfloor>\<bar> \<le> 10 * 64" unfolding abs_mult using assms(3) by (intro mult_mono) auto
    then show ?thesis using 3 f by (simp add: Log10Func_def limit_step_def log10Values_def i64_small)
  qed
qed

lemma limit_step_pos: "0 \<le> n \<Longrightarrow> n \<le> 2 ^ 64 \<Longrightarrow> 1 \<le> limit_step n"
  using log10_bounds(1)[of n] by (auto simp: limit_step_def le_floor_iff)

lemma limit_int:
  assumes "1 \<le> x" "x \<le> 2 ^ 64"
  shows "0 \<le> float_to_int x" "float_to_int x \<le> 2 ^ 64"
proof -
  have "\<lfloor>x\<rfloor> \<le> \<lfloor>real_of_int (2 ^ 64)\<rfloor>" using assms(2) by (intro floor_mono) simp
  then have "\<lfloor>x\<rfloor> \<le> 2 ^ 64" by (simp only: floor_of_int)
  moreover have "float_to_int x = \<lfloor>x\<rfloor>" using assms(1) by (simp add: float_to_int_def)
  ultimately show "0 \<le> float_to_int x" "float_to_int x \<le> 2 ^ 64" using assms(1) by (auto simp: le_floor_iff)
qed

text \<open>A step of the limit within its bounds: it never moves by more than \<open>limit_step\<close>.\<close>

definition step_of :: "float64 \<Rightarrow> float64" where
  "step_of x = of_int (limit_step (float_to_int x))"

lemma changed_limit_step:
  assumes "1 \<le> x" "x \<le> 2 ^ 64"
  shows "changed_limit change x = Inr (case change of Decrease \<Rightarrow> x - step_of x | Increase \<Rightarrow> x + step_of x | Hold \<Rightarrow> x)"
    "alphaFunc (float_to_int x) = Inr (3 * limit_step (float_to_int x))" "betaFunc (float_to_int x) = Inr (6 * limit_step (float_to_int x))"
  using Log10Func_step[OF limit_int[OF assms], of 1] Log10Func_step[OF limit_int[OF assms], of 3] Log10Func_step[OF limit_int[OF assms], of 6]
  by (cases change; simp add: changed_limit_def increaseFunc_def decreaseFunc_def alphaFunc_def betaFunc_def step_of_def)+

lemma limit_by_max_step:
  assumes "1 \<le> x" "x \<le> 2 ^ 64"
  shows "limit_by_max x y m = Inr (if y > m then if x > m then x - step_of x else m else y)"
  using Log10Func_step[OF limit_int[OF assms], of 1] by (simp add: limit_by_max_def decreaseFunc_def step_of_def)

lemma step_of_pos: "1 \<le> x \<Longrightarrow> x \<le> 2 ^ 64 \<Longrightarrow> 1 \<le> step_of x"
  using limit_step_pos[OF limit_int] by (simp add: step_of_def)

definition next_limit :: "al_config \<Rightarrow> limitChange \<Rightarrow> float64 \<Rightarrow> float64 \<Rightarrow> float64" where
  "next_limit c change m x =
     (let y = (case change of Decrease \<Rightarrow> x - step_of x | Increase \<Rightarrow> x + step_of x | Hold \<Rightarrow> x)
      in clamp_limit c (if y > m then if x > m then x - step_of x else m else y))"

lemma next_limit_bounds:
  assumes "1 \<le> al_minLimit c" "al_minLimit c \<le> x" "x \<le> al_maxLimit c" "al_maxLimit c \<le> 2 ^ 64"
  shows "al_minLimit c \<le> next_limit c change m x" "next_limit c change m x \<le> al_maxLimit c" "\<bar>next_limit c change m x - x\<bar> \<le> step_of x"
    "next_limit c Decrease m x = max (al_minLimit c) (x - step_of x)" "x \<le> m \<Longrightarrow> next_limit c Increase m x = min (al_maxLimit c) (min m (x + step_of x))"
proof -
  have s: "1 \<le> step_of x" using assms by (intro step_of_pos) auto
  show "al_minLimit c \<le> next_limit c change m x" "next_limit c change m x \<le> al_maxLimit c" "\<bar>next_limit c change m x - x\<bar> \<le> step_of x"
    using assms s by (auto simp: next_limit_def clamp_limit_def Let_def split: limitChange.splits)
  show "next_limit c Decrease m x = max (al_minLimit c) (x - step_of x)" "x \<le> m \<Longrightarrow> next_limit c Increase m x = min (al_maxLimit c) (min m (x + step_of x))"
    using assms s by (auto simp: next_limit_def clamp_limit_def Let_def)
qed

lemma MaxWindow_Add_total: "\<exists>m w'. MaxWindow_Add v now w = Inr (m, w')"
  by (auto simp: MaxWindow_Add_def MaxWindow_Value_def Let_def split: list.split)

lemma max_inflight_total:
  "\<exists>m w'. max_inflight v now l = Inr (m, l\<lparr>al_maxInflightWindow := w'\<rparr>)"
proof (cases "Configured (al_maxInflightWindow l)")
  case True
  then show ?thesis using MaxWindow_Add_total[of v now "al_maxInflightWindow l"] by (auto simp: max_inflight_def)
next
  case False
  then show ?thesis by (cases l) (auto simp: max_inflight_def)
qed

section \<open>Limiters that work within their bounds\<close>

definition in_range :: "float64 \<Rightarrow> bool" where
  "in_range x \<longleftrightarrow> 1 \<le> x \<and> x \<le> 2 ^ 63"

lemma median_add_range:
  assumes "median_inv 5 vs m" "\<forall>v \<in> set vs. in_range v" "in_range v"
  shows "\<exists>u m'. MovingMedian_Add v m = Inr (u, m') \<and> median_inv 5 (vs @ [v]) m' \<and> in_range u"
proof -
  obtain m' where m': "MovingMedian_Add v m = Inr (if length vs < 5 - 1 then v else sort (last_n 5 (vs @ [v])) ! (5 div 2), m')" "median_inv 5 (vs @ [v]) m'"
    using MovingMedian_Add_step[of 5 vs m v] assms(1) by auto
  have "in_range (sort (last_n 5 (vs @ [v])) ! (5 div 2))" if "\<not> length vs < 5 - 1"
  proof -
    have "5 div 2 < length (sort (last_n 5 (vs @ [v])))" using that by simp
    then have "sort (last_n 5 (vs @ [v])) ! (5 div 2) \<in> set (sort (last_n 5 (vs @ [v])))" by (rule nth_mem)
    then have "sort (last_n 5 (vs @ [v])) ! (5 div 2) \<in> set (vs @ [v])" by (auto simp: last_n_def dest: in_set_dropD)
    then show ?thesis using assms(2,3) by auto
  qed
  with m' assms(3) show ?thesis by auto
qed

definition limit_ok :: "'d adaptiveLimiter \<Rightarrow> bool" where
  "limit_ok l \<longleftrightarrow> al_cfg_ok (al_config l) \<and> al_minLimit (al_config l) \<le> al_limit l \<and> al_limit l \<le> al_maxLimit (al_config l)
     \<and> sem_size (al_semaphore l) = float_to_int (al_limit l)"

definition windows_ok :: "'d adaptiveLimiter \<Rightarrow> bool" where
  "windows_ok l \<longleftrightarrow> (\<exists>vs. median_inv 5 vs (al_medianFilter l) \<and> (\<forall>v \<in> set vs. in_range v))
     \<and> average_inv 1 (2 ^ 63) (al_smoothedRecentRTT l) \<and> average_inv 1 (2 ^ 63) (al_baselineRTT l)
     \<and> (\<exists>ps. corr_inv (unat (al_correlationWindowSize (al_config l))) ps (al_throughputCorrelation l))
     \<and> (\<exists>ps. corr_inv (unat (al_correlationWindowSize (al_config l))) ps (al_rttCorrelation l))"

definition sample_ok :: "(float64 list \<Rightarrow> 'd \<Rightarrow> bool) \<Rightarrow> 'd adaptiveLimiter \<Rightarrow> bool" where
  "sample_ok holds l \<longleftrightarrow> (\<exists>xs. holds xs (TDigest (al_recentRTT l)) \<and> (\<forall>x \<in> set xs. in_range x) \<and> (sample_Size (al_recentRTT l) \<noteq> 0 \<longrightarrow> xs \<noteq> []))
     \<and> (sample_Size (al_recentRTT l) \<noteq> 0 \<longrightarrow> 1 \<le> sample_MaxInflight (al_recentRTT l))"

lemma limit_ok_range: "limit_ok l \<Longrightarrow> 1 \<le> al_limit l \<and> al_limit l \<le> 2 ^ 64"
  by (auto simp: limit_ok_def al_cfg_ok_def)

definition queue_size :: "float64 \<Rightarrow> 'd adaptiveLimiter \<Rightarrow> int" where
  "queue_size recentRTT l = float_to_int (math_Ceil (al_limit l * (1 - fst (MovingAverage_Add recentRTT (al_baselineRTT l)) / recentRTT)))"

lemma max_inflight_frame:
  assumes "max_inflight v now l = Inr (m, l\<lparr>al_maxInflightWindow := mw\<rparr>)"
  shows "max_inflight v now (l\<lparr>al_baselineRTT := a, al_throughputCorrelation := tw, al_rttCorrelation := rw\<rparr>)
    = Inr (m, l\<lparr>al_baselineRTT := a, al_throughputCorrelation := tw, al_rttCorrelation := rw, al_maxInflightWindow := mw\<rparr>)"
proof (cases "Configured (al_maxInflightWindow l)")
  case True
  then obtain m' w' where "MaxWindow_Add v now (al_maxInflightWindow l) = Inr (m', w')" using MaxWindow_Add_total by blast
  moreover from this have "l\<lparr>al_maxInflightWindow := w'\<rparr> = l\<lparr>al_maxInflightWindow := mw\<rparr>" "m' = m" using assms True by (simp_all add: max_inflight_def)
  then have "w' = mw" "m' = m" by (auto dest: arg_cong[where f = al_maxInflightWindow])
  ultimately show ?thesis using True by (simp add: max_inflight_def)
next
  case False
  then have "l = l\<lparr>al_maxInflightWindow := mw\<rparr>" "v = m" using assms by (simp_all add: max_inflight_def)
  then have "al_maxInflightWindow l = mw" "v = m" by (auto dest: arg_cong[where f = al_maxInflightWindow])
  then show ?thesis using False by (simp add: max_inflight_def)
qed

lemma decideLimit_step:
  assumes lim: "limit_ok l" and win: "windows_ok l" and r: "in_range r" and i: "1 \<le> i"
  defines "s \<equiv> limit_step (float_to_int (al_limit l))"
  shows "\<exists>l1 tc tcv rc m. decideLimit r i now l = Some (Inr (next_limit (al_config l)
        (fst (computeChange (queue_size r l) (3 * s) (6 * s) (IsFull (al_semaphore l)) tc tcv rc)) (computeMaxLimit m (al_config l)) (al_limit l), l1))
     \<and> windows_ok l1 \<and> al_config l1 = al_config l \<and> al_limit l1 = al_limit l \<and> al_semaphore l1 = al_semaphore l \<and> al_recentRTT l1 = al_recentRTT l
     \<and> (\<exists>mw. max_inflight i now l = Inr (m, l\<lparr>al_maxInflightWindow := mw\<rparr>))"
proof -
  let ?n = "unat (al_correlationWindowSize (al_config l))" and ?x = "al_limit l"
  have n: "0 < ?n" using lim by (auto simp: limit_ok_def al_cfg_ok_def unat_gt_0)
  have x: "1 \<le> ?x" "?x \<le> 2 ^ 64" using limit_ok_range[OF lim] by auto
  have r0: "r \<noteq> 0" "1 \<le> r" "r \<le> 2 ^ 63" using r by (auto simp: in_range_def)
  obtain b avg where b: "MovingAverage_Add r (al_baselineRTT l) = (b, avg)" by (cases "MovingAverage_Add r (al_baselineRTT l)")
  have avg: "average_inv 1 (2 ^ 63) avg" using average_Add(3)[of 1 "2 ^ 63" "al_baselineRTT l" r] win r0 b by (simp add: windows_ok_def)
  let ?t = "of_int i / (r / 10 ^ 9)"
  have nz: "nonzero_pair (of_int i, ?t)" "nonzero_pair (of_int i, r)" using i r0 by (auto simp: nonzero_pair_def)
  obtain ps qs where ps: "corr_inv ?n ps (al_throughputCorrelation l)" "corr_inv ?n qs (al_rttCorrelation l)" using win by (auto simp: windows_ok_def)
  obtain tc cv tcv tw where tw: "CorrelationWindow_Add (of_int i) ?t (al_throughputCorrelation l) = Inr ((tc, cv, tcv), tw)" "corr_inv ?n (ps @ [(of_int i, ?t)]) tw"
    using CorrelationWindow_Add_step[OF n nz(1) ps(1)] by blast
  obtain rc cv1 cv2 rw where rw: "CorrelationWindow_Add (of_int i) r (al_rttCorrelation l) = Inr ((rc, cv1, cv2), rw)" "corr_inv ?n (qs @ [(of_int i, r)]) rw"
    using CorrelationWindow_Add_step[OF n nz(2) ps(2)] by blast
  define l0 where "l0 = l\<lparr>al_baselineRTT := avg, al_throughputCorrelation := tw, al_rttCorrelation := rw\<rparr>"
  obtain m mw where ml: "max_inflight i now l = Inr (m, l\<lparr>al_maxInflightWindow := mw\<rparr>)" using max_inflight_total by blast
  then have m: "max_inflight i now l0 = Inr (m, l0\<lparr>al_maxInflightWindow := mw\<rparr>)" unfolding l0_def by (rule max_inflight_frame)
  define ch where "ch = computeChange (queue_size r l) (3 * s) (6 * s) (IsFull (al_semaphore l)) tc tcv rc"
  obtain change reason where ch': "ch = (change, reason)" by (cases ch)
  have q: "float_to_int (math_Ceil (?x * (1 - b / r))) = queue_size r l" by (simp add: queue_size_def b)
  have u: "decideLimit r i now l = Some (Inr (next_limit (al_config l) change (computeMaxLimit m (al_config l)) ?x, l0\<lparr>al_maxInflightWindow := mw\<rparr>))"
    unfolding decideLimit_def b Let_def prod.case q tw(1) rw(1) run_go_def sum.case changed_limit_step[OF x, folded s_def] if_not_P[OF r0(1)]
      ch_def[symmetric] ch' l0_def[symmetric] m limit_by_max_step[OF x]
    by (simp add: next_limit_def Let_def run_return_def l0_def)
  have w: "windows_ok (l0\<lparr>al_maxInflightWindow := mw\<rparr>)"
    using win avg tw(2) rw(2) by (auto simp: windows_ok_def l0_def)
  have c: "fst ch = change" using ch' by simp
  show ?thesis
    by (rule exI[of _ "l0\<lparr>al_maxInflightWindow := mw\<rparr>"], rule exI[of _ tc], rule exI[of _ tcv], rule exI[of _ rc], rule exI[of _ m])
      (use u w c ml in \<open>simp add: l0_def ch_def exI[of _ mw]\<close>)
qed

lemma updateLimit_step:
  assumes lim: "limit_ok l" and win: "windows_ok l" and r: "in_range r" and i: "1 \<le> i"
  defines "s \<equiv> limit_step (float_to_int (al_limit l))"
  shows "\<exists>l1 tc tcv rc m. updateLimit r i now l = Some (Inr (set_limit (next_limit (al_config l)
        (fst (computeChange (queue_size r l) (3 * s) (6 * s) (IsFull (al_semaphore l)) tc tcv rc)) (computeMaxLimit m (al_config l)) (al_limit l)) l1))
     \<and> windows_ok l1 \<and> al_config l1 = al_config l \<and> al_limit l1 = al_limit l \<and> al_semaphore l1 = al_semaphore l \<and> al_recentRTT l1 = al_recentRTT l
     \<and> (\<exists>mw. max_inflight i now l = Inr (m, l\<lparr>al_maxInflightWindow := mw\<rparr>))"
  using decideLimit_step[OF assms(1-4), of now] unfolding s_def updateLimit_def by (fastforce simp: run_return_def)

lemma set_limit_fields [simp]:
  "al_config (set_limit y l) = al_config l" "al_limit (set_limit y l) = y" "al_semaphore (set_limit y l) = SetSize (float_to_int y) (al_semaphore l)"
  "al_recentRTT (set_limit y l) = al_recentRTT l" "al_medianFilter (set_limit y l) = al_medianFilter l" "al_smoothedRecentRTT (set_limit y l) = al_smoothedRecentRTT l"
  "al_baselineRTT (set_limit y l) = al_baselineRTT l" "al_throughputCorrelation (set_limit y l) = al_throughputCorrelation l" "al_rttCorrelation (set_limit y l) = al_rttCorrelation l"
  by (simp_all add: set_limit_def store_limit_def log_change_def)

lemma sem_size_SetSize [simp]: "sem_size (SetSize n s) = n"
  by (simp add: SetSize_def Let_def)

lemma windows_ok_set_limit [simp]: "windows_ok (set_limit y l) = windows_ok l"
  by (simp add: windows_ok_def)

text \<open>A limiter that is well formed, up to the permits of its semaphore.\<close>

definition lim_inv :: "(float64 list \<Rightarrow> 'd \<Rightarrow> bool) \<Rightarrow> 'd adaptiveLimiter \<Rightarrow> bool" where
  "lim_inv holds l \<longleftrightarrow> limit_ok l \<and> windows_ok l \<and> sample_ok holds l"

lemma lim_inv_semaphore:
  "lim_inv holds l \<Longrightarrow> sem_size s = sem_size (al_semaphore l) \<Longrightarrow> lim_inv holds (l\<lparr>al_semaphore := s\<rparr>)"
  by (simp add: lim_inv_def limit_ok_def windows_ok_def sample_ok_def)

lemma Release_size: "Release s = Inr s' \<Longrightarrow> sem_size s' = sem_size s"
  by (auto simp: Release_def wakeAndAcquire_def Let_def split: if_splits)

lemma wake_loop_used_ge: "sem_used s \<le> sem_used (wake_loop sz s)"
proof (induction sz s rule: wake_loop.induct)
  case (1 sz s)
  then show ?case by (cases "sem_used s < sz \<and> length (sem_waiters s) > 0"; subst wake_loop.simps) (auto simp: wakeAndAcquire_def)
qed

lemma SetSize_used_ge: "sem_used s \<le> sem_used (SetSize n s)"
  using wake_loop_used_ge by (simp add: SetSize_def Let_def)

lemma Release_used: "0 < sem_used s \<Longrightarrow> \<exists>s'. Release s = Inr s'"
  by (auto simp: Release_def Let_def)

definition rtt_ok :: "duration \<Rightarrow> bool" where
  "rtt_ok rtt \<longleftrightarrow> 1 \<le> rtt \<and> rtt < 2 ^ 63"

lemma rtt_in_range: "rtt_ok rtt \<Longrightarrow> in_range (of_int rtt)"
proof -
  assume "rtt_ok rtt"
  then have "1 \<le> rtt" "real_of_int rtt \<le> real_of_int (2 ^ 63)" unfolding rtt_ok_def by (simp, intro of_int_le_iff[THEN iffD2], simp)
  then show ?thesis by (simp add: in_range_def)
qed

context tdigest_laws
begin

lemma sample_Add_ok:
  assumes "lim_inv holds l" "rtt_ok rtt" "1 \<le> i"
  shows "lim_inv holds (l\<lparr>al_recentRTT := sample_Add D rtt i (al_recentRTT l)\<rparr>)"
proof -
  obtain xs where xs: "holds xs (TDigest (al_recentRTT l))" "\<forall>x \<in> set xs. in_range x"
    using assms(1) by (auto simp: lim_inv_def sample_ok_def)
  have h: "holds (xs @ [of_int rtt]) (td_Add D (of_int rtt) (TDigest (al_recentRTT l)))" using td_add[OF xs(1)] .
  have "sample_Size (al_recentRTT l) \<noteq> 0 \<Longrightarrow> 1 \<le> sample_MaxInflight (al_recentRTT l)"
    using assms(1) by (auto simp: lim_inv_def sample_ok_def)
  then have "1 \<le> sample_MaxInflight (sample_Add D rtt i (al_recentRTT l))" using assms(3) by (auto simp: sample_Add_def Let_def)
  moreover have "TDigest (sample_Add D rtt i (al_recentRTT l)) = td_Add D (of_int rtt) (TDigest (al_recentRTT l))"
    by (simp add: sample_Add_def Let_def)
  ultimately have "sample_ok holds (l\<lparr>al_recentRTT := sample_Add D rtt i (al_recentRTT l)\<rparr>)"
    using h xs(2) rtt_in_range[OF assms(2)] by (auto simp: sample_ok_def intro!: exI[of _ "xs @ [of_int rtt]"])
  then show ?thesis using assms(1) by (simp add: lim_inv_def limit_ok_def windows_ok_def)
qed

text \<open>The update of the limit when the recent window is full.\<close>

lemma record_update:
  assumes inv: "lim_inv holds l" and full: "al_recentWindowMinSamples (al_config l) \<le> sample_Size (al_recentRTT l)"
  shows "\<exists>q mf f l3. td_Quantile D (al_recentQuantile (al_config l)) (TDigest (al_recentRTT l)) = Some q
    \<and> MovingMedian_Add q (al_medianFilter l) = Inr (f, mf)
    \<and> updateLimit (fst (MovingAverage_Add f (al_smoothedRecentRTT l))) (sample_MaxInflight (al_recentRTT l)) now
        (l\<lparr>al_medianFilter := mf, al_smoothedRecentRTT := snd (MovingAverage_Add f (al_smoothedRecentRTT l)), al_lastMaxInflight := sample_MaxInflight (al_recentRTT l)\<rparr>)
      = Some (Inr l3)
    \<and> limit_ok l3 \<and> windows_ok l3 \<and> al_recentRTT l3 = al_recentRTT l \<and> al_config l3 = al_config l
    \<and> \<bar>al_limit l3 - al_limit l\<bar> \<le> step_of (al_limit l) \<and> al_semaphore l3 = SetSize (float_to_int (al_limit l3)) (al_semaphore l)"
proof -
  have lim: "limit_ok l" and win: "windows_ok l" using inv by (auto simp: lim_inv_def)
  have pos: "0 < al_recentWindowMinSamples (al_config l)" using lim by (simp add: limit_ok_def al_cfg_ok_def)
  then have size: "sample_Size (al_recentRTT l) \<noteq> 0" using full by auto
  obtain xs where xs: "holds xs (TDigest (al_recentRTT l))" "\<forall>x \<in> set xs. in_range x" "xs \<noteq> []" and i: "1 \<le> sample_MaxInflight (al_recentRTT l)"
    using inv size by (auto simp: lim_inv_def sample_ok_def)
  obtain q where q: "td_Quantile D (al_recentQuantile (al_config l)) (TDigest (al_recentRTT l)) = Some q" "in_range q"
    using td_quantile[OF xs(1,3), of "al_recentQuantile (al_config l)" 1 "2 ^ 63"] xs(2) lim by (auto simp: limit_ok_def al_cfg_ok_def in_range_def)
  obtain vs where vs: "median_inv 5 vs (al_medianFilter l)" "\<forall>v \<in> set vs. in_range v" using win by (auto simp: windows_ok_def)
  obtain f mf where f: "MovingMedian_Add q (al_medianFilter l) = Inr (f, mf)" "median_inv 5 (vs @ [q]) mf" "in_range f"
    using median_add_range[OF vs q(2)] by blast
  let ?r = "fst (MovingAverage_Add f (al_smoothedRecentRTT l))" and ?avg = "snd (MovingAverage_Add f (al_smoothedRecentRTT l))"
  have avg: "in_range ?r" "average_inv 1 (2 ^ 63) ?avg"
    using average_Add[of 1 "2 ^ 63" "al_smoothedRecentRTT l" f] win f(3) by (auto simp: windows_ok_def in_range_def)
  define l2 where "l2 = l\<lparr>al_medianFilter := mf, al_smoothedRecentRTT := ?avg, al_lastMaxInflight := sample_MaxInflight (al_recentRTT l)\<rparr>"
  have l2: "limit_ok l2" "al_recentRTT l2 = al_recentRTT l" "al_config l2 = al_config l" "al_limit l2 = al_limit l" "al_semaphore l2 = al_semaphore l"
    using lim by (simp_all add: l2_def limit_ok_def)
  have "\<exists>vs. median_inv 5 vs mf \<and> (\<forall>v \<in> set vs. in_range v)" using f(2) vs(2) q(2) by (intro exI[of _ "vs @ [q]"]) auto
  then have "windows_ok l2" using win avg(2) by (simp add: windows_ok_def l2_def)
  then obtain l1 ch m where u: "updateLimit ?r (sample_MaxInflight (al_recentRTT l)) now l2 = Some (Inr (set_limit (next_limit (al_config l2) ch m (al_limit l2)) l1))"
      "windows_ok l1" "al_config l1 = al_config l2" "al_limit l1 = al_limit l2" "al_semaphore l1 = al_semaphore l2" "al_recentRTT l1 = al_recentRTT l2"
    using updateLimit_step[OF l2(1) _ avg(1) i] by blast
  let ?y = "next_limit (al_config l2) ch m (al_limit l2)"
  have cfg: "1 \<le> al_minLimit (al_config l)" "al_minLimit (al_config l) \<le> al_limit l" "al_limit l \<le> al_maxLimit (al_config l)" "al_maxLimit (al_config l) \<le> 2 ^ 64"
    using lim by (auto simp: limit_ok_def al_cfg_ok_def)
  note b = next_limit_bounds(1-3)[OF cfg, of ch m]
  have "limit_ok (set_limit ?y l1)" using b u l2 lim by (simp add: limit_ok_def)
  then show ?thesis
    using q(1) f(1) u(1) b u(2-) l2 by (intro exI[of _ q] exI[of _ mf] exI[of _ f] exI[of _ "set_limit ?y l1"]) (simp add: l2_def)
qed

lemma record_step:
  assumes inv: "lim_inv holds l" and used: "0 < sem_used (al_semaphore l)" and rtt: "rtt_ok rtt" and i: "1 \<le> i"
  shows "\<exists>l'. al_record D now rtt i dropped l = Some (Inr l') \<and> lim_inv holds l' \<and> al_config l' = al_config l
    \<and> \<bar>al_limit l' - al_limit l\<bar> \<le> step_of (al_limit l)
    \<and> (\<exists>s. (s = al_semaphore l \<or> (\<exists>n. s = SetSize n (al_semaphore l))) \<and> Release s = Inr (al_semaphore l'))"
proof -
  define l1 where "l1 = (if \<not> dropped then l\<lparr>al_recentRTT := sample_Add D rtt i (al_recentRTT l)\<rparr> else l)"
  have l1: "lim_inv holds l1" "al_config l1 = al_config l" "al_limit l1 = al_limit l" "al_semaphore l1 = al_semaphore l"
    using inv sample_Add_ok[OF inv rtt i] by (simp_all add: l1_def)
  have finish: "\<exists>l'. run_go (Release (al_semaphore l4)) (\<lambda>s. run_return (l4\<lparr>al_semaphore := s\<rparr>)) = Some (Inr l') \<and> lim_inv holds l' \<and> al_config l' = al_config l4
      \<and> al_limit l' = al_limit l4 \<and> Release (al_semaphore l4) = Inr (al_semaphore l')"
    if h: "lim_inv holds l4" "0 < sem_used (al_semaphore l4)" for l4
  proof -
    obtain s where s: "Release (al_semaphore l4) = Inr s" using Release_used[OF h(2)] by blast
    then show ?thesis using lim_inv_semaphore[OF h(1) Release_size[OF s]] by (simp add: run_go_def run_return_def)
  qed
  show ?thesis
  proof (cases "now > al_nextUpdateTime l1 \<and> al_recentWindowMinSamples (al_config l1) \<le> sample_Size (al_recentRTT l1)")
    case False
    have "0 \<le> step_of (al_limit l)" using step_of_pos limit_ok_range inv by (fastforce simp: lim_inv_def)
    with False finish[OF l1(1)] used l1 show ?thesis by (auto simp: al_record_def simp flip: l1_def)
  next
    case True
    then obtain q mf f l3 where u: "td_Quantile D (al_recentQuantile (al_config l1)) (TDigest (al_recentRTT l1)) = Some q"
       "MovingMedian_Add q (al_medianFilter l1) = Inr (f, mf)"
       "updateLimit (fst (MovingAverage_Add f (al_smoothedRecentRTT l1))) (sample_MaxInflight (al_recentRTT l1)) now
        (l1\<lparr>al_medianFilter := mf, al_smoothedRecentRTT := snd (MovingAverage_Add f (al_smoothedRecentRTT l1)), al_lastMaxInflight := sample_MaxInflight (al_recentRTT l1)\<rparr>)
      = Some (Inr l3)"
      "limit_ok l3" "windows_ok l3" "al_recentRTT l3 = al_recentRTT l1" "al_config l3 = al_config l1"
      "\<bar>al_limit l3 - al_limit l1\<bar> \<le> step_of (al_limit l1)" "al_semaphore l3 = SetSize (float_to_int (al_limit l3)) (al_semaphore l1)"
      using record_update[OF l1(1)] by blast
    define l4 where "l4 = l3\<lparr>al_recentRTT := sample_Reset D (al_recentRTT l3),
        al_nextUpdateTime := now + min (max (i64 (MinRTT (al_recentRTT l3) * 2)) (al_recentWindowMinDuration (al_config l3))) (al_recentWindowMaxDuration (al_config l3))\<rparr>"
    obtain xs where "holds xs (TDigest (al_recentRTT l1))" using l1(1) by (auto simp: lim_inv_def sample_ok_def)
    then have "holds [] (td_Reset D (TDigest (al_recentRTT l3)))" using td_reset u(6) by simp
    then have "lim_inv holds l4" using u(4,5) by (auto simp: lim_inv_def l4_def limit_ok_def windows_ok_def sample_ok_def sample_Reset_def intro!: exI[of _ "[]"])
    moreover have "0 < sem_used (al_semaphore l4)"
      using used u(9) l1(4) SetSize_used_ge[of "al_semaphore l1" "float_to_int (al_limit l3)"] by (simp add: l4_def)
    moreover have "al_config l4 = al_config l" "al_limit l4 = al_limit l3" "al_semaphore l4 = SetSize (float_to_int (al_limit l3)) (al_semaphore l)"
      using u(7,9) l1 by (simp_all add: l4_def)
    moreover have "al_record D now rtt i dropped l = run_go (Release (al_semaphore l4)) (\<lambda>s. run_return (l4\<lparr>al_semaphore := s\<rparr>))"
      using True u(1-3) by (simp add: al_record_def run_go_def split_beta l4_def flip: l1_def)
    ultimately have "\<exists>l'. al_record D now rtt i dropped l = Some (Inr l') \<and> lim_inv holds l' \<and> al_config l' = al_config l
        \<and> \<bar>al_limit l' - al_limit l\<bar> \<le> step_of (al_limit l) \<and> Release (SetSize (float_to_int (al_limit l3)) (al_semaphore l)) = Inr (al_semaphore l')"
      using finish[of l4] u(8) l1(3) by auto
    then show ?thesis by blast
  qed
qed

end

end
