(* ===== verification/Policy_Testing.thy ===== *)
theory Policy_Testing
  imports Retry_Policy Fallback Timeout Bulkhead Cache_Policy Hedge_Policy Circuit_Breaker Adaptive_Limiter
begin

text \<open>
  Statistics of listeners (src/internal/policytesting/executor.go): counters, and for each kind of policy the listeners that count. A listener is registered
  by the builder's function and runs as a function of the event; what they print is left out. With the statistics of a retry policy, the last section shows when its listeners are called.
\<close>

section \<open>Counters\<close>

record Stats =
  executions :: int
  successes :: int
  failures :: int
  retries :: int
  st_retriesExceeded :: int
  aborts :: int
  limitsExceeded :: int
  limitsChanged :: int
  hedges :: int
  fulls :: int
  budgetExceeded :: int
  caches :: int
  cacheHits :: int
  cacheMisses :: int
  cachedCount :: int


definition reset_Stats :: "Stats \<Rightarrow> Stats" where
  "reset_Stats s = s\<lparr>executions := 0, successes := 0, failures := 0, retries := 0, st_retriesExceeded := 0, aborts := 0, limitsExceeded := 0,
     limitsChanged := 0, hedges := 0, fulls := 0, budgetExceeded := 0, caches := 0, cacheHits := 0, cacheMisses := 0\<rparr>"

text \<open>\<^verbatim>\<open>Reset\<close> of a policy, with the method of that name that reflection finds.\<close>

definition reflected_Reset :: "('p \<Rightarrow> 'p) option \<Rightarrow> 'p \<Rightarrow> 'p go" where
  "reflected_Reset resetMethod p = (case resetMethod of None \<Rightarrow> Inl (Panic ''Failed to reflect Reset method'') | Some reset \<Rightarrow> Inr (reset p))"

abbreviation inc :: "int \<Rightarrow> int" where
  "inc n \<equiv> i32 (n + 1)"

section \<open>Listeners\<close>

definition event_named :: "string \<Rightarrow> 'r event \<Rightarrow> bool" where
  "event_named name e = (case e of Event n r err \<Rightarrow> n = name | ScheduledEvent r err d \<Rightarrow> False)"

lemma event_named_simps [simp]:
  "event_named name (Event n r err) \<longleftrightarrow> n = name" "\<not> event_named name (ScheduledEvent r err d)"
  by (simp_all add: event_named_def)



definition timeout_listeners :: "'r event \<Rightarrow> Stats \<Rightarrow> Stats" where
  "timeout_listeners e s = (if event_named ''onTimeoutExceeded'' e then s\<lparr>executions := inc (executions s)\<rparr> else s)"

definition fallback_listeners :: "'r event \<Rightarrow> Stats \<Rightarrow> Stats" where
  "fallback_listeners e s = (if event_named ''onFallbackExecuted'' e then s\<lparr>executions := inc (executions s)\<rparr> else s)"

definition hedge_listeners :: "'r event \<Rightarrow> Stats \<Rightarrow> Stats" where
  "hedge_listeners e s = (if event_named ''onHedge'' e then s\<lparr>hedges := inc (hedges s)\<rparr> else s)"

definition bulkhead_listeners :: "'r event \<Rightarrow> Stats \<Rightarrow> Stats" where
  "bulkhead_listeners e s = (if event_named ''onFull'' e then s\<lparr>fulls := inc (fulls s)\<rparr> else s)"

definition cache_listeners :: "'r event \<Rightarrow> Stats \<Rightarrow> Stats" where
  "cache_listeners e s =
     (if event_named ''onHit'' e then s\<lparr>cacheHits := inc (cacheHits s)\<rparr>
      else if event_named ''onMiss'' e then s\<lparr>cacheMisses := inc (cacheMisses s)\<rparr>
      else if event_named ''onCache'' e then s\<lparr>caches := inc (caches s)\<rparr>
      else s)"

definition budget_listeners :: "ExecutionType \<Rightarrow> Stats \<Rightarrow> Stats" where
  "budget_listeners e s = s\<lparr>budgetExceeded := inc (budgetExceeded s)\<rparr>"

text \<open>The listeners of an adaptive limiter count only with logging.\<close>

definition limit_changed_listener :: "bool \<Rightarrow> LimitChangedEvent \<Rightarrow> Stats \<Rightarrow> Stats" where
  "limit_changed_listener withLogging e s = (if withLogging then s\<lparr>limitsChanged := inc (limitsChanged s)\<rparr> else s)"

definition limit_exceeded_listener :: "bool \<Rightarrow> 'r event \<Rightarrow> Stats \<Rightarrow> Stats" where
  "limit_exceeded_listener withLogging e s =
     (if event_named ''onLimitExceeded'' e \<and> withLogging then s\<lparr>limitsExceeded := inc (limitsExceeded s)\<rparr> else s)"


definition with_breaker_stats :: "('r, 'x) cb_config \<Rightarrow> ('r, 'x) cb_config" where
  "with_breaker_stats cb = cb_OnFailure (cb_OnSuccess (OnClose True (OnHalfOpen True (OnOpen True cb))))"

definition with_timeout_stats :: "to_config \<Rightarrow> to_config" where
  "with_timeout_stats t = OnTimeoutExceeded True t"

definition with_fallback_stats :: "('r, 's) fb_config \<Rightarrow> ('r, 's) fb_config" where
  "with_fallback_stats fb = OnFallbackExecuted True fb"

definition with_hedge_stats :: "'r hedge_config \<Rightarrow> 'r hedge_config" where
  "with_hedge_stats hp = OnHedge True hp"

definition with_bulkhead_stats :: "bh_config \<Rightarrow> bh_config" where
  "with_bulkhead_stats bh = OnFull True bh"

definition with_budget_stats :: "budget_config \<Rightarrow> budget_config" where
  "with_budget_stats b = budget_WithListener True b"

definition with_cache_stats :: "('r, 's) cache_config \<Rightarrow> ('r, 's) cache_config" where
  "with_cache_stats cp = OnResultCached True (OnCacheMiss True (OnCacheHit True cp))"

definition with_limiter_stats :: "al_config \<Rightarrow> al_config" where
  "with_limiter_stats l = OnLimitExceeded True (OnLimitChanged True l)"


section \<open>What is counted\<close>

definition named_events :: "string \<Rightarrow> ('r, 's) world \<Rightarrow> nat" where
  "named_events name w = length (filter (event_named name) (w_events w))"


lemma limit_changes_counted:
  "limitsChanged (fold (limit_changed_listener withLogging) es s) = (if withLogging \<and> es \<noteq> [] then i32 (limitsChanged s + int (length es)) else limitsChanged s)"
proof (induction es arbitrary: s)
  case (Cons e es)
  have "i32 (i32 (limitsChanged s + 1) + int (length es)) = i32 (limitsChanged s + int (Suc (length es)))"
    using i32_add[of "limitsChanged s + 1" "int (length es)"] by (simp add: algebra_simps)
  then show ?case using Cons by (simp add: limit_changed_listener_def)
qed simp

section \<open>The listeners of a retry policy\<close>








lemma heard_set_retry [simp]:
  "named_events name (set_retry i st w) = named_events name w" "w_attempts (set_retry i st w) = w_attempts w" "w_timers (set_retry i st w) = w_timers w"
  "w_executions (set_retry i st w) = w_executions w" "w_retry (set_retry i st w) i = st"
  by (simp_all add: set_retry_def named_events_def)














section \<open>Properties\<close>



end
