(* ===== verification/Budget_Callers.thy ===== *)
theory Budget_Callers
  imports Budget
begin

text \<open>
  A budget (src/budget/budget.go) with its concurrent callers: executions, which are recorded while they run, and attempts (retries and hedges), which try to
  acquire a permit and release it. The counters are atomic, but \<^verbatim>\<open>TryAcquirePermit\<close>, \<^verbatim>\<open>ReleasePermit\<close> and \<^verbatim>\<open>Rate\<close> use them several
  times, so each single access is a step of its own; what a caller has read so far is part of its point of execution.
\<close>

section \<open>Callers\<close>

datatype bu_point =
    Outside
  | InExecution
  | LoadedInflight int
  | LoadedExecutions int
  | Admitted
  | CountedInflight
  | HoldsPermit
  | ReleasedInflight

record budget_world =
  bw_budget :: budget
  bw_point :: "nat \<Rightarrow> bu_point"

definition move :: "nat \<Rightarrow> bu_point \<Rightarrow> budget_world \<Rightarrow> budget_world" where
  "move p pt s = s\<lparr>bw_point := (bw_point s)(p := pt)\<rparr>"

definition add_inflight :: "int \<Rightarrow> budget_world \<Rightarrow> budget_world" where
  "add_inflight d s = s\<lparr>bw_budget := (bw_budget s)\<lparr>bu_inflight := i32 (bu_inflight (bw_budget s) + d)\<rparr>\<rparr>"

definition add_executions :: "int \<Rightarrow> budget_world \<Rightarrow> budget_world" where
  "add_executions d s = s\<lparr>bw_budget := (bw_budget s)\<lparr>bu_executions := i32 (bu_executions (bw_budget s) + d)\<rparr>\<rparr>"

text \<open>The rate that a caller computes that has loaded \<open>e\<close> executions, none of which is no rate at all.\<close>

definition refuses :: "budget_world \<Rightarrow> float64 \<Rightarrow> bool" where
  "refuses s rate \<longleftrightarrow> rate > bu_maxRate (bu_config (bw_budget s))"

definition bu_min :: "budget_world \<Rightarrow> int" where
  "bu_min s = i32 (uint (bu_minConcurrency (bu_config (bw_budget s))))"

inductive bu_step :: "nat \<Rightarrow> budget_world \<Rightarrow> budget_world \<Rightarrow> bool" where
  record_execution: "bw_point s p = Outside \<Longrightarrow> bu_step p s (add_executions 1 (move p InExecution s))"
| release_execution: "bw_point s p = InExecution \<Longrightarrow> bu_step p s (add_executions (- 1) (move p Outside s))"
| load_inflight: "bw_point s p = Outside \<Longrightarrow> bu_step p s (move p (LoadedInflight (bu_inflight (bw_budget s))) s)"
| below_minimum: "bw_point s p = LoadedInflight b \<Longrightarrow> b < bu_min s \<Longrightarrow> bu_step p s (move p Admitted s)"
| load_executions: "bw_point s p = LoadedInflight b \<Longrightarrow> b \<ge> bu_min s \<Longrightarrow> bu_executions (bw_budget s) \<noteq> 0 \<Longrightarrow>
    bu_step p s (move p (LoadedExecutions (bu_executions (bw_budget s))) s)"
| no_executions: "bw_point s p = LoadedInflight b \<Longrightarrow> b \<ge> bu_min s \<Longrightarrow> bu_executions (bw_budget s) = 0 \<Longrightarrow>
    bu_step p s (move p (if refuses s 0 then Outside else Admitted) s)"
| compare_rate: "bw_point s p = LoadedExecutions e \<Longrightarrow>
    bu_step p s (move p (if refuses s (of_int (bu_inflight (bw_budget s)) / of_int e) then Outside else Admitted) s)"
| count_inflight: "bw_point s p = Admitted \<Longrightarrow> bu_step p s (add_inflight 1 (move p CountedInflight s))"
| count_execution: "bw_point s p = CountedInflight \<Longrightarrow> bu_step p s (add_executions 1 (move p HoldsPermit s))"
| release_inflight: "bw_point s p = HoldsPermit \<Longrightarrow> bu_step p s (add_inflight (- 1) (move p ReleasedInflight s))"
| release_permit: "bw_point s p = ReleasedInflight \<Longrightarrow> bu_step p s (add_executions (- 1) (move p Outside s))"

definition budget_start :: "budget_config \<Rightarrow> budget_world" where
  "budget_start c = \<lparr>bw_budget = budget_Build c, bw_point = (\<lambda>_. Outside)\<rparr>"

text \<open>The worlds that \<open>n\<close> callers reach.\<close>

inductive bu_reachable :: "budget_config \<Rightarrow> nat \<Rightarrow> budget_world \<Rightarrow> bool" for c n where
  start: "bu_reachable c n (budget_start c)"
| step: "bu_reachable c n s \<Longrightarrow> p < n \<Longrightarrow> bu_step p s s' \<Longrightarrow> bu_reachable c n s'"

lemmas bu_defs = move_def add_inflight_def add_executions_def

section \<open>Undisturbed callers\<close>

text \<open>A caller whose steps nobody interrupts does what the methods do.\<close>

inductive bu_steps :: "nat \<Rightarrow> budget_world \<Rightarrow> budget_world \<Rightarrow> bool" for p where
  no_step: "bu_steps p s s"
| step: "bu_step p s s1 \<Longrightarrow> bu_steps p s1 s2 \<Longrightarrow> bu_steps p s s2"

lemma bu_steps_one: "bu_step p s s' \<Longrightarrow> bu_steps p s s'"
  by (rule bu_steps.step[OF _ bu_steps.no_step])

lemma bu_steps_trans: "bu_steps p s s1 \<Longrightarrow> bu_steps p s1 s2 \<Longrightarrow> bu_steps p s s2"
  by (induction rule: bu_steps.induct) (auto intro: bu_steps.step)

lemma bu_steps_reachable: "bu_steps p s s' \<Longrightarrow> bu_reachable c n s \<Longrightarrow> p < n \<Longrightarrow> bu_reachable c n s'"
  by (induction rule: bu_steps.induct) (auto intro: bu_reachable.step)

lemma try_acquire_steps:
  assumes "bw_point s p = Outside" "budget_TryAcquirePermit (bw_budget s) = (ok, b)"
  shows "bu_steps p s (s\<lparr>bw_budget := b, bw_point := (bw_point s)(p := if ok then HoldsPermit else Outside)\<rparr>)"
proof -
  let ?i = "bu_inflight (bw_budget s)" and ?e = "bu_executions (bw_budget s)"
  let ?s1 = "move p (LoadedInflight ?i) s"
  have s1: "bu_steps p s ?s1" by (rule bu_steps_one) (rule load_inflight[OF assms(1)])
  have fields: "bw_point ?s1 p = LoadedInflight ?i" "bw_budget ?s1 = bw_budget s" "bu_min ?s1 = bu_min s" "refuses ?s1 = refuses s"
    by (simp_all add: move_def bu_min_def refuses_def fun_eq_iff)
  let ?no = "?i \<ge> bu_min s \<and> refuses s (if ?e = 0 then 0 else of_int ?i / of_int ?e)"
  have decide: "bu_steps p ?s1 (move p (if ?no then Outside else Admitted) s)"
  proof (cases "?i < bu_min s")
    case True
    then have "bu_step p ?s1 (move p Admitted ?s1)" by (intro below_minimum) (simp_all add: fields)
    then show ?thesis using True by (auto simp: move_def intro: bu_steps_one)
  next
    case False
    then have low: "bu_min s \<le> ?i" "\<not> ?i < bu_min s" by simp_all
    show ?thesis
    proof (cases "?e = 0")
      case True
      then have "bu_step p ?s1 (move p (if refuses s 0 then Outside else Admitted) s)"
        using low no_executions[of ?s1 p ?i] by (simp add: move_def refuses_def bu_min_def)
      then show ?thesis using low True bu_steps_one by simp
    next
      case False
      then have "bu_step p ?s1 (move p (LoadedExecutions ?e) ?s1)" using low load_executions[of ?s1 p ?i] by (simp add: fields)
      moreover have "bu_step p (move p (LoadedExecutions ?e) ?s1) (move p (if refuses s (of_int ?i / of_int ?e) then Outside else Admitted) s)"
        using compare_rate[of "move p (LoadedExecutions ?e) ?s1" p ?e] by (simp add: move_def refuses_def)
      ultimately have "bu_steps p ?s1 (move p (if refuses s (of_int ?i / of_int ?e) then Outside else Admitted) s)" by (meson bu_steps.step bu_steps_one)
      then show ?thesis using low False by simp
    qed
  qed
  have ok: "ok \<longleftrightarrow> \<not> ?no" "b = (if ok then RecordExecution ((bw_budget s)\<lparr>bu_inflight := i32 (?i + 1)\<rparr>) else bw_budget s)"
    using assms(2) by (auto simp: budget_TryAcquirePermit_def bu_min_def refuses_def Rate_def split: if_splits)
  show ?thesis
  proof (cases ok)
    case False
    then show ?thesis using bu_steps_trans[OF s1 decide] ok by (simp add: move_def)
  next
    case True
    let ?a = "move p Admitted s" and ?b = "add_inflight 1 (move p CountedInflight s)"
    have "bu_step p ?a ?b" using count_inflight[of ?a p] by (simp add: bu_defs)
    moreover have "bu_step p ?b (add_executions 1 (move p HoldsPermit ?b))" by (rule count_execution) (simp add: bu_defs)
    ultimately have "bu_steps p ?a (add_executions 1 (move p HoldsPermit ?b))" by (meson bu_steps.step bu_steps_one)
    moreover have "bu_steps p s ?a" using bu_steps_trans[OF s1 decide] True ok(1) by (metis (full_types))
    ultimately have "bu_steps p s (add_executions 1 (move p HoldsPermit ?b))" using bu_steps_trans by blast
    then show ?thesis using True ok(2) by (cases s) (simp add: bu_defs RecordExecution_def)
  qed
qed

section \<open>What the counters count\<close>

definition inflight_part :: "bu_point \<Rightarrow> int" where
  "inflight_part pt = (if pt = CountedInflight \<or> pt = HoldsPermit then 1 else 0)"

definition executions_part :: "bu_point \<Rightarrow> int" where
  "executions_part pt = (if pt = InExecution \<or> pt = HoldsPermit \<or> pt = ReleasedInflight then 1 else 0)"

definition bu_inv :: "budget_config \<Rightarrow> nat \<Rightarrow> budget_world \<Rightarrow> bool" where
  "bu_inv c n s \<longleftrightarrow>
     bw_budget s = \<lparr>bu_config = c, bu_executions = i32 (\<Sum>p<n. executions_part (bw_point s p)),
       bu_inflight = i32 (\<Sum>p<n. inflight_part (bw_point s p)), bu_exceeded_calls = []\<rparr>
     \<and> (\<forall>p \<ge> n. bw_point s p = Outside) \<and> (\<forall>p e. bw_point s p = LoadedExecutions e \<longrightarrow> e \<noteq> 0)"

lemma sum_moved:
  fixes g :: "bu_point \<Rightarrow> int" and n :: nat
  assumes "p < n"
  shows "(\<Sum>q<n. g ((f(p := pt)) q)) = (\<Sum>q<n. g (f q)) + (g pt - g (f p))"
proof -
  have "(\<Sum>q<n. g ((f(p := pt)) q)) = g pt + (\<Sum>q \<in> {..<n} - {p}. g (f q))" using assms by (subst sum.remove[of _ p]) auto
  moreover have "(\<Sum>q<n. g (f q)) = g (f p) + (\<Sum>q \<in> {..<n} - {p}. g (f q))" using assms by (subst sum.remove[of _ p]) auto
  ultimately show ?thesis by simp
qed

lemma parts_simps [simp]:
  "inflight_part Outside = 0" "inflight_part InExecution = 0" "inflight_part (LoadedInflight b) = 0" "inflight_part (LoadedExecutions b) = 0"
  "inflight_part Admitted = 0" "inflight_part CountedInflight = 1" "inflight_part HoldsPermit = 1" "inflight_part ReleasedInflight = 0"
  "executions_part Outside = 0" "executions_part InExecution = 1" "executions_part (LoadedInflight b) = 0" "executions_part (LoadedExecutions b) = 0"
  "executions_part Admitted = 0" "executions_part CountedInflight = 0" "executions_part HoldsPermit = 1" "executions_part ReleasedInflight = 1"
  by (simp_all add: inflight_part_def executions_part_def)

lemma moved_inv:
  assumes inv: "bu_inv c n s" and p: "p < n" "\<And>e. pt = LoadedExecutions e \<Longrightarrow> e \<noteq> 0"
    and s': "bw_point s' = (bw_point s)(p := pt)"
      "bw_budget s' = (bw_budget s)\<lparr>bu_executions := i32 (bu_executions (bw_budget s) + (executions_part pt - executions_part (bw_point s p))),
         bu_inflight := i32 (bu_inflight (bw_budget s) + (inflight_part pt - inflight_part (bw_point s p)))\<rparr>"
  shows "bu_inv c n s'"
proof -
  have "bw_budget s' = \<lparr>bu_config = c, bu_executions = i32 (\<Sum>q<n. executions_part (bw_point s' q)),
       bu_inflight = i32 (\<Sum>q<n. inflight_part (bw_point s' q)), bu_exceeded_calls = []\<rparr>"
    unfolding s' sum_moved[OF p(1)] using inv by (simp add: bu_inv_def i32_add)
  then show ?thesis using inv p s'(1) by (auto simp: bu_inv_def)
qed

lemma bu_step_inv:
  assumes "bu_step p s s'" "p < n" "bu_inv c n s"
  shows "bu_inv c n s'"
proof -
  have b: "i32 (bu_executions (bw_budget s)) = bu_executions (bw_budget s)" "i32 (bu_inflight (bw_budget s)) = bu_inflight (bw_budget s)"
    using assms(3) i32_add[of _ 0] by (simp_all add: bu_inv_def)
  have "bw_point s' = (bw_point s)(p := bw_point s' p) \<and> (\<forall>e. bw_point s' p = LoadedExecutions e \<longrightarrow> e \<noteq> 0)
    \<and> bw_budget s' = (bw_budget s)\<lparr>bu_executions := i32 (bu_executions (bw_budget s) + (executions_part (bw_point s' p) - executions_part (bw_point s p))),
         bu_inflight := i32 (bu_inflight (bw_budget s) + (inflight_part (bw_point s' p) - inflight_part (bw_point s p)))\<rparr>"
    using assms(1) by (cases rule: bu_step.cases) (simp_all add: bu_defs b, simp add: i32_def)
  then show ?thesis using moved_inv[OF assms(3,2), of "bw_point s' p" s'] by blast
qed

lemma bu_reachable_inv: "bu_reachable c n s \<Longrightarrow> bu_inv c n s"
proof (induction rule: bu_reachable.induct)
  case start
  then show ?case by (simp add: bu_inv_def budget_start_def budget_Build_def inflight_part_def executions_part_def i32_def)
next
  case (step s p s')
  then show ?case by (blast intro: bu_step_inv)
qed

lemma parts_card:
  "(\<Sum>p<n. inflight_part (f p)) = int (card {p. p < (n :: nat) \<and> f p \<in> {CountedInflight, HoldsPermit}})"
  "(\<Sum>p<n. executions_part (f p)) = int (card {p. p < n \<and> f p \<in> {InExecution, HoldsPermit, ReleasedInflight}})"
proof -
  have "(\<Sum>p<n. if P (f p) then 1 else 0) = int (card {p. p < n \<and> P (f p)})" for P :: "bu_point \<Rightarrow> bool"
    by (simp add: sum.If_cases Int_def lessThan_def)
  from this[of "\<lambda>pt. pt \<in> {CountedInflight, HoldsPermit}"] this[of "\<lambda>pt. pt \<in> {InExecution, HoldsPermit, ReleasedInflight}"]
  show "(\<Sum>p<n. inflight_part (f p)) = int (card {p. p < n \<and> f p \<in> {CountedInflight, HoldsPermit}})"
    "(\<Sum>p<n. executions_part (f p)) = int (card {p. p < n \<and> f p \<in> {InExecution, HoldsPermit, ReleasedInflight}})"
    by (simp_all add: inflight_part_def executions_part_def)
qed

text \<open>
  C16. Whatever the interleaving of the accesses of fewer than \<open>2 ^ 31\<close> callers, the inflight counter is the number of attempts that counted themselves, the executions
  are those that run and the attempts that were recorded and not yet released, and no permit leaks: when nobody is inside, the budget is as it was built. A caller that is
  not interrupted gets a permit as \<^verbatim>\<open>TryAcquirePermit\<close> says.
\<close>

theorem budget_counts_callers:
  assumes "bu_reachable c n s" "n < 2 ^ 31"
  shows "bu_inflight (bw_budget s) = int (card {p. p < n \<and> bw_point s p \<in> {CountedInflight, HoldsPermit}})
    \<and> bu_executions (bw_budget s) = int (card {p. p < n \<and> bw_point s p \<in> {InExecution, HoldsPermit, ReleasedInflight}})
    \<and> ((\<forall>p. bw_point s p = Outside) \<longrightarrow> bw_budget s = budget_Build c)
    \<and> (\<forall>p ok b. p < n \<and> bw_point s p = Outside \<and> budget_TryAcquirePermit (bw_budget s) = (ok, b) \<longrightarrow>
         bu_reachable c n (s\<lparr>bw_budget := b, bw_point := (bw_point s)(p := if ok then HoldsPermit else Outside)\<rparr>))"
proof -
  have inv: "bu_inv c n s" by (rule bu_reachable_inv[OF assms(1)])
  have small: "i32 (int (card {p. p < n \<and> P p})) = int (card {p. p < n \<and> P p})" for P
  proof -
    have "card {p. p < n \<and> P p} \<le> card {..<n}" by (rule card_mono) auto
    then show ?thesis using assms(2) by (intro i32_id) (simp add: in_i32_def)
  qed
  have "bu_inflight (bw_budget s) = int (card {p. p < n \<and> bw_point s p \<in> {CountedInflight, HoldsPermit}})"
    "bu_executions (bw_budget s) = int (card {p. p < n \<and> bw_point s p \<in> {InExecution, HoldsPermit, ReleasedInflight}})"
    using inv small unfolding bu_inv_def parts_card by simp_all
  moreover have "bw_budget s = budget_Build c" if "\<forall>p. bw_point s p = Outside"
    using inv that by (simp add: bu_inv_def budget_Build_def i32_def)
  moreover have "bu_reachable c n (s\<lparr>bw_budget := b, bw_point := (bw_point s)(p := if ok then HoldsPermit else Outside)\<rparr>)"
    if "p < n \<and> bw_point s p = Outside \<and> budget_TryAcquirePermit (bw_budget s) = (ok, b)" for p ok b
    using bu_steps_reachable[OF try_acquire_steps assms(1)] that by blast
  ultimately show ?thesis by blast
qed

theorem budget_counts_callers_witness:
  "\<exists>s b. bu_reachable budget_NewBuilder 2 s \<and> bw_point s 0 = InExecution \<and> budget_TryAcquirePermit (bw_budget s) = (True, b)
    \<and> bu_inflight b = 1 \<and> bu_executions b = 2 \<and> bu_reachable budget_NewBuilder 2 (s\<lparr>bw_budget := b, bw_point := (bw_point s)(1 := HoldsPermit)\<rparr>)"
proof -
  let ?start = "budget_start budget_NewBuilder" and ?b = "\<lparr>bu_config = budget_NewBuilder, bu_executions = 2, bu_inflight = 1, bu_exceeded_calls = []\<rparr>"
  let ?s = "add_executions 1 (move 0 InExecution ?start)"
  have st: "bu_step 0 ?start ?s" by (rule record_execution) (simp add: budget_start_def)
  have r: "bu_reachable budget_NewBuilder 2 ?s" by (rule bu_reachable.step[OF bu_reachable.start _ st]) simp
  have small: "(2 :: nat) < 2 ^ 31" by simp
  have b: "budget_TryAcquirePermit (bw_budget ?s) = (True, ?b)" "bw_point ?s 0 = InExecution" "bw_point ?s 1 = Outside"
    by (simp_all add: bu_defs budget_start_def budget_Build_def budget_NewBuilder_def budget_TryAcquirePermit_def RecordExecution_def i32_def)
  have "bu_reachable budget_NewBuilder 2 (?s\<lparr>bw_budget := ?b, bw_point := (bw_point ?s)(1 := if True then HoldsPermit else Outside)\<rparr>)"
    using b by (intro budget_counts_callers[OF r small, THEN conjunct2, THEN conjunct2, THEN conjunct2, rule_format]) simp
  then show ?thesis using r b by (intro exI[of _ ?s] exI[of _ ?b]) simp
qed

section \<open>Callers that check at the same time\<close>

text \<open>A stage of a run, in which each of some callers makes the same step.\<close>

lemma stage:
  assumes "bu_reachable c n s" "P s" "distinct ps" "\<forall>p \<in> set ps. p < n \<and> bw_point s p = A"
    and "\<And>s p. P s \<Longrightarrow> p < n \<Longrightarrow> bw_point s p = A \<Longrightarrow> \<exists>s'. bu_step p s s' \<and> bw_point s' = (bw_point s)(p := B) \<and> P s'"
  shows "\<exists>s'. bu_reachable c n s' \<and> P s' \<and> bw_point s' = (\<lambda>p. if p \<in> set ps then B else bw_point s p)"
  using assms(1-4)
proof (induction ps arbitrary: s)
  case (Cons p ps)
  then obtain s1 where s1: "bu_step p s s1" "bw_point s1 = (bw_point s)(p := B)" "P s1" using assms(5)[of s p] by auto
  have "bu_reachable c n s1" using Cons.prems s1(1) by (auto intro: bu_reachable.step)
  moreover have "distinct ps" "\<forall>q \<in> set ps. q < n \<and> bw_point s1 q = A" using Cons.prems(3,4) s1(2) by auto
  ultimately obtain s' where "bu_reachable c n s'" "P s'" "bw_point s' = (\<lambda>q. if q \<in> set ps then B else bw_point s1 q)"
    using Cons.IH[of s1] s1(3) by blast
  with s1(2) Cons.prems(3) show ?case by (intro exI[of _ s']) auto
qed auto

definition racing :: "budget_config \<Rightarrow> budget_world \<Rightarrow> bool" where
  "racing c s \<longleftrightarrow> bu_config (bw_budget s) = c \<and> bu_inflight (bw_budget s) = 0"

text \<open>
  C35. A budget whose minimum is positive bounds nothing when attempts check at the same time: \<open>n\<close> attempts of \<open>n\<close> executions that all load the counter before the first of
  them adds to it all get permits, however small the rate and the minimum are, and half of what the budget counts then are retries or hedges.
\<close>

theorem budget_check_races:
  assumes "0 < i32 (uint (bu_minConcurrency c))" "n < 2 ^ 30" "0 < n"
  shows "\<exists>s. bu_reachable c (2 * n) s \<and> (\<forall>p < n. bw_point s p = InExecution) \<and> (\<forall>p. n \<le> p \<and> p < 2 * n \<longrightarrow> bw_point s p = HoldsPermit)
    \<and> bu_inflight (bw_budget s) = int n \<and> Rate (bw_budget s) = 1 / 2"
proof -
  let ?N = "2 * n" and ?att = "[n..<2 * n]"
  have r0: "bu_reachable c ?N (budget_start c)" "racing c (budget_start c)"
    by (rule bu_reachable.start) (simp add: racing_def budget_start_def budget_Build_def)
  obtain s1 where s1: "bu_reachable c ?N s1" "racing c s1" "bw_point s1 = (\<lambda>p. if p \<in> set [0..<n] then InExecution else bw_point (budget_start c) p)"
    using stage[where P = "racing c" and A = Outside and B = InExecution, OF r0, of "[0..<n]"] record_execution
    by (fastforce simp: racing_def bu_defs budget_start_def)
  obtain s2 where s2: "bu_reachable c ?N s2" "racing c s2" "bw_point s2 = (\<lambda>p. if p \<in> set ?att then LoadedInflight 0 else bw_point s1 p)"
    using stage[where P = "racing c" and A = Outside and B = "LoadedInflight 0", OF s1(1,2), of ?att] s1(3) load_inflight
    by (fastforce simp: racing_def bu_defs budget_start_def)
  obtain s3 where s3: "bu_reachable c ?N s3" "racing c s3" "bw_point s3 = (\<lambda>p. if p \<in> set ?att then Admitted else bw_point s2 p)"
    using stage[where P = "racing c" and A = "LoadedInflight 0" and B = Admitted, OF s2(1,2), of ?att] s2(3) below_minimum assms(1)
    by (fastforce simp: racing_def bu_defs bu_min_def)
  obtain s4 where s4: "bu_reachable c ?N s4" "bw_point s4 = (\<lambda>p. if p \<in> set ?att then CountedInflight else bw_point s3 p)"
    using stage[where P = "\<lambda>_. True" and A = Admitted and B = CountedInflight, OF s3(1), of ?att] s3(3) count_inflight
    by (fastforce simp: bu_defs)
  obtain s5 where s5: "bu_reachable c ?N s5" "bw_point s5 = (\<lambda>p. if p \<in> set ?att then HoldsPermit else bw_point s4 p)"
    using stage[where P = "\<lambda>_. True" and A = CountedInflight and B = HoldsPermit, OF s4(1), of ?att] s4(2) count_execution
    by (fastforce simp: bu_defs)
  have pt: "bw_point s5 = (\<lambda>p. if p < n then InExecution else if p < 2 * n then HoldsPermit else Outside)"
    using s5(2) s4(2) s3(3) s2(3) s1(3) by (auto simp: fun_eq_iff budget_start_def)
  have "{p. p < ?N \<and> bw_point s5 p \<in> {CountedInflight, HoldsPermit}} = {n..<2 * n}"
    "{p. p < ?N \<and> bw_point s5 p \<in> {InExecution, HoldsPermit, ReleasedInflight}} = {..<2 * n}" by (auto simp: pt)
  then have b: "bu_inflight (bw_budget s5) = i32 (int n)" "bu_executions (bw_budget s5) = i32 (2 * int n)"
    using bu_reachable_inv[OF s5(1)] unfolding bu_inv_def parts_card by simp_all
  have "i32 (int n) = int n" "i32 (2 * int n) = 2 * int n" using assms(2) by (auto intro!: i32_id simp: in_i32_def)
  then show ?thesis using s5(1) b pt assms(3) by (intro exI[of _ s5]) (simp add: Rate_def)
qed

text \<open>Ten retries at the same time, with the default rate of 0.2 and minimum of 3.\<close>

theorem budget_check_races_witness:
  "\<exists>s. bu_reachable budget_NewBuilder 20 s \<and> bu_inflight (bw_budget s) = 10 \<and> Rate (bw_budget s) = 1 / 2
    \<and> bu_maxRate budget_NewBuilder = 2 / 10 \<and> bu_minConcurrency budget_NewBuilder = 3"
  using budget_check_races[of budget_NewBuilder 10] by (auto simp: budget_NewBuilder_def i32_def)

end
