(* ===== verification/Limiter_Callers.thy ===== *)
theory Limiter_Callers
  imports Adaptive_Limiter
begin

text \<open>
  An adaptive limiter (src/adaptivelimiter/adaptivelimiter.go) with its callers, as a state machine: those that hold permits and those that wait. The invariant of the
  limiter, and the simulation of the limiter by the semaphore inside it, hold in every reachable state.
\<close>

section \<open>Callers of a limiter\<close>

text \<open>The limiter with its callers: those blocked on a waiter, the permits that are held, and the time. An execution takes at least a nanosecond.\<close>

record 'd limiter_world =
  lw_lim :: "'d adaptiveLimiter"
  lw_blocked :: "nat list"
  lw_permits :: "recordingPermit list"
  lw_now :: nanotime

fun settle :: "unit permit_outcome \<Rightarrow> 'd limiter_world \<Rightarrow> 'd limiter_world" where
  "settle (Granted p) w = w\<lparr>lw_permits := lw_permits w @ [p]\<rparr>"
| "settle (Denied e) w = w"
| "settle (Waiting i) w = w\<lparr>lw_blocked := lw_blocked w @ [i]\<rparr>"

inductive limiter_step :: "'d tdigest_api \<Rightarrow> nanotime \<Rightarrow> 'd limiter_world \<Rightarrow> 'd limiter_world \<Rightarrow> bool" for D t w where
  acquire: "al_AcquirePermit t (lw_lim w) = (r, l) \<Longrightarrow> limiter_step D t w (settle r (w\<lparr>lw_lim := l, lw_now := t\<rparr>))"
| acquire_wait: "al_AcquirePermitWithMaxWait d t (lw_lim w) = (r, l) \<Longrightarrow> limiter_step D t w (settle r (w\<lparr>lw_lim := l, lw_now := t\<rparr>))"
| try_acquire: "al_TryAcquirePermit t (lw_lim w) = (p, l)
     \<Longrightarrow> limiter_step D t w (w\<lparr>lw_lim := l, lw_permits := lw_permits w @ (case p of None \<Rightarrow> [] | Some q \<Rightarrow> [q]), lw_now := t\<rparr>)"
| finish_wait: "i \<in> set (lw_blocked w) \<Longrightarrow> al_finish_wait wrap t i err (lw_lim w) = Some (r, l)
     \<Longrightarrow> limiter_step D t w (settle r (w\<lparr>lw_lim := l, lw_blocked := remove1 i (lw_blocked w), lw_now := t\<rparr>))"
| record_permit: "p \<in> set (lw_permits w) \<Longrightarrow> pm_startTime p < t \<Longrightarrow> permit_Record D t p ut (lw_lim w) = Some (Inr (l, ut'))
     \<Longrightarrow> limiter_step D t w (w\<lparr>lw_lim := l, lw_permits := remove1 p (lw_permits w), lw_now := t\<rparr>)"
| drop_permit: "p \<in> set (lw_permits w) \<Longrightarrow> pm_startTime p < t \<Longrightarrow> permit_Drop D t p (lw_lim w) = Some (Inr l)
     \<Longrightarrow> limiter_step D t w (w\<lparr>lw_lim := l, lw_permits := remove1 p (lw_permits w), lw_now := t\<rparr>)"
| reset: "limiter_step D t w (w\<lparr>lw_lim := al_Reset D t (lw_lim w), lw_now := t\<rparr>)"

inductive limiter_run :: "'d tdigest_api \<Rightarrow> al_config \<Rightarrow> 'd limiter_world \<Rightarrow> bool" for D c where
  build: "0 \<le> t \<Longrightarrow> in_i64 t \<Longrightarrow> limiter_run D c \<lparr>lw_lim = al_Build D t c, lw_blocked = [], lw_permits = [], lw_now = t\<rparr>"
| step: "limiter_run D c w \<Longrightarrow> lw_now w \<le> t \<Longrightarrow> in_i64 t \<Longrightarrow> limiter_step D t w w' \<Longrightarrow> limiter_run D c w'"

text \<open>The callers as the semaphore sees them.\<close>

definition sem_view :: "'d limiter_world \<Rightarrow> sem_world" where
  "sem_view w = \<lparr>sem = al_semaphore (lw_lim w), blocked = lw_blocked w, holders = length (lw_permits w)\<rparr>"

definition permit_ok :: "nanotime \<Rightarrow> recordingPermit \<Rightarrow> bool" where
  "permit_ok now p \<longleftrightarrow> 0 \<le> pm_startTime p \<and> pm_startTime p \<le> now \<and> 1 \<le> pm_currentInflight p"

definition built_config :: "al_config \<Rightarrow> al_config" where
  "built_config c = (if has_queue c \<and> al_maxWaitTime c = 0 then c\<lparr>al_maxWaitTime := - 1\<rparr> else c)"

definition world_inv :: "(float64 list \<Rightarrow> 'd \<Rightarrow> bool) \<Rightarrow> al_config \<Rightarrow> 'd limiter_world \<Rightarrow> bool" where
  "world_inv holds c w \<longleftrightarrow> lim_inv holds (lw_lim w) \<and> al_config (lw_lim w) = built_config c \<and> sem_inv (sem_view w)
     \<and> 0 \<le> lw_now w \<and> in_i64 (lw_now w) \<and> (\<forall>p \<in> set (lw_permits w). permit_ok (lw_now w) p)"

lemma permit_Record_cases:
  assumes "permit_Record D t p ut l = Some (Inr (l', ut'))"
  shows "al_record D t (t - pm_startTime p) (pm_currentInflight p) False l = Some (Inr l')"
  using assms by (auto simp: permit_Record_def permit_RecordUsage_def Let_def run_go_cases run_bind_cases split: if_splits)

lemma permit_ok_mono: "permit_ok now p \<Longrightarrow> now \<le> t \<Longrightarrow> permit_ok t p"
  by (simp add: permit_ok_def)

lemma sem_view_simps:
  "sem (sem_view w) = al_semaphore (lw_lim w)" "blocked (sem_view w) = lw_blocked w" "holders (sem_view w) = length (lw_permits w)"
  by (simp_all add: sem_view_def)

text \<open>What the permits and the semaphore of the callers are after a step that only touches the semaphore.\<close>

lemma granted_inflight:
  assumes "sem_inv (sem_view w)" "0 < length (lw_permits w)"
  shows "1 \<le> Used (al_semaphore (lw_lim w))"
  using assms by (cases "lw_permits w") (simp_all add: sem_inv_def sem_core_def sem_view_def Used_def)

lemma acquire_view:
  assumes "al_AcquirePermit t (lw_lim w) = (r, l)"
  shows "sem_step (sem_view w) (sem_view (settle r (w\<lparr>lw_lim := l, lw_now := t\<rparr>)))" "l = (lw_lim w)\<lparr>al_semaphore := al_semaphore l\<rparr>"
    "sem_size (al_semaphore l) = sem_size (al_semaphore (lw_lim w))" "\<And>p. r = Granted p \<Longrightarrow> p = newPermit t l"
proof -
  obtain r0 s where a: "(sem_Acquire (al_semaphore (lw_lim w)) :: unit acquire_outcome \<times> _) = (r0, s)" by (cases "sem_Acquire (al_semaphore (lw_lim w)) :: unit acquire_outcome \<times> _")
  have l: "l = (lw_lim w)\<lparr>al_semaphore := s\<rparr>" using assms a by (simp add: al_AcquirePermit_def outcome_permit_def Let_def)
  show "sem_step (sem_view w) (sem_view (settle r (w\<lparr>lw_lim := l, lw_now := t\<rparr>)))"
  proof (cases r0)
    case Acquired
    then have "r = Granted (newPermit t l)" using assms a l by (simp add: al_AcquirePermit_def outcome_permit_def Let_def)
    then show ?thesis using sem_step.acquire[of "sem_view w" s] a Acquired l by (simp add: sem_view_def)
  next
    case (Refused e)
    then show ?thesis using a by (auto simp: sem_Acquire_def push_waiter_def split: if_splits)
  next
    case (Blocked i)
    then have "r = Waiting i" using assms a l by (simp add: al_AcquirePermit_def outcome_permit_def Let_def)
    then show ?thesis using sem_step.acquire_block[of "sem_view w" i s] a Blocked l by (simp add: sem_view_def)
  qed
  show "l = (lw_lim w)\<lparr>al_semaphore := al_semaphore l\<rparr>" using l by simp
  show "sem_size (al_semaphore l) = sem_size (al_semaphore (lw_lim w))"
    using a l by (auto simp: sem_Acquire_def push_waiter_def split: if_splits)
  show "p = newPermit t l" if "r = Granted p" for p
    using that assms a l by (auto simp: al_AcquirePermit_def outcome_permit_def Let_def split: acquire_outcome.splits)
qed

lemma acquire_wait_view:
  assumes "al_AcquirePermitWithMaxWait d t (lw_lim w) = (r, l)"
  shows "sem_step (sem_view w) (sem_view (settle r (w\<lparr>lw_lim := l, lw_now := t\<rparr>)))" "l = (lw_lim w)\<lparr>al_semaphore := al_semaphore l\<rparr>"
    "sem_size (al_semaphore l) = sem_size (al_semaphore (lw_lim w))" "\<And>p. r = Granted p \<Longrightarrow> p = newPermit t l"
proof -
  obtain r0 s where a: "(AcquireWithMaxWait d (al_semaphore (lw_lim w)) :: unit acquire_outcome \<times> _) = (r0, s)"
    by (cases "AcquireWithMaxWait d (al_semaphore (lw_lim w)) :: unit acquire_outcome \<times> _")
  have l: "l = (lw_lim w)\<lparr>al_semaphore := s\<rparr>" using assms a by (simp add: al_AcquirePermitWithMaxWait_def outcome_permit_def Let_def)
  show "sem_step (sem_view w) (sem_view (settle r (w\<lparr>lw_lim := l, lw_now := t\<rparr>)))"
  proof (cases r0)
    case Acquired
    then have "r = Granted (newPermit t l)" using assms a l by (simp add: al_AcquirePermitWithMaxWait_def outcome_permit_def Let_def)
    then show ?thesis using sem_step.acquire_wait[of d "sem_view w" s] a Acquired l by (simp add: sem_view_def)
  next
    case (Refused e)
    then have "r = Denied (map_wait_error e)" using assms a l by (simp add: al_AcquirePermitWithMaxWait_def outcome_permit_def Let_def)
    then show ?thesis using sem_step.acquire_wait_refused[of d "sem_view w" e s] a Refused l by (simp add: sem_view_def)
  next
    case (Blocked i)
    then have "r = Waiting i" using assms a l by (simp add: al_AcquirePermitWithMaxWait_def outcome_permit_def Let_def)
    then show ?thesis using sem_step.acquire_wait_block[of d "sem_view w" i s] a Blocked l by (simp add: sem_view_def)
  qed
  show "l = (lw_lim w)\<lparr>al_semaphore := al_semaphore l\<rparr>" using l by simp
  show "sem_size (al_semaphore l) = sem_size (al_semaphore (lw_lim w))"
    using a l by (auto simp: AcquireWithMaxWait_def push_waiter_def split: if_splits)
  show "p = newPermit t l" if "r = Granted p" for p
    using that assms a l by (auto simp: al_AcquirePermitWithMaxWait_def outcome_permit_def Let_def split: acquire_outcome.splits)
qed

lemma finish_view:
  assumes "al_finish_wait wrap t i err (lw_lim w) = Some (r, l)" "i \<in> set (lw_blocked w)"
  shows "sem_step (sem_view w) (sem_view (settle r (w\<lparr>lw_lim := l, lw_blocked := remove1 i (lw_blocked w), lw_now := t\<rparr>)))"
    "l = (lw_lim w)\<lparr>al_semaphore := al_semaphore l\<rparr>" "sem_size (al_semaphore l) = sem_size (al_semaphore (lw_lim w))" "\<And>p. r = Granted p \<Longrightarrow> p = newPermit t l"
proof -
  have i: "i \<in> set (blocked (sem_view w))" using assms(2) by (simp add: sem_view_def)
  show "sem_step (sem_view w) (sem_view (settle r (w\<lparr>lw_lim := l, lw_blocked := remove1 i (lw_blocked w), lw_now := t\<rparr>)))"
  proof (cases err)
    case None
    then have "i \<in> set (sem_closed (al_semaphore (lw_lim w)))" "r = Granted (newPermit t (lw_lim w))" "l = lw_lim w"
      using assms(1) by (auto simp: al_finish_wait_def split: if_splits)
    then show ?thesis using sem_step.receive[OF i] by (simp add: sem_view_def)
  next
    case (Some e)
    obtain r0 s where d: "drainWaiter i e (al_semaphore (lw_lim w)) = (r0, s)" by (cases "drainWaiter i e (al_semaphore (lw_lim w))")
    then have l: "l = (lw_lim w)\<lparr>al_semaphore := s\<rparr>" "r = (case r0 of None \<Rightarrow> Granted (newPermit t l) | Some e' \<Rightarrow> Denied (wrap e'))"
      using assms(1) Some by (auto simp: al_finish_wait_def Let_def)
    show ?thesis
    proof (cases r0)
      case None
      then show ?thesis using sem_step.drained_ready[OF i, of e s] d l by (simp add: sem_view_def)
    next
      case (Some e')
      then show ?thesis using sem_step.drained[OF i, of e e' s] d l by (simp add: sem_view_def)
    qed
  qed
  show "l = (lw_lim w)\<lparr>al_semaphore := al_semaphore l\<rparr>" "sem_size (al_semaphore l) = sem_size (al_semaphore (lw_lim w))" "\<And>p. r = Granted p \<Longrightarrow> p = newPermit t l"
    using assms(1) by (auto simp: al_finish_wait_def drainWaiter_def Let_def split: option.splits if_splits)
qed

lemma settle_fields [simp]: "lw_lim (settle r w) = lw_lim w" "lw_now (settle r w) = lw_now w"
  "lw_permits (settle r w) = lw_permits w @ (case r of Granted p \<Rightarrow> [p] | _ \<Rightarrow> [])"
  by (cases r; simp)+

text \<open>A step of the semaphore's callers that only touches the semaphore keeps the invariant.\<close>

lemma world_inv_semaphore_step:
  assumes inv: "world_inv holds c w" and now: "lw_now w \<le> t" "in_i64 t"
    and view: "sem_step (sem_view w) (sem_view (settle r (w\<lparr>lw_lim := l, lw_blocked := bs, lw_now := t\<rparr>)))"
    and l: "l = (lw_lim w)\<lparr>al_semaphore := al_semaphore l\<rparr>" "sem_size (al_semaphore l) = sem_size (al_semaphore (lw_lim w))"
    and p: "\<And>p. r = Granted p \<Longrightarrow> p = newPermit t l"
  shows "world_inv holds c (settle r (w\<lparr>lw_lim := l, lw_blocked := bs, lw_now := t\<rparr>))"
proof -
  let ?w = "settle r (w\<lparr>lw_lim := l, lw_blocked := bs, lw_now := t\<rparr>)"
  have sem: "sem_inv (sem_view ?w)" using sem_step_inv[OF view] inv by (simp add: world_inv_def)
  have "lim_inv holds l" using lim_inv_semaphore[of holds "lw_lim w" "al_semaphore l"] inv l by (simp add: world_inv_def)
  moreover have "al_config l = built_config c" using arg_cong[OF l(1), of al_config] inv by (simp add: world_inv_def)
  moreover have "permit_ok t q" if "q \<in> set (lw_permits ?w)" for q
  proof (cases "q \<in> set (lw_permits w)")
    case True
    then show ?thesis using inv now(1) permit_ok_mono by (auto simp: world_inv_def)
  next
    case False
    then have r: "r = Granted q" using that by (cases r) auto
    have "1 \<le> Used (al_semaphore l)" using granted_inflight[OF sem] r by simp
    then show ?thesis using p[OF r] inv now by (auto simp: permit_ok_def newPermit_def world_inv_def)
  qed
  ultimately show ?thesis using sem inv now by (simp add: world_inv_def)
qed

lemma ring_reset: "ring n vs buf i \<Longrightarrow> ring n [] (map (\<lambda>_. z) buf) 0"
  using ring_empty[of n z] by (simp add: ring_def map_replicate_const)

lemma median_reset: "median_inv n vs m \<Longrightarrow> median_inv n [] (MovingMedian_Reset m)"
  using ring_reset by (fastforce simp: median_inv_def MovingMedian_Reset_def)

lemma average_reset: "average_inv lo hi e \<Longrightarrow> average_inv lo hi (MovingAverage_Reset e)"
  by (auto simp: average_inv_def MovingAverage_Reset_def)

lemma corr_reset: "corr_inv n ps w \<Longrightarrow> corr_inv n [] (CorrelationWindow_Reset w)"
  using ring_reset by (fastforce simp: corr_inv_def CorrelationWindow_Reset_def sum_inv_def MovingSum_Reset_def)

lemma lim_inv_Reset:
  assumes D: "tdigest_laws D holds" and inv: "lim_inv holds l"
  shows "lim_inv holds (al_Reset D t l)"
proof -
  have "limit_ok (al_Reset D t l)"
    using inv by (simp add: lim_inv_def limit_ok_def al_Reset_def al_cfg_ok_def)
  moreover have "windows_ok (al_Reset D t l)"
    using inv median_reset average_reset corr_reset unfolding lim_inv_def windows_ok_def al_Reset_def by fastforce
  moreover have "sample_ok holds (al_Reset D t l)"
    using inv tdigest_laws.td_reset[OF D] by (auto simp: lim_inv_def sample_ok_def al_Reset_def sample_Reset_def intro!: exI[of _ "[]"])
  ultimately show ?thesis by (simp add: lim_inv_def)
qed

lemma lim_inv_Build:
  assumes D: "tdigest_laws D holds" and c: "al_cfg_ok c"
  shows "lim_inv holds (al_Build D t c)"
proof -
  have n: "al_baselineWindowAge c \<noteq> 0" using c by (auto simp: al_cfg_ok_def)
  have corr: "corr_inv (unat k) [] (NewCorrelationWindow k u)" for k u by (rule corr_inv_new)
  have "median_inv 5 [] (NewMovingMedian smoothedSamples)"
    by (simp add: median_inv_def NewMovingMedian_def smoothedSamples_def ring_empty)
  moreover have "average_inv 1 (2 ^ 63) (NewMovingAverage (of_nat smoothedSamples) al_warmupSamples)" "average_inv 1 (2 ^ 63) (NewMovingAverage (al_baselineWindowAge c) al_warmupSamples)"
    using c by (auto intro!: average_inv_new simp: smoothedSamples_def al_warmupSamples_def al_cfg_ok_def)
  ultimately have "windows_ok (al_Build D t c)"
    using corr by (auto simp: windows_ok_def al_Build_def intro!: exI[of _ "[]"])
  moreover have "limit_ok (al_Build D t c)" using c by (simp add: limit_ok_def al_Build_def NewDynamicSemaphore_def al_cfg_ok_def)
  moreover have "sample_ok holds (al_Build D t c)" using tdigest_laws.td_new[OF D] by (auto simp: sample_ok_def al_Build_def intro!: exI[of _ "[]"])
  ultimately show ?thesis by (simp add: lim_inv_def)
qed

lemma limiter_records:
  assumes D: "tdigest_laws D holds" and inv: "world_inv holds c w" and p: "p \<in> set (lw_permits w)" "pm_startTime p < t" "in_i64 t"
  shows "\<exists>l. al_record D t (t - pm_startTime p) (pm_currentInflight p) dropped (lw_lim w) = Some (Inr l) \<and> lim_inv holds l \<and> al_config l = built_config c
    \<and> \<bar>al_limit l - al_limit (lw_lim w)\<bar> \<le> step_of (al_limit (lw_lim w))
    \<and> sem_step\<^sup>*\<^sup>* (sem_view w) (sem_view (w\<lparr>lw_lim := l, lw_permits := remove1 p (lw_permits w), lw_now := t\<rparr>))"
proof -
  have ok: "permit_ok (lw_now w) p" using inv p(1) by (simp add: world_inv_def)
  then have "rtt_ok (t - pm_startTime p)" "1 \<le> pm_currentInflight p" using p(2,3) by (auto simp: rtt_ok_def permit_ok_def in_i64_def)
  moreover have "0 < length (lw_permits w)" using p(1) by (rule length_pos_if_in_set)
  then have "0 < sem_used (al_semaphore (lw_lim w))"
    using granted_inflight[of w] inv by (simp add: world_inv_def Used_def)
  moreover have "lim_inv holds (lw_lim w)" using inv by (simp add: world_inv_def)
  ultimately obtain l s where l: "al_record D t (t - pm_startTime p) (pm_currentInflight p) dropped (lw_lim w) = Some (Inr l)" "lim_inv holds l"
     "al_config l = al_config (lw_lim w)" "\<bar>al_limit l - al_limit (lw_lim w)\<bar> \<le> step_of (al_limit (lw_lim w))"
     "s = al_semaphore (lw_lim w) \<or> (\<exists>n. s = SetSize n (al_semaphore (lw_lim w)))" "Release s = Inr (al_semaphore l)"
    using tdigest_laws.record_step[OF D] by blast
  let ?v = "sem_view w\<lparr>sem := s\<rparr>"
  have "sem_step\<^sup>*\<^sup>* (sem_view w) ?v"
  proof (cases "s = al_semaphore (lw_lim w)")
    case True
    then show ?thesis by (simp add: sem_view_def)
  next
    case False
    then show ?thesis using l(5) sem_step.resize[of "sem_view w"] by (auto simp: sem_view_def)
  qed
  moreover obtain k where k: "length (lw_permits w) = Suc k" using \<open>0 < length (lw_permits w)\<close> by (cases "length (lw_permits w)") auto
  then have "length (remove1 p (lw_permits w)) = k" using p(1) by (simp add: length_remove1)
  then have "sem_step ?v (sem_view (w\<lparr>lw_lim := l, lw_permits := remove1 p (lw_permits w), lw_now := t\<rparr>))"
    using sem_step.release[of ?v k "al_semaphore l"] l(6) k by (simp add: sem_view_def)
  ultimately show ?thesis using l inv by (auto simp: world_inv_def intro: rtranclp.rtrancl_into_rtrancl)
qed

lemma sem_steps_inv: "sem_step\<^sup>*\<^sup>* v v' \<Longrightarrow> sem_inv v \<Longrightarrow> sem_inv v'"
  by (induction rule: rtranclp_induct) (auto intro: sem_step_inv)

lemma world_inv_record:
  assumes "world_inv holds c w" "lw_now w \<le> t" "in_i64 t" "lim_inv holds l" "al_config l = built_config c"
    "sem_step\<^sup>*\<^sup>* (sem_view w) (sem_view (w\<lparr>lw_lim := l, lw_permits := remove1 p (lw_permits w), lw_now := t\<rparr>))"
  shows "world_inv holds c (w\<lparr>lw_lim := l, lw_permits := remove1 p (lw_permits w), lw_now := t\<rparr>)"
  using assms sem_steps_inv[OF assms(6)] permit_ok_mono set_remove1_subset[of p "lw_permits w"] unfolding world_inv_def by fastforce

lemma limiter_step_inv:
  assumes D: "tdigest_laws D holds" and inv: "world_inv holds c w" and t: "lw_now w \<le> t" "in_i64 t" and step: "limiter_step D t w w'"
  shows "world_inv holds c w' \<and> sem_step\<^sup>*\<^sup>* (sem_view w) (sem_view w')"
  using step
proof cases
  case (acquire r l)
  note v = acquire_view[OF acquire(2)]
  have "world_inv holds c w'" using world_inv_semaphore_step[OF inv t, where r = r and l = l and bs = "lw_blocked w"] v acquire(1) by simp
  then show ?thesis using v(1) acquire(1) by auto
next
  case (acquire_wait d r l)
  note v = acquire_wait_view[OF acquire_wait(2)]
  have "world_inv holds c w'" using world_inv_semaphore_step[OF inv t, where r = r and l = l and bs = "lw_blocked w"] v acquire_wait(1) by simp
  then show ?thesis using v(1) acquire_wait(1) by auto
next
  case (try_acquire p l)
  obtain ok s where a: "TryAcquire (al_semaphore (lw_lim w)) = (ok, s)" by (cases "TryAcquire (al_semaphore (lw_lim w))")
  define r :: "unit permit_outcome" where "r = (case p of None \<Rightarrow> Denied al_ErrExceeded | Some q \<Rightarrow> Granted q)"
  have l: "l = (lw_lim w)\<lparr>al_semaphore := s\<rparr>" "p = (if ok then Some (newPermit t l) else None)"
    using try_acquire(2) a by (auto simp: al_TryAcquirePermit_def Let_def)
  have w': "w' = settle r (w\<lparr>lw_lim := l, lw_blocked := lw_blocked w, lw_now := t\<rparr>)" using try_acquire(1) by (cases p) (simp_all add: r_def)
  have v: "sem_step (sem_view w) (sem_view w')"
    using sem_step.try_acquire[of "sem_view w" ok s] a l try_acquire(1) by (cases ok) (simp_all add: sem_view_def)
  have "sem_size s = sem_size (al_semaphore (lw_lim w))" using a by (auto simp: TryAcquire_def split: if_splits)
  then have "world_inv holds c w'"
    unfolding w' using v l by (intro world_inv_semaphore_step[OF inv t]) (auto simp: r_def w' split: if_splits)
  then show ?thesis using v by auto
next
  case (finish_wait i wrap err r l)
  note v = finish_view[OF finish_wait(3,2)]
  have "world_inv holds c w'" unfolding finish_wait(1) by (rule world_inv_semaphore_step[OF inv t v])
  then show ?thesis using v(1) finish_wait(1) by auto
next
  case (record_permit p ut l ut')
  obtain l1 where l1: "al_record D t (t - pm_startTime p) (pm_currentInflight p) False (lw_lim w) = Some (Inr l1)" "lim_inv holds l1" "al_config l1 = built_config c"
     "sem_step\<^sup>*\<^sup>* (sem_view w) (sem_view (w\<lparr>lw_lim := l1, lw_permits := remove1 p (lw_permits w), lw_now := t\<rparr>))"
    using limiter_records[OF D inv record_permit(2,3) t(2), of False] by blast
  have "l1 = l" using l1(1) permit_Record_cases[OF record_permit(4)] by simp
  then show ?thesis using world_inv_record[OF inv t l1(2-4)] l1(4) record_permit(1) by simp
next
  case (drop_permit p l)
  obtain l1 where l1: "al_record D t (t - pm_startTime p) (pm_currentInflight p) True (lw_lim w) = Some (Inr l1)" "lim_inv holds l1" "al_config l1 = built_config c"
     "sem_step\<^sup>*\<^sup>* (sem_view w) (sem_view (w\<lparr>lw_lim := l1, lw_permits := remove1 p (lw_permits w), lw_now := t\<rparr>))"
    using limiter_records[OF D inv drop_permit(2,3) t(2), of True] by blast
  have "l1 = l" using l1(1) drop_permit(4) by (simp add: permit_Drop_def)
  then show ?thesis using world_inv_record[OF inv t l1(2-4)] l1(4) drop_permit(1) by simp
next
  case reset
  have v: "sem_step (sem_view w) (sem_view w')"
    using sem_step.resize[of "sem_view w"] reset by (simp add: sem_view_def al_Reset_def)
  have "lim_inv holds (lw_lim w')" using lim_inv_Reset[OF D] inv reset by (simp add: world_inv_def)
  moreover have "al_config (lw_lim w') = built_config c" using inv reset by (simp add: world_inv_def al_Reset_def)
  ultimately have "world_inv holds c w'"
    using sem_step_inv[OF v] inv t permit_ok_mono reset unfolding world_inv_def by auto
  then show ?thesis using v by auto
qed

lemma built_config_ok: "al_cfg_ok (built_config c) = al_cfg_ok c" "al_minLimit (built_config c) = al_minLimit c" "al_maxLimit (built_config c) = al_maxLimit c"
  by (simp_all add: built_config_def al_cfg_ok_def)

lemma sem_steps_reachable: "sem_step\<^sup>*\<^sup>* v v' \<Longrightarrow> sem_reachable sz v \<Longrightarrow> sem_reachable sz v'"
  by (induction rule: rtranclp_induct) (auto intro: sem_reachable.step)

lemma limiter_run_inv:
  assumes D: "tdigest_laws D holds" and c: "al_cfg_ok c" and run: "limiter_run D c w"
  shows "world_inv holds c w \<and> sem_reachable (int (unat (al_initialLimit c))) (sem_view w)"
  using run
proof induction
  case (build t)
  have "sem_view \<lparr>lw_lim = al_Build D t c, lw_blocked = [], lw_permits = [], lw_now = t\<rparr> = sem_init (int (unat (al_initialLimit c)))"
    by (simp add: sem_view_def sem_init_def al_Build_def)
  then have v: "sem_reachable (int (unat (al_initialLimit c))) (sem_view \<lparr>lw_lim = al_Build D t c, lw_blocked = [], lw_permits = [], lw_now = t\<rparr>)"
    by (simp add: sem_reachable.init)
  moreover have "al_config (al_Build D t c) = built_config c" by (simp add: al_Build_def built_config_def)
  ultimately show ?case using lim_inv_Build[OF D c] build sem_reachable_inv[OF v] by (simp add: world_inv_def)
next
  case (step w t w')
  then show ?case using limiter_step_inv[OF D _ step(2,3,4)] sem_steps_reachable by blast
qed

section \<open>Properties\<close>

text \<open>
  Whatever the callers do, the limit stays between the configured limits, the semaphore has the size of the limit, and every permit that is held can be recorded
  or dropped, without a panic, and then moves the limit by at most one step.
\<close>

theorem adaptive_limit_bounds:
  assumes "tdigest_laws D holds" "al_cfg_ok c" "limiter_run D c w"
  shows "al_minLimit c \<le> al_limit (lw_lim w) \<and> al_limit (lw_lim w) \<le> al_maxLimit c
    \<and> sem_size (al_semaphore (lw_lim w)) = Limit (lw_lim w)
    \<and> (\<forall>p \<in> set (lw_permits w). \<forall>t dropped. pm_startTime p < t \<and> in_i64 t \<longrightarrow>
         (\<exists>l. al_record D t (t - pm_startTime p) (pm_currentInflight p) dropped (lw_lim w) = Some (Inr l)
            \<and> \<bar>al_limit l - al_limit (lw_lim w)\<bar> \<le> of_int (limit_step (Limit (lw_lim w)))))"
proof -
  have inv: "world_inv holds c w" using limiter_run_inv[OF assms] by blast
  then have "limit_ok (lw_lim w)" "al_config (lw_lim w) = built_config c" by (auto simp: world_inv_def lim_inv_def)
  then have "al_minLimit c \<le> al_limit (lw_lim w) \<and> al_limit (lw_lim w) \<le> al_maxLimit c \<and> sem_size (al_semaphore (lw_lim w)) = Limit (lw_lim w)"
    by (auto simp: limit_ok_def built_config_ok Limit_def)
  moreover have "\<exists>l. al_record D t (t - pm_startTime p) (pm_currentInflight p) dropped (lw_lim w) = Some (Inr l)
      \<and> \<bar>al_limit l - al_limit (lw_lim w)\<bar> \<le> of_int (limit_step (Limit (lw_lim w)))"
    if "p \<in> set (lw_permits w)" "pm_startTime p < t" "in_i64 t" for p t dropped
    using limiter_records[OF assms(1) inv that, of dropped] by (auto simp: step_of_def Limit_def)
  ultimately show ?thesis by blast
qed

lemma al_cfg_ok_default: "al_cfg_ok al_NewBuilder"
  by (simp add: al_cfg_ok_def al_NewBuilder_def float_of_uint_def)

lemma built_and_acquired:
  "\<exists>w. limiter_run list_digest al_NewBuilder w \<and> lw_permits w = [\<lparr>pm_startTime = 5, pm_currentInflight = 1, pm_userID = [], pm_tracksUsage = False\<rparr>]
     \<and> lw_lim w = (al_Build list_digest 0 al_NewBuilder)\<lparr>al_semaphore := (NewDynamicSemaphore 20)\<lparr>sem_used := 1\<rparr>\<rparr>"
proof -
  let ?w = "\<lparr>lw_lim = al_Build list_digest 0 al_NewBuilder, lw_blocked = [], lw_permits = [], lw_now = 0\<rparr>"
  have run: "limiter_run list_digest al_NewBuilder ?w" by (rule limiter_run.build) (simp_all add: in_i64_def)
  have sem: "al_semaphore (al_Build list_digest 0 al_NewBuilder) = NewDynamicSemaphore 20"
    by (simp add: al_Build_def al_NewBuilder_def)
  obtain r l where a: "(al_AcquirePermit 5 (lw_lim ?w) :: unit permit_outcome \<times> _) = (r, l)" by fastforce
  then have r: "r = Granted \<lparr>pm_startTime = 5, pm_currentInflight = 1, pm_userID = [], pm_tracksUsage = False\<rparr>"
    "l = (al_Build list_digest 0 al_NewBuilder)\<lparr>al_semaphore := (NewDynamicSemaphore 20)\<lparr>sem_used := 1\<rparr>\<rparr>"
    by (auto simp: al_AcquirePermit_def outcome_permit_def Let_def sem sem_Acquire_def NewDynamicSemaphore_def newPermit_def Used_def)
  have "limiter_run list_digest al_NewBuilder (settle r (?w\<lparr>lw_lim := l, lw_now := 5\<rparr>))"
    by (rule limiter_run.step[OF run _ _ limiter_step.acquire[OF a]]) (simp_all add: in_i64_def)
  then show ?thesis using r by (intro exI[of _ "settle r (?w\<lparr>lw_lim := l, lw_now := 5\<rparr>)"]) simp
qed

theorem adaptive_limit_bounds_witness:
  "\<exists>l. al_record list_digest 8 3 1 False ((al_Build list_digest 0 al_NewBuilder)\<lparr>al_semaphore := (NewDynamicSemaphore 20)\<lparr>sem_used := 1\<rparr>\<rparr>) = Some (Inr l)
    \<and> \<bar>al_limit l - 20\<bar> \<le> 1"
proof -
  obtain w where w: "limiter_run list_digest al_NewBuilder w" "lw_permits w = [\<lparr>pm_startTime = 5, pm_currentInflight = 1, pm_userID = [], pm_tracksUsage = False\<rparr>]"
    "lw_lim w = (al_Build list_digest 0 al_NewBuilder)\<lparr>al_semaphore := (NewDynamicSemaphore 20)\<lparr>sem_used := 1\<rparr>\<rparr>"
    using built_and_acquired by blast
  have lim: "al_limit (lw_lim w) = 20" "Limit (lw_lim w) = 20" "limit_step 20 = 1"
    using w(3) by (simp_all add: al_Build_def al_NewBuilder_def float_of_uint_def Limit_def float_to_int_def limit_step_def)
  have p: "\<lparr>pm_startTime = 5, pm_currentInflight = 1, pm_userID = [], pm_tracksUsage = False\<rparr> \<in> set (lw_permits w)"
    "pm_startTime \<lparr>pm_startTime = 5, pm_currentInflight = 1, pm_userID = [], pm_tracksUsage = False\<rparr> < 8 \<and> in_i64 8"
    using w(2) by (simp_all add: in_i64_def)
  have "\<exists>l. al_record list_digest 8 3 1 False (lw_lim w) = Some (Inr l) \<and> \<bar>al_limit l - 20\<bar> \<le> 1"
    using adaptive_limit_bounds[OF list_td.tdigest_laws_axioms al_cfg_ok_default w(1), THEN conjunct2, THEN conjunct2, THEN conjunct2, rule_format, OF p, of False] lim
    by simp
  then show ?thesis using w(3) by simp
qed

text \<open>
  C29. Every state of a limiter and its callers is one of the semaphore: the permits in use are the ones that are held, or are on their way to a caller that was woken,
  the queue consists of the callers that were not woken, and nobody queues while a permit is free.
\<close>

theorem adaptive_permits_conserved:
  assumes "tdigest_laws D holds" "al_cfg_ok c" "limiter_run D c w"
  shows "sem_reachable (int (unat (al_initialLimit c))) (sem_view w)
    \<and> Inflight (lw_lim w) = int (length (lw_permits w)) + int (length [i \<leftarrow> lw_blocked w. i \<in> set (sem_closed (al_semaphore (lw_lim w)))])
    \<and> Queued (lw_lim w) = int (length [i \<leftarrow> lw_blocked w. i \<notin> set (sem_closed (al_semaphore (lw_lim w)))])
    \<and> (Queued (lw_lim w) \<noteq> 0 \<longrightarrow> \<not> al_CanAcquirePermit (lw_lim w))"
proof -
  have inv: "world_inv holds c w" "sem_reachable (int (unat (al_initialLimit c))) (sem_view w)" using limiter_run_inv[OF assms] by blast+
  then have sem: "sem_inv (sem_view w)" by (simp add: world_inv_def)
  let ?s = "al_semaphore (lw_lim w)"
  have q: "set (sem_waiters ?s) = set [i \<leftarrow> lw_blocked w. i \<notin> set (sem_closed ?s)]" "distinct (sem_waiters ?s)" "distinct (lw_blocked w)"
    using sem by (auto simp: sem_inv_def sem_core_def sem_view_def sem_order_def sorted_wrt_append strict_sorted_iff)
  then have "length (sem_waiters ?s) = length [i \<leftarrow> lw_blocked w. i \<notin> set (sem_closed ?s)]"
    by (metis distinct_card distinct_filter)
  moreover from this have "sem_waiters ?s \<noteq> [] \<longleftrightarrow> [i \<leftarrow> lw_blocked w. i \<notin> set (sem_closed ?s)] \<noteq> []" by (metis length_0_conv)
  ultimately show ?thesis
    using sem inv(2) by (simp add: sem_inv_def sem_core_def woken_def sem_view_def Inflight_def Used_def Queued_def Waiters_def al_CanAcquirePermit_def)
qed

theorem adaptive_permits_conserved_witness:
  "Inflight ((al_Build list_digest 0 al_NewBuilder)\<lparr>al_semaphore := (NewDynamicSemaphore 20)\<lparr>sem_used := 1\<rparr>\<rparr>) = 1"
proof -
  obtain w where w: "limiter_run list_digest al_NewBuilder w" "lw_permits w = [\<lparr>pm_startTime = 5, pm_currentInflight = 1, pm_userID = [], pm_tracksUsage = False\<rparr>]"
    "lw_lim w = (al_Build list_digest 0 al_NewBuilder)\<lparr>al_semaphore := (NewDynamicSemaphore 20)\<lparr>sem_used := 1\<rparr>\<rparr>"
    using built_and_acquired by blast
  then show ?thesis
    using adaptive_permits_conserved[OF list_td.tdigest_laws_axioms al_cfg_ok_default w(1)] by (simp add: NewDynamicSemaphore_def)
qed

lemma next_limit_above:
  assumes "1 \<le> al_minLimit c" "al_minLimit c \<le> x" "x \<le> al_maxLimit c" "al_maxLimit c \<le> 2 ^ 64" "m < x"
  shows "next_limit c change m x = max (al_minLimit c) (x - step_of x)"
proof -
  have s: "1 \<le> step_of x" using assms by (intro step_of_pos) auto
  show ?thesis using assms s by (auto simp: next_limit_def clamp_limit_def Let_def split: limitChange.splits)
qed

lemma next_limit_hold: "al_minLimit c \<le> x \<Longrightarrow> x \<le> al_maxLimit c \<Longrightarrow> x \<le> m \<Longrightarrow> next_limit c Hold m x = x"
  by (simp add: next_limit_def clamp_limit_def)

lemma computeChange_cases:
  "6 * s < q \<Longrightarrow> fst (computeChange q (3 * s) (6 * s) full tc tcv rc) = Decrease"
  "0 \<le> s \<Longrightarrow> q < 3 * s \<Longrightarrow> fst (computeChange q (3 * s) (6 * s) False tc tcv rc) = Increase"
  "3 * s \<le> q \<Longrightarrow> q \<le> 6 * s \<Longrightarrow> fst (computeChange q (3 * s) (6 * s) False tc tcv rc) = Hold"
  by (auto simp: computeChange_def)

lemma computeMaxLimit_built [simp]: "computeMaxLimit m (built_config c) = computeMaxLimit m c"
  by (cases "has_queue c \<and> al_maxWaitTime c = 0") (auto simp: computeMaxLimit_def built_config_def split: option.split)

text \<open>
  How an update moves the limit of any limiter that its callers can reach. A queue estimated at more than the beta of the limit, six steps, decreases the
  limit by a step. Otherwise, unless the limiter is full, a limit above the maximum for the inflight executions is decreased too, and a limit below it grows by a step,
  but not over the maximum, when the queue is below the alpha, three steps, and stays when it is not.
\<close>

theorem queue_estimate_moves_limit:
  assumes "tdigest_laws D holds" "al_cfg_ok c" "limiter_run D c w" "1 \<le> r \<and> r \<le> 2 ^ 63" "1 \<le> i"
  defines "l \<equiv> lw_lim w"
  defines "s \<equiv> limit_step (Limit l)"
  shows "\<exists>l' m mw. updateLimit r i now l = Some (Inr l') \<and> max_inflight i now l = Inr (m, l\<lparr>al_maxInflightWindow := mw\<rparr>)
    \<and> (6 * s < queue_size r l \<longrightarrow> al_limit l' = max (al_minLimit c) (al_limit l - of_int s))
    \<and> (al_CanAcquirePermit l \<and> al_limit l > computeMaxLimit m c \<longrightarrow> al_limit l' = max (al_minLimit c) (al_limit l - of_int s))
    \<and> (al_CanAcquirePermit l \<and> al_limit l \<le> computeMaxLimit m c \<and> queue_size r l < 3 * s
        \<longrightarrow> al_limit l' = min (al_maxLimit c) (min (computeMaxLimit m c) (al_limit l + of_int s)))
    \<and> (al_CanAcquirePermit l \<and> al_limit l \<le> computeMaxLimit m c \<and> 3 * s \<le> queue_size r l \<and> queue_size r l \<le> 6 * s \<longrightarrow> al_limit l' = al_limit l)"
proof -
  have inv: "lim_inv holds l" "al_config l = built_config c" using limiter_run_inv[OF assms(1-3)] by (auto simp: world_inv_def l_def)
  then have lim: "limit_ok l" and win: "windows_ok l" by (auto simp: lim_inv_def)
  note cfg = inv(2) built_config_ok
  have b: "1 \<le> al_minLimit (built_config c)" "al_minLimit (built_config c) \<le> al_limit l" "al_limit l \<le> al_maxLimit (built_config c)" "al_maxLimit (built_config c) \<le> 2 ^ 64"
    using lim cfg(1) by (auto simp: limit_ok_def al_cfg_ok_def)
  have s: "step_of (al_limit l) = of_int s" "0 \<le> s"
    using step_of_pos[of "al_limit l"] limit_ok_range[OF lim] by (simp_all add: step_of_def s_def Limit_def)
  have r: "in_range r" using assms(4) by (simp add: in_range_def)
  obtain l1 tc tcv rc m mw where u: "updateLimit r i now l = Some (Inr (set_limit (next_limit (al_config l)
        (fst (computeChange (queue_size r l) (3 * s) (6 * s) (IsFull (al_semaphore l)) tc tcv rc)) (computeMaxLimit m (al_config l)) (al_limit l)) l1))"
     "max_inflight i now l = Inr (m, l\<lparr>al_maxInflightWindow := mw\<rparr>)"
    using updateLimit_step[OF lim win r assms(5), of now] unfolding s_def Limit_def by blast
  let ?ch = "fst (computeChange (queue_size r l) (3 * s) (6 * s) (IsFull (al_semaphore l)) tc tcv rc)"
  let ?y = "next_limit (built_config c) ?ch (computeMaxLimit m c) (al_limit l)"
  have "6 * s < queue_size r l \<Longrightarrow> ?y = max (al_minLimit c) (al_limit l - of_int s)"
    using next_limit_bounds(4)[OF b] by (simp add: computeChange_cases s cfg)
  moreover have "al_limit l > computeMaxLimit m c \<Longrightarrow> ?y = max (al_minLimit c) (al_limit l - of_int s)"
    using next_limit_above[OF b] by (simp add: s cfg)
  moreover have "\<not> IsFull (al_semaphore l) \<Longrightarrow> al_limit l \<le> computeMaxLimit m c \<Longrightarrow> queue_size r l < 3 * s
      \<Longrightarrow> ?y = min (al_maxLimit c) (min (computeMaxLimit m c) (al_limit l + of_int s))"
    using next_limit_bounds(5)[OF b] by (simp add: computeChange_cases s cfg)
  moreover have "\<not> IsFull (al_semaphore l) \<Longrightarrow> al_limit l \<le> computeMaxLimit m c \<Longrightarrow> 3 * s \<le> queue_size r l \<Longrightarrow> queue_size r l \<le> 6 * s \<Longrightarrow> ?y = al_limit l"
    using next_limit_hold[OF b(2,3)] by (simp add: computeChange_cases)
  ultimately show ?thesis using u by (auto simp: cfg(1) al_CanAcquirePermit_def)
qed

text \<open>With one of 20 permits in use, samples twice as long as the baseline make the limiter shrink.\<close>

theorem queue_estimate_moves_limit_witness:
  "\<exists>l'. updateLimit 6 1 9 ((al_Build list_digest 0 al_NewBuilder)\<lparr>al_semaphore := (NewDynamicSemaphore 20)\<lparr>sem_used := 1\<rparr>\<rparr>) = Some (Inr l') \<and> al_limit l' = 19"
proof -
  obtain w where w: "limiter_run list_digest al_NewBuilder w"
    "lw_lim w = (al_Build list_digest 0 al_NewBuilder)\<lparr>al_semaphore := (NewDynamicSemaphore 20)\<lparr>sem_used := 1\<rparr>\<rparr>"
    using built_and_acquired by blast
  have lim: "al_limit (lw_lim w) = 20" "Limit (lw_lim w) = 20" "limit_step 20 = 1"
    using w(2) by (simp_all add: al_Build_def al_NewBuilder_def float_of_uint_def Limit_def float_to_int_def limit_step_def)
  have can: "al_CanAcquirePermit (lw_lim w)" using w(2) by (simp add: al_CanAcquirePermit_def IsFull_def NewDynamicSemaphore_def)
  have inflight: "max_inflight 1 9 (lw_lim w) = Inr (1, lw_lim w)"
    using w(2) by (simp add: max_inflight_def Configured_def NewMaxWindow_def al_Build_def al_NewBuilder_def)
  have m: "computeMaxLimit 1 al_NewBuilder = 5" "al_minLimit al_NewBuilder = 1" by (simp_all add: computeMaxLimit_def al_NewBuilder_def)
  show ?thesis
    using queue_estimate_moves_limit[OF list_td.tdigest_laws_axioms al_cfg_ok_default w(1), of 6 1 9] lim can inflight m unfolding w(2)[symmetric] by auto
qed

section \<open>Configurations that the builder accepts\<close>

text \<open>A limiter that lets nobody in, and its callers.\<close>

definition closed_world :: "'d limiter_world \<Rightarrow> bool" where
  "closed_world w \<longleftrightarrow> al_limit (lw_lim w) = 0 \<and> al_initialLimit (al_config (lw_lim w)) = 0 \<and> lw_permits w = []
     \<and> sem_size (al_semaphore (lw_lim w)) = 0 \<and> sem_used (al_semaphore (lw_lim w)) = 0 \<and> sem_closed (al_semaphore (lw_lim w)) = []"

lemmas acquire_defs = al_AcquirePermit_def al_AcquirePermitWithMaxWait_def al_TryAcquirePermit_def al_finish_wait_def outcome_permit_def
  sem_Acquire_def AcquireWithMaxWait_def push_waiter_def TryAcquire_def drainWaiter_def

lemma closed_world_step:
  assumes "closed_world w" "limiter_step D t w w'"
  shows "closed_world w'"
  using assms(2)
proof cases
  case (acquire r l)
  then show ?thesis using assms(1) by (auto simp: closed_world_def acquire_defs Let_def)
next
  case (acquire_wait d r l)
  then show ?thesis using assms(1) by (auto simp: closed_world_def acquire_defs Let_def split: if_splits)
next
  case (try_acquire p l)
  then show ?thesis using assms(1) by (auto simp: closed_world_def acquire_defs Let_def)
next
  case (finish_wait i wrap err r l)
  then show ?thesis using assms(1) by (auto simp: closed_world_def acquire_defs Let_def split: option.splits)
next
  case (record_permit p ut l ut')
  then show ?thesis using assms(1) by (simp add: closed_world_def)
next
  case (drop_permit p l)
  then show ?thesis using assms(1) by (simp add: closed_world_def)
next
  case reset
  then show ?thesis using assms(1) by (simp add: closed_world_def al_Reset_def SetSize_def float_of_uint_def)
qed

text \<open>
  \<^verbatim>\<open>WithLimits\<close> raises a minimum of 0 to 1 but accepts an initial limit of 0: such a limiter never admits an execution, so it never records one either, and
  its limit stays below its minimum.
\<close>

theorem zero_initial_limit_admits_nobody:
  assumes "limiter_run D c w" "WithLimits 0 n 0 al_NewBuilder = Inr c"
  shows "lw_permits w = [] \<and> Limit (lw_lim w) = 0 \<and> \<not> al_CanAcquirePermit (lw_lim w) \<and> al_minLimit (al_config (lw_lim w)) = 1"
proof -
  have c: "al_initialLimit c = 0" "al_minLimit c = 1" "\<not> has_queue c"
    using assms(2) by (auto simp: WithLimits_def Assert_def float_of_uint_def al_NewBuilder_def has_queue_def max_def)
  have "closed_world w \<and> al_minLimit (al_config (lw_lim w)) = 1"
    using assms(1)
  proof induction
    case (build t)
    then show ?case using c by (simp add: closed_world_def al_Build_def NewDynamicSemaphore_def float_of_uint_def)
  next
    case (step w t w')
    have "al_config (lw_lim w') = al_config (lw_lim w)"
      using step.hyps(4) step.IH
      by (cases rule: limiter_step.cases) (auto simp: closed_world_def acquire_defs al_Reset_def Let_def split: option.splits if_splits)
    then show ?case using closed_world_step step by metis
  qed
  then show ?thesis by (simp add: closed_world_def Limit_def float_to_int_def al_CanAcquirePermit_def IsFull_def)
qed

theorem zero_initial_limit_admits_nobody_witness:
  "\<not> al_CanAcquirePermit (al_Build list_digest 0 (al_NewBuilder\<lparr>al_maxLimit := 9, al_initialLimit := 0\<rparr>))"
proof -
  have "WithLimits 0 9 0 al_NewBuilder = Inr (al_NewBuilder\<lparr>al_maxLimit := 9, al_initialLimit := 0\<rparr>)"
    by (simp add: WithLimits_def Assert_def float_of_uint_def al_NewBuilder_def max_def)
  then show ?thesis
    using zero_initial_limit_admits_nobody[OF limiter_run.build[of 0]] by (fastforce simp: in_i64_def)
qed

text \<open>\<^verbatim>\<open>WithCorrelationWindow\<close> accepts a size of 0, with which every update of the limit panics, as the index 0 of an empty slice is out of range.\<close>

lemma zero_correlation_window_panics:
  assumes "MovingAverage_Add r (al_baselineRTT l) = (b, avg)" "r \<noteq> 0" "i \<noteq> 0" "al_throughputCorrelation l = NewCorrelationWindow 0 k"
  shows "updateLimit r i now l = Some (Inl IndexOutOfRange)"
  using assms by (simp add: updateLimit_def decideLimit_def Let_def CorrelationWindow_Add_def NewCorrelationWindow_def MovingSum_Add_def NewMovingSum_def run_go_def)

end
