(* ===== verification/Limiter_Listeners.thy ===== *)
theory Limiter_Listeners
  imports Limiter_Callers
begin

text \<open>
  The listener of an adaptive limiter's changes (src/adaptivelimiter/adaptivelimiter.go, \<^verbatim>\<open>record\<close> and \<^verbatim>\<open>updateLimit\<close>). The code calls it without the lock, after it has
  decided on a new limit and before it stores it, so other callers can acquire and record permits in between: recording a permit is a step up to the call, and one after it.
\<close>

section \<open>Recording in two parts\<close>

text \<open>The sample and the decision, with the new limit if the recent window is full, and the rest of \<^verbatim>\<open>record\<close>.\<close>

definition record_decide :: "'d tdigest_api \<Rightarrow> nanotime \<Rightarrow> duration \<Rightarrow> int \<Rightarrow> bool \<Rightarrow> 'd adaptiveLimiter \<Rightarrow> (float64 option \<times> 'd adaptiveLimiter) run" where
  "record_decide D now rtt inflight dropped l =
     (let l1 = (if \<not> dropped then l\<lparr>al_recentRTT := sample_Add D rtt inflight (al_recentRTT l)\<rparr> else l) in
      if now > al_nextUpdateTime l1 \<and> sample_Size (al_recentRTT l1) \<ge> al_recentWindowMinSamples (al_config l1)
      then case td_Quantile D (al_recentQuantile (al_config l1)) (TDigest (al_recentRTT l1)) of
             None \<Rightarrow> None
           | Some quantile \<Rightarrow>
               run_go (MovingMedian_Add quantile (al_medianFilter l1)) (\<lambda>(filteredRTT, mf).
               let (smoothedRTT, avg) = MovingAverage_Add filteredRTT (al_smoothedRecentRTT l1);
                   l2 = l1\<lparr>al_medianFilter := mf, al_smoothedRecentRTT := avg, al_lastMaxInflight := sample_MaxInflight (al_recentRTT l1)\<rparr>
               in run_bind (decideLimit smoothedRTT (sample_MaxInflight (al_recentRTT l2)) now l2) (\<lambda>(newLimit, l3). run_return (Some newLimit, l3)))
      else run_return (None, l1))"

definition record_finish :: "'d tdigest_api \<Rightarrow> nanotime \<Rightarrow> float64 option \<Rightarrow> 'd adaptiveLimiter \<Rightarrow> 'd adaptiveLimiter run" where
  "record_finish D now decided l =
     (let l4 = (case decided of
                  None \<Rightarrow> l
                | Some newLimit \<Rightarrow>
                    let l3 = store_limit newLimit l;
                        minWindowTime = max (i64 (MinRTT (al_recentRTT l3) * 2)) (al_recentWindowMinDuration (al_config l3))
                    in l3\<lparr>al_recentRTT := sample_Reset D (al_recentRTT l3),
                          al_nextUpdateTime := now + min minWindowTime (al_recentWindowMaxDuration (al_config l3))\<rparr>)
      in run_go (Release (al_semaphore l4)) (\<lambda>s. run_return (l4\<lparr>al_semaphore := s\<rparr>)))"

definition log_decided :: "float64 option \<Rightarrow> 'd adaptiveLimiter \<Rightarrow> 'd adaptiveLimiter" where
  "log_decided decided l = (case decided of None \<Rightarrow> l | Some newLimit \<Rightarrow> log_change newLimit l)"

lemma run_bind_bind: "run_bind (run_bind m f) g = run_bind m (\<lambda>x. run_bind (f x) g)"
  by (cases "(m, f)" rule: run_bind.cases) simp_all

lemma run_bind_go: "run_bind (run_go m f) g = run_go m (\<lambda>x. run_bind (f x) g)"
  by (cases m) (simp_all add: run_go_def)

lemma al_record_parts:
  "al_record D now rtt inflight dropped l =
     run_bind (record_decide D now rtt inflight dropped l) (\<lambda>(decided, l1). record_finish D now decided (log_decided decided l1))"
proof -
  define l1 where "l1 = (if \<not> dropped then l\<lparr>al_recentRTT := sample_Add D rtt inflight (al_recentRTT l)\<rparr> else l)"
  show ?thesis
    unfolding al_record_def record_decide_def Let_def l1_def[symmetric]
    by (auto simp: updateLimit_def run_bind_bind run_bind_go split_beta record_finish_def log_decided_def set_limit_def run_return_def Let_def split: option.split
        intro!: arg_cong[where f = "run_go _"] ext)
qed

text \<open>What deciding leaves as it is.\<close>

definition same_record :: "'d adaptiveLimiter \<Rightarrow> 'd adaptiveLimiter \<Rightarrow> bool" where
  "same_record l l' \<longleftrightarrow> al_events l' = al_events l \<and> al_nextUpdateTime l' = al_nextUpdateTime l \<and> al_recentRTT l' = al_recentRTT l
     \<and> al_medianFilter l' = al_medianFilter l \<and> al_smoothedRecentRTT l' = al_smoothedRecentRTT l
     \<and> (\<not> Configured (al_maxInflightWindow l) \<longrightarrow> al_maxInflightWindow l' = al_maxInflightWindow l)"

lemma decideLimit_frame:
  assumes "decideLimit r i now l = Some (Inr (n, l1))"
  shows "same_record l l1 \<and> al_baselineRTT l1 = snd (MovingAverage_Add r (al_baselineRTT l))"
proof -
  have m: "same_record k l' \<and> al_baselineRTT l' = al_baselineRTT k" if "max_inflight j t k = Inr (x, l')" for j t k x and l' :: "'a adaptiveLimiter"
    using that by (cases "Configured (al_maxInflightWindow k)") (auto simp: same_record_def max_inflight_def go_bind_Inr_iff split: prod.splits)
  have "same_record (l\<lparr>al_baselineRTT := b, al_throughputCorrelation := tw, al_rttCorrelation := rw\<rparr>) l' = same_record l l'" for b tw rw and l' :: "'a adaptiveLimiter"
    by (simp add: same_record_def)
  then show ?thesis
    using assms unfolding decideLimit_def Let_def split_beta by (auto simp: run_go_cases run_return_def split: if_splits dest!: m)
qed

lemma sem_log_change [simp]:
  "al_semaphore (log_change n l) = al_semaphore l" "al_limit (log_change n l) = al_limit l" "al_config (log_change n l) = al_config l" "al_recentRTT (log_change n l) = al_recentRTT l"
  by (simp_all add: log_change_def)

lemma lim_inv_log_change: "lim_inv holds (log_change n l) \<longleftrightarrow> lim_inv holds l"
  by (simp add: log_change_def lim_inv_def limit_ok_def windows_ok_def sample_ok_def)

definition limit_in_range :: "al_config \<Rightarrow> float64 \<Rightarrow> bool" where
  "limit_in_range c n \<longleftrightarrow> al_minLimit c \<le> n \<and> n \<le> al_maxLimit c"

context tdigest_laws
begin

lemma record_decides:
  assumes inv: "lim_inv holds l" and rtt: "rtt_ok rtt" and i: "1 \<le> i"
  shows "\<exists>n l1. record_decide D now rtt i dropped l = Some (Inr (n, l1)) \<and> lim_inv holds l1 \<and> al_config l1 = al_config l \<and> al_limit l1 = al_limit l
    \<and> al_semaphore l1 = al_semaphore l \<and> (\<forall>y. n = Some y \<longrightarrow> limit_in_range (al_config l) y)"
proof -
  define l1 where "l1 = (if \<not> dropped then l\<lparr>al_recentRTT := sample_Add D rtt i (al_recentRTT l)\<rparr> else l)"
  have l1: "lim_inv holds l1" "al_config l1 = al_config l" "al_limit l1 = al_limit l" "al_semaphore l1 = al_semaphore l"
    using inv sample_Add_ok[OF inv rtt i] by (simp_all add: l1_def)
  show ?thesis
  proof (cases "now > al_nextUpdateTime l1 \<and> al_recentWindowMinSamples (al_config l1) \<le> sample_Size (al_recentRTT l1)")
    case False
    then show ?thesis using l1 by (auto simp: record_decide_def run_return_def simp flip: l1_def)
  next
    case True
    have lim: "limit_ok l1" and win: "windows_ok l1" using l1(1) by (auto simp: lim_inv_def)
    then have size: "sample_Size (al_recentRTT l1) \<noteq> 0" using True by (auto simp: limit_ok_def al_cfg_ok_def)
    obtain xs where xs: "holds xs (TDigest (al_recentRTT l1))" "\<forall>x \<in> set xs. in_range x" "xs \<noteq> []" and i1: "1 \<le> sample_MaxInflight (al_recentRTT l1)"
      using l1(1) size by (auto simp: lim_inv_def sample_ok_def)
    obtain q where q: "td_Quantile D (al_recentQuantile (al_config l1)) (TDigest (al_recentRTT l1)) = Some q" "in_range q"
      using td_quantile[OF xs(1,3), of "al_recentQuantile (al_config l1)" 1 "2 ^ 63"] xs(2) lim by (auto simp: limit_ok_def al_cfg_ok_def in_range_def)
    obtain vs where vs: "median_inv 5 vs (al_medianFilter l1)" "\<forall>v \<in> set vs. in_range v" using win by (auto simp: windows_ok_def)
    obtain f mf where f: "MovingMedian_Add q (al_medianFilter l1) = Inr (f, mf)" "median_inv 5 (vs @ [q]) mf" "in_range f"
      using median_add_range[OF vs q(2)] by blast
    let ?r = "fst (MovingAverage_Add f (al_smoothedRecentRTT l1))" and ?avg = "snd (MovingAverage_Add f (al_smoothedRecentRTT l1))"
    have avg: "in_range ?r" "average_inv 1 (2 ^ 63) ?avg"
      using average_Add[of 1 "2 ^ 63" "al_smoothedRecentRTT l1" f] win f(3) by (auto simp: windows_ok_def in_range_def)
    define l2 where "l2 = l1\<lparr>al_medianFilter := mf, al_smoothedRecentRTT := ?avg, al_lastMaxInflight := sample_MaxInflight (al_recentRTT l1)\<rparr>"
    have l2: "limit_ok l2" "al_recentRTT l2 = al_recentRTT l1" "al_config l2 = al_config l" "al_limit l2 = al_limit l" "al_semaphore l2 = al_semaphore l"
      using lim l1 by (simp_all add: l2_def limit_ok_def)
    have "\<exists>vs. median_inv 5 vs mf \<and> (\<forall>v \<in> set vs. in_range v)" using f(2) vs(2) q(2) by (intro exI[of _ "vs @ [q]"]) auto
    then have "windows_ok l2" using win avg(2) by (simp add: windows_ok_def l2_def)
    then obtain l3 ch m where u: "decideLimit ?r (sample_MaxInflight (al_recentRTT l1)) now l2 = Some (Inr (next_limit (al_config l2) ch m (al_limit l2), l3))"
        "windows_ok l3" "al_config l3 = al_config l2" "al_limit l3 = al_limit l2" "al_semaphore l3 = al_semaphore l2" "al_recentRTT l3 = al_recentRTT l2"
      using decideLimit_step[OF l2(1) _ avg(1) i1] by blast
    let ?y = "next_limit (al_config l2) ch m (al_limit l2)"
    have cfg: "1 \<le> al_minLimit (al_config l)" "al_minLimit (al_config l) \<le> al_limit l" "al_limit l \<le> al_maxLimit (al_config l)" "al_maxLimit (al_config l) \<le> 2 ^ 64"
      using lim l1 by (auto simp: limit_ok_def al_cfg_ok_def)
    have "record_decide D now rtt i dropped l = Some (Inr (Some ?y, l3))"
      using True q(1) f(1) u(1) by (simp add: record_decide_def run_go_def split_beta run_return_def l2_def flip: l1_def)
    moreover have "lim_inv holds l3" using l1(1) l2 u(2-) lim by (simp add: lim_inv_def limit_ok_def sample_ok_def)
    ultimately show ?thesis using next_limit_bounds(1,2)[OF cfg, of ch m] l2 u(3-5) by (auto simp: limit_in_range_def)
  qed
qed

lemma record_finishes:
  assumes inv: "lim_inv holds l" and used: "0 < sem_used (al_semaphore l)" and n: "limit_in_range (al_config l) n"
  shows "\<exists>l'. record_finish D now (Some n) l = Some (Inr l') \<and> lim_inv holds l' \<and> al_config l' = al_config l \<and> al_limit l' = n \<and> al_events l' = al_events l
    \<and> Release (SetSize (float_to_int n) (al_semaphore l)) = Inr (al_semaphore l')"
proof -
  define l4 where "l4 = (store_limit n l)\<lparr>al_recentRTT := sample_Reset D (al_recentRTT l),
      al_nextUpdateTime := now + min (max (i64 (MinRTT (al_recentRTT l) * 2)) (al_recentWindowMinDuration (al_config l))) (al_recentWindowMaxDuration (al_config l))\<rparr>"
  obtain xs where "holds xs (TDigest (al_recentRTT l))" using inv by (auto simp: lim_inv_def sample_ok_def)
  then have "holds [] (td_Reset D (TDigest (al_recentRTT l)))" using td_reset by blast
  then have l4: "lim_inv holds l4" using inv n
    by (auto simp: lim_inv_def l4_def limit_ok_def windows_ok_def sample_ok_def sample_Reset_def store_limit_def limit_in_range_def intro!: exI[of _ "[]"])
  have "0 < sem_used (al_semaphore l4)" using used SetSize_used_ge[of "al_semaphore l" "float_to_int n"] by (simp add: l4_def store_limit_def)
  then obtain s where s: "Release (al_semaphore l4) = Inr s" using Release_used by blast
  have "record_finish D now (Some n) l = Some (Inr (l4\<lparr>al_semaphore := s\<rparr>))"
    using s by (simp add: record_finish_def run_go_def run_return_def store_limit_def l4_def Let_def)
  then show ?thesis using lim_inv_semaphore[OF l4 Release_size[OF s]] s by (simp add: l4_def store_limit_def)
qed

end

section \<open>Callers and listeners\<close>

text \<open>The limiter with its callers, and the permits whose recording is in a listener, with the time and the new limit of the recording. The steps of the callers of
  \<open>Limiter_Callers\<close> include recordings that nobody interrupts.\<close>

record 'd listening_world =
  ls_world :: "'d limiter_world"
  ls_listening :: "(recordingPermit \<times> nanotime \<times> float64) list"

inductive listener_step :: "'d tdigest_api \<Rightarrow> nanotime \<Rightarrow> 'd listening_world \<Rightarrow> 'd listening_world \<Rightarrow> bool" for D t W where
  uninterrupted: "limiter_step D t (ls_world W) w \<Longrightarrow> listener_step D t W (W\<lparr>ls_world := w\<rparr>)"
| calls_listener: "p \<in> set (lw_permits (ls_world W)) \<Longrightarrow> pm_startTime p < t
     \<Longrightarrow> record_decide D t (t - pm_startTime p) (pm_currentInflight p) dropped (lw_lim (ls_world W)) = Some (Inr (Some n, l)) \<Longrightarrow> limit_changes n l
     \<Longrightarrow> listener_step D t W \<lparr>ls_world = (ls_world W)\<lparr>lw_lim := log_change n l, lw_permits := remove1 p (lw_permits (ls_world W)), lw_now := t\<rparr>,
           ls_listening = ls_listening W @ [(p, t, n)]\<rparr>"
| listener_returns: "(p, t0, n) \<in> set (ls_listening W) \<Longrightarrow> record_finish D t0 (Some n) (lw_lim (ls_world W)) = Some (Inr l)
     \<Longrightarrow> listener_step D t W \<lparr>ls_world = (ls_world W)\<lparr>lw_lim := l, lw_now := t\<rparr>, ls_listening = remove1 (p, t0, n) (ls_listening W)\<rparr>"

inductive listener_run :: "'d tdigest_api \<Rightarrow> al_config \<Rightarrow> 'd listening_world \<Rightarrow> bool" for D c where
  built: "0 \<le> t \<Longrightarrow> in_i64 t
     \<Longrightarrow> listener_run D c \<lparr>ls_world = \<lparr>lw_lim = al_Build D t c, lw_blocked = [], lw_permits = [], lw_now = t\<rparr>, ls_listening = []\<rparr>"
| moved: "listener_run D c W \<Longrightarrow> lw_now (ls_world W) \<le> t \<Longrightarrow> in_i64 t \<Longrightarrow> listener_step D t W W' \<Longrightarrow> listener_run D c W'"

text \<open>A permit in a listener is still held.\<close>

definition all_held :: "'d listening_world \<Rightarrow> 'd limiter_world" where
  "all_held W = (ls_world W)\<lparr>lw_permits := map fst (ls_listening W) @ lw_permits (ls_world W)\<rparr>"

lemma all_held_fields [simp]:
  "lw_lim (all_held W) = lw_lim (ls_world W)" "lw_blocked (all_held W) = lw_blocked (ls_world W)" "lw_now (all_held W) = lw_now (ls_world W)"
  "lw_permits (all_held W) = map fst (ls_listening W) @ lw_permits (ls_world W)"
  by (simp_all add: all_held_def)

definition same_callers :: "'d limiter_world \<Rightarrow> 'd limiter_world \<Rightarrow> bool" where
  "same_callers w w' \<longleftrightarrow> lw_lim w' = lw_lim w \<and> lw_blocked w' = lw_blocked w \<and> lw_now w' = lw_now w \<and> mset (lw_permits w') = mset (lw_permits w)"

lemma same_callers_inv:
  assumes "same_callers w w'"
  shows "sem_view w' = sem_view w" "world_inv holds c w' \<longleftrightarrow> world_inv holds c w"
proof -
  have m: "set (lw_permits w') = set (lw_permits w)" "length (lw_permits w') = length (lw_permits w)"
    using assms by (auto simp: same_callers_def dest: mset_eq_setD mset_eq_length)
  then show v: "sem_view w' = sem_view w" using assms by (simp add: sem_view_def same_callers_def)
  show "world_inv holds c w' \<longleftrightarrow> world_inv holds c w" using assms m(1) v by (simp add: world_inv_def same_callers_def)
qed

lemma limiter_step_held:
  assumes "limiter_step D t w w'"
  shows "\<exists>w''. limiter_step D t (w\<lparr>lw_permits := L @ lw_permits w\<rparr>) w'' \<and> same_callers (w'\<lparr>lw_permits := L @ lw_permits w'\<rparr>) w''"
  using assms
proof cases
  case (acquire r l)
  then have "limiter_step D t (w\<lparr>lw_permits := L @ lw_permits w\<rparr>) (settle r (w\<lparr>lw_permits := L @ lw_permits w, lw_lim := l, lw_now := t\<rparr>))"
    using limiter_step.acquire[of t "w\<lparr>lw_permits := L @ lw_permits w\<rparr>" r l D] by simp
  moreover have "settle r (w\<lparr>lw_permits := L @ lw_permits w, lw_lim := l, lw_now := t\<rparr>) = w'\<lparr>lw_permits := L @ lw_permits w'\<rparr>"
    using acquire(1) by (cases r; cases w) simp_all
  ultimately show ?thesis by (auto simp: same_callers_def)
next
  case (acquire_wait d r l)
  then have "limiter_step D t (w\<lparr>lw_permits := L @ lw_permits w\<rparr>) (settle r (w\<lparr>lw_permits := L @ lw_permits w, lw_lim := l, lw_now := t\<rparr>))"
    using limiter_step.acquire_wait[of d t "w\<lparr>lw_permits := L @ lw_permits w\<rparr>" r l D] by simp
  moreover have "settle r (w\<lparr>lw_permits := L @ lw_permits w, lw_lim := l, lw_now := t\<rparr>) = w'\<lparr>lw_permits := L @ lw_permits w'\<rparr>"
    using acquire_wait(1) by (cases r; cases w) simp_all
  ultimately show ?thesis by (auto simp: same_callers_def)
next
  case (try_acquire p l)
  then show ?thesis using limiter_step.try_acquire[of t "w\<lparr>lw_permits := L @ lw_permits w\<rparr>" p l D] by (fastforce simp: same_callers_def)
next
  case (finish_wait i wrap err r l)
  then have "limiter_step D t (w\<lparr>lw_permits := L @ lw_permits w\<rparr>) (settle r (w\<lparr>lw_permits := L @ lw_permits w, lw_lim := l, lw_blocked := remove1 i (lw_blocked w), lw_now := t\<rparr>))"
    using limiter_step.finish_wait[of i "w\<lparr>lw_permits := L @ lw_permits w\<rparr>" wrap t err r l D] by simp
  moreover have "settle r (w\<lparr>lw_permits := L @ lw_permits w, lw_lim := l, lw_blocked := remove1 i (lw_blocked w), lw_now := t\<rparr>) = w'\<lparr>lw_permits := L @ lw_permits w'\<rparr>"
    using finish_wait(1) by (cases r; cases w) simp_all
  ultimately show ?thesis by (auto simp: same_callers_def)
next
  case (record_permit p ut l ut')
  then show ?thesis using limiter_step.record_permit[of p "w\<lparr>lw_permits := L @ lw_permits w\<rparr>" t D ut l ut'] by (fastforce simp: same_callers_def)
next
  case (drop_permit p l)
  then show ?thesis using limiter_step.drop_permit[of p "w\<lparr>lw_permits := L @ lw_permits w\<rparr>" t D l] by (fastforce simp: same_callers_def)
next
  case reset
  then show ?thesis using limiter_step.reset[of D t "w\<lparr>lw_permits := L @ lw_permits w\<rparr>"] by (fastforce simp: same_callers_def)
qed

definition listening_inv :: "(float64 list \<Rightarrow> 'd \<Rightarrow> bool) \<Rightarrow> al_config \<Rightarrow> 'd listening_world \<Rightarrow> bool" where
  "listening_inv holds c W \<longleftrightarrow> world_inv holds c (all_held W) \<and> (\<forall>(p, t, n) \<in> set (ls_listening W). limit_in_range c n)"

lemma limit_in_range_built [simp]: "limit_in_range (built_config c) n = limit_in_range c n"
  by (simp add: limit_in_range_def built_config_ok)

lemma held_used:
  assumes "world_inv holds c w" "lw_permits w \<noteq> []"
  shows "0 < sem_used (al_semaphore (lw_lim w))"
  using granted_inflight[of w] assms by (simp add: world_inv_def Used_def)

lemma listener_returns_step:
  assumes D: "tdigest_laws D holds" and inv: "listening_inv holds c W" and p: "(p, t0, n) \<in> set (ls_listening W)"
  shows "\<exists>l. record_finish D t0 (Some n) (lw_lim (ls_world W)) = Some (Inr l) \<and> lim_inv holds l \<and> al_config l = built_config c \<and> al_limit l = n
    \<and> al_events l = al_events (lw_lim (ls_world W)) \<and> Release (SetSize (float_to_int n) (al_semaphore (lw_lim (ls_world W)))) = Inr (al_semaphore l)"
proof -
  have w: "world_inv holds c (all_held W)" "limit_in_range c n" using inv p by (auto simp: listening_inv_def)
  have "lw_permits (all_held W) \<noteq> []" using p by auto
  then have "0 < sem_used (al_semaphore (lw_lim (ls_world W)))" using held_used[OF w(1)] by simp
  moreover have "lim_inv holds (lw_lim (ls_world W))" "al_config (lw_lim (ls_world W)) = built_config c" using w(1) by (simp_all add: world_inv_def)
  ultimately show ?thesis using tdigest_laws.record_finishes[OF D, of "lw_lim (ls_world W)" n t0] w(2) by auto
qed

lemma listener_step_inv:
  assumes D: "tdigest_laws D holds" and inv: "listening_inv holds c W" and t: "lw_now (ls_world W) \<le> t" "in_i64 t" and step: "listener_step D t W W'"
  shows "listening_inv holds c W' \<and> sem_step\<^sup>*\<^sup>* (sem_view (all_held W)) (sem_view (all_held W'))"
  using step
proof cases
  case (uninterrupted w)
  let ?L = "map fst (ls_listening W)"
  obtain w'' where w'': "limiter_step D t (all_held W) w''" "same_callers (all_held W') w''"
    using limiter_step_held[OF uninterrupted(2), of ?L] uninterrupted(1) by (auto simp: all_held_def)
  have "world_inv holds c (all_held W)" "lw_now (all_held W) \<le> t" using inv t(1) by (simp_all add: listening_inv_def)
  from limiter_step_inv[OF D this t(2) w''(1)] show ?thesis
    using same_callers_inv[OF w''(2)] inv uninterrupted(1) by (simp add: listening_inv_def)
next
  case (calls_listener p dropped n l)
  let ?w = "all_held W"
  have w: "world_inv holds c ?w" using inv by (simp add: listening_inv_def)
  have "permit_ok (lw_now ?w) p" using w calls_listener(2) by (simp add: world_inv_def)
  then have "rtt_ok (t - pm_startTime p)" "1 \<le> pm_currentInflight p" using calls_listener(3) t(2) by (auto simp: rtt_ok_def permit_ok_def in_i64_def)
  moreover have "lim_inv holds (lw_lim (ls_world W))" "al_config (lw_lim (ls_world W)) = built_config c" using w by (simp_all add: world_inv_def)
  ultimately have l: "lim_inv holds l" "al_config l = built_config c" "al_semaphore l = al_semaphore (lw_lim (ls_world W))" "limit_in_range c n"
    using tdigest_laws.record_decides[OF D, of "lw_lim (ls_world W)" "t - pm_startTime p" "pm_currentInflight p" t dropped] calls_listener(4) by auto
  have perm: "mset (lw_permits (all_held W')) = mset (lw_permits ?w)" using calls_listener(1,2) by simp
  then have len: "length (lw_permits (all_held W')) = length (lw_permits ?w)" "set (lw_permits (all_held W')) = set (lw_permits ?w)"
    using mset_eq_length[OF perm] mset_eq_setD[OF perm] by simp_all
  have v: "sem_view (all_held W') = sem_view ?w" using calls_listener(1) l(3) len(1) by (simp add: sem_view_def del: all_held_fields(4))
  have "world_inv holds c (all_held W')"
    using w l t permit_ok_mono v len(2) calls_listener(1) unfolding world_inv_def by (auto simp: lim_inv_log_change simp del: all_held_fields(4))
  then show ?thesis using inv l(4) v calls_listener(1) by (auto simp: listening_inv_def)
next
  case (listener_returns p t0 n l)
  let ?w = "all_held W" and ?s = "al_semaphore (lw_lim (ls_world W))"
  have w: "world_inv holds c ?w" using inv by (simp add: listening_inv_def)
  have l: "lim_inv holds l" "al_config l = built_config c" "Release (SetSize (float_to_int n) ?s) = Inr (al_semaphore l)"
    using listener_returns_step[OF D inv listener_returns(2)] listener_returns(3) by auto
  have p: "p \<in> set (map fst (ls_listening W))" using listener_returns(2) by force
  let ?v = "sem_view ?w\<lparr>sem := SetSize (float_to_int n) ?s\<rparr>"
  have "sem_step\<^sup>*\<^sup>* (sem_view ?w) ?v" using sem_step.resize[of "sem_view ?w" "float_to_int n"] by (auto simp: sem_view_def)
  moreover obtain k where k: "length (ls_listening W) = Suc k" using listener_returns(2) by (cases "length (ls_listening W)") auto
  then have "length (remove1 (p, t0, n) (ls_listening W)) = k" using listener_returns(2) by (simp add: length_remove1)
  then have "sem_step ?v (sem_view (all_held W'))"
    using sem_step.release[of ?v "k + length (lw_permits (ls_world W))" "al_semaphore l"] l(3) k listener_returns(1) by (simp add: sem_view_def)
  ultimately have v: "sem_step\<^sup>*\<^sup>* (sem_view ?w) (sem_view (all_held W'))" by (rule rtranclp.rtrancl_into_rtrancl)
  have "set (lw_permits (all_held W')) \<subseteq> set (lw_permits ?w)" using listener_returns(1) set_remove1_subset[of "(p, t0, n)" "ls_listening W"] by auto
  then have "world_inv holds c (all_held W')"
    using w l(1,2) t permit_ok_mono sem_steps_inv[OF v] listener_returns(1) unfolding world_inv_def by (fastforce simp del: all_held_fields(4))
  then show ?thesis using inv v listener_returns(1) set_remove1_subset[of "(p, t0, n)" "ls_listening W"] by (fastforce simp: listening_inv_def)
qed

lemma listener_run_inv:
  assumes D: "tdigest_laws D holds" and c: "al_cfg_ok c" and run: "listener_run D c W"
  shows "listening_inv holds c W \<and> sem_reachable (int (unat (al_initialLimit c))) (sem_view (all_held W))"
  using run
proof induction
  case (built t)
  have "limiter_run D c \<lparr>lw_lim = al_Build D t c, lw_blocked = [], lw_permits = [], lw_now = t\<rparr>" by (rule limiter_run.build) (use built in simp_all)
  from limiter_run_inv[OF D c this] show ?case by (simp add: listening_inv_def all_held_def)
next
  case (moved W t W')
  then show ?case using listener_step_inv[OF D _ moved(2,3,4)] sem_steps_reachable by blast
qed

text \<open>
  C28. However recordings, their listeners and other callers interleave, the limit stays between the configured limits, the semaphore has its size, the permits in use are
  those that are held, in a listener or on their way to a caller that was woken, and every recording whose listener returns goes on without a panic, with the limit it had decided on.
\<close>

theorem listening_limiter_bounds:
  assumes "tdigest_laws D holds" "al_cfg_ok c" "listener_run D c W"
  defines "l \<equiv> lw_lim (ls_world W)"
  shows "al_minLimit c \<le> al_limit l \<and> al_limit l \<le> al_maxLimit c \<and> sem_size (al_semaphore l) = Limit l
    \<and> Inflight l = int (length (lw_permits (ls_world W)) + length (ls_listening W))
        + int (length [i \<leftarrow> lw_blocked (ls_world W). i \<in> set (sem_closed (al_semaphore l))])
    \<and> (\<forall>p t n. (p, t, n) \<in> set (ls_listening W) \<longrightarrow> (\<exists>l'. record_finish D t (Some n) l = Some (Inr l') \<and> al_limit l' = n))
    \<and> (\<forall>p \<in> set (lw_permits (ls_world W)). \<forall>t dropped. pm_startTime p < t \<and> in_i64 t \<longrightarrow>
         (\<exists>l'. al_record D t (t - pm_startTime p) (pm_currentInflight p) dropped l = Some (Inr l') \<and> \<bar>al_limit l' - al_limit l\<bar> \<le> of_int (limit_step (Limit l))))"
proof -
  have inv: "listening_inv holds c W" "world_inv holds c (all_held W)" using listener_run_inv[OF assms(1-3)] by (auto simp: listening_inv_def)
  have lim: "limit_ok l" "al_config l = built_config c" using inv(2) by (auto simp: world_inv_def lim_inv_def l_def)
  then have "al_minLimit c \<le> al_limit l \<and> al_limit l \<le> al_maxLimit c \<and> sem_size (al_semaphore l) = Limit l"
    by (auto simp: limit_ok_def built_config_ok Limit_def)
  moreover have "Inflight l = int (length (lw_permits (ls_world W)) + length (ls_listening W))
        + int (length [i \<leftarrow> lw_blocked (ls_world W). i \<in> set (sem_closed (al_semaphore l))])"
    using inv(2) by (simp add: world_inv_def sem_inv_def sem_core_def woken_def sem_view_def Inflight_def Used_def l_def)
  moreover have "\<exists>l'. record_finish D t (Some n) l = Some (Inr l') \<and> al_limit l' = n" if "(p, t, n) \<in> set (ls_listening W)" for p t n
    using listener_returns_step[OF assms(1) inv(1) that] by (auto simp: l_def)
  moreover have "\<exists>l'. al_record D t (t - pm_startTime p) (pm_currentInflight p) dropped l = Some (Inr l') \<and> \<bar>al_limit l' - al_limit l\<bar> \<le> of_int (limit_step (Limit l))"
    if "p \<in> set (lw_permits (ls_world W))" "pm_startTime p < t" "in_i64 t" for p t dropped
    using limiter_records[OF assms(1) inv(2), of p t dropped] that by (auto simp: step_of_def Limit_def l_def)
  ultimately show ?thesis by blast
qed

section \<open>A lost update\<close>

text \<open>A limiter with a listener, whose window is full with one sample, and the run in which two recordings are in their listeners at the same time.\<close>

definition eager_config :: al_config where
  "eager_config = OnLimitChanged True (al_NewBuilder\<lparr>al_recentWindowMinSamples := 1\<rparr>)"

definition held_permit :: "int \<Rightarrow> recordingPermit" where
  "held_permit i = \<lparr>pm_startTime = 5, pm_currentInflight = i, pm_userID = [], pm_tracksUsage = False\<rparr>"

definition acquired_world :: "nat \<Rightarrow> float64 list listening_world" where
  "acquired_world k =
     \<lparr>ls_world = \<lparr>lw_lim = (al_Build list_digest 5 eager_config)\<lparr>al_semaphore := (NewDynamicSemaphore 20)\<lparr>sem_used := int k\<rparr>\<rparr>, lw_blocked = [],
        lw_permits = map (\<lambda>i. held_permit (int i + 1)) [0..<k], lw_now = 5\<rparr>, ls_listening = []\<rparr>"

lemma eager_config_ok: "al_cfg_ok eager_config"
  by (simp add: al_cfg_ok_def eager_config_def al_NewBuilder_def OnLimitChanged_def float_of_uint_def)

lemma acquired_run: "k \<le> 20 \<Longrightarrow> listener_run list_digest eager_config (acquired_world k)"
proof (induction k)
  case 0
  have "al_semaphore (al_Build list_digest 5 eager_config) = NewDynamicSemaphore 20" by (simp add: al_Build_def eager_config_def al_NewBuilder_def OnLimitChanged_def)
  moreover have "(NewDynamicSemaphore 20)\<lparr>sem_used := 0\<rparr> = NewDynamicSemaphore 20" by (simp add: NewDynamicSemaphore_def)
  ultimately have "acquired_world 0 = \<lparr>ls_world = \<lparr>lw_lim = al_Build list_digest 5 eager_config, lw_blocked = [], lw_permits = [], lw_now = 5\<rparr>, ls_listening = []\<rparr>"
    by (simp add: acquired_world_def al_Build_def)
  then show ?case using listener_run.built[of 5 list_digest eager_config] by (simp add: in_i64_def)
next
  case (Suc k)
  let ?w = "ls_world (acquired_world k)"
  let ?l = "(lw_lim ?w)\<lparr>al_semaphore := (NewDynamicSemaphore 20)\<lparr>sem_used := int k + 1\<rparr>\<rparr>"
  have "(al_AcquirePermit 5 (lw_lim ?w) :: unit permit_outcome \<times> _) = (Granted (held_permit (int k + 1)), ?l)"
    using Suc.prems by (simp add: al_AcquirePermit_def outcome_permit_def Let_def acquired_world_def sem_Acquire_def NewDynamicSemaphore_def newPermit_def Used_def held_permit_def)
  from limiter_step.acquire[OF this] listener_step.uninterrupted
  have "listener_step list_digest 5 (acquired_world k) ((acquired_world k)\<lparr>ls_world := settle (Granted (held_permit (int k + 1))) (?w\<lparr>lw_lim := ?l, lw_now := 5\<rparr>)\<rparr>)" by blast
  moreover have "(acquired_world k)\<lparr>ls_world := settle (Granted (held_permit (int k + 1))) (?w\<lparr>lw_lim := ?l, lw_now := 5\<rparr>)\<rparr> = acquired_world (Suc k)"
    by (simp add: acquired_world_def add.commute)
  moreover have "lw_now ?w \<le> 5" by (simp add: acquired_world_def)
  ultimately show ?case using listener_run.moved[OF Suc.IH, of 5] Suc.prems by (simp add: in_i64_def)
qed

text \<open>A limiter that has only seen samples of 3 nanoseconds, whose queue is estimated at zero.\<close>

definition steady :: "float64 list adaptiveLimiter \<Rightarrow> bool" where
  "steady l \<longleftrightarrow> lim_inv (=) l \<and> al_config l = eager_config \<and> al_limit l = 20 \<and> \<not> IsFull (al_semaphore l) \<and> average_inv 3 3 (al_smoothedRecentRTT l) \<and> average_inv 3 3 (al_baselineRTT l)
     \<and> mm_size (al_medianFilter l) < 4 \<and> \<not> Configured (al_maxInflightWindow l) \<and> (\<forall>x \<in> set (TDigest (al_recentRTT l)). x = 3)"

lemma average_three: "average_inv 3 3 e \<Longrightarrow> fst (MovingAverage_Add 3 e) = 3 \<and> average_inv 3 3 (snd (MovingAverage_Add 3 e))"
  using average_Add[of 3 3 e 3] by simp

lemma steady_decides:
  assumes s: "steady l" and t: "al_nextUpdateTime l < t" and size: "sample_Size (al_recentRTT l) < 10"
    and i: "1 \<le> i" "sample_Size (al_recentRTT l) \<noteq> 0 \<longrightarrow> sample_MaxInflight (al_recentRTT l) \<le> i"
  shows "\<exists>l'. record_decide list_digest t 3 i False l = Some (Inr (Some (next_limit eager_config Increase (5 * of_int i) 20), l'))
    \<and> lim_inv (=) l' \<and> al_config l' = eager_config \<and> al_limit l' = 20 \<and> al_semaphore l' = al_semaphore l \<and> same_record (l\<lparr>al_recentRTT := sample_Add list_digest 3 i (al_recentRTT l),
        al_medianFilter := al_medianFilter l', al_smoothedRecentRTT := al_smoothedRecentRTT l'\<rparr>) l'
    \<and> average_inv 3 3 (al_smoothedRecentRTT l') \<and> average_inv 3 3 (al_baselineRTT l') \<and> mm_size (al_medianFilter l') = mm_size (al_medianFilter l) + 1"
proof -
  define l1 where "l1 = l\<lparr>al_recentRTT := sample_Add list_digest 3 i (al_recentRTT l)\<rparr>"
  have "rtt_ok 3" by (simp add: rtt_ok_def)
  then have l1: "lim_inv (=) l1" using tdigest_laws.sample_Add_ok[OF list_td.tdigest_laws_axioms, of l 3 i] s i(1) by (simp add: steady_def l1_def)
  have f1: "al_config l1 = eager_config" "al_limit l1 = 20" "al_semaphore l1 = al_semaphore l" "al_nextUpdateTime l1 = al_nextUpdateTime l"
      "al_medianFilter l1 = al_medianFilter l" "al_smoothedRecentRTT l1 = al_smoothedRecentRTT l"
    using s by (simp_all add: l1_def steady_def)
  have cfg: "al_recentQuantile eager_config = 9 / 10" "al_recentWindowMinSamples eager_config = 1" "al_maxLimitFunc eager_config = None"
      "al_maxLimitFactorDecay eager_config = 0" "al_maxLimitFactor eager_config = 5"
    by (simp_all add: eager_config_def al_NewBuilder_def OnLimitChanged_def)
  have td: "TDigest (al_recentRTT l1) = TDigest (al_recentRTT l) @ [3]" "sample_Size (al_recentRTT l1) = sample_Size (al_recentRTT l) + 1"
      "sample_MaxInflight (al_recentRTT l1) = i"
    using i(2) by (auto simp: l1_def sample_Add_def list_digest_def Let_def split: if_splits)
  have threes: "\<forall>x \<in> set (TDigest (al_recentRTT l1)). x = 3" using s td(1) by (auto simp: steady_def)
  obtain q where q: "td_Quantile list_digest (9 / 10) (TDigest (al_recentRTT l1)) = Some q" "3 \<le> q" "q \<le> 3"
  proof -
    have "TDigest (al_recentRTT l1) \<noteq> []" using td(1) by simp
    moreover have "\<forall>x \<in> set (TDigest (al_recentRTT l1)). 3 \<le> x \<and> x \<le> 3" using threes by (metis order_refl)
    ultimately show ?thesis using list_td.td_quantile[OF HOL.refl, of "TDigest (al_recentRTT l1)" "9 / 10" 3 3] that by fastforce
  qed
  then have "q = 3" by simp
  then have q3: "td_Quantile list_digest (al_recentQuantile eager_config) (TDigest (al_recentRTT l1)) = Some 3" using q(1) by (simp only: cfg(1))
  obtain vs where vs: "median_inv 5 vs (al_medianFilter l)" "\<forall>v \<in> set vs. in_range v" using l1 f1 by (auto simp: lim_inv_def windows_ok_def)
  have "in_range 3" by (simp add: in_range_def)
  then obtain u mf where "MovingMedian_Add 3 (al_medianFilter l) = Inr (u, mf)" "median_inv 5 (vs @ [3]) mf" using median_add_range[OF vs] by blast
  moreover have "length (mm_values (al_medianFilter l)) = 5" using vs(1) by (simp add: median_inv_def ring_def)
  ultimately have mf: "MovingMedian_Add 3 (al_medianFilter l) = Inr (3, mf)" "mm_size mf = mm_size (al_medianFilter l) + 1" "median_inv 5 (vs @ [3]) mf"
    using s by (auto simp: MovingMedian_Add_def steady_def Let_def split: if_splits)
  note a = average_three[of "al_smoothedRecentRTT l"]
  have avg: "fst (MovingAverage_Add 3 (al_smoothedRecentRTT l)) = 3" "average_inv 3 3 (snd (MovingAverage_Add 3 (al_smoothedRecentRTT l)))"
    using a s by (auto simp: steady_def)
  define l2 where "l2 = l1\<lparr>al_medianFilter := mf, al_smoothedRecentRTT := snd (MovingAverage_Add 3 (al_smoothedRecentRTT l)), al_lastMaxInflight := i\<rparr>"
  have "lim_inv (=) l1" "sample_ok (=) l2" using l1 by (simp_all add: lim_inv_def sample_ok_def l2_def)
  have lim2: "limit_ok l2" using l1 by (simp add: lim_inv_def limit_ok_def l2_def)
  have avg_wide: "average_inv 1 (2 ^ 63) (snd (MovingAverage_Add 3 (al_smoothedRecentRTT l)))"
    using average_Add(3)[of 1 "2 ^ 63" "al_smoothedRecentRTT l" 3] l1 f1 by (simp add: lim_inv_def windows_ok_def)
  have "\<exists>vs. median_inv 5 vs mf \<and> (\<forall>v \<in> set vs. in_range v)" using mf(3) vs(2) \<open>in_range 3\<close> by (intro exI[of _ "vs @ [3]"]) auto
  then have win2: "windows_ok l2" using l1 avg_wide by (simp add: lim_inv_def windows_ok_def l2_def)
  have l2: "al_limit l2 = 20" "al_config l2 = eager_config" "al_semaphore l2 = al_semaphore l" "al_baselineRTT l2 = al_baselineRTT l" "al_maxInflightWindow l2 = al_maxInflightWindow l"
      "limit_step (float_to_int 20) = 1"
    using f1 by (simp_all add: l2_def l1_def limit_step_def float_to_int_def)
  have "fst (MovingAverage_Add 3 (al_baselineRTT l2)) = 3" using average_three s l2 by (simp add: steady_def)
  then have queue: "queue_size 3 l2 = 0" by (simp add: queue_size_def float_to_int_def math_Ceil_def)
  have notfull: "\<not> IsFull (al_semaphore l2)" "\<not> Configured (al_maxInflightWindow l2)" using s l2 by (simp_all add: steady_def)
  then have mi: "max_inflight i t l2 = Inr (i, l2)" by (simp add: max_inflight_def)
  obtain l3 tc tcv rc m where d: "decideLimit 3 i t l2 = Some (Inr (next_limit eager_config (fst (computeChange 0 3 6 False tc tcv rc)) (computeMaxLimit m eager_config) 20, l3))"
      "windows_ok l3" "al_config l3 = al_config l2" "al_limit l3 = al_limit l2" "al_semaphore l3 = al_semaphore l2" "al_recentRTT l3 = al_recentRTT l2" "m = i"
    using decideLimit_step[OF lim2 win2 \<open>in_range 3\<close> i(1), of t] queue notfull l2 mi by auto
  have n: "next_limit eager_config (fst (computeChange 0 3 6 False tc tcv rc)) (computeMaxLimit m eager_config) 20 = next_limit eager_config Increase (5 * of_int i) 20"
    using d(7) by (simp add: computeChange_def computeMaxLimit_def cfg mult.commute)
  note fr = decideLimit_frame[OF d(1)]
  have full: "t > al_nextUpdateTime l1 \<and> al_recentWindowMinSamples (al_config l1) \<le> sample_Size (al_recentRTT l1)"
  proof -
    have "(1 :: uint) \<le> sample_Size (al_recentRTT l) + 1"
    proof -
      have "unat (sample_Size (al_recentRTT l)) < 10" using size by (simp add: word_less_nat_alt)
      then have "unat (sample_Size (al_recentRTT l) + 1) = unat (sample_Size (al_recentRTT l)) + 1" by (simp add: unat_word_ariths)
      then show ?thesis by (simp add: word_le_nat_alt)
    qed
    then show ?thesis using t f1 cfg td(2) by simp
  qed
  have "record_decide list_digest t 3 i False l = Some (Inr (Some (next_limit eager_config Increase (5 * of_int i) 20), l3))"
    using full q3 mf(1) avg(1) d(1) n f1 cfg(2-) td(3) by (simp add: record_decide_def run_go_def run_return_def l2_def split_beta flip: l1_def)
  moreover have "lim_inv (=) l3" using \<open>sample_ok (=) l2\<close> d(2-6) lim2 by (simp add: lim_inv_def limit_ok_def sample_ok_def)
  moreover have "al_medianFilter l3 = mf" "al_smoothedRecentRTT l3 = snd (MovingAverage_Add 3 (al_smoothedRecentRTT l))" using fr by (simp_all add: same_record_def l2_def)
  moreover have "average_inv 3 3 (al_baselineRTT l3)" using fr average_three s l2(4) by (simp add: steady_def)
  ultimately show ?thesis using avg(2) mf(2) d(3-5) l2 fr by (intro exI[of _ l3]) (simp add: same_record_def l2_def l1_def)
qed

lemma steady_acquired: "k < 20 \<Longrightarrow> steady (lw_lim (ls_world (acquired_world k)))"
proof -
  assume k: "k < 20"
  let ?b = "al_Build list_digest 5 eager_config"
  have "lim_inv (=) ?b" by (rule lim_inv_Build[OF list_td.tdigest_laws_axioms eager_config_ok])
  moreover have "sem_size ((NewDynamicSemaphore 20)\<lparr>sem_used := int k\<rparr>) = sem_size (al_semaphore ?b)"
    by (simp add: al_Build_def eager_config_def al_NewBuilder_def OnLimitChanged_def NewDynamicSemaphore_def)
  ultimately have "lim_inv (=) (lw_lim (ls_world (acquired_world k)))" using lim_inv_semaphore[of "(=)" ?b] by (simp add: acquired_world_def)
  moreover have "average_inv 3 3 (NewMovingAverage (of_nat smoothedSamples) al_warmupSamples)" "average_inv 3 3 (NewMovingAverage (al_baselineWindowAge eager_config) al_warmupSamples)"
    by (auto intro!: average_inv_new simp: smoothedSamples_def al_warmupSamples_def eager_config_def al_NewBuilder_def OnLimitChanged_def)
  moreover have "al_maxLimitStabilizationWindow eager_config = 0" "al_initialLimit eager_config = 20" "\<not> has_queue eager_config"
    by (simp_all add: eager_config_def al_NewBuilder_def OnLimitChanged_def has_queue_def)
  ultimately show ?thesis using k
    by (simp add: steady_def acquired_world_def al_Build_def IsFull_def NewDynamicSemaphore_def NewMovingMedian_def list_digest_def NewMaxWindow_def Configured_def float_of_uint_def)
qed

lemma eager_limits:
  "next_limit eager_config Increase 5 20 = 19" "next_limit eager_config Increase 25 20 = 21" "al_onLimitChanged eager_config"
  by (simp_all add: next_limit_def clamp_limit_def step_of_def limit_step_def float_to_int_def eager_config_def al_NewBuilder_def OnLimitChanged_def Let_def)

text \<open>A recording of a caller that calls the listener.\<close>

lemma listener_called:
  assumes run: "listener_run list_digest eager_config W" and p: "held_permit i \<in> set (lw_permits (ls_world W))" and now: "lw_now (ls_world W) \<le> 8"
    and s: "steady (lw_lim (ls_world W))" and t: "al_nextUpdateTime (lw_lim (ls_world W)) = 5" and size: "sample_Size (al_recentRTT (lw_lim (ls_world W))) < 10"
    and i: "1 \<le> i" "sample_Size (al_recentRTT (lw_lim (ls_world W))) \<noteq> 0 \<longrightarrow> sample_MaxInflight (al_recentRTT (lw_lim (ls_world W))) \<le> i"
    and n: "next_limit eager_config Increase (5 * of_int i) 20 = n" "(word_of_int (float_to_int n) :: uint) \<noteq> 20"
  shows "\<exists>W'. listener_run list_digest eager_config W' \<and> ls_listening W' = ls_listening W @ [(held_permit i, 8, n)]
    \<and> lw_permits (ls_world W') = remove1 (held_permit i) (lw_permits (ls_world W)) \<and> lw_now (ls_world W') = 8
    \<and> al_events (lw_lim (ls_world W')) = al_events (lw_lim (ls_world W)) @ [\<lparr>OldLimit = 20, NewLimit = word_of_int (float_to_int n)\<rparr>]
    \<and> lim_inv (=) (lw_lim (ls_world W')) \<and> al_config (lw_lim (ls_world W')) = eager_config \<and> al_limit (lw_lim (ls_world W')) = 20
    \<and> al_semaphore (lw_lim (ls_world W')) = al_semaphore (lw_lim (ls_world W))
    \<and> al_recentRTT (lw_lim (ls_world W')) = sample_Add list_digest 3 i (al_recentRTT (lw_lim (ls_world W)))
    \<and> al_nextUpdateTime (lw_lim (ls_world W')) = 5 \<and> average_inv 3 3 (al_smoothedRecentRTT (lw_lim (ls_world W'))) \<and> average_inv 3 3 (al_baselineRTT (lw_lim (ls_world W')))
    \<and> mm_size (al_medianFilter (lw_lim (ls_world W'))) = mm_size (al_medianFilter (lw_lim (ls_world W))) + 1
    \<and> \<not> Configured (al_maxInflightWindow (lw_lim (ls_world W')))"
proof -
  let ?l = "lw_lim (ls_world W)"
  have "al_nextUpdateTime ?l < 8" using t by simp
  from steady_decides[OF s this size i] obtain l' where l': "record_decide list_digest 8 3 i False ?l = Some (Inr (Some n, l'))" "lim_inv (=) l'" "al_config l' = eager_config"
      "al_limit l' = 20" "al_semaphore l' = al_semaphore ?l" "same_record (?l\<lparr>al_recentRTT := sample_Add list_digest 3 i (al_recentRTT ?l),
        al_medianFilter := al_medianFilter l', al_smoothedRecentRTT := al_smoothedRecentRTT l'\<rparr>) l'"
      "average_inv 3 3 (al_smoothedRecentRTT l')" "average_inv 3 3 (al_baselineRTT l')" "mm_size (al_medianFilter l') = mm_size (al_medianFilter ?l) + 1"
    using n(1) by blast
  have ch: "limit_changes n l'" using l'(3,4) n(2) eager_limits(3) by (simp add: limit_changes_def float_to_int_def)
  have "(8 :: int) - pm_startTime (held_permit i) = 3" "pm_startTime (held_permit i) < 8" "pm_currentInflight (held_permit i) = i" by (simp_all add: held_permit_def)
  then have step: "listener_step list_digest 8 W \<lparr>ls_world = (ls_world W)\<lparr>lw_lim := log_change n l', lw_permits := remove1 (held_permit i) (lw_permits (ls_world W)), lw_now := 8\<rparr>,
      ls_listening = ls_listening W @ [(held_permit i, 8, n)]\<rparr>" (is "listener_step _ _ _ ?W'")
    using listener_step.calls_listener[OF p, of 8 list_digest False n l'] l'(1) ch by simp
  have "listener_run list_digest eager_config ?W'" using listener_run.moved[OF run now _ step] by (simp add: in_i64_def)
  moreover have "al_events l' = al_events ?l" "al_nextUpdateTime l' = 5" "al_recentRTT l' = sample_Add list_digest 3 i (al_recentRTT ?l)"
      "\<not> Configured (al_maxInflightWindow l')"
    using l'(6) t s by (simp_all add: same_record_def steady_def)
  moreover have "lim_inv (=) (log_change n l')" using l'(2) by (simp add: lim_inv_log_change)
  moreover have "al_events (log_change n l') = al_events l' @ [\<lparr>OldLimit = 20, NewLimit = word_of_int (float_to_int n)\<rparr>]"
      "al_nextUpdateTime (log_change n l') = al_nextUpdateTime l'" "al_smoothedRecentRTT (log_change n l') = al_smoothedRecentRTT l'"
      "al_baselineRTT (log_change n l') = al_baselineRTT l'" "al_medianFilter (log_change n l') = al_medianFilter l'" "al_maxInflightWindow (log_change n l') = al_maxInflightWindow l'"
    using ch l'(4) by (simp_all add: log_change_def float_to_int_def)
  ultimately show ?thesis using l'(3-5,7-9) by (intro exI[of _ ?W']) simp
qed

text \<open>A listener that returns.\<close>

lemma listener_returned:
  assumes c: "al_cfg_ok c" and run: "listener_run list_digest c W" and p: "(p, t0, n) \<in> set (ls_listening W)" and t: "lw_now (ls_world W) \<le> t" "in_i64 t"
  shows "\<exists>W'. listener_run list_digest c W' \<and> ls_listening W' = remove1 (p, t0, n) (ls_listening W) \<and> lw_now (ls_world W') = t
    \<and> al_limit (lw_lim (ls_world W')) = n \<and> al_events (lw_lim (ls_world W')) = al_events (lw_lim (ls_world W))"
proof -
  have "listening_inv (=) c W" using listener_run_inv[OF list_td.tdigest_laws_axioms c run] by simp
  from listener_returns_step[OF list_td.tdigest_laws_axioms this p] obtain l where l:
    "record_finish list_digest t0 (Some n) (lw_lim (ls_world W)) = Some (Inr l)" "al_limit l = n" "al_events l = al_events (lw_lim (ls_world W))" by blast
  from listener_run.moved[OF run t listener_step.listener_returns[OF p l(1)]] show ?thesis
    using l(2,3) by (intro exI conjI) (assumption, simp_all)
qed

text \<open>
  C38. Concurrent recordings lose updates: two of them decide on new limits from a limit of 20, tell the listener of a change from 20 to 19 and of one from 20 to 21, in this order, and
  store their limits in the other order. Nobody is left in the listener, the last change it was told ended at 21, and the limit is 19.
\<close>

theorem limit_listener_loses_update:
  "\<exists>W. listener_run list_digest eager_config W \<and> ls_listening W = [] \<and> al_limit (lw_lim (ls_world W)) = 19
    \<and> al_events (lw_lim (ls_world W)) = [\<lparr>OldLimit = 20, NewLimit = 19\<rparr>, \<lparr>OldLimit = 20, NewLimit = 21\<rparr>]"
proof -
  let ?W = "acquired_world 5"
  have s: "steady (lw_lim (ls_world ?W))" by (rule steady_acquired) simp
  have f: "al_nextUpdateTime (lw_lim (ls_world ?W)) = 5" "sample_Size (al_recentRTT (lw_lim (ls_world ?W))) = 0" "lw_now (ls_world ?W) \<le> 8"
      "al_events (lw_lim (ls_world ?W)) = []" "ls_listening ?W = []" "mm_size (al_medianFilter (lw_lim (ls_world ?W))) = 0" "\<not> IsFull (al_semaphore (lw_lim (ls_world ?W)))"
      "TDigest (al_recentRTT (lw_lim (ls_world ?W))) = []"
    by (simp_all add: acquired_world_def al_Build_def NewMovingMedian_def IsFull_def NewDynamicSemaphore_def list_digest_def)
  have p: "held_permit 1 \<in> set (lw_permits (ls_world ?W))" "held_permit 5 \<in> set (remove1 (held_permit 1) (lw_permits (ls_world ?W)))"
    by (simp_all add: acquired_world_def upt_conv_Cons held_permit_def)
  obtain W1 where w1: "listener_run list_digest eager_config W1" "ls_listening W1 = [(held_permit 1, 8, 19)]"
      "lw_permits (ls_world W1) = remove1 (held_permit 1) (lw_permits (ls_world ?W))" "lw_now (ls_world W1) = 8"
      "al_events (lw_lim (ls_world W1)) = [\<lparr>OldLimit = 20, NewLimit = 19\<rparr>]" "steady (lw_lim (ls_world W1))" "al_nextUpdateTime (lw_lim (ls_world W1)) = 5"
      "sample_Size (al_recentRTT (lw_lim (ls_world W1))) = 1" "sample_MaxInflight (al_recentRTT (lw_lim (ls_world W1))) = 1"
    using listener_called[OF acquired_run p(1) f(3) s f(1), of 19] f(2,4-8) eager_limits(1)
    by (auto simp: steady_def sample_Add_def Let_def float_to_int_def list_digest_def)
  obtain W2 where w2: "listener_run list_digest eager_config W2" "ls_listening W2 = [(held_permit 1, 8, 19), (held_permit 5, 8, 21)]" "lw_now (ls_world W2) = 8"
      "al_events (lw_lim (ls_world W2)) = [\<lparr>OldLimit = 20, NewLimit = 19\<rparr>, \<lparr>OldLimit = 20, NewLimit = 21\<rparr>]"
    using listener_called[OF w1(1), of 5 21] p(2) w1 eager_limits(2) by (auto simp: float_to_int_def)
  obtain W3 where w3: "listener_run list_digest eager_config W3" "ls_listening W3 = [(held_permit 1, 8, 19)]" "lw_now (ls_world W3) = 8"
      "al_events (lw_lim (ls_world W3)) = al_events (lw_lim (ls_world W2))"
    using listener_returned[OF eager_config_ok w2(1), of "held_permit 5" 8 21 8] w2(2,3) by (auto simp: in_i64_def held_permit_def)
  show ?thesis
    using listener_returned[OF eager_config_ok w3(1), of "held_permit 1" 8 19 8] w3(2-4) w2(4) by (auto simp: in_i64_def)
qed

theorem listening_limiter_bounds_witness:
  "\<exists>W l. listener_run list_digest eager_config W \<and> ls_listening W = [(held_permit 1, 8, 19)] \<and> Inflight (lw_lim (ls_world W)) = 5
     \<and> record_finish list_digest 8 (Some 19) (lw_lim (ls_world W)) = Some (Inr l) \<and> al_limit l = 19"
proof -
  let ?W = "acquired_world 5"
  have s: "steady (lw_lim (ls_world ?W))" by (rule steady_acquired) simp
  have f: "al_nextUpdateTime (lw_lim (ls_world ?W)) = 5" "sample_Size (al_recentRTT (lw_lim (ls_world ?W))) = 0" "lw_now (ls_world ?W) \<le> 8"
      "ls_listening ?W = []" "Inflight (lw_lim (ls_world ?W)) = 5"
    by (simp_all add: acquired_world_def al_Build_def Inflight_def Used_def)
  have "held_permit 1 \<in> set (lw_permits (ls_world ?W))" by (simp add: acquired_world_def upt_conv_Cons held_permit_def)
  then obtain W where w: "listener_run list_digest eager_config W" "ls_listening W = [(held_permit 1, 8, 19)]" "al_semaphore (lw_lim (ls_world W)) = al_semaphore (lw_lim (ls_world ?W))"
    using listener_called[OF acquired_run _ f(3) s f(1), of 1 19] f(2,4) eager_limits(1) by (auto simp: float_to_int_def)
  then have "Inflight (lw_lim (ls_world W)) = 5" using f(5) by (simp add: Inflight_def)
  then show ?thesis
    using listening_limiter_bounds[OF list_td.tdigest_laws_axioms eager_config_ok w(1)] w(1,2) by fastforce
qed

end
