(* ===== verification/Any_Policies.thy ===== *)
theory Any_Policies
  imports Timeout
begin

text \<open>
  Policies for any result type in the composition of an executor with another one: \<^verbatim>\<open>WithAny\<close>, \<^verbatim>\<open>ComposeAny\<close> and the wrappers of src/executor.go and
  src/execution.go. The executions of a wrapped policy are \<^verbatim>\<open>executionAnyWrapper\<close>s of those of the executor, whose methods convert results on their way; as
  \<open>resultFromAny_resultToAny\<close> shows, a result that is converted to \<^verbatim>\<open>any\<close> and back is the same, so a wrapped policy is the policy itself on the results of the
  executor, and \<open>nil\<close> is its zero result.
\<close>

section \<open>Conversions\<close>

lemma resultFromAny_resultToAny:
  assumes "\<And>r. is_nil (box r) \<Longrightarrow> r = zero" "\<And>r. \<not> is_nil (box r) \<Longrightarrow> assert (box r) = Some r" "\<And>e. err' (err e) = e"
  shows "resultFromAny zero is_nil assert err' (resultToAny box err r) = Inr r"
proof (cases r)
  case (Some a)
  have "map_option err' (map_option err (Error a)) = Error a" using assms(3) by (cases "Error a") simp_all
  with Some assms(1)[of "Result a"] assms(2)[of "Result a"] show ?thesis by (auto simp: resultFromAny_def resultToAny_def)
qed (simp add: resultFromAny_def resultToAny_def)

section \<open>Wrapped policies\<close>

text \<open>The inner function gets the execution that the wrapper got, and not the one that the policy passes on.\<close>

definition policyExecutorAnyWrapper_Apply :: "(('r, 's) inner_fn \<Rightarrow> ('r, 's) inner_fn) \<Rightarrow> ('r, 's) inner_fn \<Rightarrow> ('r, 's) inner_fn" where
  "policyExecutorAnyWrapper_Apply inner innerFn exec w = inner (\<lambda>anyExec. innerFn exec) exec w"

definition policyAnyWrapper :: "('r, 's) policy \<Rightarrow> ('r, 's) policy" where
  "policyAnyWrapper inner i = policyExecutorAnyWrapper_Apply (inner i)"

definition WithAny :: "('r, 's) policy \<Rightarrow> ('r, 's) executor" where
  "WithAny policy =
     \<lparr>ex_policies = [policyAnyWrapper policy], ex_ctx = [], ex_onDone = False, ex_onSuccess = False, ex_onFailure = False\<rparr>"

definition ComposeAny :: "('r, 's) policy \<Rightarrow> ('r, 's) executor \<Rightarrow> ('r, 's) executor" where
  "ComposeAny innerPolicy e = e\<lparr>ex_policies := ex_policies e @ [policyAnyWrapper innerPolicy]\<rparr>"

text \<open>Wrapping keeps the contracts of policies.\<close>

lemma wrapped_single_shot:
  assumes "single_shot (p i)"
  shows "single_shot (policyAnyWrapper p i)"
proof
  fix P n and f :: "('a, 'b) inner_fn"
  assume f: "bounded P n f"
  have "bounded P n (p i (\<lambda>_. f x))" for x using f by (intro single_shot.once[OF assms]) (simp add: bounded_def)
  then show "bounded P n (policyAnyWrapper p i f)"
    unfolding bounded_def policyAnyWrapper_def policyExecutorAnyWrapper_Apply_def by blast
next
  fix f :: "('a, 'b) inner_fn"
  assume f: "keeps_retry f"
  have "keeps_retry (p i (\<lambda>_. f x))" for x using f by (intro single_shot.keeps[OF assms]) (simp add: keeps_retry_def)
  then show "keeps_retry (policyAnyWrapper p i f)"
    unfolding keeps_retry_def policyAnyWrapper_def policyExecutorAnyWrapper_Apply_def by blast
qed

lemma wrapped_total:
  assumes "total_policy (p i)"
  shows "total_policy (policyAnyWrapper p i)"
proof -
  have "returns P (policyAnyWrapper p i f)" if f: "returns P f" for P and f :: "('a, 'b) inner_fn"
  proof -
    have "returns P (p i (\<lambda>_. f x))" for x using f by (intro total_policy.no_block[OF assms]) (simp add: returns_def)
    then show ?thesis unfolding returns_def policyAnyWrapper_def policyExecutorAnyWrapper_Apply_def by blast
  qed
  then show ?thesis
    using wrapped_single_shot[where p = p and i = i, OF total_policy.axioms(1)[OF assms]] by (simp add: total_policy_def total_policy_axioms_def)
qed

interpretation wrapped_timeout: total_policy "policyAnyWrapper (timeout_Apply rt c) i" for rt c i
  by (rule wrapped_total) (rule timeout.total_policy_axioms)

section \<open>Which executions the function sees\<close>

definition any_timeouts :: "('r, 's) runtime \<Rightarrow> to_config list \<Rightarrow> ('r, 's) executor" where
  "any_timeouts rt cs = fold (\<lambda>c. ComposeAny (timeout_Apply rt c)) cs (executor_With [])"

definition typed_timeouts :: "('r, 's) runtime \<Rightarrow> to_config list \<Rightarrow> ('r, 's) executor" where
  "typed_timeouts rt cs = fold (\<lambda>c. Compose (timeout_Apply rt c)) cs (executor_With [])"

lemma any_timeouts_eq: "any_timeouts rt cs = executor_With (map (\<lambda>c. policyAnyWrapper (timeout_Apply rt c)) cs)"
proof (induction cs rule: rev_induct)
  case (snoc c cs)
  then show ?case by (simp add: any_timeouts_def ComposeAny_def executor_With_def)
qed (simp add: any_timeouts_def)

lemma typed_timeouts_eq: "typed_timeouts rt cs = executor_With (map (timeout_Apply rt) cs)"
proof (induction cs rule: rev_induct)
  case (snoc c cs)
  then show ?case by (simp add: typed_timeouts_def Compose_def executor_With_def)
qed (simp add: typed_timeouts_def)

text \<open>Two functions that agree on the executions in certain contexts.\<close>

definition agree_on :: "(nat list \<Rightarrow> bool) \<Rightarrow> ('r, 's) user_fn \<Rightarrow> ('r, 's) user_fn \<Rightarrow> bool" where
  "agree_on C fn fn' \<longleftrightarrow> (\<forall>info u. C (e_ctx (info_execution info)) \<longrightarrow> fn (Some info) u = fn' (Some info) u)"

lemma cancellable_copy:
  assumes "CopyForCancellable x w = (y, w1)"
  shows "y = w_next_exec w" "w_next_exec w1 = Suc (w_next_exec w)" "\<exists>k. e_ctx (get_exec y w1) = k # e_ctx (get_exec x w)"
    "z < w_next_exec w \<Longrightarrow> get_exec z w1 = get_exec z w"
  using assms
  by (auto simp: CopyForCancellable_def exec_copy_def with_cancel_def ctx_WithCancel_def get_exec_def set_exec_def set_env_def Let_def)

lemma armed_timer [simp]: "get_exec x (arm_timer c y w) = get_exec x w" "w_next_exec (arm_timer c y w) = w_next_exec w"
  by (simp_all add: arm_timer_def get_exec_def)

lemma call_fn_agrees:
  assumes "agree_on C fn fn'" "C (e_ctx (get_exec x w))"
  shows "call_fn rt fn True x w = call_fn rt fn' True x w"
  using assms by (simp add: call_fn_def exec_copy_def get_exec_def set_exec_def agree_on_def Let_def)

lemma wrapped_timeouts_pass:
  assumes fn: "agree_on (\<lambda>c. c = ctx) fn fn'" and w: "x < w_next_exec w" "e_ctx (get_exec x w) = ctx"
  shows "compose_from i (map (\<lambda>c. policyAnyWrapper (timeout_Apply rt c)) cs) (call_fn rt fn True) x w
    = compose_from i (map (\<lambda>c. policyAnyWrapper (timeout_Apply rt c)) cs) (call_fn rt fn' True) x w"
  using w
proof (induction cs arbitrary: i w)
  case Nil
  then show ?case using call_fn_agrees[OF fn, of x w rt] by simp
next
  case (Cons c cs)
  obtain y w1 where y: "CopyForCancellable x w = (y, w1)" by (cases "CopyForCancellable x w")
  have "x < w_next_exec (arm_timer c y w1)" "e_ctx (get_exec x (arm_timer c y w1)) = ctx"
    using cancellable_copy(2)[OF y] cancellable_copy(4)[OF y Cons.prems(1)] Cons.prems by simp_all
  from Cons.IH[OF this, of "Suc i"] y show ?case
    by (simp add: policyAnyWrapper_def policyExecutorAnyWrapper_Apply_def timeout_Apply_def)
qed

lemma typed_timeouts_pass:
  assumes fn: "agree_on (\<lambda>c. \<exists>ks. length ks = n + length cs \<and> c = ks @ ctx) fn fn'"
    and w: "x < w_next_exec w" "\<exists>ks. length ks = n \<and> e_ctx (get_exec x w) = ks @ ctx"
  shows "compose_from i (map (timeout_Apply rt) cs) (call_fn rt fn True) x w = compose_from i (map (timeout_Apply rt) cs) (call_fn rt fn' True) x w"
  using fn w
proof (induction cs arbitrary: i w x n)
  case Nil
  then show ?case using call_fn_agrees[of _ fn fn' x w rt] by simp
next
  case (Cons c cs)
  obtain y w1 where y: "CopyForCancellable x w = (y, w1)" by (cases "CopyForCancellable x w")
  obtain k ks where k: "e_ctx (get_exec y w1) = k # ks @ ctx" "length ks = n" using cancellable_copy(3)[OF y] Cons.prems(3) by auto
  have fn1: "agree_on (\<lambda>c. \<exists>ks. length ks = Suc n + length cs \<and> c = ks @ ctx) fn fn'" using Cons.prems(1) by simp
  have w1: "y < w_next_exec (arm_timer c y w1)" using cancellable_copy(1,2)[OF y] by simp
  have "\<exists>ks. length ks = Suc n \<and> e_ctx (get_exec y (arm_timer c y w1)) = ks @ ctx" using k by (intro exI[of _ "k # ks"]) simp
  from Cons.IH[OF fn1 w1 this, of "Suc i"] y show ?case by (simp add: timeout_Apply_def)
qed

text \<open>
  C39. A function never sees the contexts of timeouts that are composed with \<^verbatim>\<open>ComposeAny\<close>: its execution has the context of the executor, so what it
  does in any other context, where a timeout could cancel it, does not matter, and the timeout only replaces its result once it has returned. With the same timeouts composed with
  \<^verbatim>\<open>Compose\<close>, its execution has a context of each timeout.
\<close>

theorem any_timeouts_never_cancel:
  fixes fn fn' :: "('r, 's) user_fn"
  shows "(agree_on (\<lambda>c. c = ctx) fn fn' \<longrightarrow>
      GetWithExecution rt fn (WithContext (Some ctx) (any_timeouts rt cs)) v = GetWithExecution rt fn' (WithContext (Some ctx) (any_timeouts rt cs)) v)
    \<and> (agree_on (\<lambda>c. \<exists>ks. length ks = length cs \<and> c = ks @ ctx) fn fn' \<longrightarrow>
      GetWithExecution rt fn (WithContext (Some ctx) (typed_timeouts rt cs)) v = GetWithExecution rt fn' (WithContext (Some ctx) (typed_timeouts rt cs)) v)"
proof -
  let ?w = "newExecution (rt_zero rt) ctx v"
  have w: "0 < w_next_exec ?w" "e_ctx (get_exec 0 ?w) = ctx" by (simp_all add: newExecution_def get_exec_def)
  note unfolds = GetWithExecution_def executeSync_def execute_def WithContext_def any_timeouts_eq typed_timeouts_eq executor_With_def
  show ?thesis
    using wrapped_timeouts_pass[OF _ w, of fn fn' 0 rt cs] typed_timeouts_pass[of 0 cs ctx fn fn' 0 ?w 0 rt] w by (simp add: unfolds)
qed

text \<open>A function whose result depends on whether its execution has just the context of the executor, in which no timeout can cancel it.\<close>

definition context_checker :: "(int, nat) user_fn" where
  "context_checker info u = ((case info of Some i \<Rightarrow> if e_ctx (info_execution i) = [3] then 1 else 2 | None \<Rightarrow> 0, None), u)"

theorem any_timeouts_never_cancel_witness:
  "GetWithExecution still_runtime context_checker (WithContext (Some [3]) (any_timeouts still_runtime [timeout_NewBuilder 50])) start_env
      = GetWithExecution still_runtime (\<lambda>_ u. ((1, None), u)) (WithContext (Some [3]) (any_timeouts still_runtime [timeout_NewBuilder 50])) start_env
    \<and> GetWithExecution still_runtime context_checker (WithContext (Some [3]) (typed_timeouts still_runtime [timeout_NewBuilder 50])) start_env
      = GetWithExecution still_runtime (\<lambda>_ u. ((2, None), u)) (WithContext (Some [3]) (typed_timeouts still_runtime [timeout_NewBuilder 50])) start_env"
proof
  have "agree_on (\<lambda>c. c = [3]) context_checker (\<lambda>_ u. ((1, None), u))" by (simp add: agree_on_def context_checker_def)
  then show "GetWithExecution still_runtime context_checker (WithContext (Some [3]) (any_timeouts still_runtime [timeout_NewBuilder 50])) start_env
      = GetWithExecution still_runtime (\<lambda>_ u. ((1, None), u)) (WithContext (Some [3]) (any_timeouts still_runtime [timeout_NewBuilder 50])) start_env"
    using any_timeouts_never_cancel by blast
  have "agree_on (\<lambda>c. \<exists>ks. length ks = length [timeout_NewBuilder 50] \<and> c = ks @ [3]) context_checker (\<lambda>_ u. ((2, None), u))"
    by (auto simp: agree_on_def context_checker_def)
  then show "GetWithExecution still_runtime context_checker (WithContext (Some [3]) (typed_timeouts still_runtime [timeout_NewBuilder 50])) start_env
      = GetWithExecution still_runtime (\<lambda>_ u. ((2, None), u)) (WithContext (Some [3]) (typed_timeouts still_runtime [timeout_NewBuilder 50])) start_env"
    using any_timeouts_never_cancel by blast
qed

section \<open>Executions of wrapped policies\<close>

text \<open>
  \<^verbatim>\<open>executionAnyWrapper\<close>: the conversions of results and errors between the executor's result type and \<^verbatim>\<open>any\<close>, and the methods that
  convert on their way. The embedded execution provides the others.
\<close>

record ('r, 'a) any_conversion =
  to_any :: "'r \<Rightarrow> 'a"
  any_is_nil :: "'a \<Rightarrow> bool"
  any_assert :: "'a \<Rightarrow> 'r option"
  err_to_any :: "'r error \<Rightarrow> 'a error"
  err_from_any :: "'a error \<Rightarrow> 'r error"

abbreviation into_any :: "('r, 'a) any_conversion \<Rightarrow> 'r PolicyResult option \<Rightarrow> 'a PolicyResult option" where
  "into_any K \<equiv> resultToAny (to_any K) (err_to_any K)"

abbreviation from_any :: "('r, 'a) any_conversion \<Rightarrow> 'r \<Rightarrow> 'a PolicyResult option \<Rightarrow> 'r PolicyResult option go" where
  "from_any K zero \<equiv> resultFromAny zero (any_is_nil K) (any_assert K) (err_from_any K)"

definition any_LastResult :: "('r, 'a) any_conversion \<Rightarrow> nat \<Rightarrow> ('r, 's) world \<Rightarrow> 'a" where
  "any_LastResult K x w = to_any K (LastResult x w)"

definition any_RecordResult :: "('r, 'a) any_conversion \<Rightarrow> 'r \<Rightarrow> nat \<Rightarrow> 'a PolicyResult option \<Rightarrow> ('r, 's) world
    \<Rightarrow> ('a PolicyResult option \<times> ('r, 's) world) go" where
  "any_RecordResult K zero x anyResult w =
     go_bind (from_any K zero anyResult) (\<lambda>result. let (rResult, w1) = exec_RecordResult zero x result w in Inr (into_any K rResult, w1))"

definition any_InitializeRetry :: "('r, 'a) any_conversion \<Rightarrow> 'r \<Rightarrow> nat \<Rightarrow> ('r, 's) world \<Rightarrow> 'a PolicyResult option \<times> ('r, 's) world" where
  "any_InitializeRetry K zero x w = (let (rResult, w1) = InitializeRetry zero x w in (into_any K rResult, w1))"

definition any_Cancel :: "('r, 'a) any_conversion \<Rightarrow> 'r \<Rightarrow> nat \<Rightarrow> 'a PolicyResult option \<Rightarrow> ('r, 's) world \<Rightarrow> ('r, 's) world go" where
  "any_Cancel K zero x anyResult w = go_bind (from_any K zero anyResult) (\<lambda>result. Inr (exec_Cancel zero x result w))"

definition any_IsCanceledWithResult :: "('r, 'a) any_conversion \<Rightarrow> 'r \<Rightarrow> nat \<Rightarrow> ('r, 's) world \<Rightarrow> 'a PolicyResult option" where
  "any_IsCanceledWithResult K zero x w = into_any K (isCanceledWithResult zero x w)"

definition any_CopyWithResult :: "('r, 'a) any_conversion \<Rightarrow> 'r \<Rightarrow> nat \<Rightarrow> 'a PolicyResult option \<Rightarrow> ('r, 's) world \<Rightarrow> (nat \<times> ('r, 's) world) go" where
  "any_CopyWithResult K zero x anyResult w = go_bind (from_any K zero anyResult) (\<lambda>result. Inr (CopyWithResult x result w))"

definition any_CopyForCancellable :: "nat \<Rightarrow> ('r, 's) world \<Rightarrow> nat \<times> ('r, 's) world" where
  "any_CopyForCancellable x w = CopyForCancellable x w"

definition any_CopyForHedge :: "nat \<Rightarrow> ('r, 's) world \<Rightarrow> nat \<times> ('r, 's) world" where
  "any_CopyForHedge x w = CopyForHedge x w"

definition any_DeferCancel :: "('r, 's) world \<Rightarrow> ('r, 's) world" where
  "any_DeferCancel w = DeferCancel w"

text \<open>
  A policy's \<^verbatim>\<open>any\<close> results are those of the executor, converted, or \<^verbatim>\<open>nil\<close> for no result, or of another type. On the first, the methods are those of
  the execution; the second is the zero result; on the last, those that take a result panic.
\<close>

definition lossless :: "('r, 'a) any_conversion \<Rightarrow> 'r \<Rightarrow> bool" where
  "lossless K zero \<longleftrightarrow> (\<forall>r. if any_is_nil K (to_any K r) then r = zero else any_assert K (to_any K r) = Some r) \<and> (\<forall>e. err_from_any K (err_to_any K e) = e)"

lemma from_into_any:
  assumes "lossless K zero"
  shows "from_any K zero (into_any K r) = Inr r"
  by (rule resultFromAny_resultToAny) (use assms in \<open>simp_all add: lossless_def split: if_splits\<close>)

lemma any_methods:
  assumes "lossless K zero"
  shows "any_RecordResult K zero x (into_any K r) w = Inr (map_prod (into_any K) id (exec_RecordResult zero x r w))"
    and "any_Cancel K zero x (into_any K r) w = Inr (exec_Cancel zero x r w)"
    and "any_CopyWithResult K zero x (into_any K r) w = Inr (CopyWithResult x r w)"
    and "from_any K zero (any_IsCanceledWithResult K zero x w) = Inr (isCanceledWithResult zero x w)"
    and "from_any K zero (fst (any_InitializeRetry K zero x w)) = Inr (fst (InitializeRetry zero x w))"
    and "snd (any_InitializeRetry K zero x w) = snd (InitializeRetry zero x w)"
  using from_into_any[OF assms]
  by (simp_all add: any_RecordResult_def any_Cancel_def any_CopyWithResult_def any_IsCanceledWithResult_def any_InitializeRetry_def split_beta)
    (simp add: map_prod_def split_beta)

lemma any_nil:
  assumes "any_is_nil K (Result a)" "Error a = map_option (err_to_any K) e" "lossless K zero"
  shows "from_any K zero (Some a) = Inr (Some \<lparr>Result = zero, Error = e, Done = Done a, Success = Success a, SuccessAll = SuccessAll a\<rparr>)"
proof -
  have "map_option (err_from_any K) (Error a) = e" using assms(2,3) by (cases e) (simp_all add: lossless_def)
  then show ?thesis using assms(1) by (simp add: resultFromAny_def)
qed

lemma any_other_type:
  assumes "\<not> any_is_nil K (Result a)" "any_assert K (Result a) = None"
  shows "\<exists>p. any_RecordResult K zero x (Some a) w = Inl p \<and> any_Cancel K zero x (Some a) w = Inl p \<and> any_CopyWithResult K zero x (Some a) w = Inl p"
  using assms by (simp add: any_RecordResult_def any_Cancel_def any_CopyWithResult_def resultFromAny_def)

end
