(* ===== verification/Breaker_Executor.thy ===== *)
theory Breaker_Executor
  imports Executor Circuit_Breaker
begin

text \<open>
  The executor of a circuit breaker: src/circuitbreaker/circuitbreakerexecutor.go. The breaker is a
  shared object of the environment; an execution's delay function sees the execution with its result.
\<close>

section \<open>The executor\<close>

definition ErrOpen :: "'r error" where
  "ErrOpen = Err ''circuit breaker open''"

type_synonym ('b, 'r) breaker = "('b, 'r, 'r exec_info) circuitBreaker"

definition breaker_PreExecute :: "('r, 's) runtime \<Rightarrow> 'b bitset_api \<Rightarrow> ('s, ('b, 'r) breaker) ref \<Rightarrow> ('r, 's) pre_hook" where
  "breaker_PreExecute rt B p x w =
     run_go (TryAcquirePermit B (clock (w_env w)) (read_ref p w)) (\<lambda>(ok, cb).
     run_return (if \<not> ok then Some (FailureResult (rt_zero rt) ErrOpen) else None, write_ref p cb w))"

definition breaker_OnSuccess :: "'b bitset_api \<Rightarrow> ('s, ('b, 'r) breaker) ref \<Rightarrow> nat \<Rightarrow> 'r PolicyResult \<Rightarrow> ('r, 's) world
    \<Rightarrow> ('r, 's) world run" where
  "breaker_OnSuccess B p x result w =
     (let w1 = base_OnSuccess (Some (cb_failurePolicy (config (read_ref p w)))) x result w in
      run_go (cb_RecordSuccess B (clock (w_env w1)) (read_ref p w1)) (\<lambda>cb. run_return (write_ref p cb w1)))"

definition breaker_OnFailure :: "'b bitset_api \<Rightarrow> ('s, ('b, 'r) breaker) ref \<Rightarrow> ('r, 's) post_hook" where
  "breaker_OnFailure B p x result w =
     (let w1 = snd (base_OnFailure (Some (cb_failurePolicy (config (read_ref p w)))) x result w);
          (copy, w2) = CopyWithResult x (Some result) w1
      in run_go (cb_recordFailure B (Some (exec_info_of copy w2)) (clock (w_env w2)) (read_ref p w2)) (\<lambda>cb.
         run_return (result, write_ref p cb w2)))"

definition breaker_PostExecute :: "'b bitset_api \<Rightarrow> ('s, ('b, 'r) breaker) ref \<Rightarrow> ('r, 's) post_hook" where
  "breaker_PostExecute B p x er w =
     base_PostExecute (base_IsFailure (Some (cb_failurePolicy (config (read_ref p w))))) (breaker_OnSuccess B p) (breaker_OnFailure B p) x er w"

definition breaker_Apply :: "('r, 's) runtime \<Rightarrow> 'b bitset_api \<Rightarrow> ('s, ('b, 'r) breaker) ref \<Rightarrow> ('r, 's) policy" where
  "breaker_Apply rt B p i = base_Apply (breaker_PreExecute rt B p) (breaker_PostExecute B p)"

section \<open>Lemmas\<close>

lemma breaker_pre_quiet: "quiet_pre (breaker_PreExecute rt B p)"
  by (auto simp: quiet_pre_def breaker_PreExecute_def run_go_cases frame)

lemma breaker_success_frame: "breaker_OnSuccess B p x r w = Some (Inr w') \<Longrightarrow> same_run w w'"
  by (auto simp: breaker_OnSuccess_def base_OnSuccess_def run_go_cases Let_def intro: same_run_trans[OF frame_call_listener frame_write_ref])

lemma breaker_failure_frame:
  assumes "breaker_OnFailure B p x r w = Some (Inr (r', w'))"
  shows "same_run w w'"
proof -
  define w1 where "w1 = snd (base_OnFailure (Some (cb_failurePolicy (config (read_ref p w)))) x r w)"
  have "same_run w w1" by (simp add: w1_def base_OnFailure_def frame)
  then have "same_run w (snd (CopyWithResult x (Some r) w1))" by (rule same_run_trans[OF _ frame_CopyWithResult])
  then show ?thesis
    using assms by (auto simp: breaker_OnFailure_def run_go_cases Let_def split_beta simp flip: w1_def intro: same_run_trans[OF _ frame_write_ref])
qed

lemma breaker_post_quiet: "quiet_post (breaker_PostExecute B p)"
proof -
  have "quiet_post (base_PostExecute isf (breaker_OnSuccess B p) (breaker_OnFailure B p))" for isf
    by (rule base_PostExecute_quiet[OF breaker_success_frame breaker_failure_frame])
  then show ?thesis by (simp add: quiet_post_def breaker_PostExecute_def)
qed

interpretation breaker: single_shot "breaker_Apply rt B p i" for rt B p i
  unfolding breaker_Apply_def by (rule one_call_single_shot[OF base_Apply_one_call[OF breaker_pre_quiet breaker_post_quiet]])

text \<open>What the hooks do with the breaker.\<close>

lemma env_CopyWithResult [simp]: "w_env (snd (CopyWithResult x r w)) = w_env w"
  by (cases r) (simp_all add: CopyWithResult_def exec_copy_def set_exec_def set_last_def Let_def)

lemma breaker_post_records:
  fixes w :: "('r, 's) world"
  assumes ref: "\<And>obj s. ref_get p (ref_put p obj s) = obj" and B: "bitset_laws B" and inv: "cb_inv B (read_ref p w)"
    and now: "0 \<le> clock (w_env w)" "in_i64 (clock (w_env w))"
  shows "\<exists>r' w' info. breaker_PostExecute B p x r w = Some (Inr (r', w')) \<and> Result r' = Result r \<and> Error r' = Error r
     \<and> cb_record B (\<not> IsFailure (cb_failurePolicy (config (read_ref p w))) (Result r) (Error r)) (Some info) (clock (w_env w)) (read_ref p w)
         = Inr (read_ref p w')
     \<and> cb_inv B (read_ref p w') \<and> clock (w_env w') = clock (w_env w)"
proof -
  let ?q = "cb_failurePolicy (config (read_ref p w))"
  note rec = bitset_laws.cb_record_ok[OF B inv now]
  have rd: "read_ref p (write_ref p cb w') = cb" "clock (w_env (write_ref p cb w')) = clock (w_env w')" for cb and w' :: "('r, 's) world"
    using ref by (simp_all add: read_ref_def write_ref_def set_env_def)
  have wd: "Result (WithDone r True True) = Result r" "Error (WithDone r True True) = Error r"
      "Result (WithFailure r) = Result r" "Error (WithFailure r) = Error r"
    by (simp_all add: WithDone_def WithFailure_def)
  have same: "read_ref p w' = read_ref p w" if "w_env w' = w_env w" for w'
    using that by (simp add: read_ref_def)
  show ?thesis
  proof (cases "IsFailure ?q (Result r) (Error r)")
    case False
    define w1 where "w1 = base_OnSuccess (Some ?q) x (WithDone r True True) w"
    have w1: "w_env w1 = w_env w" by (simp add: w1_def base_OnSuccess_def)
    obtain cb where "cb_record B True (Some undefined) (clock (w_env w)) (read_ref p w) = Inr cb" "cb_inv B cb" using rec by blast
    then show ?thesis
      using False w1 rd wd same[OF w1] by (intro exI[of _ "WithDone r True True"] exI[of _ "write_ref p cb w1"] exI[of _ undefined])
        (simp add: breaker_PostExecute_def base_PostExecute_def base_IsFailure_def breaker_OnSuccess_def run_go_def Let_def run_return_def
          cb_record_def cb_RecordSuccess_def flip: w1_def)
  next
    case True
    define w1 where "w1 = snd (base_OnFailure (Some ?q) x (WithFailure r) w)"
    obtain copy w2 where c: "CopyWithResult x (Some (WithFailure r)) w1 = (copy, w2)" by (cases "CopyWithResult x (Some (WithFailure r)) w1")
    have "w_env w1 = w_env w" by (simp add: w1_def base_OnFailure_def)
    then have w2: "w_env w2 = w_env w" using env_CopyWithResult[of x "Some (WithFailure r)" w1] c by simp
    obtain cb where "cb_record B False (Some (exec_info_of copy w2)) (clock (w_env w)) (read_ref p w) = Inr cb" "cb_inv B cb" using rec by blast
    then show ?thesis
      using True w2 c rd wd same[OF w2] by (intro exI[of _ "WithFailure r"] exI[of _ "write_ref p cb w2"] exI[of _ "exec_info_of copy w2"])
        (simp add: breaker_PostExecute_def base_PostExecute_def base_IsFailure_def breaker_OnFailure_def run_go_def Let_def run_return_def
          cb_record_def flip: w1_def)
  qed
qed

section \<open>Properties\<close>

text \<open>
  An execution with a circuit breaker calls its function exactly if the breaker grants a permit, and
  otherwise returns \<^verbatim>\<open>ErrOpen\<close>; what the function returns is passed on and recorded with the breaker
  exactly once, as a success or a failure as the breaker's configuration says, and the breaker stays valid.
\<close>

theorem breaker_admits_and_records:
  assumes ref: "\<And>obj s. ref_get p (ref_put p obj s) = obj" and B: "bitset_laws B"
    and inv: "cb_inv B (ref_get p (objs v))"
    and fn: "\<And>u. ref_get p (objs (snd (fn u))) = ref_get p (objs u)"
    and now: "\<And>u. 0 \<le> clock (snd (fn u))" "\<And>u. in_i64 (clock (snd (fn u)))"
    and permit: "TryAcquirePermit B (clock v) (ref_get p (objs v)) = Inr (ok, cb1)"
  shows "\<exists>w out info. executor_Get rt fn (executor_With [breaker_Apply rt B p]) v = Some (Inr (out, w))
    \<and> w_executions w = (if ok then 1 else 0) \<and> cb_inv B (ref_get p (objs (w_env w)))
    \<and> (if ok then out = fst (fn (v\<lparr>objs := ref_put p cb1 (objs v)\<rparr>))
           \<and> cb_record B (\<not> IsFailure (cb_failurePolicy (config cb1)) (fst out) (snd out)) (Some info) (clock (w_env w)) cb1
               = Inr (ref_get p (objs (w_env w)))
       else out = (rt_zero rt, Some ErrOpen) \<and> ref_get p (objs (w_env w)) = cb1)"
proof -
  define w0 where "w0 = newExecution (rt_zero rt) [] v"
  note w0 = new_world[of "rt_zero rt" "[]" v, folded w0_def]
  have cb1: "cb_inv B cb1" using bitset_laws.TryAcquirePermit_ok[OF B inv, of "clock v"] permit by auto
  define w1 where "w1 = write_ref p cb1 w0"
  have w1: "w_env w1 = v\<lparr>objs := ref_put p cb1 (objs v)\<rparr>" "w_executions w1 = 0" "w_timers w1 = []" "read_ref p w1 = cb1"
    using w0 ref by (simp_all add: w1_def write_ref_def set_env_def read_ref_def)
  have pre: "breaker_PreExecute rt B p 0 w0 = Some (Inr (if \<not> ok then Some (FailureResult (rt_zero rt) ErrOpen) else None, w1))"
    using permit w0(1) by (simp add: breaker_PreExecute_def run_go_def read_ref_def run_return_def w1_def)
  note unfolds = executor_Get_def executeSync_def execute_def executor_With_def breaker_Apply_def base_Apply_def run_return_def Let_def
  show ?thesis
  proof (cases ok)
    case False
    then show ?thesis
      using pre w1 cb1 by (simp add: unfolds FailureResult_def read_ref_def flip: w0_def)
  next
    case True
    define w2 where "w2 = exec_record (w1\<lparr>w_env := snd (fn (w_env w1))\<rparr>)"
    let ?r = "\<lparr>Result = fst (fst (fn (w_env w1))), Error = snd (fst (fn (w_env w1))), Done = True, Success = True, SuccessAll = True\<rparr>"
    have w2: "read_ref p w2 = cb1" "w_executions w2 = 1" "0 \<le> clock (w_env w2)" "in_i64 (clock (w_env w2))"
      using w1 fn now by (simp_all add: w2_def read_ref_def exec_record_def)
    have call: "call_fn rt (\<lambda>_. fn) False 0 w1 = Some (Inr (?r, w2))" unfolding w2_def by (rule call_fn_no_timers[OF w1(3)])
    obtain r' w' info where post: "breaker_PostExecute B p 0 ?r w2 = Some (Inr (r', w'))" "Result r' = Result ?r" "Error r' = Error ?r"
      "cb_record B (\<not> IsFailure (cb_failurePolicy (config cb1)) (Result ?r) (Error ?r)) (Some info) (clock (w_env w2)) cb1 = Inr (read_ref p w')"
      "cb_inv B (read_ref p w')" "clock (w_env w') = clock (w_env w2)"
      using breaker_post_records[OF ref B _ w2(3,4), of 0 ?r] cb1 unfolding w2(1) by blast
    have "same_run w2 w'" using breaker_post_quiet post(1) unfolding quiet_post_def by blast
    then have "w_executions w' = 1" using w2(2) by (simp add: same_run_def)
    with True pre call post w1(1) show ?thesis
      by (intro exI[of _ w'] exI[of _ "fst (fn (w_env w1))"] exI[of _ info]) (simp add: unfolds read_ref_def flip: w0_def)
  qed
qed

text \<open>The environment that holds just a breaker, and one new breaker.\<close>

definition the_breaker :: "((bool list, int) breaker, (bool list, int) breaker) ref" where
  "the_breaker = \<lparr>ref_get = (\<lambda>cb. cb), ref_put = (\<lambda>cb _. cb)\<rparr>"

definition breaker_runtime :: "(int, (bool list, int) breaker) runtime" where
  "breaker_runtime = \<lparr>rt_zero = 0, rt_pause = (\<lambda>_ _ v. v), rt_rand = (\<lambda>v. (0, v)), rt_fires = (\<lambda>t v. t \<le> clock v),
     rt_selects_ctx = (\<lambda>_. True), rt_selects_timer = (\<lambda>_. False), rt_fuel = 0\<rparr>"

theorem breaker_admits_and_records_witness:
  "\<exists>cb w out. cb_Build list_bitset (WithFailureThreshold 2 cb_NewBuilder) = Inr cb
     \<and> executor_Get breaker_runtime (\<lambda>v. ((5, None), v\<lparr>clock := 9\<rparr>)) (executor_With [breaker_Apply breaker_runtime list_bitset the_breaker])
         \<lparr>clock = 0, ctx_errs = (\<lambda>_. None), objs = cb\<rparr> = Some (Inr (out, w))
     \<and> w_executions w = 1 \<and> out = (5, None)"
proof -
  let ?c = "WithFailureThreshold 2 cb_NewBuilder :: (int, int exec_info) cb_config"
  have ok: "cfg_ok ?c"
    by (simp add: cfg_ok_def closed_capacity_def half_open_capacity_def WithFailureThreshold_def WithFailureThresholdRatio_def cb_NewBuilder_def)
  obtain cb :: "(bool list, int) breaker" where cb: "cb_Build list_bitset ?c = Inr cb" "cb_inv list_bitset cb"
    using list_bits.cb_Build_ok[OF ok] by blast
  have "TryAcquirePermit list_bitset 0 cb = Inr (True, cb)"
    using cb(1) by (auto simp: cb_Build_def newClosedState_def go_bind_Inr_iff TryAcquirePermit_def)
  then show ?thesis
    using breaker_admits_and_records[of the_breaker list_bitset "\<lparr>clock = 0, ctx_errs = (\<lambda>_. None), objs = cb\<rparr>"
        "\<lambda>v. ((5, None), v\<lparr>clock := 9\<rparr>)" True cb breaker_runtime] cb list_bits.bitset_laws_axioms
    by (auto simp: the_breaker_def in_i64_def)
qed

end
