(* ===== verification/Rate_Limiter.thy ===== *)
theory Rate_Limiter
  imports Policy_Base
begin

text \<open>
  The rate limiter: src/ratelimiter/ratelimiter.go and ratelimiterstats.go, with the stopwatch and
  \<^verbatim>\<open>RoundDown\<close> of src/internal/util/util.go. The two implementations of the \<^verbatim>\<open>stats\<close> interface
  are the constructors of \<open>rl_stats\<close>. Every method holds the mutex of the statistics while it runs and
  is one function, with the time of the call as the argument \<open>now\<close>. A method that waits is given the
  outcome of its wait: \<open>wait d\<close> is the context's error if the context is done before the duration
  \<open>d\<close> has passed. The locale \<open>permit_stats\<close> states the contract of the interface.
\<close>

section \<open>Configuration\<close>

record rl_config =
  rl_maxWaitTime :: duration
  rl_onRateLimitExceeded :: bool
  rl_interval :: duration
  rl_periodPermits :: int
  rl_period :: duration

definition int_of_uint :: "uint \<Rightarrow> int" where
  "int_of_uint n = i64 (uint n)"

definition NewSmoothBuilder :: "uint \<Rightarrow> duration \<Rightarrow> rl_config go" where
  "NewSmoothBuilder maxExecutions period =
     go_bind (go_div period (int_of_uint maxExecutions)) (\<lambda>interval.
     Inr \<lparr>rl_maxWaitTime = 0, rl_onRateLimitExceeded = False, rl_interval = interval,
          rl_periodPermits = 0, rl_period = 0\<rparr>)"

definition NewSmoothBuilderWithMaxRate :: "duration \<Rightarrow> rl_config" where
  "NewSmoothBuilderWithMaxRate maxRate =
     \<lparr>rl_maxWaitTime = 0, rl_onRateLimitExceeded = False, rl_interval = maxRate,
      rl_periodPermits = 0, rl_period = 0\<rparr>"

definition NewBurstyBuilder :: "uint \<Rightarrow> duration \<Rightarrow> rl_config" where
  "NewBurstyBuilder maxExecutions period =
     \<lparr>rl_maxWaitTime = 0, rl_onRateLimitExceeded = False, rl_interval = 0,
      rl_periodPermits = int_of_uint maxExecutions, rl_period = period\<rparr>"

definition WithMaxWaitTime :: "duration \<Rightarrow> rl_config \<Rightarrow> rl_config" where
  "WithMaxWaitTime maxWaitTime c = c\<lparr>rl_maxWaitTime := maxWaitTime\<rparr>"

definition OnRateLimitExceeded :: "bool \<Rightarrow> rl_config \<Rightarrow> rl_config" where
  "OnRateLimitExceeded listener c = c\<lparr>rl_onRateLimitExceeded := listener\<rparr>"

section \<open>The stopwatch\<close>

text \<open>\<^verbatim>\<open>time.Since\<close> saturates at the ends of the range of durations.\<close>

definition stopwatch_ElapsedTime :: "nanotime \<Rightarrow> nanotime \<Rightarrow> duration" where
  "stopwatch_ElapsedTime startTime now = max (- (2 ^ 63)) (min (2 ^ 63 - 1) (now - startTime))"

definition stopwatch_Reset :: "nanotime \<Rightarrow> nanotime" where
  "stopwatch_Reset now = now"

definition RoundDown :: "int \<Rightarrow> int \<Rightarrow> int go" where
  "RoundDown input interval = go_bind (go_mod input interval) (\<lambda>r. Inr (i64 (input - r)))"

section \<open>Smooth and bursty statistics\<close>

definition exceedsMaxWaitTime :: "duration \<Rightarrow> duration \<Rightarrow> bool" where
  "exceedsMaxWaitTime waitTime maxWaitTime \<longleftrightarrow> maxWaitTime \<noteq> -1 \<and> waitTime > maxWaitTime"

record smoothStats =
  sm_stopwatch :: nanotime
  nextFreePermitTime :: duration

definition smooth_acquirePermits :: "rl_config \<Rightarrow> int \<Rightarrow> duration \<Rightarrow> nanotime \<Rightarrow> smoothStats \<Rightarrow> (duration \<times> smoothStats) go" where
  "smooth_acquirePermits c requestedPermits maxWaitTime now s =
     (let currentTime = stopwatch_ElapsedTime (sm_stopwatch s) now;
          requestedPermitTime = i64 (rl_interval c * requestedPermits)
      in go_bind
           (if currentTime \<ge> nextFreePermitTime s
            then go_bind (RoundDown currentTime (rl_interval c)) (\<lambda>currentIntervalTime.
                 Inr (i64 (currentIntervalTime + requestedPermitTime)))
            else Inr (i64 (nextFreePermitTime s + requestedPermitTime)))
           (\<lambda>newNextFreePermitTime.
             let waitTime = max (i64 (i64 (newNextFreePermitTime - currentTime) - rl_interval c)) 0 in
             if exceedsMaxWaitTime waitTime maxWaitTime then Inr (-1, s)
             else Inr (waitTime, s\<lparr>nextFreePermitTime := newNextFreePermitTime\<rparr>)))"

definition smooth_reset :: "nanotime \<Rightarrow> smoothStats \<Rightarrow> smoothStats" where
  "smooth_reset now s = s\<lparr>sm_stopwatch := stopwatch_Reset now, nextFreePermitTime := 0\<rparr>"

record burstyStats =
  bu_stopwatch :: nanotime
  availablePermits :: int
  currentPeriod :: int

text \<open>The update of the current period and its permits at the start of \<^verbatim>\<open>acquirePermits\<close>.\<close>

definition bursty_advance :: "rl_config \<Rightarrow> int \<Rightarrow> burstyStats \<Rightarrow> burstyStats" where
  "bursty_advance c newCurrentPeriod s =
     (if currentPeriod s < newCurrentPeriod
      then let elapsedPeriods = i64 (newCurrentPeriod - currentPeriod s);
               elapsedPermits = i64 (elapsedPeriods * rl_periodPermits c)
           in s\<lparr>currentPeriod := newCurrentPeriod,
                availablePermits := (if availablePermits s < 0 then i64 (availablePermits s + elapsedPermits)
                                     else rl_periodPermits c)\<rparr>
      else s)"

text \<open>The wait until the period that has the missing permits, when more are requested than available.\<close>

definition bursty_waitTime :: "rl_config \<Rightarrow> int \<Rightarrow> duration \<Rightarrow> burstyStats \<Rightarrow> duration go" where
  "bursty_waitTime c requestedPermits currentTime s =
     (let nextPeriodTime = i64 (i64 (currentPeriod s + 1) * rl_period c);
          permitDeficit = i64 (requestedPermits - availablePermits s)
      in go_bind (go_div permitDeficit (rl_periodPermits c)) (\<lambda>additionalPeriods.
         go_bind (go_mod permitDeficit (rl_periodPermits c)) (\<lambda>additionalUnits.
         let additionalPeriods = (if additionalUnits = 0 then i64 (additionalPeriods - 1) else additionalPeriods);
             timeToNextPeriod = i64 (nextPeriodTime - currentTime)
         in Inr (i64 (timeToNextPeriod + i64 (additionalPeriods * rl_period c))))))"

definition bursty_acquirePermits :: "rl_config \<Rightarrow> int \<Rightarrow> duration \<Rightarrow> nanotime \<Rightarrow> burstyStats \<Rightarrow> (duration \<times> burstyStats) go" where
  "bursty_acquirePermits c requestedPermits maxWaitTime now s =
     (let currentTime = stopwatch_ElapsedTime (bu_stopwatch s) now in
      go_bind (go_div currentTime (rl_period c)) (\<lambda>newCurrentPeriod.
      let s1 = bursty_advance c newCurrentPeriod s;
          taken = s1\<lparr>availablePermits := i64 (availablePermits s1 - requestedPermits)\<rparr>
      in if requestedPermits > availablePermits s1
         then go_bind (bursty_waitTime c requestedPermits currentTime s1) (\<lambda>waitTime.
              if exceedsMaxWaitTime waitTime maxWaitTime then Inr (-1, s1) else Inr (waitTime, taken))
         else Inr (0, taken)))"

definition bursty_reset :: "rl_config \<Rightarrow> nanotime \<Rightarrow> burstyStats \<Rightarrow> burstyStats" where
  "bursty_reset c now s =
     s\<lparr>bu_stopwatch := stopwatch_Reset now, availablePermits := rl_periodPermits c, currentPeriod := 0\<rparr>"

section \<open>The rate limiter\<close>

datatype rl_stats = Smooth smoothStats | Bursty burstyStats

fun acquirePermits :: "rl_config \<Rightarrow> int \<Rightarrow> duration \<Rightarrow> nanotime \<Rightarrow> rl_stats \<Rightarrow> (duration \<times> rl_stats) go" where
  "acquirePermits c n maxWaitTime now (Smooth s) =
     go_bind (smooth_acquirePermits c n maxWaitTime now s) (\<lambda>(w, s'). Inr (w, Smooth s'))"
| "acquirePermits c n maxWaitTime now (Bursty s) =
     go_bind (bursty_acquirePermits c n maxWaitTime now s) (\<lambda>(w, s'). Inr (w, Bursty s'))"

fun stats_reset :: "rl_config \<Rightarrow> nanotime \<Rightarrow> rl_stats \<Rightarrow> rl_stats" where
  "stats_reset c now (Smooth s) = Smooth (smooth_reset now s)"
| "stats_reset c now (Bursty s) = Bursty (bursty_reset c now s)"

record rateLimiter =
  rl_config :: rl_config
  rl_stats :: rl_stats

definition rl_Build :: "nanotime \<Rightarrow> rl_config \<Rightarrow> rateLimiter" where
  "rl_Build now c =
     \<lparr>rl_config = c,
      rl_stats = (if rl_interval c \<noteq> 0 then Smooth \<lparr>sm_stopwatch = now, nextFreePermitTime = 0\<rparr>
                  else Bursty \<lparr>bu_stopwatch = now, availablePermits = rl_periodPermits c, currentPeriod = 0\<rparr>)\<rparr>"

definition NewSmooth :: "nanotime \<Rightarrow> uint \<Rightarrow> duration \<Rightarrow> rateLimiter go" where
  "NewSmooth now maxExecutions period = go_bind (NewSmoothBuilder maxExecutions period) (\<lambda>c. Inr (rl_Build now c))"

definition NewSmoothWithMaxRate :: "nanotime \<Rightarrow> duration \<Rightarrow> rateLimiter" where
  "NewSmoothWithMaxRate now maxRate = rl_Build now (NewSmoothBuilderWithMaxRate maxRate)"

definition NewBursty :: "nanotime \<Rightarrow> uint \<Rightarrow> duration \<Rightarrow> rateLimiter" where
  "NewBursty now maxExecutions period = rl_Build now (NewBurstyBuilder maxExecutions period)"

definition TryReservePermits :: "uint \<Rightarrow> duration \<Rightarrow> nanotime \<Rightarrow> rateLimiter \<Rightarrow> (duration \<times> rateLimiter) go" where
  "TryReservePermits requestedPermits maxWaitTime now r =
     go_bind (acquirePermits (rl_config r) (int_of_uint requestedPermits) maxWaitTime now (rl_stats r))
       (\<lambda>(w, st). Inr (w, r\<lparr>rl_stats := st\<rparr>))"

definition TryReservePermit :: "duration \<Rightarrow> nanotime \<Rightarrow> rateLimiter \<Rightarrow> (duration \<times> rateLimiter) go" where
  "TryReservePermit maxWaitTime now r = TryReservePermits 1 maxWaitTime now r"

definition TryAcquirePermits :: "uint \<Rightarrow> nanotime \<Rightarrow> rateLimiter \<Rightarrow> (bool \<times> rateLimiter) go" where
  "TryAcquirePermits permits now r = go_bind (TryReservePermits permits 0 now r) (\<lambda>(w, r'). Inr (w = 0, r'))"

definition rl_TryAcquirePermit :: "nanotime \<Rightarrow> rateLimiter \<Rightarrow> (bool \<times> rateLimiter) go" where
  "rl_TryAcquirePermit now r = TryAcquirePermits 1 now r"

definition ReservePermits :: "uint \<Rightarrow> nanotime \<Rightarrow> rateLimiter \<Rightarrow> (duration \<times> rateLimiter) go" where
  "ReservePermits permits now r =
     go_bind (acquirePermits (rl_config r) (int_of_uint permits) (-1) now (rl_stats r))
       (\<lambda>(w, st). Inr (w, r\<lparr>rl_stats := st\<rparr>))"

definition ReservePermit :: "nanotime \<Rightarrow> rateLimiter \<Rightarrow> (duration \<times> rateLimiter) go" where
  "ReservePermit now r = ReservePermits 1 now r"

definition rl_ErrExceeded :: "'r error" where
  "rl_ErrExceeded = Err ''rate limit exceeded''"

text \<open>
  The blocking methods: \<open>wait\<close> is \<open>None\<close> for a nil context. They return the error, nil being
  \<open>None\<close>; permits reserved by a call whose context is done are not given back.
\<close>

type_synonym 'r ctx_wait = "(duration \<Rightarrow> 'r error option) option"

definition wait_permit :: "'r ctx_wait \<Rightarrow> duration \<Rightarrow> 'r error option" where
  "wait_permit wait waitTime = (case wait of None \<Rightarrow> None | Some f \<Rightarrow> f waitTime)"

definition AcquirePermits :: "'r ctx_wait \<Rightarrow> uint \<Rightarrow> nanotime \<Rightarrow> rateLimiter \<Rightarrow> ('r error option \<times> rateLimiter) go" where
  "AcquirePermits wait permits now r =
     go_bind (ReservePermits permits now r) (\<lambda>(waitTime, r'). Inr (wait_permit wait waitTime, r'))"

definition AcquirePermit :: "'r ctx_wait \<Rightarrow> nanotime \<Rightarrow> rateLimiter \<Rightarrow> ('r error option \<times> rateLimiter) go" where
  "AcquirePermit wait now r = AcquirePermits wait 1 now r"

definition AcquirePermitsWithMaxWait :: "'r ctx_wait \<Rightarrow> uint \<Rightarrow> duration \<Rightarrow> nanotime \<Rightarrow> rateLimiter
    \<Rightarrow> ('r error option \<times> rateLimiter) go" where
  "AcquirePermitsWithMaxWait wait requestedPermits maxWaitTime now r =
     go_bind (acquirePermits (rl_config r) (int_of_uint requestedPermits) maxWaitTime now (rl_stats r))
       (\<lambda>(waitTime, st).
         if waitTime = -1 then Inr (Some rl_ErrExceeded, r\<lparr>rl_stats := st\<rparr>)
         else Inr (wait_permit wait waitTime, r\<lparr>rl_stats := st\<rparr>))"

definition AcquirePermitWithMaxWait :: "'r ctx_wait \<Rightarrow> duration \<Rightarrow> nanotime \<Rightarrow> rateLimiter
    \<Rightarrow> ('r error option \<times> rateLimiter) go" where
  "AcquirePermitWithMaxWait wait maxWaitTime now r = AcquirePermitsWithMaxWait wait 1 maxWaitTime now r"

definition rl_Reset :: "nanotime \<Rightarrow> rateLimiter \<Rightarrow> rateLimiter" where
  "rl_Reset now r = r\<lparr>rl_stats := stats_reset (rl_config r) now (rl_stats r)\<rparr>"

section \<open>The contract of the statistics\<close>

text \<open>
  A maximum wait only filters: a request that fits gets the answer it would get without one, a request
  that does not fit is answered with -1 and leaves no trace for other requests at that time.
\<close>

locale permit_stats =
  fixes acquire :: "int \<Rightarrow> duration \<Rightarrow> nanotime \<Rightarrow> 's \<Rightarrow> (duration \<times> 's) go"
  assumes fits: "acquire n (-1) now s = Inr (w, s1) \<Longrightarrow> \<not> exceedsMaxWaitTime w m \<Longrightarrow> acquire n m now s = Inr (w, s1)"
    and exceeded: "acquire n (-1) now s = Inr (w, s1) \<Longrightarrow> 0 \<le> m \<Longrightarrow> exceedsMaxWaitTime w m \<Longrightarrow>
          \<exists>s2. acquire n m now s = Inr (-1, s2) \<and> (\<forall>n' m'. acquire n' m' now s2 = acquire n' m' now s)"
    and panics: "acquire n (-1) now s = Inl p \<Longrightarrow> acquire n m now s = Inl p"
begin

text \<open>Several requests at the same time: those that are refused have no influence on the others.\<close>

fun answers :: "(int \<times> duration) list \<Rightarrow> nanotime \<Rightarrow> 's \<Rightarrow> duration list go" where
  "answers [] now s = Inr []"
| "answers ((n, m) # reqs) now s =
     go_bind (acquire n m now s) (\<lambda>(w, s'). go_bind (answers reqs now s') (\<lambda>ws. Inr (w # ws)))"

lemma answers_cong:
  "(\<And>n m. acquire n m now s = acquire n m now s') \<Longrightarrow> answers reqs now s = answers reqs now s'"
  by (cases "(reqs, now, s)" rule: answers.cases) auto

lemma refused_no_trace:
  assumes "acquire n m now s = Inr (-1, s')" "acquire n (-1) now s = Inr (w, s1)" "0 \<le> m" "exceedsMaxWaitTime w m"
  shows "answers reqs now s' = answers reqs now s"
proof -
  obtain s2 where "acquire n m now s = Inr (-1, s2)" "\<forall>n' m'. acquire n' m' now s2 = acquire n' m' now s"
    using exceeded[OF assms(2-4)] by blast
  with assms(1) show ?thesis by (auto intro: answers_cong)
qed

end

lemma smooth_laws:
  "smooth_acquirePermits c n m now s =
     go_bind (smooth_acquirePermits c n (-1) now s) (\<lambda>(w, s1).
       if exceedsMaxWaitTime w m then Inr (-1, s) else Inr (w, s1))"
  by (auto simp: smooth_acquirePermits_def Let_def exceedsMaxWaitTime_def RoundDown_def go_mod_def)

interpretation smooth_permits: permit_stats "smooth_acquirePermits c" for c
proof
  fix n m now p w and s s1 :: smoothStats
  show "smooth_acquirePermits c n (- 1) now s = Inr (w, s1) \<Longrightarrow> \<not> exceedsMaxWaitTime w m \<Longrightarrow>
      smooth_acquirePermits c n m now s = Inr (w, s1)"
    "smooth_acquirePermits c n (- 1) now s = Inr (w, s1) \<Longrightarrow> 0 \<le> m \<Longrightarrow> exceedsMaxWaitTime w m \<Longrightarrow>
      \<exists>s2. smooth_acquirePermits c n m now s = Inr (- 1, s2)
        \<and> (\<forall>n' m'. smooth_acquirePermits c n' m' now s2 = smooth_acquirePermits c n' m' now s)"
    "smooth_acquirePermits c n (- 1) now s = Inl p \<Longrightarrow> smooth_acquirePermits c n m now s = Inl p"
    by (subst smooth_laws, simp)+
qed

lemma bursty_advance_idem [simp]: "bursty_advance c k (bursty_advance c k s) = bursty_advance c k s"
  and bursty_advance_stopwatch [simp]: "bu_stopwatch (bursty_advance c k s) = bu_stopwatch s"
  by (simp_all add: bursty_advance_def Let_def)

definition bursty_now :: "rl_config \<Rightarrow> nanotime \<Rightarrow> burstyStats \<Rightarrow> burstyStats" where
  "bursty_now c now s = bursty_advance c (i64 (go_quot (stopwatch_ElapsedTime (bu_stopwatch s) now) (rl_period c))) s"

lemma bursty_laws:
  "bursty_acquirePermits c n m now s =
     go_bind (bursty_acquirePermits c n (-1) now s) (\<lambda>(w, s1).
       if n > availablePermits (bursty_now c now s) \<and> exceedsMaxWaitTime w m
       then Inr (-1, bursty_now c now s) else Inr (w, s1))"
  by (cases "bursty_waitTime c n (stopwatch_ElapsedTime (bu_stopwatch s) now) (bursty_now c now s)";
      cases "rl_period c = 0")
    (simp_all add: bursty_acquirePermits_def bursty_now_def Let_def exceedsMaxWaitTime_def go_div_def)

lemma bursty_advanced:
  "bursty_acquirePermits c n m now (bursty_now c now s) = bursty_acquirePermits c n m now s"
  by (simp add: bursty_acquirePermits_def bursty_now_def Let_def go_div_def cong: if_cong)

lemma bursty_wait_zero:
  assumes "bursty_acquirePermits c n (-1) now s = Inr (w, s1)" "\<not> n > availablePermits (bursty_now c now s)"
  shows "w = 0"
  using assms by (simp add: bursty_acquirePermits_def bursty_now_def Let_def go_div_def split: if_splits)

interpretation bursty_permits: permit_stats "bursty_acquirePermits c" for c
proof
  fix n m now p w and s s1 :: burstyStats
  assume a: "bursty_acquirePermits c n (- 1) now s = Inr (w, s1)" "0 \<le> m" "exceedsMaxWaitTime w m"
  then have "n > availablePermits (bursty_now c now s)"
    using bursty_wait_zero[OF a(1)] by (force simp: exceedsMaxWaitTime_def)
  with a show "\<exists>s2. bursty_acquirePermits c n m now s = Inr (- 1, s2)
        \<and> (\<forall>n' m'. bursty_acquirePermits c n' m' now s2 = bursty_acquirePermits c n' m' now s)"
    by (subst bursty_laws) (simp add: bursty_advanced)
next
  fix n m now p w and s s1 :: burstyStats
  show "bursty_acquirePermits c n (- 1) now s = Inr (w, s1) \<Longrightarrow> \<not> exceedsMaxWaitTime w m \<Longrightarrow>
      bursty_acquirePermits c n m now s = Inr (w, s1)"
    by (subst bursty_laws) simp
  show "bursty_acquirePermits c n (- 1) now s = Inl p \<Longrightarrow> bursty_acquirePermits c n m now s = Inl p"
    by (subst bursty_laws) simp
qed

lemma acquirePermits_Inr:
  "acquirePermits c n m now (Smooth x) = Inr (w, s1) \<longleftrightarrow>
     (\<exists>y. smooth_acquirePermits c n m now x = Inr (w, y) \<and> s1 = Smooth y)"
  "acquirePermits c n m now (Bursty z) = Inr (w, s1) \<longleftrightarrow>
     (\<exists>y. bursty_acquirePermits c n m now z = Inr (w, y) \<and> s1 = Bursty y)"
  "acquirePermits c n m now (Smooth x) = Inl p \<longleftrightarrow> smooth_acquirePermits c n m now x = Inl p"
  "acquirePermits c n m now (Bursty z) = Inl p \<longleftrightarrow> bursty_acquirePermits c n m now z = Inl p"
  by (auto simp: go_bind_Inr_iff go_bind_Inl_iff)

interpretation limiter_permits: permit_stats "acquirePermits c" for c
proof
  fix n m now p w and s s1 :: rl_stats
  show "acquirePermits c n (- 1) now s = Inl p \<Longrightarrow> acquirePermits c n m now s = Inl p"
    using smooth_permits.panics bursty_permits.panics by (cases s) (metis acquirePermits_Inr(3,4))+
  assume a: "acquirePermits c n (- 1) now s = Inr (w, s1)"
  then show "\<not> exceedsMaxWaitTime w m \<Longrightarrow> acquirePermits c n m now s = Inr (w, s1)"
    using smooth_permits.fits bursty_permits.fits by (cases s) (metis acquirePermits_Inr(1,2))+
  assume m: "0 \<le> m" "exceedsMaxWaitTime w m"
  show "\<exists>s2. acquirePermits c n m now s = Inr (- 1, s2)
        \<and> (\<forall>n' m'. acquirePermits c n' m' now s2 = acquirePermits c n' m' now s)"
  proof (cases s)
    case (Smooth x)
    with a obtain y where "smooth_acquirePermits c n (- 1) now x = Inr (w, y)" by (auto simp only: acquirePermits_Inr)
    from smooth_permits.exceeded[OF this m] Smooth show ?thesis by force
  next
    case (Bursty x)
    with a obtain y where "bursty_acquirePermits c n (- 1) now x = Inr (w, y)" by (auto simp only: acquirePermits_Inr)
    from bursty_permits.exceeded[OF this m] Bursty show ?thesis by force
  qed
qed

section \<open>Sequences of requests\<close>

text \<open>The granted requests of a sequence: the time from which the permits may be used, and their number.\<close>

fun reservations :: "rateLimiter \<Rightarrow> (nanotime \<times> uint \<times> duration) list \<Rightarrow> (nanotime \<times> uint) list go" where
  "reservations r [] = Inr []"
| "reservations r ((now, n, maxWaitTime) # reqs) =
     go_bind (TryReservePermits n maxWaitTime now r) (\<lambda>(w, r').
     go_bind (reservations r' reqs) (\<lambda>gs. Inr (if w = -1 then gs else (now + w, n) # gs)))"

fun acquisitions :: "rateLimiter \<Rightarrow> (nanotime \<times> uint) list \<Rightarrow> (nanotime \<times> uint) list go" where
  "acquisitions r [] = Inr []"
| "acquisitions r ((now, n) # reqs) =
     go_bind (TryAcquirePermits n now r) (\<lambda>(ok, r').
     go_bind (acquisitions r' reqs) (\<lambda>gs. Inr (if ok then (now, n) # gs else gs)))"

text \<open>Permits used from slot to slot, an interval each, are at least as far apart as their number.\<close>

fun spaced :: "nanotime \<Rightarrow> duration \<Rightarrow> int \<Rightarrow> (nanotime \<times> uint) list \<Rightarrow> bool" where
  "spaced start interval prev [] \<longleftrightarrow> True"
| "spaced start interval prev ((t, n) # gs) \<longleftrightarrow>
     prev + uint n \<le> (t - start) div interval \<and> spaced start interval ((t - start) div interval) gs"

definition permits_of :: "(nanotime \<times> uint) list \<Rightarrow> int" where
  "permits_of gs = (\<Sum>(_, n) \<leftarrow> gs. uint n)"

lemma permits_of_simps [simp]: "permits_of [] = 0" "permits_of ((t, n) # gs) = uint n + permits_of gs"
  by (simp_all add: permits_of_def)

lemma permits_of_nonneg [simp]: "0 \<le> permits_of gs"
  by (induction gs) auto

lemma spaced_mono: "spaced start i p gs \<Longrightarrow> q \<le> p \<Longrightarrow> spaced start i q gs"
  by (cases gs) auto

lemma elapsed_id: "0 \<le> now - start \<Longrightarrow> now - start < 2 ^ 63 \<Longrightarrow> stopwatch_ElapsedTime start now = now - start"
  by (simp add: stopwatch_ElapsedTime_def)

lemma slot_cases:
  fixes t i n base :: int
  assumes "0 < i" "0 < n" "base mod i = 0" "base \<le> t \<Longrightarrow> t < base + i"
  defines "new \<equiv> base + i * n"
  shows "(t + max (new - t - i) 0) div i = base div i + n - 1"
proof -
  obtain k where k: "base = k * i" using assms(3) by (metis mod_0_imp_dvd dvdE mult.commute)
  have kb: "base div i = k" using k assms(1) by simp
  show ?thesis
  proof (cases "new - t - i \<le> 0")
    case True
    then have "i * (n - 1) \<le> t - base" by (simp add: new_def algebra_simps)
    moreover have "0 \<le> i * (n - 1)" using assms(1,2) by simp
    ultimately have "base \<le> t" by linarith
    with assms(4) have lt: "t < base + i" by simp
    then have "i * (n - 1) < i * 1" using \<open>i * (n - 1) \<le> t - base\<close> by linarith
    then have "n = 1" using assms(1,2) by (simp add: mult_less_cancel_left_pos)
    moreover have "t div i = k" using \<open>base \<le> t\<close> lt k by (intro int_div_pos_eq[of t i k "t - base"]) auto
    ultimately show ?thesis using True kb by simp
  next
    case False
    have "t + max (new - t - i) 0 = (k + n - 1) * i" using False k by (simp add: new_def algebra_simps)
    then show ?thesis using assms(1) kb by simp
  qed
qed

text \<open>One request to the smooth statistics, while nothing overflows.\<close>

definition smooth_inv :: "duration \<Rightarrow> smoothStats \<Rightarrow> bool" where
  "smooth_inv i s \<longleftrightarrow> 0 \<le> nextFreePermitTime s \<and> nextFreePermitTime s mod i = 0"

lemma smooth_step:
  fixes c s n m now
  defines "i \<equiv> rl_interval c" and "t \<equiv> now - sm_stopwatch s" and "next \<equiv> nextFreePermitTime s"
  assumes "0 < i" "smooth_inv i s" "0 \<le> t" "0 < n" "max t next + i * n < 2 ^ 63"
  shows "\<exists>w s'. smooth_acquirePermits c n m now s = Inr (w, s') \<and> sm_stopwatch s' = sm_stopwatch s \<and> smooth_inv i s'
     \<and> next \<le> nextFreePermitTime s' \<and> nextFreePermitTime s' \<le> max t next + i * n
     \<and> (w \<noteq> -1 \<longrightarrow> 0 \<le> w \<and> nextFreePermitTime s' div i = (t + w) div i + 1 \<and> next div i + n \<le> (t + w) div i + 1)"
proof -
  define base where "base = (if next \<le> t then t - t mod i else next)"
  define new where "new = base + i * n"
  have tm: "0 \<le> t mod i" "t mod i < i" "t mod i \<le> t" using assms(4,6) by (simp_all add: zmod_le_nonneg_dividend)
  have pos: "0 < i * n" "i \<le> i * n" using assms(4,7) by simp_all
  have n: "0 \<le> next" "next mod i = 0" using assms(5) by (simp_all add: smooth_inv_def next_def)
  have b: "0 \<le> base" "base \<le> max t next" "base mod i = 0"
    using n tm by (auto simp: base_def minus_mod_eq_mult_div [symmetric] mod_diff_left_eq)
  have bi: "t < base + i" if "base \<le> t" using that tm by (auto simp: base_def split: if_splits)
  have le: "next \<le> base"
  proof (cases "next \<le> t")
    case True
    then have "i * (next div i) \<le> i * (t div i)" using assms(4) by (simp add: zdiv_mono1 mult_left_mono)
    moreover have "i * (next div i) = next" using n(2) by auto
    ultimately show ?thesis using True by (simp add: base_def minus_mod_eq_mult_div)
  qed (simp add: base_def)
  have bounds: "base + i * n < 2 ^ 63" "t < 2 ^ 63" using b(2) assms(8) pos by linarith+
  have wrap: "i64 (i * n) = i * n" "i64 (t - t mod i) = t - t mod i" "i64 (base + i * n) = base + i * n"
      "i64 (new - t) = new - t" "i64 (new - t - i) = new - t - i"
    using bounds b(1) tm pos assms(4,6) unfolding new_def by (intro i64_range; linarith)+
  define w where "w = max (new - t - i) 0"
  have slot: "(t + w) div i = base div i + n - 1"
    unfolding w_def new_def using slot_cases[OF assms(4,7) b(3) bi] .
  have newi: "new mod i = 0" "new div i = base div i + n" using b(3) assms(4) by (auto simp: new_def)
  have e: "stopwatch_ElapsedTime (sm_stopwatch s) now = t"
    using elapsed_id[of now "sm_stopwatch s"] assms(6) bounds(2) by (simp add: t_def)
  have run: "smooth_acquirePermits c n m now s =
      (if exceedsMaxWaitTime w m then Inr (-1, s) else Inr (w, s\<lparr>nextFreePermitTime := new\<rparr>))"
    unfolding smooth_acquirePermits_def RoundDown_def go_mod_def e i_def[symmetric] next_def[symmetric] Let_def
    using wrap assms(4) go_rem_nonneg[OF assms(6,4)] by (auto simp: base_def new_def w_def)
  have "next div i \<le> base div i" using le assms(4) by (rule zdiv_mono1)
  then show ?thesis
    using run b le pos newi slot assms(5) by (auto simp: smooth_inv_def w_def new_def next_def)
qed

lemma int_of_uint_id [wrap_simps]: "uint n < 2 ^ 63 \<Longrightarrow> int_of_uint n = uint n"
  using uint_ge_0[of n] unfolding int_of_uint_def by (intro i64_range; linarith)

definition good_request :: "nanotime \<Rightarrow> duration \<Rightarrow> nanotime \<times> uint \<times> duration \<Rightarrow> bool" where
  "good_request start horizon = (\<lambda>(now, n, m). start \<le> now \<and> now - start \<le> horizon \<and> 0 < n)"

lemma smooth_run:
  assumes "rl_interval c = i" "0 < i" "smooth_inv i s" "sm_stopwatch s = start"
    and "\<forall>q \<in> set reqs. good_request start T q"
    and "max T (nextFreePermitTime s) + i * permits_of (map (\<lambda>(t, n, m). (t, n)) reqs) < 2 ^ 63"
  shows "\<exists>gs. reservations \<lparr>rl_config = c, rl_stats = Smooth s\<rparr> reqs = Inr gs
     \<and> spaced start i (nextFreePermitTime s div i - 1) gs"
  using assms(3-6)
proof (induction reqs arbitrary: s)
  case (Cons q reqs)
  obtain now n m where q: "q = (now, n, m)" by (cases q)
  let ?next = "nextFreePermitTime s" and ?rest = "permits_of (map (\<lambda>(t, n, m). (t, n)) reqs)"
  have g: "start \<le> now" "now - start \<le> T" "0 < uint n"
    using Cons.prems(3) q by (auto simp: good_request_def word_less_def)
  have split: "i * permits_of (map (\<lambda>(t, n, m). (t, n)) (q # reqs)) = i * uint n + i * ?rest"
    by (simp add: q distrib_left)
  have rest: "0 \<le> i * ?rest" using assms(2) by simp
  have lim: "max (now - start) ?next + i * uint n < 2 ^ 63" "max T ?next + i * uint n + i * ?rest < 2 ^ 63"
    using Cons.prems(4) g rest unfolding split by linarith+
  have "uint n \<le> i * uint n" using assms(2) g(3) by simp
  then have "uint n < 2 ^ 63" using lim(1) g(1) by linarith
  then have n: "int_of_uint n = uint n" by (rule int_of_uint_id)
  obtain w s' where s': "smooth_acquirePermits c (uint n) m now s = Inr (w, s')" "sm_stopwatch s' = start" "smooth_inv i s'"
      "?next \<le> nextFreePermitTime s'" "nextFreePermitTime s' \<le> max (now - start) ?next + i * uint n"
      "w \<noteq> -1 \<Longrightarrow> 0 \<le> w \<and> nextFreePermitTime s' div i = (now - start + w) div i + 1
         \<and> ?next div i + uint n \<le> (now - start + w) div i + 1"
    using smooth_step[of c s now "uint n" m] assms(1,2) Cons.prems(1,2) g lim(1) by auto
  have "0 \<le> i * uint n" using assms(2) by simp
  then have "max T (nextFreePermitTime s') + i * ?rest < 2 ^ 63" using s'(4,5) lim(2) g rest by (auto simp: max_def split: if_splits)
  then obtain gs where gs: "reservations \<lparr>rl_config = c, rl_stats = Smooth s'\<rparr> reqs = Inr gs"
      "spaced start i (nextFreePermitTime s' div i - 1) gs"
    using Cons.IH[OF s'(3,2)] Cons.prems(3) by auto
  have "?next div i - 1 \<le> nextFreePermitTime s' div i - 1" using zdiv_mono1[OF s'(4) assms(2)] by simp
  with gs s'(1,6) show ?case
    by (auto simp: q TryReservePermits_def n algebra_simps intro: spaced_mono)
qed simp

text \<open>A request to the bursty statistics without a wait, while there is no deficit.\<close>

definition bursty_inv :: "int \<Rightarrow> burstyStats \<Rightarrow> bool" where
  "bursty_inv P s \<longleftrightarrow> 0 \<le> availablePermits s \<and> availablePermits s \<le> P \<and> 0 \<le> currentPeriod s"

lemma bursty_wait_positive:
  assumes "0 < P" "P < 2 ^ 63" "0 < period" "rl_periodPermits c = P" "rl_period c = period" "bursty_inv P s"
    and "currentPeriod s = t div period" "0 \<le> t" "availablePermits s < n" "t + period * (n + 2) < 2 ^ 63"
  shows "\<exists>w. bursty_waitTime c n t s = Inr w \<and> 0 < w"
proof -
  let ?d = "n - availablePermits s"
  have a: "0 \<le> availablePermits s" "0 \<le> t div period" using assms(3,6,8) by (simp_all add: bursty_inv_def pos_imp_zdiv_nonneg_iff)
  have tp: "period * (t div period) \<le> t" "t < period * (t div period) + period"
    using assms(3) pos_mod_bound[of period t] pos_mod_sign[of period t] mult_div_mod_eq[of period t] by linarith+
  have pn: "period * (n + 2) = period * n + 2 * period" "n \<le> period * n" "t div period \<le> t"
    using assms(3,8,9) a by (simp_all add: algebra_simps int_div_le)
  have d: "0 < ?d" "?d \<le> n" using assms(9) a by simp_all
  define q where "q = ?d div P - (if ?d mod P = 0 then 1 else 0)"
  have "?d div P \<le> ?d" using d assms(1) by (intro int_div_le) auto
  moreover have "0 < ?d div P" if "?d mod P = 0" using that d assms(1) by (auto simp: pos_imp_zdiv_pos_iff dest: mod_0_imp_dvd zdvd_imp_le)
  moreover have "0 \<le> ?d div P" using d assms(1) by (simp add: pos_imp_zdiv_nonneg_iff)
  ultimately have q: "0 \<le> q" "q \<le> n" using d by (auto simp: q_def)
  have pq: "0 \<le> period * q" "period * q \<le> period * n" using q assms(3) by simp_all
  have eqs: "(t div period + 1) * period = period * (t div period) + period" "q * period = period * q"
    by (simp_all add: algebra_simps)
  have wrap: "i64 ?d = ?d" "i64 (?d div P) = ?d div P" "i64 (?d div P - 1) = ?d div P - 1"
     "i64 (t div period + 1) = t div period + 1" "i64 ((t div period + 1) * period) = (t div period + 1) * period"
     "i64 ((t div period + 1) * period - t) = (t div period + 1) * period - t" "i64 (q * period) = q * period"
     "i64 ((t div period + 1) * period - t + q * period) = (t div period + 1) * period - t + q * period"
    using assms(3,8,10) a tp pn d \<open>?d div P \<le> ?d\<close> \<open>0 \<le> ?d div P\<close> pq q unfolding eqs
    by (intro i64_range; linarith)+
  have "bursty_waitTime c n t s = Inr ((t div period + 1) * period - t + q * period)"
    using wrap assms(1,4,5,7) d by (auto simp: bursty_waitTime_def go_div_def go_mod_def go_quot_nonneg go_rem_nonneg q_def)
  moreover have "0 < (t div period + 1) * period - t + q * period" unfolding eqs using tp pq by linarith
  ultimately show ?thesis by blast
qed

lemma bursty_try:
  fixes s now n
  assumes "0 < P" "P < 2 ^ 63" "0 < period" "rl_periodPermits c = P" "rl_period c = period" "bursty_inv P s"
  defines "t \<equiv> now - bu_stopwatch s"
  assumes "currentPeriod s \<le> t div period" "0 \<le> n" "0 \<le> t" "t + period * (n + 2) < 2 ^ 63"
  defines "a \<equiv> (if currentPeriod s < t div period then P else availablePermits s)"
  shows "\<exists>w s'. bursty_acquirePermits c n 0 now s = Inr (w, s') \<and> bursty_inv P s' \<and> bu_stopwatch s' = bu_stopwatch s
     \<and> currentPeriod s' = t div period \<and> (w = 0 \<longleftrightarrow> n \<le> a) \<and> availablePermits s' = (if n \<le> a then a - n else a)"
proof -
  have "0 \<le> period * (n + 2)" "t div period \<le> t" "0 \<le> t div period"
    using assms(3,9,10) by (simp_all add: int_div_le pos_imp_zdiv_nonneg_iff)
  then have e: "stopwatch_ElapsedTime (bu_stopwatch s) now = t" "i64 (t div period) = t div period"
    using assms(10,11) elapsed_id[of now "bu_stopwatch s"] by (auto simp: t_def intro!: i64_range)
  define s1 where "s1 = bursty_advance c (t div period) s"
  have a: "0 \<le> a" "a \<le> P" using assms(1,6) by (auto simp: a_def bursty_inv_def)
  have s1: "availablePermits s1 = a" "currentPeriod s1 = t div period" "bu_stopwatch s1 = bu_stopwatch s" "bursty_inv P s1"
    using assms(1,4,6,8) by (auto simp: s1_def bursty_advance_def a_def bursty_inv_def Let_def)
  have run: "bursty_acquirePermits c n 0 now s = (if a < n
      then go_bind (bursty_waitTime c n t s1) (\<lambda>w. if exceedsMaxWaitTime w 0 then Inr (-1, s1)
         else Inr (w, s1\<lparr>availablePermits := i64 (a - n)\<rparr>))
      else Inr (0, s1\<lparr>availablePermits := i64 (a - n)\<rparr>))"
    using assms(3,5,10) by (simp add: bursty_acquirePermits_def e go_div_def go_quot_nonneg Let_def s1 cong: if_cong flip: s1_def)
  show ?thesis
  proof (cases "a < n")
    case True
    then obtain w where "bursty_waitTime c n t s1 = Inr w" "0 < w"
      using bursty_wait_positive[OF assms(1-5) s1(4,2) assms(10) _ assms(11)] s1(1) by auto
    with True run s1 show ?thesis by (auto simp: exceedsMaxWaitTime_def)
  next
    case False
    then have "i64 (a - n) = a - n" using a assms(2,9) by (intro i64_range; linarith)
    with False run s1 a assms(9) show ?thesis by (auto simp: bursty_inv_def)
  qed
qed

text \<open>The permits acquired in period \<open>k\<close>.\<close>

definition period_permits :: "nanotime \<Rightarrow> duration \<Rightarrow> int \<Rightarrow> (nanotime \<times> uint) list \<Rightarrow> int" where
  "period_permits start period k gs = permits_of (filter (\<lambda>(t, _). (t - start) div period = k) gs)"

lemma period_permits_simps [simp]:
  "period_permits start period k [] = 0"
  "period_permits start period k ((t, n) # gs) = (if (t - start) div period = k then uint n else 0) + period_permits start period k gs"
  by (simp_all add: period_permits_def)

lemma bursty_run:
  assumes "0 < P" "P < 2 ^ 63" "0 < period" "rl_periodPermits c = P" "rl_period c = period"
    and "bursty_inv P s" "bu_stopwatch s = start" "sorted (map fst reqs)"
    and "\<forall>(t, n) \<in> set reqs. start \<le> t \<and> currentPeriod s \<le> (t - start) div period \<and> t - start + period * (uint n + 2) < 2 ^ 63"
  shows "\<exists>gs. acquisitions \<lparr>rl_config = c, rl_stats = Bursty s\<rparr> reqs = Inr gs
     \<and> (\<forall>k. period_permits start period k gs
          \<le> (if k < currentPeriod s then 0 else if k = currentPeriod s then availablePermits s else P))"
  using assms(6-9)
proof (induction reqs arbitrary: s)
  case Nil
  then show ?case using assms(1) by (auto simp: bursty_inv_def)
next
  case (Cons q reqs)
  obtain now n where q: "q = (now, n)" by (cases q)
  let ?p = "(now - start) div period"
  define a where "a = (if currentPeriod s < ?p then P else availablePermits s)"
  have g: "start \<le> now" "currentPeriod s \<le> ?p" "now - start + period * (uint n + 2) < 2 ^ 63"
    using Cons.prems(4) q by auto
  have "uint n \<le> period * uint n" using assms(3) by (simp add: mult_le_cancel_right1)
  then have n: "int_of_uint n = uint n" using g assms(3) by (intro int_of_uint_id) (simp add: algebra_simps)
  obtain w s' where s': "bursty_acquirePermits c (uint n) 0 now s = Inr (w, s')" "bursty_inv P s'" "bu_stopwatch s' = start"
      "currentPeriod s' = ?p" "w = 0 \<longleftrightarrow> uint n \<le> a" "availablePermits s' = (if uint n \<le> a then a - uint n else a)"
    using bursty_try[OF assms(1-5) Cons.prems(1), of now "uint n"] Cons.prems(2) g unfolding a_def by auto
  have later: "?p \<le> (t - start) div period" if "(t, m) \<in> set reqs" for t m
    using Cons.prems(3) that q assms(3) by (force intro: zdiv_mono1)
  then obtain gs where gs: "acquisitions \<lparr>rl_config = c, rl_stats = Bursty s'\<rparr> reqs = Inr gs"
      "\<And>k. period_permits start period k gs \<le> (if k < ?p then 0 else if k = ?p then availablePermits s' else P)"
    using Cons.IH[OF s'(2,3)] Cons.prems(3,4) unfolding s'(4) by (simp add: q split_beta) (metis prod.collapse)
  define out where "out = (if w = 0 then (now, n) # gs else gs)"
  have run: "acquisitions \<lparr>rl_config = c, rl_stats = Bursty s\<rparr> (q # reqs) = Inr out"
    using s'(1) gs(1) by (simp add: q TryAcquirePermits_def TryReservePermits_def n out_def)
  have "period_permits start period k out \<le> (if k < currentPeriod s then 0 else if k = currentPeriod s then availablePermits s else P)" for k
  proof -
    have a: "0 \<le> a" "a \<le> P" "0 \<le> availablePermits s" using assms(1) Cons.prems(1) by (auto simp: a_def bursty_inv_def)
    have "period_permits start period k out = (if w = 0 \<and> ?p = k then uint n else 0) + period_permits start period k gs"
      by (simp add: out_def)
    also have "\<dots> \<le> (if k < ?p then 0 else if k = ?p then a else P)"
      using gs(2)[of k] s'(5,6) by (cases "k < ?p"; cases "k = ?p"; cases "uint n \<le> a") simp_all
    also have "\<dots> \<le> (if k < currentPeriod s then 0 else if k = currentPeriod s then availablePermits s else P)"
      using g(2) a assms(1) by (auto simp: a_def)
    finally show ?thesis .
  qed
  with run show ?case by blast
qed

section \<open>Properties\<close>

text \<open>
  \<^verbatim>\<open>TryReservePermits\<close> with a maximum wait of at least zero, on a limiter of either kind in any state,
  answers what \<^verbatim>\<open>ReservePermits\<close> would answer, with the same effect, if that wait does not exceed the
  maximum; otherwise it returns -1 and the limiter answers every further request at that time as if
  the refused request had not been made.
\<close>

theorem max_wait_only_filters:
  assumes "0 \<le> m" "ReservePermits n now r = Inr (w, r1)"
  shows "if w \<le> m then TryReservePermits n m now r = Inr (w, r1)
     else \<exists>r2. TryReservePermits n m now r = Inr (-1, r2)
       \<and> (\<forall>n' m'. map_sum id (map_prod id rl_stats) (TryReservePermits n' m' now r2)
                  = map_sum id (map_prod id rl_stats) (TryReservePermits n' m' now r))"
proof -
  obtain st where st: "acquirePermits (rl_config r) (int_of_uint n) (-1) now (rl_stats r) = Inr (w, st)"
      "r1 = r\<lparr>rl_stats := st\<rparr>"
    using assms(2) by (auto simp: ReservePermits_def go_bind_Inr_iff)
  show ?thesis
  proof (cases "w \<le> m")
    case True
    then have "\<not> exceedsMaxWaitTime w m" by (simp add: exceedsMaxWaitTime_def)
    from limiter_permits.fits[OF st(1) this] True st(2) show ?thesis by (simp add: TryReservePermits_def)
  next
    case False
    then have "exceedsMaxWaitTime w m" using assms(1) by (simp add: exceedsMaxWaitTime_def)
    from limiter_permits.exceeded[OF st(1) assms(1) this] obtain st2 where st2:
      "acquirePermits (rl_config r) (int_of_uint n) m now (rl_stats r) = Inr (-1, st2)"
      "\<And>n' m'. acquirePermits (rl_config r) n' m' now st2 = acquirePermits (rl_config r) n' m' now (rl_stats r)" by blast
    have "map_sum id (map_prod id rl_stats) (TryReservePermits n' m' now (r\<lparr>rl_stats := st2\<rparr>))
        = map_sum id (map_prod id rl_stats) (TryReservePermits n' m' now r)" for n' m'
      using st2(2) by (cases "acquirePermits (rl_config r) (int_of_uint n') m' now (rl_stats r)")
        (auto simp: TryReservePermits_def)
    with False st2(1) show ?thesis by (auto simp: TryReservePermits_def)
  qed
qed

theorem max_wait_only_filters_witness:
  "\<exists>r2. TryReservePermits 3 500 100 (NewBursty 0 2 1000) = Inr (-1, r2)"
proof -
  have "go_bind (ReservePermits 3 100 (NewBursty 0 2 1000)) (\<lambda>(w, _). Inr w) = Inr 900" by code_simp
  then obtain r1 where "ReservePermits 3 100 (NewBursty 0 2 1000) = Inr (900, r1)" by (auto simp: go_bind_Inr_iff)
  from max_wait_only_filters[OF _ this, of 500] show ?thesis by auto
qed

text \<open>
  C8. A smooth limiter with a positive interval, over any sequence of requests that does not overflow
  the clock range, never panics, and spaces what it grants: counted in intervals since the limiter was
  created, the time from which a request of \<open>n\<close> permits may proceed lies at least \<open>n\<close> intervals
  after that of the request granted before it, whatever maximum waits are used. So no interval ever
  serves more than one permit.
\<close>

theorem smooth_grants_spaced:
  assumes "0 < interval" "\<forall>q \<in> set reqs. good_request start horizon q" "0 \<le> horizon"
    and "horizon + interval * permits_of (map (\<lambda>(t, n, m). (t, n)) reqs) < 2 ^ 63"
  shows "\<exists>gs. reservations (NewSmoothWithMaxRate start interval) reqs = Inr gs \<and> spaced start interval (-1) gs"
proof -
  let ?c = "NewSmoothBuilderWithMaxRate interval" and ?s = "\<lparr>sm_stopwatch = start, nextFreePermitTime = 0\<rparr>"
  have "\<exists>gs. reservations \<lparr>rl_config = ?c, rl_stats = Smooth ?s\<rparr> reqs = Inr gs
      \<and> spaced start interval (nextFreePermitTime ?s div interval - 1) gs"
    by (rule smooth_run[OF _ assms(1) _ _ assms(2)])
      (use assms in \<open>simp_all add: NewSmoothBuilderWithMaxRate_def smooth_inv_def\<close>)
  then show ?thesis using assms(1)
    by (simp add: NewSmoothWithMaxRate_def rl_Build_def NewSmoothBuilderWithMaxRate_def)
qed

theorem smooth_grants_spaced_witness:
  "\<exists>gs. reservations (NewSmoothWithMaxRate 7 10) [(8, 1, 0), (9, 2, 100), (30, 1, -1)] = Inr gs \<and> spaced 7 10 (-1) gs"
  by (rule smooth_grants_spaced[of 10 _ 7 100]) (simp_all add: good_request_def)

text \<open>
  C9. A bursty limiter of \<open>P\<close> permits per period, from which permits are only acquired without
  waiting at non-decreasing times, never panics and grants at most \<open>P\<close> permits in every period.
\<close>

theorem bursty_period_limit:
  assumes "0 < P" "uint P < 2 ^ 63" "0 < period" "sorted (map fst reqs)"
    and "\<forall>(t, n) \<in> set reqs. start \<le> t \<and> t - start + period * (uint n + 2) < 2 ^ 63"
  shows "\<exists>gs. acquisitions (NewBursty start P period) reqs = Inr gs
     \<and> (\<forall>k. period_permits start period k gs \<le> uint P)"
proof -
  let ?c = "NewBurstyBuilder P period"
  let ?s = "\<lparr>bu_stopwatch = start, availablePermits = uint P, currentPeriod = 0\<rparr>"
  have P: "0 < uint P" using assms(1) by (simp add: word_less_def)
  have "\<exists>gs. acquisitions \<lparr>rl_config = ?c, rl_stats = Bursty ?s\<rparr> reqs = Inr gs
      \<and> (\<forall>k. period_permits start period k gs
            \<le> (if k < currentPeriod ?s then 0 else if k = currentPeriod ?s then availablePermits ?s else uint P))"
  proof (rule bursty_run[OF P assms(2,3) _ _ _ _ assms(4)])
    show "\<forall>(t, n) \<in> set reqs. start \<le> t \<and> currentPeriod ?s \<le> (t - start) div period
        \<and> t - start + period * (uint n + 2) < 2 ^ 63"
      using assms(3,5) by (auto simp: pos_imp_zdiv_nonneg_iff)
  qed (use P assms(2) in \<open>simp_all add: NewBurstyBuilder_def int_of_uint_id bursty_inv_def\<close>)
  then obtain gs where gs: "acquisitions \<lparr>rl_config = ?c, rl_stats = Bursty ?s\<rparr> reqs = Inr gs"
      "\<And>k. period_permits start period k gs
          \<le> (if k < currentPeriod ?s then 0 else if k = currentPeriod ?s then availablePermits ?s else uint P)" by blast
  have "period_permits start period k gs \<le> uint P" for k
    by (rule order_trans[OF gs(2)[of k]]) simp
  moreover have "NewBursty start P period = \<lparr>rl_config = ?c, rl_stats = Bursty ?s\<rparr>"
    using assms(2) by (simp add: NewBursty_def rl_Build_def NewBurstyBuilder_def int_of_uint_id)
  ultimately show ?thesis using gs(1) by auto
qed

theorem bursty_period_limit_witness:
  "\<exists>gs. acquisitions (NewBursty 5 2 1000) [(10, 1), (20, 2), (900, 1), (1010, 2)] = Inr gs
     \<and> (\<forall>k. period_permits 5 1000 k gs \<le> 2)"
  using bursty_period_limit[of 2 1000 "[(10, 1), (20, 2), (900, 1), (1010, 2)]" 5] by simp

text \<open>
  A reservation that leaves a deficit lifts the limit after an idle time: a limiter of two permits
  per second, from which three permits were reserved at the start, grants 19 permits at once, without
  waiting, in the eleventh second, because the permits of all elapsed periods are added to a deficit.
\<close>

theorem bursty_deficit_accumulates:
  "go_bind (ReservePermits 3 0 (NewBursty 0 2 1000)) (\<lambda>(w, r).
     go_bind (TryAcquirePermits 19 10500 r) (\<lambda>(granted, _). Inr (w, granted))) = Inr (1000, True)"
  by code_simp

end
