(* ===== verification/Limiter_Executor.thy ===== *)
theory Limiter_Executor
  imports Executor Rate_Limiter
begin

text \<open>
  The executor of a rate limiter: src/ratelimiter/ratelimiterexecutor.go, with the wait of
  \<^verbatim>\<open>AcquirePermitWithMaxWait\<close> as a pause of the runtime. The limiter is a shared object of the environment.
\<close>

section \<open>The executor\<close>

definition limiter_acquire :: "('r, 's) runtime \<Rightarrow> ('s, rateLimiter) ref \<Rightarrow> nat \<Rightarrow> duration \<Rightarrow> ('r, 's) world
    \<Rightarrow> ('r error option \<times> ('r, 's) world) go" where
  "limiter_acquire rt p x maxWaitTime w =
     go_bind (TryReservePermits 1 maxWaitTime (clock (w_env w)) (read_ref p w)) (\<lambda>(waitTime, r).
     let w1 = write_ref p r w in
     if waitTime = -1 then Inr (Some rl_ErrExceeded, w1)
     else let w2 = pause rt waitTime x w1 in
          Inr (if rt_selects_ctx rt (w_env w2) then exec_err x w2 else None, w2))"

definition limiter_Apply :: "('r, 's) runtime \<Rightarrow> ('s, rateLimiter) ref \<Rightarrow> ('r, 's) policy" where
  "limiter_Apply rt p i innerFn x w =
     (case limiter_acquire rt p x (rl_maxWaitTime (rateLimiter.rl_config (read_ref p w))) w of
        Inl pn \<Rightarrow> Some (Inl pn)
      | Inr (None, w1) \<Rightarrow> innerFn x w1
      | Inr (Some err, w1) \<Rightarrow>
          (case isCanceledWithResult (rt_zero rt) x w1 of
             Some cancelResult \<Rightarrow> run_return (cancelResult, w1)
           | None \<Rightarrow>
               run_return (FailureResult (rt_zero rt) err,
                 if rl_onRateLimitExceeded (rateLimiter.rl_config (read_ref p w1)) \<and> errors_Is (Some err) (Some rl_ErrExceeded)
                 then w1\<lparr>w_events := w_events w1 @ [Event ''onRateLimitExceeded'' (LastResult x w1) (LastError x w1)]\<rparr> else w1)))"

section \<open>Lemmas\<close>

text \<open>
  The error and the permits are those of \<open>AcquirePermitWithMaxWait\<close>, for the outcome of the wait that
  the runtime gives.
\<close>

lemma limiter_acquire_refines:
  assumes "limiter_acquire rt p x m w = Inr (err, w')"
  shows "\<exists>outcome r. AcquirePermitWithMaxWait (Some (\<lambda>_. outcome)) m (clock (w_env w)) (read_ref p w) = Inr (err, r)
     \<and> (w' = write_ref p r w \<or> (\<exists>d. w' = pause rt d x (write_ref p r w)))"
proof -
  obtain d st where a: "acquirePermits (rateLimiter.rl_config (read_ref p w)) (int_of_uint 1) m (clock (w_env w)) (rateLimiter.rl_stats (read_ref p w)) = Inr (d, st)"
    using assms by (auto simp: limiter_acquire_def TryReservePermits_def go_bind_Inr_iff)
  then show ?thesis
    using assms by (auto simp: limiter_acquire_def TryReservePermits_def AcquirePermitWithMaxWait_def AcquirePermitsWithMaxWait_def
        wait_permit_def Let_def split: if_splits)
qed

lemma limiter_acquire_frame:
  assumes "limiter_acquire rt p x m w = Inr (err, w')"
  shows "same_run w w'"
  using assms by (auto simp: limiter_acquire_def Let_def go_bind_Inr_iff frame split: if_splits
      intro: same_run_trans[OF frame_write_ref frame_pause])

lemma limiter_one_call: "one_call (limiter_Apply rt p i)"
  unfolding one_call_def
proof (intro allI impI)
  fix f x w r w' assume run: "limiter_Apply rt p i f x w = Some (Inr (r, w'))"
  then obtain err w1 where a: "limiter_acquire rt p x (rl_maxWaitTime (rateLimiter.rl_config (read_ref p w))) w = Inr (err, w1)"
    by (auto simp: limiter_Apply_def split: sum.splits)
  note s = limiter_acquire_frame[OF a]
  show "same_run w w' \<or> (\<exists>y w1 r2 w2. same_run w w1 \<and> f y w1 = Some (Inr (r2, w2)) \<and> same_run w2 w')"
  proof (cases err)
    case None
    then have "f x w1 = Some (Inr (r, w'))" using run a by (simp add: limiter_Apply_def)
    with s show ?thesis using same_run_refl by blast
  next
    case (Some e)
    have "same_run w (w1\<lparr>w_events := es\<rparr>)" for es using s by (simp add: same_run_def)
    with Some run a s show ?thesis by (auto simp: limiter_Apply_def split: option.splits)
  qed
qed

interpretation limiter: single_shot "limiter_Apply rt p i" for rt p i
  by (rule one_call_single_shot[OF limiter_one_call])

section \<open>Properties\<close>

text \<open>
  An execution with a rate limiter and no context reserves one permit within the maximum wait time and waits for as long as the reservation says before it calls its function; without a
  reservation it returns \<^verbatim>\<open>ErrExceeded\<close> without calling the function and without waiting.
\<close>

theorem limiter_waits_or_refuses:
  assumes ref: "\<And>obj s. ref_get p (ref_put p obj s) = obj"
    and live: "\<And>d ctx u. clock (rt_pause rt d ctx u) = clock u + d"
    and reserve: "TryReservePermits 1 (rl_maxWaitTime (rateLimiter.rl_config (ref_get p (objs v)))) (clock v) (ref_get p (objs v)) = Inr (d, r)"
  shows "\<exists>w out u. executor_Get rt fn (executor_With [limiter_Apply rt p]) v = Some (Inr (out, w))
    \<and> (if d = -1 then out = (rt_zero rt, Some rl_ErrExceeded) \<and> w_executions w = 0 \<and> clock (w_env w) = clock v \<and> ref_get p (objs (w_env w)) = r
       else out = fst (fn u) \<and> w_env w = snd (fn u) \<and> w_executions w = 1 \<and> clock u = clock v + d)"
proof -
  define w0 where "w0 = newExecution (rt_zero rt) [] v"
  note w0 = new_world[of "rt_zero rt" "[]" v, folded w0_def]
  have r0: "read_ref p w0 = ref_get p (objs v)" by (simp add: read_ref_def w0)
  define w1 where "w1 = write_ref p r w0"
  have w1: "w_env w1 = v\<lparr>objs := ref_put p r (objs v)\<rparr>" "w_executions w1 = 0" "w_timers w1 = []" "read_ref p w1 = r" "Context 0 w1 = []"
    using w0 ref by (simp_all add: w1_def write_ref_def set_env_def read_ref_def Context_def get_exec_def)
  have err: "exec_err 0 w = None" if "Context 0 w = []" for w :: "('b, 'a) world" using that by (simp add: exec_err_def Context_def)
  note unfolds = executor_Get_def executeSync_def execute_def executor_With_def limiter_Apply_def run_return_def Let_def
  show ?thesis
  proof (cases "d = -1")
    case True
    have a: "limiter_acquire rt p 0 (rl_maxWaitTime (rateLimiter.rl_config (ref_get p (objs v)))) w0 = Inr (Some rl_ErrExceeded, w1)"
      using reserve True w0(1) r0 by (simp add: limiter_acquire_def w1_def)
    have "isCanceledWithResult (rt_zero rt) 0 w1 = None" using err[OF w1(5)] by (simp add: isCanceledWithResult_def)
    with True a r0 w1 ref show ?thesis by (auto simp: unfolds FailureResult_def simp flip: w0_def)
  next
    case False
    define w2 where "w2 = pause rt d 0 w1"
    have w2: "w_env w2 = rt_pause rt d [] (w_env w1)" "w_executions w2 = 0" "w_timers w2 = []" "Context 0 w2 = []"
      using w1 by (simp_all add: w2_def pause_def set_env_def fire_timers_def Context_def get_exec_def)
    have a: "limiter_acquire rt p 0 (rl_maxWaitTime (rateLimiter.rl_config (ref_get p (objs v)))) w0 = Inr (None, w2)"
      using reserve False w0(1) r0 err[OF w2(4)] by (simp add: limiter_acquire_def Let_def flip: w1_def) (simp flip: w2_def)
    have "clock (w_env w2) = clock v + d" using w2(1) w1(1) live by simp
    with False a r0 call_fn_no_timers[OF w2(3), of rt fn 0] w2(2) show ?thesis
      by (intro exI[of _ "exec_record (w2\<lparr>w_env := snd (fn (w_env w2))\<rparr>)"] exI[of _ "fst (fn (w_env w2))"] exI[of _ "w_env w2"])
        (simp add: unfolds exec_record_def flip: w0_def)
  qed
qed

text \<open>The environment that holds just a rate limiter.\<close>

definition the_limiter :: "(rateLimiter, rateLimiter) ref" where
  "the_limiter = \<lparr>ref_get = (\<lambda>r. r), ref_put = (\<lambda>r _. r)\<rparr>"

definition limiter_runtime :: "(int, rateLimiter) runtime" where
  "limiter_runtime = \<lparr>rt_zero = 0, rt_pause = (\<lambda>d _ v. v\<lparr>clock := clock v + d\<rparr>), rt_rand = (\<lambda>v. (0, v)), rt_fires = (\<lambda>t v. t \<le> clock v),
     rt_selects_ctx = (\<lambda>_. True), rt_selects_timer = (\<lambda>_. False), rt_fuel = 0\<rparr>"

theorem limiter_waits_or_refuses_witness:
  "\<exists>w. executor_Get limiter_runtime (\<lambda>v. ((5, None), v)) (executor_With [limiter_Apply limiter_runtime the_limiter])
      \<lparr>clock = 7, ctx_errs = (\<lambda>_. None), objs = NewBursty 0 2 100\<rparr> = Some (Inr ((5, None), w)) \<and> w_executions w = 1"
proof -
  have "TryReservePermits 1 (rl_maxWaitTime (rateLimiter.rl_config (NewBursty 0 2 100))) 7 (NewBursty 0 2 100) =
      Inr (0, (NewBursty 0 2 100)\<lparr>rateLimiter.rl_stats := Bursty \<lparr>bu_stopwatch = 0, availablePermits = 1, currentPeriod = 0\<rparr>\<rparr>)"
    by code_simp
  then show ?thesis
    using limiter_waits_or_refuses[of the_limiter limiter_runtime "\<lparr>clock = 7, ctx_errs = (\<lambda>_. None), objs = NewBursty 0 2 100\<rparr>" 0
        "(NewBursty 0 2 100)\<lparr>rateLimiter.rl_stats := Bursty \<lparr>bu_stopwatch = 0, availablePermits = 1, currentPeriod = 0\<rparr>\<rparr>" "\<lambda>v. ((5, None), v)"]
    by (auto simp: the_limiter_def limiter_runtime_def)
qed

end
