(* ===== verification/Adaptive_Throttler.thy ===== *)
theory Adaptive_Throttler
  imports Prioritizer Executor
begin

text \<open>
  Package \<^verbatim>\<open>adaptivethrottler\<close>: src/adaptivethrottler/adaptivethrottler.go, prioritythrottler.go, prioritizer.go and the executors. A
  throttler is a shared object; \<^verbatim>\<open>rand.Float64\<close> is an argument of the methods that call it. A rejection rate is \<open>None\<close> where the code divides zero by zero.
  The throttlers that a prioritizer knows are those of a map from numbers. The executors draw the random number before it is known whether it is needed.
\<close>

section \<open>The throttler\<close>

definition throttler_ErrExceeded :: "'r error" where
  "throttler_ErrExceeded = Err ''failure rate exceeded''"

definition executionPadding :: float64 where
  "executionPadding = 1"

record 'r throttler_config =
  th_failurePolicy :: "'r BaseFailurePolicy"
  th_maxRejectionRate :: float64
  th_successRateThreshold :: float64
  th_executionThreshold :: uint
  th_thresholdingPeriod :: duration

definition th_NewBuilder :: "'r throttler_config" where
  "th_NewBuilder = \<lparr>th_failurePolicy = new_BaseFailurePolicy, th_maxRejectionRate = 9 / 10, th_successRateThreshold = 9 / 10,
     th_executionThreshold = 0, th_thresholdingPeriod = 60 * 10 ^ 9\<rparr>"

definition th_HandleErrors :: "'r error option list \<Rightarrow> 'r throttler_config \<Rightarrow> 'r throttler_config" where
  "th_HandleErrors errs c = c\<lparr>th_failurePolicy := HandleErrors errs (th_failurePolicy c)\<rparr>"

definition th_HandleErrorTypes :: "('r error \<Rightarrow> bool) list \<Rightarrow> 'r throttler_config \<Rightarrow> 'r throttler_config" where
  "th_HandleErrorTypes errs c = c\<lparr>th_failurePolicy := HandleErrorTypes errs (th_failurePolicy c)\<rparr>"

definition th_HandleResult :: "'r \<Rightarrow> 'r throttler_config \<Rightarrow> 'r throttler_config" where
  "th_HandleResult result c = c\<lparr>th_failurePolicy := HandleResult result (th_failurePolicy c)\<rparr>"

definition th_HandleIf :: "'r condition \<Rightarrow> 'r throttler_config \<Rightarrow> 'r throttler_config" where
  "th_HandleIf predicate c = c\<lparr>th_failurePolicy := HandleIf predicate (th_failurePolicy c)\<rparr>"

definition th_OnSuccess :: "'r throttler_config \<Rightarrow> 'r throttler_config" where
  "th_OnSuccess c = c\<lparr>th_failurePolicy := OnSuccess (th_failurePolicy c)\<rparr>"

definition th_OnFailure :: "'r throttler_config \<Rightarrow> 'r throttler_config" where
  "th_OnFailure c = c\<lparr>th_failurePolicy := OnFailure (th_failurePolicy c)\<rparr>"

definition th_WithFailureRateThreshold :: "float64 \<Rightarrow> uint \<Rightarrow> duration \<Rightarrow> 'r throttler_config \<Rightarrow> 'r throttler_config go" where
  "th_WithFailureRateThreshold failureRateThreshold executionThreshold thresholdingPeriod c =
     go_bind (Assert (failureRateThreshold \<ge> 0 \<and> failureRateThreshold \<le> 1) ''failureRateThreshold must be between 0 and 1'') (\<lambda>_.
     Inr (c\<lparr>th_successRateThreshold := min 1 (max 0 (1 - failureRateThreshold)), th_executionThreshold := executionThreshold,
            th_thresholdingPeriod := thresholdingPeriod\<rparr>))"

definition WithMaxRejectionRate :: "float64 \<Rightarrow> 'r throttler_config \<Rightarrow> 'r throttler_config go" where
  "WithMaxRejectionRate maxRejectionRate c =
     go_bind (Assert (maxRejectionRate \<ge> 0 \<and> maxRejectionRate \<le> 1) ''maxRejectionFactor must be between 0 and 1'') (\<lambda>_.
     Inr (c\<lparr>th_maxRejectionRate := maxRejectionRate\<rparr>))"

record 'r adaptiveThrottler =
  at_config :: "'r throttler_config"
  at_stats :: timedStats
  at_rejectionRate :: nfloat

definition th_Build :: "'r throttler_config \<Rightarrow> 'r adaptiveThrottler go" where
  "th_Build c =
     go_bind (NewTimedStats 20 (th_thresholdingPeriod c)) (\<lambda>stats.
     Inr \<lparr>at_config = c, at_stats = stats, at_rejectionRate = Some 0\<rparr>)"

text \<open>
  With a success rate threshold of zero the quotient is infinite, which leaves no excess, or not a number.
\<close>

definition computeRejectionRate :: "float64 \<Rightarrow> float64 \<Rightarrow> float64 \<Rightarrow> float64 \<Rightarrow> uint \<Rightarrow> nfloat" where
  "computeRejectionRate executions successes successRateThreshold maxRejectionRate executionThreshold =
     (if float_to_int executions < int (unat executionThreshold) then Some 0
      else map_option (\<lambda>excessExecutions. min (excessExecutions / (executions + executionPadding)) maxRejectionRate)
             (if successRateThreshold = 0 then if successes = 0 then None else Some 0
              else Some (max 0 (executions - successes / successRateThreshold))))"

definition th_AcquirePermit :: "float64 \<Rightarrow> 'r adaptiveThrottler \<Rightarrow> 'r error option \<times> 'r adaptiveThrottler" where
  "th_AcquirePermit rnd t =
     (let rate = computeRejectionRate (float_of_uint (timed_ExecutionCount (at_stats t))) (float_of_uint (timed_SuccessCount (at_stats t)))
            (th_successRateThreshold (at_config t)) (th_maxRejectionRate (at_config t)) (th_executionThreshold (at_config t));
          t' = t\<lparr>at_rejectionRate := rate\<rparr>
      in (case rate of
            None \<Rightarrow> None
          | Some r \<Rightarrow> if r = 0 then None else if r \<ge> 1 \<or> r \<ge> rnd then Some throttler_ErrExceeded else None, t'))"

definition th_TryAcquirePermit :: "float64 \<Rightarrow> 'r adaptiveThrottler \<Rightarrow> bool \<times> 'r adaptiveThrottler" where
  "th_TryAcquirePermit rnd t = (let (err, t') = th_AcquirePermit rnd t in (err = None, t'))"


definition th_RecordFailure :: "nanotime \<Rightarrow> 'r adaptiveThrottler \<Rightarrow> 'r adaptiveThrottler go" where
  "th_RecordFailure now t = go_bind (timed_RecordFailure (at_stats t) now) (\<lambda>s. Inr (t\<lparr>at_stats := s\<rparr>))"

definition th_RecordSuccess :: "nanotime \<Rightarrow> 'r adaptiveThrottler \<Rightarrow> 'r adaptiveThrottler go" where
  "th_RecordSuccess now t = go_bind (timed_RecordSuccess (at_stats t) now) (\<lambda>s. Inr (t\<lparr>at_stats := s\<rparr>))"

definition th_recordResult :: "'r \<Rightarrow> 'r error option \<Rightarrow> nanotime \<Rightarrow> 'r adaptiveThrottler \<Rightarrow> 'r adaptiveThrottler go" where
  "th_recordResult result err now t =
     (if IsFailure (th_failurePolicy (at_config t)) result err then th_RecordFailure now t else th_RecordSuccess now t)"

definition th_RecordError :: "'r \<Rightarrow> 'r error option \<Rightarrow> nanotime \<Rightarrow> 'r adaptiveThrottler \<Rightarrow> 'r adaptiveThrottler go" where
  "th_RecordError zero err now t = th_recordResult zero err now t"

definition th_RecordResult :: "'r \<Rightarrow> nanotime \<Rightarrow> 'r adaptiveThrottler \<Rightarrow> 'r adaptiveThrottler go" where
  "th_RecordResult result now t = th_recordResult result None now t"

section \<open>Prioritized throttlers\<close>

record throttlerStats =
  ts_executions :: float64
  ts_rejectionRate :: nfloat
  ts_maxRejectionRate :: float64

definition getThrottlerStats :: "'r adaptiveThrottler \<Rightarrow> throttlerStats" where
  "getThrottlerStats t =
     \<lparr>ts_executions = float_of_uint (timed_ExecutionCount (at_stats t)),
      ts_rejectionRate = computeRejectionRate (float_of_uint (timed_ExecutionCount (at_stats t))) (float_of_uint (timed_SuccessCount (at_stats t)))
        (th_successRateThreshold (at_config t)) (th_maxRejectionRate (at_config t)) (th_executionThreshold (at_config t)),
      ts_maxRejectionRate = th_maxRejectionRate (at_config t)\<rparr>"

definition ts_ComputeRejectionRate :: "throttlerStats \<Rightarrow> nfloat" where
  "ts_ComputeRejectionRate s = map_option (\<lambda>r. min r (ts_maxRejectionRate s)) (ts_rejectionRate s)"

text \<open>The loop of \<^verbatim>\<open>CombineStats\<close>: total executions, total weighted rate (not a number once a rate is not) and the least maximum rate.\<close>

fun combine_loop :: "throttlerStats option list \<Rightarrow> float64 \<Rightarrow> nfloat \<Rightarrow> float64 \<Rightarrow> float64 \<times> nfloat \<times> float64" where
  "combine_loop [] totalExecutions weighted minMax = (totalExecutions, weighted, minMax)"
| "combine_loop (None # qs) totalExecutions weighted minMax = combine_loop qs totalExecutions weighted minMax"
| "combine_loop (Some s # qs) totalExecutions weighted minMax =
     combine_loop qs (totalExecutions + ts_executions s)
       (case (weighted, ts_rejectionRate s) of (Some x, Some r) \<Rightarrow> Some (x + r * ts_executions s) | _ \<Rightarrow> None)
       (min minMax (ts_maxRejectionRate s))"

definition throttler_CombineStats :: "throttlerStats option list \<Rightarrow> throttlerStats option" where
  "throttler_CombineStats qs =
     (if qs = [] then Some \<lparr>ts_executions = 0, ts_rejectionRate = Some 0, ts_maxRejectionRate = 0\<rparr>
      else let (totalExecutions, weighted, minMax) = combine_loop qs 0 (Some 0) 1
           in Some \<lparr>ts_executions = totalExecutions,
                ts_rejectionRate = (if totalExecutions > 0 then map_option (\<lambda>x. x / totalExecutions) weighted else Some 0), ts_maxRejectionRate = minMax\<rparr>)"

definition throttlerRejectionStrategy :: "throttlerStats option rejection_strategy" where
  "throttlerRejectionStrategy =
     \<lparr>CombineStats = throttler_CombineStats,
      ComputeRejectionRate = (\<lambda>s. case s of Some q \<Rightarrow> ts_ComputeRejectionRate q | None \<Rightarrow> None)\<rparr>"

definition th_NewPrioritizerBuilder :: "throttlerStats option BasePrioritizerConfig" where
  "th_NewPrioritizerBuilder = new_BasePrioritizerConfig throttlerRejectionStrategy"

type_synonym 'r throttler_prioritizer = "(nat \<Rightarrow> 'r adaptiveThrottler, throttlerStats option) BasePrioritizer"

record 'r priorityThrottler =
  pt_throttler :: "'r adaptiveThrottler"
  pt_prioritizer :: "'r throttler_prioritizer"

definition BuildPrioritized :: "nat \<Rightarrow> 'r throttler_prioritizer \<Rightarrow> 'r throttler_config \<Rightarrow> 'r priorityThrottler go" where
  "BuildPrioritized i p c =
     go_bind (th_Build c) (\<lambda>t.
     Inr \<lparr>pt_throttler = t, pt_prioritizer = Register (\<lambda>throttlers. Some (getThrottlerStats (throttlers i))) p\<rparr>)"

definition record_level :: "int \<Rightarrow> 'r priorityThrottler \<Rightarrow> 'r priorityThrottler go" where
  "record_level level t =
     go_bind (RecordLevel level (bp_LevelTracker (pt_prioritizer t))) (\<lambda>lt.
     Inr (t\<lparr>pt_prioritizer := (pt_prioritizer t)\<lparr>bp_LevelTracker := lt\<rparr>\<rparr>))"

definition pt_AcquirePermitWithLevel :: "float64 \<Rightarrow> int \<Rightarrow> 'r priorityThrottler \<Rightarrow> ('r error option \<times> 'r priorityThrottler) go" where
  "pt_AcquirePermitWithLevel rnd level t =
     (if level \<ge> RejectionThreshold (pt_prioritizer t) then go_bind (record_level level t) (\<lambda>t'. Inr (None, t'))
      else if rnd < 1 - th_maxRejectionRate (at_config (pt_throttler t)) then go_bind (record_level level t) (\<lambda>t'. Inr (None, t'))
      else Inr (Some throttler_ErrExceeded, t))"

definition pt_AcquirePermit :: "(int \<Rightarrow> int) \<Rightarrow> float64 \<Rightarrow> ctx_values \<Rightarrow> 'r priorityThrottler \<Rightarrow> ('r error option \<times> 'r priorityThrottler) go" where
  "pt_AcquirePermit intn rnd ctx t =
     (let level = LevelFromContext intn ctx in pt_AcquirePermitWithLevel rnd (if level = - 1 then 0 else level) t)"

definition pt_AcquirePermitWithPriority :: "(int \<Rightarrow> int) \<Rightarrow> float64 \<Rightarrow> Priority \<Rightarrow> 'r priorityThrottler
    \<Rightarrow> ('r error option \<times> 'r priorityThrottler) go" where
  "pt_AcquirePermitWithPriority intn rnd p t = pt_AcquirePermitWithLevel rnd (RandomLevel intn p) t"

definition pt_TryAcquirePermit :: "(int \<Rightarrow> int) \<Rightarrow> float64 \<Rightarrow> ctx_values \<Rightarrow> 'r priorityThrottler \<Rightarrow> (bool \<times> 'r priorityThrottler) go" where
  "pt_TryAcquirePermit intn rnd ctx t = go_bind (pt_AcquirePermit intn rnd ctx t) (\<lambda>(err, t'). Inr (err = None, t'))"

definition pt_TryAcquirePermitWithPriority :: "(int \<Rightarrow> int) \<Rightarrow> float64 \<Rightarrow> Priority \<Rightarrow> 'r priorityThrottler
    \<Rightarrow> (bool \<times> 'r priorityThrottler) go" where
  "pt_TryAcquirePermitWithPriority intn rnd p t = go_bind (pt_AcquirePermitWithPriority intn rnd p t) (\<lambda>(err, t'). Inr (err = None, t'))"

definition pt_TryAcquirePermitWithLevel :: "float64 \<Rightarrow> int \<Rightarrow> 'r priorityThrottler \<Rightarrow> (bool \<times> 'r priorityThrottler) go" where
  "pt_TryAcquirePermitWithLevel rnd level t = go_bind (pt_AcquirePermitWithLevel rnd level t) (\<lambda>(err, t'). Inr (err = None, t'))"

definition pt_RejectionRate :: "'r priorityThrottler \<Rightarrow> nfloat" where
  "pt_RejectionRate t = bp_RejectionRate (pt_prioritizer t)"

section \<open>The executor\<close>

definition throttler_PreExecute :: "('r, 's) runtime \<Rightarrow> ('s, 'r adaptiveThrottler) ref \<Rightarrow> ('r, 's) pre_hook" where
  "throttler_PreExecute rt p x w =
     (let (rnd, v) = rt_rand rt (w_env w); w1 = w\<lparr>w_env := v\<rparr>; (err, t) = th_AcquirePermit rnd (read_ref p w1)
      in run_return (case err of Some e \<Rightarrow> Some (FailureResult (rt_zero rt) e) | None \<Rightarrow> None, write_ref p t w1))"

definition throttler_OnSuccess :: "('s, 'r adaptiveThrottler) ref \<Rightarrow> nat \<Rightarrow> 'r PolicyResult \<Rightarrow> ('r, 's) world \<Rightarrow> ('r, 's) world run" where
  "throttler_OnSuccess p x result w =
     (let w1 = base_OnSuccess (Some (th_failurePolicy (at_config (read_ref p w)))) x result w in
      run_go (th_RecordSuccess (clock (w_env w1)) (read_ref p w1)) (\<lambda>t. run_return (write_ref p t w1)))"

definition throttler_OnFailure :: "('s, 'r adaptiveThrottler) ref \<Rightarrow> ('r, 's) post_hook" where
  "throttler_OnFailure p x result w =
     (let w1 = snd (base_OnFailure (Some (th_failurePolicy (at_config (read_ref p w)))) x result w) in
      run_go (th_RecordFailure (clock (w_env w1)) (read_ref p w1)) (\<lambda>t. run_return (result, write_ref p t w1)))"

definition throttler_PostExecute :: "('s, 'r adaptiveThrottler) ref \<Rightarrow> ('r, 's) post_hook" where
  "throttler_PostExecute p x er w =
     base_PostExecute (base_IsFailure (Some (th_failurePolicy (at_config (read_ref p w))))) (throttler_OnSuccess p) (throttler_OnFailure p) x er w"

definition throttler_Apply :: "('r, 's) runtime \<Rightarrow> ('s, 'r adaptiveThrottler) ref \<Rightarrow> ('r, 's) policy" where
  "throttler_Apply rt p i = base_Apply (throttler_PreExecute rt p) (throttler_PostExecute p)"

text \<open>The executor of a prioritized throttler; \<open>ctxValues\<close> gives the values of the execution's context.\<close>

definition priority_PreExecute :: "('r, 's) runtime \<Rightarrow> (nat list \<Rightarrow> ctx_values) \<Rightarrow> (int \<Rightarrow> int) \<Rightarrow> ('s, 'r priorityThrottler) ref \<Rightarrow> ('r, 's) pre_hook" where
  "priority_PreExecute rt ctxValues intn p x w =
     (let (rnd, v) = rt_rand rt (w_env w); w1 = w\<lparr>w_env := v\<rparr>
      in run_go (pt_AcquirePermit intn rnd (ctxValues (Context x w1)) (read_ref p w1)) (\<lambda>(err, t).
         run_return (case err of Some e \<Rightarrow> Some (FailureResult (rt_zero rt) e) | None \<Rightarrow> None, write_ref p t w1)))"

definition throttler_of :: "('s, 'r priorityThrottler) ref \<Rightarrow> ('s, 'r adaptiveThrottler) ref" where
  "throttler_of p = \<lparr>ref_get = (\<lambda>s. pt_throttler (ref_get p s)), ref_put = (\<lambda>t s. ref_put p ((ref_get p s)\<lparr>pt_throttler := t\<rparr>) s)\<rparr>"

definition priority_Apply :: "('r, 's) runtime \<Rightarrow> (nat list \<Rightarrow> ctx_values) \<Rightarrow> (int \<Rightarrow> int) \<Rightarrow> ('s, 'r priorityThrottler) ref \<Rightarrow> ('r, 's) policy" where
  "priority_Apply rt ctxValues intn p i = base_Apply (priority_PreExecute rt ctxValues intn p) (throttler_PostExecute (throttler_of p))"

section \<open>Rejection rates\<close>

lemma rejection_rate_bounds:
  assumes "0 \<le> s" "s \<le> float_of_uint E" "0 \<le> k" "k \<le> 1" "0 \<le> m" "m \<le> 1" "computeRejectionRate (float_of_uint E) s k m n = Some r"
  shows "0 \<le> r" "r \<le> m"
proof -
  have e: "0 < float_of_uint E + 1" using float_of_uint_simps(1)[of E] by linarith
  show "0 \<le> r" "r \<le> m"
    using assms e by (auto simp: computeRejectionRate_def executionPadding_def split: if_splits)
qed


section \<open>Combined statistics\<close>

definition throttler_stats_ok :: "throttlerStats option \<Rightarrow> bool" where
  "throttler_stats_ok q = (case q of None \<Rightarrow> True
     | Some s \<Rightarrow> 0 \<le> ts_executions s \<and> 0 \<le> ts_maxRejectionRate s \<and> ts_maxRejectionRate s \<le> 1
         \<and> (case ts_rejectionRate s of None \<Rightarrow> True | Some r \<Rightarrow> 0 \<le> r \<and> r \<le> 1))"

lemma combine_loop_bounds:
  assumes "\<forall>q \<in> set qs. throttler_stats_ok q" "0 \<le> t" "0 \<le> m" "m \<le> 1" "\<And>x. wt = Some x \<Longrightarrow> 0 \<le> x \<and> x \<le> t"
    and "combine_loop qs t wt m = (t', wt', m')"
  shows "0 \<le> t' \<and> 0 \<le> m' \<and> m' \<le> 1 \<and> (\<forall>x. wt' = Some x \<longrightarrow> 0 \<le> x \<and> x \<le> t')"
  using assms
proof (induction qs t wt m rule: combine_loop.induct)
  case (3 s qs t wt m)
  let ?wt = "case (wt, ts_rejectionRate s) of (Some x, Some r) \<Rightarrow> Some (x + r * ts_executions s) | _ \<Rightarrow> None"
  have s: "0 \<le> ts_executions s" "0 \<le> ts_maxRejectionRate s" using "3.prems"(1) by (auto simp: throttler_stats_ok_def)
  have "0 \<le> x \<and> x \<le> t + ts_executions s" if h: "?wt = Some x" for x
  proof -
    obtain y r where y: "wt = Some y" "ts_rejectionRate s = Some r" "x = y + r * ts_executions s" using h by (cases wt; cases "ts_rejectionRate s") auto
    then have "0 \<le> r * ts_executions s" "r * ts_executions s \<le> 1 * ts_executions s"
      using "3.prems"(1) by (auto simp: throttler_stats_ok_def mult_left_le_one_le)
    with y "3.prems"(5)[OF y(1)] show ?thesis by simp
  qed
  with 3 s show ?case by (intro "3.IH") auto
qed auto

lemma throttler_rate_bounds:
  assumes "\<forall>q \<in> set qs. throttler_stats_ok q"
    and "ComputeRejectionRate throttlerRejectionStrategy (CombineStats throttlerRejectionStrategy qs) = Some r"
  shows "0 \<le> r \<and> r \<le> 1"
proof (cases "qs = []")
  case True
  then show ?thesis using assms(2) by (simp add: throttlerRejectionStrategy_def throttler_CombineStats_def ts_ComputeRejectionRate_def)
next
  case False
  obtain t wt m where c: "combine_loop qs 0 (Some 0) 1 = (t, wt, m)" by (cases "combine_loop qs 0 (Some 0) 1") auto
  have "0 \<le> t \<and> 0 \<le> m \<and> m \<le> 1 \<and> (\<forall>x. wt = Some x \<longrightarrow> 0 \<le> x \<and> x \<le> t)"
    by (rule combine_loop_bounds[OF assms(1) _ _ _ _ c]) simp_all
  then show ?thesis
    using assms(2) False c frac_le_1[of t] by (auto simp: throttlerRejectionStrategy_def throttler_CombineStats_def ts_ComputeRejectionRate_def
        min_le_iff_disj split: if_splits)
qed

interpretation throttlers: rejection_rates throttlerRejectionStrategy throttler_stats_ok
  by unfold_locales (rule throttler_rate_bounds)

text \<open>Throttlers with a valid configuration whose counters have not wrapped around.\<close>

definition throttler_ok :: "'r adaptiveThrottler \<Rightarrow> bool" where
  "throttler_ok t \<longleftrightarrow> 0 \<le> th_maxRejectionRate (at_config t) \<and> th_maxRejectionRate (at_config t) \<le> 1
     \<and> 0 \<le> th_successRateThreshold (at_config t) \<and> th_successRateThreshold (at_config t) \<le> 1
     \<and> timed_SuccessCount (at_stats t) \<le> timed_ExecutionCount (at_stats t)"

lemma float_of_uint_mono: "x \<le> y \<Longrightarrow> float_of_uint x \<le> float_of_uint y"
  by (simp add: float_of_uint_def word_le_nat_alt del: of_nat_unat)

lemma throttler_ok_stats: "throttler_ok t \<Longrightarrow> throttler_stats_ok (Some (getThrottlerStats t))"
proof -
  assume ok: "throttler_ok t"
  then have "float_of_uint (timed_SuccessCount (at_stats t)) \<le> float_of_uint (timed_ExecutionCount (at_stats t))"
    by (intro float_of_uint_mono) (simp add: throttler_ok_def)
  note b = rejection_rate_bounds[OF _ this]
  have "0 \<le> r \<and> r \<le> 1" if "ts_rejectionRate (getThrottlerStats t) = Some r" for r
    using ok that b[of "th_successRateThreshold (at_config t)" "th_maxRejectionRate (at_config t)" "th_executionThreshold (at_config t)" r]
    by (simp add: getThrottlerStats_def throttler_ok_def)
  then show ?thesis
    using ok by (cases "ts_rejectionRate (getThrottlerStats t)") (simp_all add: throttler_stats_ok_def throttler_ok_def getThrottlerStats_def)
qed

definition registered :: "nat list \<Rightarrow> 'r throttler_prioritizer \<Rightarrow> 'r throttler_prioritizer" where
  "registered = fold (\<lambda>i. Register (\<lambda>throttlers. Some (getThrottlerStats (throttlers i))))"

lemma registered_fields [simp]:
  "bp_statsFuncs (registered is p) = bp_statsFuncs p @ map (\<lambda>i throttlers. Some (getThrottlerStats (throttlers i))) is"
  "bp_Strategy (registered is p) = bp_Strategy p" "bp_UsageTracker (registered is p) = bp_UsageTracker p" "bp_LevelTracker (registered is p) = bp_LevelTracker p"
  by (induction "is" arbitrary: p) (simp_all add: registered_def Register_def)

section \<open>Throttlers record results\<close>





section \<open>Properties\<close>



text \<open>
  C26. Calibrating a prioritizer of valid throttlers sets a threshold within the levels that refuses at most the rejection rate's share of the recent
  levels, while the next higher threshold, and so every higher one, would refuse at least that share; a rate that is not a number refuses nothing.
\<close>

theorem calibration_sheds_rate:
  fixes throttlers :: "nat \<Rightarrow> 'r adaptiveThrottler"
  assumes "\<forall>i \<in> set is. throttler_ok (throttlers i)" "\<forall>l \<in> set ls. valid_level l"
  shows "\<exists>p0 lt p'. prioritizer_Build th_NewPrioritizerBuilder = Inr p0 \<and> record_levels (bp_LevelTracker p0) ls = Inr lt
    \<and> prioritizer_Calibrate throttlers now order (registered is p0\<lparr>bp_LevelTracker := lt\<rparr>) = Inr p' \<and> valid_level (RejectionThreshold p')
    \<and> (case bp_RejectionRate p' of
         None \<Rightarrow> RejectionThreshold p' = 0
       | Some r \<Rightarrow> 0 \<le> r \<and> r \<le> 1
           \<and> real (length (filter (\<lambda>l. l < RejectionThreshold p') (last_n 1000 ls))) \<le> r * real (length (last_n 1000 ls))
           \<and> (0 < r \<longrightarrow> r * real (length (last_n 1000 ls)) \<le> real (length (filter (\<lambda>l. l \<le> RejectionThreshold p') (last_n 1000 ls)))))"
proof -
  obtain lt0 where lt0: "NewLevelTracker 1000 = Inr lt0" "tracker_inv 1000 [] lt0" using NewLevelTracker_inv[of 1000] by auto
  obtain lt where lt: "record_levels lt0 ls = Inr lt" "tracker_inv 1000 ls lt"
    using record_levels_inv[OF _ _ lt0(2), of ls] assms(2) by auto
  obtain p0 :: "'r throttler_prioritizer" where p0: "prioritizer_Build th_NewPrioritizerBuilder = Inr p0" "bp_LevelTracker p0 = lt0" "bp_UsageTracker p0 = None"
      "bp_Strategy p0 = throttlerRejectionStrategy" "bp_statsFuncs p0 = []"
    using lt0(1) by (auto simp: prioritizer_Build_def th_NewPrioritizerBuilder_def new_BasePrioritizerConfig_def)
  let ?p = "registered is p0\<lparr>bp_LevelTracker := lt\<rparr>"
  have ok: "\<forall>f \<in> set (bp_statsFuncs ?p). throttler_stats_ok (f throttlers)"
    using assms(1) p0(5) by (auto intro: throttler_ok_stats)
  show ?thesis
    using throttlers.calibrated_threshold[of ?p throttlers 1000 ls now order] ok p0 lt assms(2) by auto
qed

text \<open>A throttler with the default configuration after nine failures, as its statistics sum them up.\<close>

definition failing_throttler :: "int adaptiveThrottler" where
  "failing_throttler = \<lparr>at_config = th_NewBuilder,
     at_stats = \<lparr>BucketCount = 20, BucketNanos = 3 * 10 ^ 9, AddFn = timed_AddFn, RemoveFn = timed_RemoveFn, ResetFn = timed_ResetFn,
       Buckets = TimedStat 0 9 # replicate 19 (TimedStat 0 0), Summary = TimedStat 0 9, HeadTime = 0\<rparr>,
     at_rejectionRate = Some 0\<rparr>"

lemma failing_throttler_stats:
  "getThrottlerStats failing_throttler = \<lparr>ts_executions = 9, ts_rejectionRate = Some (9 / 10), ts_maxRejectionRate = 9 / 10\<rparr>"
  by (simp add: getThrottlerStats_def failing_throttler_def th_NewBuilder_def computeRejectionRate_def executionPadding_def
      timed_ExecutionCount_def timed_SuccessCount_def float_of_uint_def float_to_int_def)

theorem calibration_sheds_rate_witness:
  "\<exists>p0 lt p'. prioritizer_Build th_NewPrioritizerBuilder = Inr p0 \<and> record_levels (bp_LevelTracker p0) [10, 200] = Inr lt
    \<and> prioritizer_Calibrate (\<lambda>_. failing_throttler) 0 [] (registered [0] p0\<lparr>bp_LevelTracker := lt\<rparr>) = Inr p' \<and> valid_level (RejectionThreshold p')"
proof -
  have "throttler_ok failing_throttler"
    by (simp add: throttler_ok_def failing_throttler_def th_NewBuilder_def timed_ExecutionCount_def timed_SuccessCount_def)
  then show ?thesis
    using calibration_sheds_rate[of "[0]" "\<lambda>_. failing_throttler" "[10, 200]" 0 "[]"] unfolding totalLevels_def by auto
qed

text \<open>
  A throttler configured to accept every failure rate that has no successes yet reports a rate that is not a number. It makes the
  combined rate of a prioritizer not a number, and no level is refused although another throttler only sees failures.
\<close>

theorem nan_rate_disables_rejections:
  "\<exists>c idle p0 lt p'. th_WithFailureRateThreshold 1 0 (10 ^ 9) (th_NewBuilder :: int throttler_config) = Inr c \<and> th_Build c = Inr idle
    \<and> prioritizer_Build th_NewPrioritizerBuilder = Inr p0 \<and> record_levels (bp_LevelTracker p0) [10, 200] = Inr lt
    \<and> prioritizer_Calibrate ((\<lambda>_. failing_throttler)(1 := idle)) 0 [] (registered [0, 1] p0\<lparr>bp_LevelTracker := lt\<rparr>) = Inr p'
    \<and> ts_rejectionRate (getThrottlerStats failing_throttler) = Some (9 / 10)
    \<and> bp_RejectionRate p' = None \<and> RejectionThreshold p' = 0"
proof -
  define c where "c = (th_NewBuilder :: int throttler_config)\<lparr>th_successRateThreshold := 0, th_executionThreshold := 0, th_thresholdingPeriod := 10 ^ 9\<rparr>"
  have c: "th_WithFailureRateThreshold 1 0 (10 ^ 9) th_NewBuilder = Inr c"
    by (simp add: th_WithFailureRateThreshold_def Assert_def c_def)
  obtain s where s: "NewTimedStats 20 (10 ^ 9) = Inr s" "Summary s = TimedStat 0 0"
    by (simp add: NewTimedStats_def Assert_def go_div_def)
  define idle where "idle = \<lparr>at_config = c, at_stats = s, at_rejectionRate = Some 0\<rparr>"
  have idle: "th_Build c = Inr idle" using s by (simp add: th_Build_def c_def idle_def)
  have nan: "getThrottlerStats idle = \<lparr>ts_executions = 0, ts_rejectionRate = None, ts_maxRejectionRate = 9 / 10\<rparr>"
    using s(2) by (simp add: getThrottlerStats_def idle_def c_def th_NewBuilder_def computeRejectionRate_def timed_ExecutionCount_def timed_SuccessCount_def float_to_int_def)
  obtain lt0 where lt0: "NewLevelTracker 1000 = Inr lt0" "tracker_inv 1000 [] lt0" using NewLevelTracker_inv[of 1000] by auto
  obtain lt where lt: "record_levels lt0 [10, 200] = Inr lt" using record_levels_inv[OF _ _ lt0(2), of "[10, 200]"] by (auto simp: totalLevels_def)
  obtain p0 :: "int throttler_prioritizer" where p0: "prioritizer_Build th_NewPrioritizerBuilder = Inr p0" "bp_LevelTracker p0 = lt0" "bp_UsageTracker p0 = None"
      "bp_Strategy p0 = throttlerRejectionStrategy" "bp_statsFuncs p0 = []"
    using lt0(1) by (auto simp: prioritizer_Build_def th_NewPrioritizerBuilder_def new_BasePrioritizerConfig_def)
  let ?ts = "(\<lambda>_. failing_throttler)(1 := idle)" and ?p = "registered [0, 1] p0\<lparr>bp_LevelTracker := lt\<rparr>"
  have "ComputeRejectionRate throttlerRejectionStrategy (CombineStats throttlerRejectionStrategy (map (\<lambda>f. f ?ts) (bp_statsFuncs ?p))) = None"
    by (simp add: p0(5) failing_throttler_stats nan throttlerRejectionStrategy_def throttler_CombineStats_def ts_ComputeRejectionRate_def)
  then have "\<exists>p'. prioritizer_Calibrate ?ts 0 [] ?p = Inr p' \<and> bp_RejectionRate p' = None \<and> RejectionThreshold p' = 0"
    using p0(3,4) by (simp add: prioritizer_Calibrate_def bp_RejectionRate_def RejectionThreshold_def Let_def)
  then show ?thesis using c idle p0(1,2) lt failing_throttler_stats by auto
qed

section \<open>Lemmas on the executors\<close>

lemma throttler_pre_quiet: "quiet_pre (throttler_PreExecute rt p)"
  by (auto simp: quiet_pre_def throttler_PreExecute_def Let_def split_beta same_run_def write_ref_def set_env_def)

lemma priority_pre_quiet: "quiet_pre (priority_PreExecute rt ctxValues intn p)"
  by (auto simp: quiet_pre_def priority_PreExecute_def Let_def split_beta run_go_cases same_run_def write_ref_def set_env_def)

lemma throttler_success_frame: "throttler_OnSuccess p x r w = Some (Inr w') \<Longrightarrow> same_run w w'"
  by (auto simp: throttler_OnSuccess_def base_OnSuccess_def run_go_cases Let_def intro: same_run_trans[OF frame_call_listener frame_write_ref])

lemma throttler_failure_frame: "throttler_OnFailure p x r w = Some (Inr (r', w')) \<Longrightarrow> same_run w w'"
  by (auto simp: throttler_OnFailure_def base_OnFailure_def run_go_cases Let_def intro: same_run_trans[OF frame_call_listener frame_write_ref])

lemma throttler_post_quiet: "quiet_post (throttler_PostExecute p)"
proof -
  have "quiet_post (base_PostExecute isf (throttler_OnSuccess p) (throttler_OnFailure p))" for isf
    by (rule base_PostExecute_quiet[OF throttler_success_frame throttler_failure_frame])
  then show ?thesis by (simp add: quiet_post_def throttler_PostExecute_def)
qed

interpretation throttler: single_shot "throttler_Apply rt p i" for rt p i
  unfolding throttler_Apply_def by (rule one_call_single_shot[OF base_Apply_one_call[OF throttler_pre_quiet throttler_post_quiet]])

interpretation priority: single_shot "priority_Apply rt ctxValues intn p i" for rt ctxValues intn p i
  unfolding priority_Apply_def by (rule one_call_single_shot[OF base_Apply_one_call[OF priority_pre_quiet throttler_post_quiet]])

text \<open>What a valid throttler's hooks record.\<close>

lemma throttler_post_records:
  fixes w :: "('r, 's) world"
  assumes ref: "\<And>obj s. ref_get p (ref_put p obj s) = obj" and inv: "timed.window_inv (at_stats (read_ref p w))"
    and now: "0 \<le> clock (w_env w)" "in_i64 (clock (w_env w))"
  shows "\<exists>r' w'. throttler_PostExecute p x r w = Some (Inr (r', w')) \<and> Result r' = Result r \<and> Error r' = Error r
     \<and> th_recordResult (Result r) (Error r) (clock (w_env w)) (read_ref p w) = Inr (read_ref p w')"
proof -
  let ?q = "th_failurePolicy (at_config (read_ref p w))"
  obtain s where s: "timed_Record (\<not> IsFailure ?q (Result r) (Error r)) (at_stats (read_ref p w)) (clock (w_env w)) = Inr s"
    using timed_Record_slides[OF inv now] by blast
  have rd: "read_ref p (write_ref p t w') = t" for t and w' :: "('r, 's) world"
    using ref by (simp add: read_ref_def write_ref_def set_env_def)
  have wd: "Result (WithDone r True True) = Result r" "Error (WithDone r True True) = Error r"
      "Result (WithFailure r) = Result r" "Error (WithFailure r) = Error r"
    by (simp_all add: WithDone_def WithFailure_def)
  have same: "read_ref p w' = read_ref p w" if "w_env w' = w_env w" for w'
    using that by (simp add: read_ref_def)
  show ?thesis
  proof (cases "IsFailure ?q (Result r) (Error r)")
    case False
    define w1 where "w1 = base_OnSuccess (Some ?q) x (WithDone r True True) w"
    have w1: "w_env w1 = w_env w" by (simp add: w1_def base_OnSuccess_def)
    then show ?thesis
      using False s rd wd same[OF w1] by (simp add: throttler_PostExecute_def base_PostExecute_def base_IsFailure_def throttler_OnSuccess_def run_go_def Let_def
          th_recordResult_def th_RecordSuccess_def timed_Record_def flip: w1_def)
  next
    case True
    define w1 where "w1 = snd (base_OnFailure (Some ?q) x (WithFailure r) w)"
    have w1: "w_env w1 = w_env w" by (simp add: w1_def base_OnFailure_def)
    then show ?thesis
      using True s rd wd same[OF w1] by (simp add: throttler_PostExecute_def base_PostExecute_def base_IsFailure_def throttler_OnFailure_def run_go_def Let_def
          th_recordResult_def th_RecordFailure_def timed_Record_def flip: w1_def)
  qed
qed

text \<open>
  An execution with a throttler whose permit is refused returns the error without calling its function and without recording a result; otherwise
  it calls the function once, passes on what it returns and records it once as the throttler's configuration classifies it.
\<close>

theorem throttler_admits_and_records:
  assumes ref: "\<And>obj s. ref_get p (ref_put p obj s) = obj"
    and rand: "rt_rand rt v = (rnd, v1)" and permit: "th_AcquirePermit rnd (ref_get p (objs v1)) = (err, t1)"
    and inv: "timed.window_inv (at_stats (ref_get p (objs v1)))"
    and fn: "\<And>u. ref_get p (objs (snd (fn u))) = ref_get p (objs u)" "\<And>u. 0 \<le> clock (snd (fn u))" "\<And>u. in_i64 (clock (snd (fn u)))"
  shows "\<exists>w out. executor_Get rt fn (executor_With [throttler_Apply rt p]) v = Some (Inr (out, w))
    \<and> w_executions w = (if err = None then 1 else 0)
    \<and> (case err of
         Some e \<Rightarrow> out = (rt_zero rt, Some e) \<and> ref_get p (objs (w_env w)) = t1
       | None \<Rightarrow> let u = v1\<lparr>objs := ref_put p t1 (objs v1)\<rparr> in
           out = fst (fn u) \<and> th_recordResult (fst out) (snd out) (clock (snd (fn u))) t1 = Inr (ref_get p (objs (w_env w))))"
proof -
  define w0 where "w0 = newExecution (rt_zero rt) [] v"
  note w0 = new_world[of "rt_zero rt" "[]" v, folded w0_def]
  define w1 where "w1 = write_ref p t1 (w0\<lparr>w_env := v1\<rparr>)"
  have w1: "w_env w1 = v1\<lparr>objs := ref_put p t1 (objs v1)\<rparr>" "w_executions w1 = 0" "w_timers w1 = []" "read_ref p w1 = t1"
    using w0 ref by (simp_all add: w1_def write_ref_def set_env_def read_ref_def)
  have stats: "timed.window_inv (at_stats t1)" using inv permit by (auto simp: th_AcquirePermit_def Let_def)
  have pre: "throttler_PreExecute rt p 0 w0 = Some (Inr (case err of Some e \<Rightarrow> Some (FailureResult (rt_zero rt) e) | None \<Rightarrow> None, w1))"
    using permit rand w0(1) by (simp add: throttler_PreExecute_def read_ref_def run_return_def w1_def)
  note unfolds = executor_Get_def executeSync_def execute_def executor_With_def throttler_Apply_def base_Apply_def run_return_def Let_def
  show ?thesis
  proof (cases err)
    case (Some e)
    then show ?thesis using pre w1 by (simp add: unfolds FailureResult_def read_ref_def flip: w0_def)
  next
    case None
    define w2 where "w2 = exec_record (w1\<lparr>w_env := snd (fn (w_env w1))\<rparr>)"
    let ?r = "\<lparr>Result = fst (fst (fn (w_env w1))), Error = snd (fst (fn (w_env w1))), Done = True, Success = True, SuccessAll = True\<rparr>"
    have w2: "read_ref p w2 = t1" "w_executions w2 = 1" "0 \<le> clock (w_env w2)" "in_i64 (clock (w_env w2))" "clock (w_env w2) = clock (snd (fn (w_env w1)))"
      using w1 fn by (simp_all add: w2_def read_ref_def exec_record_def)
    have call: "call_fn rt (\<lambda>_. fn) False 0 w1 = Some (Inr (?r, w2))" unfolding w2_def by (rule call_fn_no_timers[OF w1(3)])
    obtain r' w' where post: "throttler_PostExecute p 0 ?r w2 = Some (Inr (r', w'))" "Result r' = Result ?r" "Error r' = Error ?r"
      "th_recordResult (Result ?r) (Error ?r) (clock (w_env w2)) t1 = Inr (read_ref p w')"
      using throttler_post_records[OF ref _ w2(3,4), of 0 ?r] stats unfolding w2(1) by blast
    have "same_run w2 w'" using throttler_post_quiet post(1) unfolding quiet_post_def by blast
    then have "w_executions w' = 1" using w2(2) by (simp add: same_run_def)
    with None pre call post w1(1) w2(5) show ?thesis
      by (intro exI[of _ w'] exI[of _ "fst (fn (w_env w1))"]) (simp add: unfolds read_ref_def flip: w0_def)
  qed
qed

text \<open>The environment that holds just a throttler.\<close>

definition the_throttler :: "(int adaptiveThrottler, int adaptiveThrottler) ref" where
  "the_throttler = \<lparr>ref_get = (\<lambda>t. t), ref_put = (\<lambda>t _. t)\<rparr>"

definition throttler_runtime :: "(int, int adaptiveThrottler) runtime" where
  "throttler_runtime = \<lparr>rt_zero = 0, rt_pause = (\<lambda>_ _ v. v), rt_rand = (\<lambda>v. (1 / 2, v)), rt_fires = (\<lambda>t v. t \<le> clock v),
     rt_selects_ctx = (\<lambda>_. True), rt_selects_timer = (\<lambda>_. False), rt_fuel = 0\<rparr>"

theorem throttler_admits_and_records_witness:
  "\<exists>w out. executor_Get throttler_runtime (\<lambda>v. ((5, None), v\<lparr>clock := 9\<rparr>)) (executor_With [throttler_Apply throttler_runtime the_throttler])
      \<lparr>clock = 0, ctx_errs = (\<lambda>_. None), objs = failing_throttler\<rparr> = Some (Inr (out, w))
    \<and> w_executions w = 0 \<and> out = (0, Some throttler_ErrExceeded)"
proof -
  let ?v = "\<lparr>clock = 0, ctx_errs = (\<lambda>_. None), objs = failing_throttler\<rparr> :: (int, int adaptiveThrottler) env"
  have "th_AcquirePermit (1 / 2) failing_throttler = (Some throttler_ErrExceeded, failing_throttler\<lparr>at_rejectionRate := Some (9 / 10)\<rparr>)"
    by (simp add: th_AcquirePermit_def failing_throttler_def th_NewBuilder_def computeRejectionRate_def executionPadding_def
        timed_ExecutionCount_def timed_SuccessCount_def float_of_uint_def float_to_int_def)
  moreover have "timed.window_inv (at_stats failing_throttler)"
    by (simp add: failing_throttler_def timed.window_inv_def window_shape_def in_i64_def plus_timedStat_def flip: zero_timedStat_def)
      (simp add: zero_timedStat_def)
  ultimately show ?thesis
    using throttler_admits_and_records[of the_throttler throttler_runtime ?v "1 / 2" ?v "Some throttler_ErrExceeded"
       "failing_throttler\<lparr>at_rejectionRate := Some (9 / 10)\<rparr>" "\<lambda>v. ((5, None), v\<lparr>clock := 9\<rparr>)"]
    by (auto simp: the_throttler_def throttler_runtime_def in_i64_def)
qed

end
