(* ===== verification/Queueing_Limiter.thy ===== *)
theory Queueing_Limiter
  imports Limiter_Callers
begin

text \<open>
  Limiters that queue, and that queue by priority (src/adaptivelimiter/queueinglimiter.go, prioritylimiter.go, prioritizer.go), and the executor of all three kinds of limiters
  (adaptiveexecutor.go). \<^verbatim>\<open>rand.Float64\<close> is an argument. The limiters that a prioritizer knows are those of a map from numbers.
  Numbers of queued executions and their sums are integers without bound. Acquiring from a limiter that queues checks the queue in critical sections of its own before it acquires:
  the methods are modelled here for a caller that nobody interrupts, and \<open>ql_step\<close> has callers that check at the same time.
\<close>

section \<open>Queueing limiters\<close>

record queueStats =
  qs_limit :: int
  qs_queued :: int
  qs_rejectionThreshold :: int
  qs_maxQueue :: int

definition getQueueStats :: "'d adaptiveLimiter \<Rightarrow> queueStats" where
  "getQueueStats l =
     \<lparr>qs_limit = Limit l, qs_queued = Queued l,
      qs_rejectionThreshold = float_to_int (of_int (Limit l) * al_initialRejectionFactor (al_config l)),
      qs_maxQueue = float_to_int (of_int (Limit l) * al_maxRejectionFactor (al_config l))\<rparr>"

definition qs_ComputeRejectionRate :: "queueStats \<Rightarrow> float64" where
  "qs_ComputeRejectionRate s =
     (if qs_queued s < qs_rejectionThreshold s then 0
      else if qs_queued s \<ge> qs_maxQueue s then 1
      else of_int (qs_queued s - qs_rejectionThreshold s) / of_int (qs_maxQueue s - qs_rejectionThreshold s))"

definition ql_CanAcquirePermit :: "float64 \<Rightarrow> 'd adaptiveLimiter \<Rightarrow> bool" where
  "ql_CanAcquirePermit rnd l \<longleftrightarrow>
     (if al_CanAcquirePermit l then True
      else let rejectionRate = qs_ComputeRejectionRate (getQueueStats l) in
           if rejectionRate = 0 then True
           else if rejectionRate \<ge> 1 \<or> rejectionRate \<ge> rnd then False else True)"

definition ql_AcquirePermit :: "float64 \<Rightarrow> nanotime \<Rightarrow> 'd adaptiveLimiter \<Rightarrow> 'r permit_outcome \<times> 'd adaptiveLimiter" where
  "ql_AcquirePermit rnd now l = (if \<not> ql_CanAcquirePermit rnd l then (Denied al_ErrExceeded, l) else al_AcquirePermit now l)"

definition ql_AcquirePermitWithMaxWait :: "float64 \<Rightarrow> duration \<Rightarrow> nanotime \<Rightarrow> 'd adaptiveLimiter \<Rightarrow> 'r permit_outcome \<times> 'd adaptiveLimiter" where
  "ql_AcquirePermitWithMaxWait rnd maxWaitTime now l =
     (if \<not> ql_CanAcquirePermit rnd l then (Denied al_ErrExceeded, l) else al_AcquirePermitWithMaxWait maxWaitTime now l)"

definition ql_TryAcquirePermit :: "nanotime \<Rightarrow> 'd adaptiveLimiter \<Rightarrow> recordingPermit option \<times> 'd adaptiveLimiter" where
  "ql_TryAcquirePermit now l = al_TryAcquirePermit now l"

section \<open>Priority limiters\<close>

fun queue_combine_loop :: "queueStats list \<Rightarrow> queueStats \<Rightarrow> queueStats" where
  "queue_combine_loop [] result = result"
| "queue_combine_loop (stats # qs) result =
     queue_combine_loop qs
       \<lparr>qs_limit = qs_limit result + qs_limit stats, qs_queued = qs_queued result + qs_queued stats,
        qs_rejectionThreshold = qs_rejectionThreshold result + qs_rejectionThreshold stats, qs_maxQueue = qs_maxQueue result + qs_maxQueue stats\<rparr>"

definition queue_CombineStats :: "queueStats list \<Rightarrow> queueStats" where
  "queue_CombineStats qs = queue_combine_loop qs \<lparr>qs_limit = 0, qs_queued = 0, qs_rejectionThreshold = 0, qs_maxQueue = 0\<rparr>"

definition queueRejectionStrategy :: "queueStats rejection_strategy" where
  "queueRejectionStrategy = \<lparr>CombineStats = queue_CombineStats, ComputeRejectionRate = (\<lambda>s. Some (qs_ComputeRejectionRate s))\<rparr>"

definition al_NewPrioritizerBuilder :: "queueStats BasePrioritizerConfig" where
  "al_NewPrioritizerBuilder = new_BasePrioritizerConfig queueRejectionStrategy"

definition WithUsageTracker :: "usageTracker \<Rightarrow> 'q BasePrioritizerConfig \<Rightarrow> 'q BasePrioritizerConfig" where
  "WithUsageTracker usageTracker c = c\<lparr>pc_UsageTracker := Some usageTracker\<rparr>"

type_synonym 'd limiter_prioritizer = "(nat \<Rightarrow> 'd adaptiveLimiter, queueStats) BasePrioritizer"

record 'd priorityLimiter =
  pl_limiter :: "'d adaptiveLimiter"
  pl_prioritizer :: "'d limiter_prioritizer"

text \<open>\<^verbatim>\<open>BuildPrioritized\<close> changes the builder's factors, too.\<close>

definition al_BuildPrioritized :: "'d tdigest_api \<Rightarrow> nanotime \<Rightarrow> nat \<Rightarrow> 'd limiter_prioritizer \<Rightarrow> al_config \<Rightarrow> 'd priorityLimiter \<times> al_config" where
  "al_BuildPrioritized D now i p c =
     (let c' = (if al_initialRejectionFactor c = 0 \<and> al_maxRejectionFactor c = 0
                then c\<lparr>al_initialRejectionFactor := 2, al_maxRejectionFactor := 3\<rparr> else c)
      in (\<lparr>pl_limiter = al_Build D now c', pl_prioritizer = Register (\<lambda>limiters. getQueueStats (limiters i)) p\<rparr>, c'))"

definition pl_CanAcquirePermitWithLevel :: "int \<Rightarrow> 'd priorityLimiter \<Rightarrow> bool" where
  "pl_CanAcquirePermitWithLevel level l \<longleftrightarrow>
     (let lim = pl_limiter l; maxQueue = float_to_int (of_int (Limit lim) * al_maxRejectionFactor (al_config lim)) in
      if RegisteredPolicies (pl_prioritizer l) = 1 \<and> al_CanAcquirePermit lim then True
      else if RegisteredPolicies (pl_prioritizer l) = 1 \<and> Queued lim \<ge> maxQueue then False
      else level \<ge> RejectionThreshold (pl_prioritizer l))"

definition pl_CanAcquirePermit :: "(int \<Rightarrow> int) \<Rightarrow> ctx_values option \<Rightarrow> 'd priorityLimiter \<Rightarrow> bool" where
  "pl_CanAcquirePermit intn ctx l = pl_CanAcquirePermitWithLevel (bp_LevelFromContext intn ctx (pl_prioritizer l)) l"

definition pl_CanAcquirePermitWithPriority :: "(int \<Rightarrow> int) \<Rightarrow> ctx_values option \<Rightarrow> Priority \<Rightarrow> 'd priorityLimiter \<Rightarrow> bool" where
  "pl_CanAcquirePermitWithPriority intn ctx prt l =
     pl_CanAcquirePermitWithLevel (bp_LevelFromContextWithPriority intn ctx prt (pl_prioritizer l)) l"

definition enhancedPermit :: "ctx_values option \<Rightarrow> 'd priorityLimiter \<Rightarrow> recordingPermit \<Rightarrow> recordingPermit" where
  "enhancedPermit ctx l p =
     (case (bp_UsageTracker (pl_prioritizer l), ctx) of
        (Some _, Some c) \<Rightarrow> if UserFromContext c \<noteq> [] then p\<lparr>pm_userID := UserFromContext c, pm_tracksUsage := True\<rparr> else p
      | _ \<Rightarrow> p)"

fun map_granted :: "(recordingPermit \<Rightarrow> recordingPermit) \<Rightarrow> 'r permit_outcome \<Rightarrow> 'r permit_outcome" where
  "map_granted f (Granted p) = Granted (f p)"
| "map_granted f r = r"

text \<open>The part that acquiring with and without a maximum wait share: levels are recorded when the limiter is full.\<close>

definition pl_admit :: "ctx_values option \<Rightarrow> int \<Rightarrow> ('d adaptiveLimiter \<Rightarrow> 'r permit_outcome \<times> 'd adaptiveLimiter) \<Rightarrow> 'd priorityLimiter
    \<Rightarrow> ('r permit_outcome \<times> 'd priorityLimiter) go" where
  "pl_admit ctx level acquire l =
     (if \<not> pl_CanAcquirePermitWithLevel level l then Inr (Denied al_ErrExceeded, l)
      else go_bind (if IsFull (al_semaphore (pl_limiter l))
                    then go_bind (RecordLevel level (bp_LevelTracker (pl_prioritizer l))) (\<lambda>lt.
                         Inr (l\<lparr>pl_prioritizer := (pl_prioritizer l)\<lparr>bp_LevelTracker := lt\<rparr>\<rparr>))
                    else Inr l) (\<lambda>l1.
           let (permit, lim) = acquire (pl_limiter l1); l2 = l1\<lparr>pl_limiter := lim\<rparr>
           in Inr (map_granted (enhancedPermit ctx l2) permit, l2)))"

definition pl_AcquirePermitWithLevel :: "ctx_values option \<Rightarrow> int \<Rightarrow> nanotime \<Rightarrow> 'd priorityLimiter \<Rightarrow> ('r permit_outcome \<times> 'd priorityLimiter) go" where
  "pl_AcquirePermitWithLevel ctx level now l = pl_admit ctx level (al_AcquirePermit now) l"

definition pl_AcquirePermit :: "(int \<Rightarrow> int) \<Rightarrow> ctx_values option \<Rightarrow> nanotime \<Rightarrow> 'd priorityLimiter \<Rightarrow> ('r permit_outcome \<times> 'd priorityLimiter) go" where
  "pl_AcquirePermit intn ctx now l = pl_AcquirePermitWithLevel ctx (bp_LevelFromContext intn ctx (pl_prioritizer l)) now l"

definition pl_AcquirePermitWithPriority :: "(int \<Rightarrow> int) \<Rightarrow> ctx_values option \<Rightarrow> Priority \<Rightarrow> nanotime \<Rightarrow> 'd priorityLimiter
    \<Rightarrow> ('r permit_outcome \<times> 'd priorityLimiter) go" where
  "pl_AcquirePermitWithPriority intn ctx prt now l =
     pl_AcquirePermitWithLevel ctx (bp_LevelFromContextWithPriority intn ctx prt (pl_prioritizer l)) now l"

definition pl_AcquirePermitWithMaxWait :: "(int \<Rightarrow> int) \<Rightarrow> ctx_values option \<Rightarrow> duration \<Rightarrow> nanotime \<Rightarrow> 'd priorityLimiter
    \<Rightarrow> ('r permit_outcome \<times> 'd priorityLimiter) go" where
  "pl_AcquirePermitWithMaxWait intn ctx maxWaitTime now l =
     pl_admit ctx (bp_LevelFromContext intn ctx (pl_prioritizer l)) (al_AcquirePermitWithMaxWait maxWaitTime now) l"

section \<open>The executor\<close>

text \<open>
  What the executor uses of a limiter \<open>'l\<close> (\<^verbatim>\<open>blockingLimiter\<close>): its methods, which get \<^verbatim>\<open>rand.Intn\<close> and \<^verbatim>\<open>rand.Float64\<close>, the adaptive limiter inside it, the
  usage tracker of its prioritizer, and how it completes a permit.
\<close>

record ('l, 'd, 'r) blockingLimiter =
  bl_canAcquirePermit :: "(int \<Rightarrow> int) \<Rightarrow> float64 \<Rightarrow> ctx_values \<Rightarrow> 'l \<Rightarrow> bool"
  bl_AcquirePermit :: "(int \<Rightarrow> int) \<Rightarrow> float64 \<Rightarrow> ctx_values \<Rightarrow> nanotime \<Rightarrow> 'l \<Rightarrow> ('r permit_outcome \<times> 'l) go"
  bl_AcquirePermitWithMaxWait :: "(int \<Rightarrow> int) \<Rightarrow> float64 \<Rightarrow> ctx_values \<Rightarrow> duration \<Rightarrow> nanotime \<Rightarrow> 'l \<Rightarrow> ('r permit_outcome \<times> 'l) go"
  bl_enhance :: "ctx_values \<Rightarrow> 'l \<Rightarrow> recordingPermit \<Rightarrow> recordingPermit"
  bl_limiter :: "('l, 'd adaptiveLimiter) ref"
  bl_tracker :: "('l, usageTracker option) ref"

definition blocking_adaptive :: "('d adaptiveLimiter, 'd, 'r) blockingLimiter" where
  "blocking_adaptive =
     \<lparr>bl_canAcquirePermit = (\<lambda>_ _ _ l. al_CanAcquirePermit l), bl_AcquirePermit = (\<lambda>_ _ _ now l. Inr (al_AcquirePermit now l)),
      bl_AcquirePermitWithMaxWait = (\<lambda>_ _ _ d now l. Inr (al_AcquirePermitWithMaxWait d now l)), bl_enhance = (\<lambda>_ _ p. p),
      bl_limiter = \<lparr>ref_get = (\<lambda>l. l), ref_put = (\<lambda>l _. l)\<rparr>, bl_tracker = \<lparr>ref_get = (\<lambda>_. None), ref_put = (\<lambda>_ l. l)\<rparr>\<rparr>"

definition blocking_queueing :: "('d adaptiveLimiter, 'd, 'r) blockingLimiter" where
  "blocking_queueing =
     \<lparr>bl_canAcquirePermit = (\<lambda>_ rnd _ l. ql_CanAcquirePermit rnd l), bl_AcquirePermit = (\<lambda>_ rnd _ now l. Inr (ql_AcquirePermit rnd now l)),
      bl_AcquirePermitWithMaxWait = (\<lambda>_ rnd _ d now l. Inr (ql_AcquirePermitWithMaxWait rnd d now l)), bl_enhance = (\<lambda>_ _ p. p),
      bl_limiter = \<lparr>ref_get = (\<lambda>l. l), ref_put = (\<lambda>l _. l)\<rparr>, bl_tracker = \<lparr>ref_get = (\<lambda>_. None), ref_put = (\<lambda>_ l. l)\<rparr>\<rparr>"

definition blocking_priority :: "('d priorityLimiter, 'd, 'r) blockingLimiter" where
  "blocking_priority =
     \<lparr>bl_canAcquirePermit = (\<lambda>intn _ ctx l. pl_CanAcquirePermit intn (Some ctx) l), bl_AcquirePermit = (\<lambda>intn _ ctx now l. pl_AcquirePermit intn (Some ctx) now l),
      bl_AcquirePermitWithMaxWait = (\<lambda>intn _ ctx d now l. pl_AcquirePermitWithMaxWait intn (Some ctx) d now l), bl_enhance = (\<lambda>ctx. enhancedPermit (Some ctx)),
      bl_limiter = \<lparr>ref_get = pl_limiter, ref_put = (\<lambda>lim l. l\<lparr>pl_limiter := lim\<rparr>)\<rparr>,
      bl_tracker = \<lparr>ref_get = (\<lambda>l. bp_UsageTracker (pl_prioritizer l)), ref_put = (\<lambda>ut l. l\<lparr>pl_prioritizer := (pl_prioritizer l)\<lparr>bp_UsageTracker := ut\<rparr>\<rparr>)\<rparr>\<rparr>"

text \<open>
  Waiting for a permit, for at most \<open>maxWait\<close>, if that is a time: the permit is there when the waiter was woken, whichever case the \<^verbatim>\<open>select\<close> takes; otherwise the
  context or the timer is done. A wait without a timer is one for the longest duration, and does not return when neither happened.
\<close>

definition wait_for_permit :: "('r, 's) runtime \<Rightarrow> ('l, 'd, 'r) blockingLimiter \<Rightarrow> ('s, 'l) ref \<Rightarrow> ctx_values \<Rightarrow> nat \<Rightarrow> duration option \<Rightarrow> nat
    \<Rightarrow> ('r, 's) world \<Rightarrow> (('r error + recordingPermit option) \<times> ('r, 's) world) run" where
  "wait_for_permit rt B p ctx x maxWait i w =
     (let w1 = pause rt (case maxWait of Some d \<Rightarrow> d | None \<Rightarrow> 2 ^ 63 - 1) x w;
          l = read_ref p w1; lim = ref_get (bl_limiter B) l;
          err = (if i \<in> set (sem_closed (al_semaphore lim)) then None
                 else case (exec_err x w1, maxWait) of
                        (Some e, None) \<Rightarrow> Some e
                      | (Some e, Some _) \<Rightarrow> Some (if rt_selects_timer rt (w_env w1) then ErrWaitExceeded else e)
                      | (None, Some _) \<Rightarrow> Some ErrWaitExceeded
                      | (None, None) \<Rightarrow> None)
      in case al_finish_wait (if maxWait = None then (\<lambda>e. e) else map_wait_error) (clock (w_env w1)) i err lim of
           Some (Granted q, lim') \<Rightarrow> run_return (Inr (Some (bl_enhance B ctx l q)), write_ref p (ref_put (bl_limiter B) lim' l) w1)
         | Some (Denied e, lim') \<Rightarrow> run_return (Inl e, write_ref p (ref_put (bl_limiter B) lim' l) w1)
         | _ \<Rightarrow> None)"

definition adaptive_acquire :: "('r, 's) runtime \<Rightarrow> (int \<Rightarrow> int) \<Rightarrow> (nat list \<Rightarrow> ctx_values) \<Rightarrow> ('l, 'd, 'r) blockingLimiter \<Rightarrow> ('s, 'l) ref \<Rightarrow> nat
    \<Rightarrow> ('r, 's) world \<Rightarrow> (('r error + recordingPermit option) \<times> ('r, 's) world) run" where
  "adaptive_acquire rt intn ctxValues B p x w =
     (let (rnd, v) = rt_rand rt (w_env w); w1 = w\<lparr>w_env := v\<rparr>; l = read_ref p w1; now = clock (w_env w1); ctx = ctxValues (Context x w1);
          maxWaitTime = al_maxWaitTime (al_config (ref_get (bl_limiter B) l))
      in run_go (if maxWaitTime = - 1 then bl_AcquirePermit B intn rnd ctx now l else bl_AcquirePermitWithMaxWait B intn rnd ctx maxWaitTime now l) (\<lambda>(r, l').
         let w2 = write_ref p l' w1 in
         case r of
           Granted q \<Rightarrow> run_return (Inr (Some q), w2)
         | Denied e \<Rightarrow> run_return (Inl e, w2)
         | Waiting i \<Rightarrow> wait_for_permit rt B p ctx x (if maxWaitTime = - 1 then None else Some maxWaitTime) i w2))"

definition check_only :: "('r, 's) runtime \<Rightarrow> (int \<Rightarrow> int) \<Rightarrow> (nat list \<Rightarrow> ctx_values) \<Rightarrow> ('l, 'd, 'r) blockingLimiter \<Rightarrow> ('s, 'l) ref \<Rightarrow> nat
    \<Rightarrow> ('r, 's) world \<Rightarrow> ('r error + recordingPermit option) \<times> ('r, 's) world" where
  "check_only rt intn ctxValues B p x w =
     (let (rnd, v) = rt_rand rt (w_env w); w1 = w\<lparr>w_env := v\<rparr>
      in (if \<not> bl_canAcquirePermit B intn rnd (ctxValues (Context x w1)) (read_ref p w1) then Inl al_ErrExceeded else Inr None, w1))"

definition finish_permit :: "'d tdigest_api \<Rightarrow> ('l, 'd, 'r) blockingLimiter \<Rightarrow> ('s, 'l) ref \<Rightarrow> nat \<Rightarrow> recordingPermit \<Rightarrow> ('r, 's) world \<Rightarrow> ('r, 's) world run" where
  "finish_permit D B p x q w =
     (let l = read_ref p w; lim = ref_get (bl_limiter B) l; now = clock (w_env w) in
      if IsCanceled x w then run_bind (permit_Drop D now q lim) (\<lambda>lim'. run_return (write_ref p (ref_put (bl_limiter B) lim' l) w))
      else case ref_get (bl_tracker B) l of
             Some ut \<Rightarrow> run_bind (permit_Record D now q ut lim) (\<lambda>(lim', ut').
               run_return (write_ref p (ref_put (bl_tracker B) (Some ut') (ref_put (bl_limiter B) lim' l)) w))
           | None \<Rightarrow> run_bind (al_record D now (now - pm_startTime q) (pm_currentInflight q) False lim) (\<lambda>lim'.
               run_return (write_ref p (ref_put (bl_limiter B) lim' l) w)))"

text \<open>\<open>checkOnly\<close> says whether a context carries \<^verbatim>\<open>policy.CheckOnlyKey\<close>.\<close>

definition adaptive_Apply :: "('r, 's) runtime \<Rightarrow> 'd tdigest_api \<Rightarrow> (int \<Rightarrow> int) \<Rightarrow> (nat list \<Rightarrow> ctx_values) \<Rightarrow> (nat list \<Rightarrow> bool) \<Rightarrow> ('l, 'd, 'r) blockingLimiter
    \<Rightarrow> ('s, 'l) ref \<Rightarrow> ('r, 's) policy" where
  "adaptive_Apply rt D intn ctxValues checkOnly B p i innerFn x w =
     run_bind (if checkOnly (Context x w) then run_return (check_only rt intn ctxValues B p x w) else adaptive_acquire rt intn ctxValues B p x w) (\<lambda>(r, w1).
       case r of
         Inl err \<Rightarrow>
           (case isCanceledWithResult (rt_zero rt) x w1 of
              Some cancelResult \<Rightarrow> run_return (cancelResult, w1)
            | None \<Rightarrow>
                run_return (FailureResult (rt_zero rt) err,
                  if al_onLimitExceeded (al_config (ref_get (bl_limiter B) (read_ref p w1))) \<and> errors_Is (Some err) (Some al_ErrExceeded)
                  then w1\<lparr>w_events := w_events w1 @ [Event ''onLimitExceeded'' (LastResult x w1) (LastError x w1)]\<rparr> else w1))
       | Inr permit \<Rightarrow>
           run_bind (innerFn x w1) (\<lambda>(result, w2).
           run_bind (case permit of None \<Rightarrow> run_return w2 | Some q \<Rightarrow> finish_permit D B p x q w2) (\<lambda>w3.
           base_PostExecute (base_IsFailure None) (\<lambda>x er w. run_return (base_OnSuccess None x er w)) (\<lambda>x er w. run_return (base_OnFailure None x er w)) x result w3)))"

section \<open>Rejection rates of queues\<close>

lemma queue_rate_cases:
  "qs_queued s < qs_rejectionThreshold s \<Longrightarrow> qs_ComputeRejectionRate s = 0"
  "qs_rejectionThreshold s \<le> qs_queued s \<Longrightarrow> qs_maxQueue s \<le> qs_queued s \<Longrightarrow> qs_ComputeRejectionRate s = 1"
  "qs_rejectionThreshold s \<le> qs_queued s \<Longrightarrow> qs_queued s < qs_maxQueue s \<Longrightarrow>
     qs_ComputeRejectionRate s = of_int (qs_queued s - qs_rejectionThreshold s) / of_int (qs_maxQueue s - qs_rejectionThreshold s)"
  by (simp_all add: qs_ComputeRejectionRate_def)

lemma queue_rate_bounds: "0 \<le> qs_ComputeRejectionRate s \<and> qs_ComputeRejectionRate s \<le> 1"
  by (auto simp: qs_ComputeRejectionRate_def divide_le_eq)

interpretation queues: rejection_rates queueRejectionStrategy "\<lambda>_. True"
  by unfold_locales (auto simp: queueRejectionStrategy_def queue_rate_bounds)

text \<open>The check of a queueing limiter, by the length of its queue.\<close>

lemma ql_Can_cases:
  assumes "\<not> al_CanAcquirePermit l" "rnd < 1"
  defines "s \<equiv> getQueueStats l"
  shows "qs_queued s < qs_rejectionThreshold s \<Longrightarrow> ql_CanAcquirePermit rnd l"
    "qs_rejectionThreshold s \<le> qs_queued s \<Longrightarrow> qs_maxQueue s \<le> qs_queued s \<Longrightarrow> \<not> ql_CanAcquirePermit rnd l"
    "qs_rejectionThreshold s \<le> qs_queued s \<Longrightarrow> qs_queued s < qs_maxQueue s \<Longrightarrow> ql_CanAcquirePermit rnd l \<longleftrightarrow>
       qs_queued s = qs_rejectionThreshold s \<or> of_int (qs_queued s - qs_rejectionThreshold s) < rnd * of_int (qs_maxQueue s - qs_rejectionThreshold s)"
proof -
  show "qs_queued s < qs_rejectionThreshold s \<Longrightarrow> ql_CanAcquirePermit rnd l"
    by (simp add: ql_CanAcquirePermit_def queue_rate_cases s_def)
  show "qs_rejectionThreshold s \<le> qs_queued s \<Longrightarrow> qs_maxQueue s \<le> qs_queued s \<Longrightarrow> \<not> ql_CanAcquirePermit rnd l"
    using assms(1) by (simp add: ql_CanAcquirePermit_def queue_rate_cases s_def)
  assume q: "qs_rejectionThreshold s \<le> qs_queued s" "qs_queued s < qs_maxQueue s"
  define n where "n = real_of_int (qs_queued s - qs_rejectionThreshold s)"
  define d where "d = real_of_int (qs_maxQueue s - qs_rejectionThreshold s)"
  have d: "0 \<le> n" "0 < d" "n < d" "n = 0 \<longleftrightarrow> qs_queued s = qs_rejectionThreshold s" using q by (auto simp: n_def d_def)
  have "qs_ComputeRejectionRate (getQueueStats l) = n / d" using queue_rate_cases(3)[OF q] by (simp add: s_def n_def d_def)
  moreover have "rnd \<le> n / d \<longleftrightarrow> rnd * d \<le> n" "1 \<le> n / d \<longleftrightarrow> d \<le> n" "n / d = 0 \<longleftrightarrow> n = 0" using d by (simp_all add: le_divide_eq)
  ultimately have "ql_CanAcquirePermit rnd l \<longleftrightarrow> n = 0 \<or> n < rnd * d" using assms(1) d by (auto simp: ql_CanAcquirePermit_def)
  then show "ql_CanAcquirePermit rnd l \<longleftrightarrow> qs_queued s = qs_rejectionThreshold s \<or> of_int (qs_queued s - qs_rejectionThreshold s) < rnd * of_int (qs_maxQueue s - qs_rejectionThreshold s)"
    using d(4) by (simp add: n_def d_def)
qed

lemma full_acquire:
  assumes "\<not> al_CanAcquirePermit l"
  shows "al_AcquirePermit now l = (Waiting (sem_next (al_semaphore l)), l\<lparr>al_semaphore := (al_semaphore l)
      \<lparr>sem_waiters := sem_waiters (al_semaphore l) @ [sem_next (al_semaphore l)], sem_next := Suc (sem_next (al_semaphore l))\<rparr>\<rparr>)"
  using assms by (simp add: al_CanAcquirePermit_def IsFull_def al_AcquirePermit_def outcome_permit_def sem_Acquire_def push_waiter_def Let_def)

lemma free_acquire:
  assumes "al_CanAcquirePermit l"
  shows "al_AcquirePermit now l = (Granted \<lparr>pm_startTime = now, pm_currentInflight = Inflight l + 1, pm_userID = [], pm_tracksUsage = False\<rparr>,
     l\<lparr>al_semaphore := (al_semaphore l)\<lparr>sem_used := sem_used (al_semaphore l) + 1\<rparr>\<rparr>)"
  using assms by (simp add: al_CanAcquirePermit_def IsFull_def al_AcquirePermit_def outcome_permit_def sem_Acquire_def newPermit_def Used_def Inflight_def Let_def)

lemma threshold_le_max:
  assumes "0 \<le> Limit l" "0 \<le> al_initialRejectionFactor (al_config l)" "al_initialRejectionFactor (al_config l) \<le> al_maxRejectionFactor (al_config l)"
  shows "qs_rejectionThreshold (getQueueStats l) \<le> qs_maxQueue (getQueueStats l)"
proof -
  have "of_int (Limit l) * al_initialRejectionFactor (al_config l) \<le> of_int (Limit l) * al_maxRejectionFactor (al_config l)"
    using assms by (intro mult_left_mono) simp_all
  then show ?thesis using assms by (auto simp: getQueueStats_def float_to_int_def floor_mono mult_less_0_iff)
qed

lemma Calibrate_rate:
  assumes "prioritizer_Calibrate w now order p = Inr p'" "bp_UsageTracker p = None"
  shows "bp_rejectionRate p' = ComputeRejectionRate (bp_Strategy p) (CombineStats (bp_Strategy p) (map (\<lambda>f. f w) (bp_statsFuncs p)))"
    "bp_numStats p' = bp_numStats p"
  using assms by (auto simp: prioritizer_Calibrate_def Let_def if_distrib[of bp_UsageTracker] split: if_splits)

section \<open>Properties of admission\<close>

text \<open>
  C30. A queueing limiter grants a permit at once while it has capacity. When it is full, it lets an execution wait while the queue is shorter than the limit times
  the initial factor, refuses it without a trace once the queue has the length of the limit times the maximum factor, and in between refuses it
  with a probability, over the random number, that grows linearly from 0 to 1 with the queue. So no caller that is not interrupted between its check and its acquisition makes the queue
  longer than the maximum; callers that check at the same time can (\<open>queue_checks_race\<close>).
\<close>

theorem queueing_limiter_admission:
  assumes "0 \<le> rnd \<and> rnd < 1" "0 \<le> Limit l"
    "0 \<le> al_initialRejectionFactor (al_config l) \<and> al_initialRejectionFactor (al_config l) \<le> al_maxRejectionFactor (al_config l)"
  defines "i \<equiv> qs_rejectionThreshold (getQueueStats l)" and "m \<equiv> qs_maxQueue (getQueueStats l)"
  shows "\<exists>(r :: 'r permit_outcome) l'. ql_AcquirePermit rnd now l = (r, l')
    \<and> (r = Denied al_ErrExceeded \<longleftrightarrow> \<not> al_CanAcquirePermit l \<and> i \<le> Queued l \<and> (m \<le> Queued l \<or> i < Queued l \<and> rnd * of_int (m - i) \<le> of_int (Queued l - i)))
    \<and> (r = Denied al_ErrExceeded \<longrightarrow> l' = l)
    \<and> (r \<noteq> Denied al_ErrExceeded \<and> al_CanAcquirePermit l \<longrightarrow> (\<exists>p. r = Granted p) \<and> Inflight l' = Inflight l + 1 \<and> Queued l' = Queued l)
    \<and> (r \<noteq> Denied al_ErrExceeded \<and> \<not> al_CanAcquirePermit l \<longrightarrow> (\<exists>w. r = Waiting w) \<and> Inflight l' = Inflight l \<and> Queued l' = Queued l + 1 \<and> Queued l' \<le> m)"
proof (cases "al_CanAcquirePermit l")
  case True
  then have "(ql_AcquirePermit rnd now l :: 'r permit_outcome \<times> _) = al_AcquirePermit now l" by (simp add: ql_AcquirePermit_def ql_CanAcquirePermit_def)
  then show ?thesis using True by (simp add: free_acquire Inflight_def Queued_def Used_def Waiters_def)
next
  case False
  note can = ql_Can_cases[OF False, of rnd, folded i_def m_def]
  have q: "qs_queued (getQueueStats l) = Queued l" by (simp add: getQueueStats_def)
  have im: "i \<le> m" unfolding i_def m_def using assms(2,3) by (intro threshold_le_max) auto
  have adm: "ql_CanAcquirePermit rnd l \<longleftrightarrow> \<not> (i \<le> Queued l \<and> (m \<le> Queued l \<or> i < Queued l \<and> rnd * of_int (m - i) \<le> of_int (Queued l - i)))"
    using can assms(1) unfolding q by (cases "Queued l < i"; cases "m \<le> Queued l") (auto simp: not_le)
  have "Queued l + 1 \<le> m" if "ql_CanAcquirePermit rnd l" using that adm im by auto
  then show ?thesis using False adm full_acquire[OF False, of now, where 'b = 'r]
    by (auto simp: ql_AcquirePermit_def Inflight_def Queued_def Used_def Waiters_def)
qed

text \<open>A queueing limiter with a limit of 2 that is full while 5 executions wait: the queue is between 2 * 2 and 2 * 3.\<close>

definition full_limiter :: "float64 list adaptiveLimiter" where
  "full_limiter = (al_Build list_digest 0 (al_NewBuilder\<lparr>al_initialLimit := 2, al_initialRejectionFactor := 2, al_maxRejectionFactor := 3\<rparr>))
     \<lparr>al_semaphore := \<lparr>sem_size = 2, sem_used = 2, sem_waiters = [0, 1, 2, 3, 4], sem_closed = [], sem_next = 5\<rparr>\<rparr>"

lemma full_limiter_facts:
  "\<not> al_CanAcquirePermit full_limiter" "Limit full_limiter = 2" "Queued full_limiter = 5"
  "al_initialRejectionFactor (al_config full_limiter) = 2" "al_maxRejectionFactor (al_config full_limiter) = 3"
  "getQueueStats full_limiter = \<lparr>qs_limit = 2, qs_queued = 5, qs_rejectionThreshold = 4, qs_maxQueue = 6\<rparr>"
  by (simp_all add: full_limiter_def al_CanAcquirePermit_def IsFull_def Limit_def Queued_def Waiters_def al_Build_def al_NewBuilder_def
      getQueueStats_def float_to_int_def float_of_uint_def)

theorem queueing_limiter_admission_witness:
  "\<exists>l'. (ql_AcquirePermit (1 / 4) 0 full_limiter :: unit permit_outcome \<times> _) = (Denied al_ErrExceeded, l') \<and> l' = full_limiter"
  using queueing_limiter_admission[of "1 / 4" full_limiter 0, where 'r = unit] by (auto simp: full_limiter_facts)

text \<open>Callers of a queueing limiter that have checked the queue and have not acquired yet, by their number.\<close>

inductive ql_step :: "'d adaptiveLimiter \<times> nat \<Rightarrow> 'd adaptiveLimiter \<times> nat \<Rightarrow> bool" where
  checks: "ql_CanAcquirePermit rnd l \<Longrightarrow> ql_step (l, k) (l, Suc k)"
| acquires: "(al_AcquirePermit now l :: unit permit_outcome \<times> 'd adaptiveLimiter) = (r, l') \<Longrightarrow> ql_step (l, Suc k) (l', k)"

text \<open>
  Any number of callers that check a queue while it is shorter than the rejection threshold all wait then, so that the queue gets longer than the maximum by any number.
\<close>

theorem queue_checks_race:
  assumes "\<not> al_CanAcquirePermit l" "Queued l < qs_rejectionThreshold (getQueueStats l)"
  shows "\<exists>l'. ql_step\<^sup>*\<^sup>* (l, 0) (l', 0) \<and> Queued l' = Queued l + int n \<and> Inflight l' = Inflight l \<and> getQueueStats l' = (getQueueStats l)\<lparr>qs_queued := Queued l'\<rparr>"
proof -
  have "ql_CanAcquirePermit 0 l" using assms by (intro ql_Can_cases(1)) (simp_all add: getQueueStats_def)
  then have "ql_step (l, k) (l, Suc k)" for k by (rule ql_step.checks)
  then have c: "ql_step\<^sup>*\<^sup>* (l, 0) (l, n)" by (induction n) (auto intro: rtranclp.rtrancl_into_rtrancl)
  have "\<exists>l'. ql_step\<^sup>*\<^sup>* (l, n) (l', 0) \<and> Queued l' = Queued l + int n \<and> Inflight l' = Inflight l \<and> getQueueStats l' = (getQueueStats l)\<lparr>qs_queued := Queued l'\<rparr>"
    using assms(1)
  proof (induction n arbitrary: l)
    case 0
    then show ?case by (intro exI[of _ l]) (simp add: getQueueStats_def)
  next
    case (Suc n)
    obtain l1 where l1: "(al_AcquirePermit 0 l :: unit permit_outcome \<times> _) = (Waiting (sem_next (al_semaphore l)), l1)" "Queued l1 = Queued l + 1" "Inflight l1 = Inflight l"
        "\<not> al_CanAcquirePermit l1" "Limit l1 = Limit l" "al_config l1 = al_config l"
      using full_acquire[OF Suc.prems, of 0, where 'b = unit] Suc.prems
      by (auto simp: Queued_def Waiters_def Inflight_def Used_def al_CanAcquirePermit_def IsFull_def Limit_def)
    obtain l' where "ql_step\<^sup>*\<^sup>* (l1, n) (l', 0)" "Queued l' = Queued l1 + int n" "Inflight l' = Inflight l1" "getQueueStats l' = (getQueueStats l1)\<lparr>qs_queued := Queued l'\<rparr>"
      using Suc.IH[OF l1(4)] by blast
    moreover have "getQueueStats l1 = (getQueueStats l)\<lparr>qs_queued := Queued l1\<rparr>" using l1(5,6) by (simp add: getQueueStats_def)
    ultimately show ?case
      using ql_step.acquires[OF l1(1), of n] l1(2,3) by (intro exI[of _ l']) (auto intro: converse_rtranclp_into_rtranclp)
  qed
  with c show ?thesis by (meson rtranclp_trans)
qed

text \<open>
  C31. A full priority limiter, the only one of its prioritizer, after a calibration: the rate is the one of its queue, and the threshold sheds at most that share of the
  recent levels, while the next one would shed at least that share. An execution of any level is refused, without a trace, when the queue has its maximum length; before that, it is
  refused if its level is below the threshold, and otherwise, also at the threshold itself, its level is recorded and it waits.
\<close>

theorem priority_limiter_sheds_low_levels:
  fixes lim :: "'d adaptiveLimiter"
  assumes full: "\<not> al_CanAcquirePermit lim" and levels: "\<forall>l \<in> set ls. valid_level l" "valid_level level"
  defines "q \<equiv> getQueueStats lim"
  defines "r \<equiv> qs_ComputeRejectionRate q"
  shows "\<exists>p0 lt p'. prioritizer_Build al_NewPrioritizerBuilder = Inr p0 \<and> record_levels (bp_LevelTracker p0) ls = Inr lt
    \<and> prioritizer_Calibrate (\<lambda>_. lim) now order ((Register (\<lambda>limiters. getQueueStats (limiters i)) p0)\<lparr>bp_LevelTracker := lt\<rparr>) = Inr p'
    \<and> bp_RejectionRate p' = Some r \<and> valid_level (RejectionThreshold p')
    \<and> real (length (filter (\<lambda>l. l < RejectionThreshold p') (last_n 1000 ls))) \<le> r * real (length (last_n 1000 ls))
    \<and> (0 < r \<longrightarrow> r * real (length (last_n 1000 ls)) \<le> real (length (filter (\<lambda>l. l \<le> RejectionThreshold p') (last_n 1000 ls))))
    \<and> (\<exists>(res :: 'r permit_outcome) l'. pl_AcquirePermitWithLevel ctx level now \<lparr>pl_limiter = lim, pl_prioritizer = p'\<rparr> = Inr (res, l')
        \<and> (if qs_maxQueue q \<le> Queued lim \<or> level < RejectionThreshold p' then res = Denied al_ErrExceeded \<and> l' = \<lparr>pl_limiter = lim, pl_prioritizer = p'\<rparr>
           else (\<exists>i. res = Waiting i) \<and> Queued (pl_limiter l') = Queued lim + 1 \<and> record_levels lt [level] = Inr (bp_LevelTracker (pl_prioritizer l'))))"
proof -
  obtain lt0 where lt0: "NewLevelTracker 1000 = Inr lt0" "tracker_inv 1000 [] lt0" using NewLevelTracker_inv[of 1000] by auto
  obtain lt where lt: "record_levels lt0 ls = Inr lt" "tracker_inv 1000 ls lt"
    using record_levels_inv[OF _ _ lt0(2), of ls] levels(1) by auto
  obtain p0 :: "'d limiter_prioritizer" where p0: "prioritizer_Build al_NewPrioritizerBuilder = Inr p0" "bp_LevelTracker p0 = lt0" "bp_UsageTracker p0 = None"
      "bp_Strategy p0 = queueRejectionStrategy" "bp_statsFuncs p0 = []" "bp_numStats p0 = 0"
    using lt0(1) by (auto simp: prioritizer_Build_def al_NewPrioritizerBuilder_def new_BasePrioritizerConfig_def)
  let ?p = "(Register (\<lambda>limiters. getQueueStats (limiters i)) p0)\<lparr>bp_LevelTracker := lt\<rparr>"
  have p: "bp_Strategy ?p = queueRejectionStrategy" "bp_statsFuncs ?p = [\<lambda>limiters. getQueueStats (limiters i)]" "bp_UsageTracker ?p = None" "bp_numStats ?p = 1"
    using p0 by (simp_all add: Register_def i32_def)
  have rate: "ComputeRejectionRate queueRejectionStrategy (CombineStats queueRejectionStrategy [q]) = Some r"
    by (simp add: queueRejectionStrategy_def queue_CombineStats_def r_def qs_ComputeRejectionRate_def)
  have st: "\<forall>f \<in> set (bp_statsFuncs ?p). True" by simp
  have lt': "tracker_inv 1000 ls (bp_LevelTracker ?p)" using lt(2) by simp
  obtain p' where c: "prioritizer_Calibrate (\<lambda>_. lim) now order ?p = Inr p'" "bp_LevelTracker p' = lt"
     "valid_level (RejectionThreshold p')" "case bp_RejectionRate p' of None \<Rightarrow> RejectionThreshold p' = 0
       | Some r \<Rightarrow> 0 \<le> r \<and> r \<le> 1 \<and> real (length (filter (\<lambda>l. l < RejectionThreshold p') (last_n 1000 ls))) \<le> r * real (length (last_n 1000 ls))
           \<and> (0 < r \<longrightarrow> r * real (length (last_n 1000 ls)) \<le> real (length (filter (\<lambda>l. l \<le> RejectionThreshold p') (last_n 1000 ls))))"
    using queues.calibrated_threshold[OF p(1) st p(3) _ lt' levels(1), of "\<lambda>_. lim" now order] by auto
  have p': "bp_RejectionRate p' = Some r" "RegisteredPolicies p' = 1"
    using Calibrate_rate[OF c(1) p(3)] p rate by (simp_all add: bp_RejectionRate_def RegisteredPolicies_def q_def)
  obtain lt1 where lt1: "RecordLevel level lt = Inr lt1" using RecordLevel_step[OF _ levels(2,1) lt(2)] by auto
  have isfull: "IsFull (al_semaphore lim)" using full by (simp add: al_CanAcquirePermit_def)
  have max: "float_to_int (of_int (Limit lim) * al_maxRejectionFactor (al_config lim)) = qs_maxQueue q" by (simp add: q_def getQueueStats_def)
  let ?l = "\<lparr>pl_limiter = lim, pl_prioritizer = p'\<rparr>"
  have can: "pl_CanAcquirePermitWithLevel level ?l \<longleftrightarrow> \<not> (qs_maxQueue q \<le> Queued lim \<or> level < RejectionThreshold p')"
    using full p'(2) by (auto simp: pl_CanAcquirePermitWithLevel_def Let_def max)
  have "\<exists>(res :: 'r permit_outcome) l'. pl_AcquirePermitWithLevel ctx level now ?l = Inr (res, l')
        \<and> (if qs_maxQueue q \<le> Queued lim \<or> level < RejectionThreshold p' then res = Denied al_ErrExceeded \<and> l' = ?l
           else (\<exists>i. res = Waiting i) \<and> Queued (pl_limiter l') = Queued lim + 1 \<and> record_levels lt [level] = Inr (bp_LevelTracker (pl_prioritizer l')))"
    using can isfull full_acquire[OF full, of now, where 'b = 'r] c(2) lt1
    by (simp add: pl_AcquirePermitWithLevel_def pl_admit_def Queued_def Waiters_def)
  with p0(1,2) lt(1) p'(1) c show ?thesis by (intro exI[of _ p0] exI[of _ lt] exI[of _ p']) simp
qed

theorem priority_limiter_sheds_low_levels_witness:
  "\<exists>p0 lt p'. prioritizer_Build al_NewPrioritizerBuilder = Inr p0 \<and> record_levels (bp_LevelTracker p0) [10, 200] = Inr lt
    \<and> prioritizer_Calibrate (\<lambda>_. full_limiter) 7 [] ((Register (\<lambda>limiters. getQueueStats (limiters (0 :: nat))) p0)\<lparr>bp_LevelTracker := lt\<rparr>) = Inr p'
    \<and> bp_RejectionRate p' = Some (1 / 2) \<and> valid_level (RejectionThreshold p')"
proof -
  have "qs_ComputeRejectionRate (getQueueStats full_limiter) = 1 / 2" by (simp add: full_limiter_facts qs_ComputeRejectionRate_def)
  then show ?thesis
    using priority_limiter_sheds_low_levels[OF full_limiter_facts(1), of "[10, 200]" 5 7 "[]" 0, where 'r = unit] by (fastforce simp: totalLevels_def)
qed

section \<open>Lemmas on the executor\<close>

lemma wait_frame:
  assumes "wait_for_permit rt B p ctx x maxWait i w = Some (Inr (r, w'))"
  shows "same_run w w'"
  using assms by (auto simp: wait_for_permit_def Let_def run_return_def split: option.splits permit_outcome.splits
      intro!: same_run_trans[OF frame_pause frame_write_ref])

lemma env_frame: "same_run w (write_ref p l (w\<lparr>w_env := v\<rparr>))"
  by (simp add: same_run_def write_ref_def set_env_def)

lemma outcome_frame:
  assumes "(case r of Granted q \<Rightarrow> run_return (Inr (Some q), w2) | Denied e \<Rightarrow> run_return (Inl e, w2) | Waiting i \<Rightarrow> wait_for_permit rt B p ctx x d i w2) = Some (Inr (a, w'))"
    and "same_run w w2"
  shows "same_run w w'"
  using assms same_run_trans[OF _ wait_frame] by (cases r) (auto simp: run_return_def)

lemma acquire_frame:
  assumes "adaptive_acquire rt intn ctxValues B p x w = Some (Inr (r, w'))"
  shows "same_run w w'"
  using assms by (auto simp: adaptive_acquire_def Let_def split_beta run_go_cases elim!: outcome_frame intro: env_frame)

lemma check_frame: "check_only rt intn ctxValues B p x w = (r, w') \<Longrightarrow> same_run w w'"
  by (auto simp: check_only_def Let_def split_beta same_run_def)

lemma finish_frame:
  assumes "finish_permit D B p x q w = Some (Inr w')"
  shows "same_run w w'"
  using assms by (auto simp: finish_permit_def Let_def run_bind_cases run_return_def intro: frame_write_ref split: if_splits option.splits)

lemma plain_post:
  "\<exists>r'. base_PostExecute (base_IsFailure None) (\<lambda>x er w. run_return (base_OnSuccess None x er w)) (\<lambda>x er w. run_return (base_OnFailure None x er w)) x r w
     = Some (Inr (r', w)) \<and> Result r' = Result r \<and> Error r' = Error r"
  by (simp add: base_PostExecute_def base_OnSuccess_def base_OnFailure_def call_listener_def run_return_def Let_def WithDone_def WithFailure_def)

lemma adaptive_one_call: "one_call (adaptive_Apply rt D intn ctxValues checkOnly B p i)"
  unfolding one_call_def
proof (intro allI impI)
  fix f x w r w' assume run: "adaptive_Apply rt D intn ctxValues checkOnly B p i f x w = Some (Inr (r, w'))"
  then obtain a w1 where a: "(if checkOnly (Context x w) then run_return (check_only rt intn ctxValues B p x w) else adaptive_acquire rt intn ctxValues B p x w) = Some (Inr (a, w1))"
    by (auto simp: adaptive_Apply_def run_bind_cases)
  then have s: "same_run w w1" using acquire_frame check_frame by (fastforce simp: run_return_def split: if_splits)
  show "same_run w w' \<or> (\<exists>y w1 r2 w2. same_run w w1 \<and> f y w1 = Some (Inr (r2, w2)) \<and> same_run w2 w')"
  proof (cases a)
    case (Inl err)
    have "same_run w (w1\<lparr>w_events := es\<rparr>)" for es using s by (simp add: same_run_def)
    with Inl s run a show ?thesis by (auto simp: adaptive_Apply_def run_return_def split: option.splits if_splits)
  next
    case (Inr permit)
    then obtain r2 w2 w3 where f: "f x w1 = Some (Inr (r2, w2))" "(case permit of None \<Rightarrow> run_return w2 | Some q \<Rightarrow> finish_permit D B p x q w2) = Some (Inr w3)"
       "base_PostExecute (base_IsFailure None) (\<lambda>x er w. run_return (base_OnSuccess None x er w)) (\<lambda>x er w. run_return (base_OnFailure None x er w)) x r2 w3 = Some (Inr (r, w'))"
      using run a by (auto simp: adaptive_Apply_def run_bind_cases)
    have "same_run w2 w3" using f(2) finish_frame by (fastforce simp: run_return_def same_run_refl split: option.splits)
    moreover have "w' = w3" using f(3) plain_post[of x r2 w3] by auto
    ultimately show ?thesis using s f(1) by blast
  qed
qed

interpretation adaptive: single_shot "adaptive_Apply rt D intn ctxValues checkOnly B p i" for rt D intn ctxValues checkOnly B p i
  by (rule one_call_single_shot[OF adaptive_one_call])

text \<open>Recording on a limiter without a queue gives the permit back.\<close>

lemma wake_loop_no_waiters: "sem_waiters s = [] \<Longrightarrow> wake_loop n s = s"
  by (simp add: wake_loop.simps)

lemma SetSize_no_waiters: "sem_waiters s = [] \<Longrightarrow> SetSize n s = s\<lparr>sem_size := n\<rparr>"
  by (simp add: SetSize_def wake_loop_no_waiters)

lemma record_returns_permit:
  assumes D: "tdigest_laws D holds" and inv: "lim_inv holds l" and sem: "0 \<le> Inflight l" "Queued l = 0" and rtt: "rtt_ok rtt"
  defines "s \<equiv> (al_semaphore l)\<lparr>sem_used := sem_used (al_semaphore l) + 1\<rparr>"
  shows "\<exists>l'. al_record D now rtt (Inflight l + 1) dropped (l\<lparr>al_semaphore := s\<rparr>) = Some (Inr l') \<and> lim_inv holds l'
    \<and> \<bar>al_limit l' - al_limit l\<bar> \<le> step_of (al_limit l) \<and> Inflight l' = Inflight l \<and> Queued l' = 0"
proof -
  let ?l = "l\<lparr>al_semaphore := s\<rparr>"
  have w: "sem_waiters s = []" "sem_used s = Inflight l + 1" using sem by (simp_all add: s_def Inflight_def Used_def Queued_def Waiters_def)
  have "lim_inv holds ?l" using inv by (intro lim_inv_semaphore) (simp_all add: s_def)
  then obtain l' s' where l': "al_record D now rtt (Inflight l + 1) dropped ?l = Some (Inr l')" "lim_inv holds l'" "\<bar>al_limit l' - al_limit l\<bar> \<le> step_of (al_limit l)"
      "s' = s \<or> (\<exists>n. s' = SetSize n s)" "Release s' = Inr (al_semaphore l')"
    using tdigest_laws.record_step[OF D, of ?l rtt "Inflight l + 1" now dropped] w(2) sem(1) rtt by auto
  then have "sem_waiters s' = []" "sem_used s' = Inflight l + 1" using w SetSize_no_waiters by auto
  moreover from this have "al_semaphore l' = s'\<lparr>sem_used := Inflight l\<rparr>" using l'(5) sem(1) by (simp add: Release_def Let_def)
  ultimately have "Inflight l' = Inflight l" "Queued l' = 0" by (simp_all add: Inflight_def Used_def Queued_def Waiters_def)
  with l'(1-3) show ?thesis by blast
qed

section \<open>Properties of executions\<close>

text \<open>
  An execution with a limiter that does not wait calls its function once if the limiter has capacity; while it runs one more execution is in flight, and afterwards the permit
  is given back, whatever the result, and the limit has moved by at most a step. Without capacity it returns \<^verbatim>\<open>ErrExceeded\<close>, calls nothing and leaves
  the limiter as it was.
\<close>

theorem adaptive_executor_returns_permit:
  fixes rt :: "('r, 's) runtime" and l :: "'d adaptiveLimiter"
  assumes D: "tdigest_laws D holds" and ref: "\<And>obj s. ref_get p (ref_put p obj s) = obj" and rand: "snd (rt_rand rt v) = v"
    and l: "ref_get p (objs v) = l" "lim_inv holds l" "0 \<le> Inflight l" "Queued l = 0" "al_maxWaitTime (al_config l) = 0"
    and run: "\<not> checkOnly []" "u = v\<lparr>objs := ref_put p (l\<lparr>al_semaphore := (al_semaphore l)\<lparr>sem_used := Inflight l + 1\<rparr>\<rparr>) (objs v)\<rparr>"
      "ref_get p (objs (snd (fn u))) = ref_get p (objs u)" "0 \<le> clock v" "clock v < clock (snd (fn u))" "in_i64 (clock (snd (fn u)))"
  shows "\<exists>out w. executor_Get rt fn (executor_With [adaptive_Apply rt D intn ctxValues checkOnly blocking_adaptive p]) v = Some (Inr (out, w))
    \<and> (if al_CanAcquirePermit l
       then w_executions w = 1 \<and> out = fst (fn u) \<and> lim_inv holds (read_ref p w) \<and> Inflight (read_ref p w) = Inflight l \<and> Queued (read_ref p w) = 0
          \<and> \<bar>al_limit (read_ref p w) - al_limit l\<bar> \<le> of_int (limit_step (Limit l))
       else w_executions w = 0 \<and> out = (rt_zero rt, Some al_ErrExceeded) \<and> read_ref p w = l)"
proof -
  define w0 where "w0 = newExecution (rt_zero rt) [] v"
  note w0 = new_world[of "rt_zero rt" "[]" v, folded w0_def]
  obtain rnd where rnd: "rt_rand rt v = (rnd, v)" using rand by (metis prod.collapse)
  have r0: "read_ref p w0 = l" by (simp add: read_ref_def w0 l)
  note unfolds = executor_Get_def executeSync_def execute_def executor_With_def adaptive_Apply_def run_return_def Let_def
  have free: "al_AcquirePermitWithMaxWait 0 (clock v) l =
      (if al_CanAcquirePermit l then (Granted \<lparr>pm_startTime = clock v, pm_currentInflight = Inflight l + 1, pm_userID = [], pm_tracksUsage = False\<rparr>,
          l\<lparr>al_semaphore := (al_semaphore l)\<lparr>sem_used := Inflight l + 1\<rparr>\<rparr>) else (Denied (al_ErrExceeded :: 'r error), l))"
    by (simp add: al_CanAcquirePermit_def IsFull_def al_AcquirePermitWithMaxWait_def outcome_permit_def AcquireWithMaxWait_def newPermit_def Used_def Inflight_def
        map_wait_error_def errors_Is_def ErrWaitExceeded_def Let_def)
  define w1 where "w1 = write_ref p (snd (al_AcquirePermitWithMaxWait 0 (clock v) l :: 'r permit_outcome \<times> _)) w0"
  have w1: "w_env w1 = v\<lparr>objs := ref_put p (snd (al_AcquirePermitWithMaxWait 0 (clock v) l :: 'r permit_outcome \<times> _)) (objs v)\<rparr>" "w_executions w1 = 0" "w_timers w1 = []" "Context 0 w1 = []"
    using w0 by (simp_all add: w1_def write_ref_def set_env_def Context_def get_exec_def)
  have self: "w0\<lparr>w_env := v\<rparr> = w0" using w0(1) by simp
  have err: "exec_err 0 w = None" if "Context 0 w = []" for w :: "('r, 's) world" using that by (simp add: exec_err_def Context_def)
  have acq: "adaptive_acquire rt intn ctxValues blocking_adaptive p 0 w0 =
      Some (Inr (case fst (al_AcquirePermitWithMaxWait 0 (clock v) l) of Granted q \<Rightarrow> Inr (Some q) | Denied e \<Rightarrow> Inl e | Waiting i \<Rightarrow> Inr None, w1))"
    using free by (auto simp: adaptive_acquire_def w0 rnd self r0 l blocking_adaptive_def run_go_def run_return_def Let_def w1_def)
  show ?thesis
  proof (cases "al_CanAcquirePermit l")
    case False
    have "isCanceledWithResult (rt_zero rt) 0 w1 = None" using err[OF w1(4)] by (simp add: isCanceledWithResult_def)
    moreover have "w_executions (w1\<lparr>w_events := es\<rparr>) = 0" "read_ref p (w1\<lparr>w_events := es\<rparr>) = l" "read_ref p w1 = l" for es
      using w1 ref free False by (simp_all add: read_ref_def)
    ultimately show ?thesis using False acq free run(1) w0(3) by (auto simp: unfolds FailureResult_def simp flip: w0_def)
  next
    case True
    let ?q = "\<lparr>pm_startTime = clock v, pm_currentInflight = Inflight l + 1, pm_userID = [], pm_tracksUsage = False\<rparr>"
    let ?s = "(al_semaphore l)\<lparr>sem_used := sem_used (al_semaphore l) + 1\<rparr>"
    have u: "w_env w1 = u" using w1(1) free True run(2) by simp
    define w2 where "w2 = exec_record (w1\<lparr>w_env := snd (fn u)\<rparr>)"
    have w2: "w_env w2 = snd (fn u)" "w_executions w2 = 1" "Context 0 w2 = []"
      using w1 by (simp_all add: w2_def exec_record_def Context_def get_exec_def)
    let ?r = "\<lparr>Result = fst (fst (fn u)), Error = snd (fst (fn u)), Done = True, Success = True, SuccessAll = True\<rparr>"
    have call: "call_fn rt (\<lambda>_. fn) False 0 w1 = Some (Inr (?r, w2))" unfolding w2_def u[symmetric] by (rule call_fn_no_timers[OF w1(3)])
    have rd: "read_ref p w2 = l\<lparr>al_semaphore := ?s\<rparr>" using run(2,3) ref w2(1) by (simp add: read_ref_def Inflight_def Used_def)
    have "rtt_ok (clock (w_env w2) - clock v)" using run(4-6) w2(1) by (auto simp: rtt_ok_def in_i64_def)
    from record_returns_permit[OF D l(2-4) this] obtain l' where l': "al_record D (clock (w_env w2)) (clock (w_env w2) - clock v) (Inflight l + 1) False (l\<lparr>al_semaphore := ?s\<rparr>) = Some (Inr l')"
        "lim_inv holds l'" "\<bar>al_limit l' - al_limit l\<bar> \<le> step_of (al_limit l)" "Inflight l' = Inflight l" "Queued l' = 0" by blast
    have fin: "finish_permit D blocking_adaptive p 0 ?q w2 = Some (Inr (write_ref p l' w2))"
      using err[OF w2(3)] rd l'(1) by (simp add: finish_permit_def IsCanceled_def blocking_adaptive_def run_return_def Let_def)
    obtain r' where post: "base_PostExecute (base_IsFailure None) (\<lambda>x er w. run_return (base_OnSuccess None x er w)) (\<lambda>x er w. run_return (base_OnFailure None x er w)) 0 ?r
        (write_ref p l' w2) = Some (Inr (r', write_ref p l' w2))" "Result r' = Result ?r" "Error r' = Error ?r"
      using plain_post by blast
    have "w_executions (write_ref p l' w2) = 1" "read_ref p (write_ref p l' w2) = l'"
      using w2(2) ref by (simp_all add: write_ref_def set_env_def read_ref_def)
    with True acq free run(1) w0(3) call fin post l' show ?thesis
      by (simp add: unfolds step_of_def Limit_def flip: w0_def)
  qed
qed

text \<open>The environment that holds just a limiter.\<close>

definition the_adaptive :: "(float64 list adaptiveLimiter, float64 list adaptiveLimiter) ref" where
  "the_adaptive = \<lparr>ref_get = (\<lambda>l. l), ref_put = (\<lambda>l _. l)\<rparr>"

definition adaptive_runtime :: "(int, float64 list adaptiveLimiter) runtime" where
  "adaptive_runtime = \<lparr>rt_zero = 0, rt_pause = (\<lambda>_ _ v. v), rt_rand = (\<lambda>v. (1 / 2, v)), rt_fires = (\<lambda>t v. t \<le> clock v),
     rt_selects_ctx = (\<lambda>_. True), rt_selects_timer = (\<lambda>_. False), rt_fuel = 0\<rparr>"

theorem adaptive_executor_returns_permit_witness:
  "\<exists>w out. executor_Get adaptive_runtime (\<lambda>v. ((5, None), v\<lparr>clock := 9\<rparr>))
      (executor_With [adaptive_Apply adaptive_runtime list_digest (\<lambda>_. 0) (\<lambda>_. []) (\<lambda>_. False) blocking_adaptive the_adaptive])
      \<lparr>clock = 0, ctx_errs = (\<lambda>_. None), objs = al_Build list_digest 0 al_NewBuilder\<rparr> = Some (Inr (out, w))
    \<and> w_executions w = 1 \<and> out = (5, None) \<and> Inflight (read_ref the_adaptive w) = 0"
proof -
  let ?l = "al_Build list_digest 0 al_NewBuilder"
  have l: "Inflight ?l = 0" "Queued ?l = 0" "al_maxWaitTime (al_config ?l) = 0" "al_CanAcquirePermit ?l"
    by (simp_all add: Inflight_def Used_def Queued_def Waiters_def al_Build_def al_NewBuilder_def has_queue_def NewDynamicSemaphore_def al_CanAcquirePermit_def IsFull_def)
  show ?thesis
    using adaptive_executor_returns_permit[OF list_td.tdigest_laws_axioms _ _ _ lim_inv_Build[OF list_td.tdigest_laws_axioms al_cfg_ok_default], of the_adaptive adaptive_runtime
      "\<lparr>clock = 0, ctx_errs = (\<lambda>_. None), objs = ?l\<rparr>" 0 "\<lambda>_. False" _ "\<lambda>v. ((5, None), v\<lparr>clock := 9\<rparr>)" "\<lambda>_. 0" "\<lambda>_. []"] l
    by (auto simp: the_adaptive_def adaptive_runtime_def in_i64_def)
qed

end
