(* ===== verification/Calibrations.thy ===== *)
theory Calibrations
  imports Prioritizer
begin

text \<open>
  \<^verbatim>\<open>ScheduleCalibrations\<close> (src/internal/prioritizer.go): its goroutine, the ticker it waits for and the cancel function it returns, as a machine whose
  steps are the passing of time, the end of the context, calls of the cancel function, other uses of the prioritizer and the cases of the goroutine's
  \<^verbatim>\<open>select\<close>, which are taken in any order among those that are ready. A ticker holds back at most one tick and drops those that come meanwhile; a panic in any
  goroutine ends the program.
\<close>

section \<open>Schedules\<close>

record ('w, 'q) schedule =
  sd_prioritizer :: "('w, 'q) BasePrioritizer"
  sd_interval :: duration
  sd_now :: nanotime
  sd_nextTick :: nanotime
  sd_tick :: bool
  sd_ctxDone :: bool
  sd_done :: bool
  sd_running :: bool
  sd_calibrations :: nat

definition ScheduleCalibrations :: "bool \<Rightarrow> duration \<Rightarrow> nanotime \<Rightarrow> ('w, 'q) BasePrioritizer \<Rightarrow> ('w, 'q) schedule go" where
  "ScheduleCalibrations ctxDone interval now p =
     (if interval \<le> 0 then Inl (Panic ''non-positive interval for NewTicker'')
      else Inr \<lparr>sd_prioritizer = p, sd_interval = interval, sd_now = now, sd_nextTick = now + interval, sd_tick = False, sd_ctxDone = ctxDone,
                sd_done = False, sd_running = True, sd_calibrations = 0\<rparr>)"

text \<open>The runtime schedules the tick after a late one at the next multiple of the interval.\<close>

definition elapse :: "duration \<Rightarrow> ('w, 'q) schedule \<Rightarrow> ('w, 'q) schedule" where
  "elapse d s =
     (let now = sd_now s + max 0 d
      in if sd_running s \<and> sd_nextTick s \<le> now
         then s\<lparr>sd_now := now, sd_tick := True, sd_nextTick := sd_nextTick s + sd_interval s * (1 + (now - sd_nextTick s) div sd_interval s)\<rparr>
         else s\<lparr>sd_now := now\<rparr>)"

definition select_ctx_done :: "('w, 'q) schedule \<Rightarrow> ('w, 'q) schedule" where
  "select_ctx_done s = (if sd_running s \<and> sd_ctxDone s then s\<lparr>sd_running := False\<rparr> else s)"

definition select_done :: "('w, 'q) schedule \<Rightarrow> ('w, 'q) schedule" where
  "select_done s = (if sd_running s \<and> sd_done s then s\<lparr>sd_running := False\<rparr> else s)"

definition select_tick :: "'w \<Rightarrow> string list \<Rightarrow> ('w, 'q) schedule \<Rightarrow> ('w, 'q) schedule go" where
  "select_tick w order s =
     (if sd_running s \<and> sd_tick s
      then go_bind (prioritizer_Calibrate w (sd_now s) order (sd_prioritizer s)) (\<lambda>p.
             Inr (s\<lparr>sd_prioritizer := p, sd_tick := False, sd_calibrations := sd_calibrations s + 1\<rparr>))
      else Inr s)"

definition stop_calibrations :: "('w, 'q) schedule \<Rightarrow> ('w, 'q) schedule go" where
  "stop_calibrations s = (if sd_done s then Inl (Panic ''close of closed channel'') else Inr (s\<lparr>sd_done := True\<rparr>))"

datatype ('w, 'q) sched_act =
    Elapse duration
  | EndContext
  | CallCancel
  | UsePrioritizer "('w, 'q) BasePrioritizer"
  | SelectCtxDone
  | SelectDone
  | SelectTick 'w "string list"

fun sched_step :: "('w, 'q) sched_act \<Rightarrow> ('w, 'q) schedule \<Rightarrow> ('w, 'q) schedule go" where
  "sched_step (Elapse d) s = Inr (elapse d s)"
| "sched_step EndContext s = Inr (s\<lparr>sd_ctxDone := True\<rparr>)"
| "sched_step CallCancel s = stop_calibrations s"
| "sched_step (UsePrioritizer p) s = Inr (s\<lparr>sd_prioritizer := p\<rparr>)"
| "sched_step SelectCtxDone s = Inr (select_ctx_done s)"
| "sched_step SelectDone s = Inr (select_done s)"
| "sched_step (SelectTick w order) s = select_tick w order s"

fun sched_run :: "('w, 'q) sched_act list \<Rightarrow> ('w, 'q) schedule \<Rightarrow> ('w, 'q) schedule go" where
  "sched_run [] s = Inr s"
| "sched_run (a # as) s = go_bind (sched_step a s) (sched_run as)"

lemma sched_run_append: "sched_run (as @ bs) s = go_bind (sched_run as s) (sched_run bs)"
proof (induction as arbitrary: s)
  case (Cons a as)
  then show ?case by (cases "sched_step a s") simp_all
qed simp

section \<open>Ticks\<close>

lemmas sched_step_defs = elapse_def select_ctx_done_def select_done_def select_tick_def stop_calibrations_def

text \<open>Since \<open>start\<close>, each interval allowed for at most one tick, and each tick for one calibration; the goroutine ends for a reason.\<close>

definition sched_inv :: "nanotime \<Rightarrow> duration \<Rightarrow> ('w, 'q) schedule \<Rightarrow> bool" where
  "sched_inv start interval s \<longleftrightarrow> 0 < interval \<and> sd_interval s = interval \<and>
     (int (sd_calibrations s) + (if sd_tick s then 1 else 0)) * interval \<le> sd_nextTick s - interval - start \<and>
     sd_nextTick s - interval \<le> sd_now s \<and> (sd_running s \<or> sd_ctxDone s \<or> sd_done s)"

lemma sched_inv_start: "ScheduleCalibrations c interval now p = Inr s \<Longrightarrow> sched_inv now interval s"
  by (auto simp: ScheduleCalibrations_def sched_inv_def split: if_splits)

lemma next_tick:
  fixes i :: int
  assumes "0 < i" "n \<le> t"
  shows "n + i \<le> n + i * (1 + (t - n) div i)" "n + i * (1 + (t - n) div i) - i \<le> t"
proof -
  have "0 \<le> (t - n) div i" using assms by (simp add: pos_imp_zdiv_nonneg_iff)
  then show "n + i \<le> n + i * (1 + (t - n) div i)" using assms(1) by (simp add: distrib_left)
  have "i * ((t - n) div i) \<le> t - n" using assms(1) by (metis mult.commute pos_mod_sign minus_div_mult_eq_mod diff_ge_0_iff_ge)
  then show "n + i * (1 + (t - n) div i) - i \<le> t" by (simp add: distrib_left)
qed

lemma elapse_inv:
  assumes "sched_inv start i s"
  shows "sched_inv start i (elapse d s)"
proof (cases "sd_running s \<and> sd_nextTick s \<le> sd_now s + max 0 d")
  case True
  let ?m = "sd_nextTick s + i * (1 + (sd_now s + max 0 d - sd_nextTick s) div i)"
  have i: "0 < i" "sd_interval s = i" using assms by (simp_all add: sched_inv_def)
  have n: "sd_nextTick s + i \<le> ?m" "?m - i \<le> sd_now s + max 0 d" using next_tick[OF i(1) conjunct2[OF True]] by simp_all
  have "int (sd_calibrations s) * i \<le> (int (sd_calibrations s) + (if sd_tick s then 1 else 0)) * i" using i by (simp add: distrib_right)
  also have "\<dots> \<le> sd_nextTick s - i - start" using assms by (simp add: sched_inv_def)
  finally have "(int (sd_calibrations s) + 1) * i \<le> ?m - i - start" unfolding distrib_right using n(1) by linarith
  with True i n(2) show ?thesis by (simp add: sched_inv_def elapse_def Let_def)
qed (use assms in \<open>auto simp: sched_inv_def elapse_def Let_def\<close>)

lemma sched_inv_step:
  assumes "sched_inv start i s" "sched_step a s = Inr s'"
  shows "sched_inv start i s'"
proof (cases a)
  case (Elapse d)
  then show ?thesis using assms(2) elapse_inv[OF assms(1), of d] by auto
qed (use assms in \<open>auto simp: sched_inv_def sched_step_defs go_bind_Inr_iff add.commute split: if_splits\<close>)

lemma sched_inv_run: "sched_inv start i s \<Longrightarrow> sched_run as s = Inr s' \<Longrightarrow> sched_inv start i s'"
  by (induction as arbitrary: s) (auto simp: go_bind_Inr_iff intro: sched_inv_step)

lemma sched_quiet_step: "\<not> sd_running s \<Longrightarrow> sched_step a s = Inr s' \<Longrightarrow> \<not> sd_running s' \<and> sd_calibrations s' = sd_calibrations s"
  by (cases a) (auto simp: sched_step_defs Let_def split: if_splits)

lemma sched_quiet: "\<not> sd_running s \<Longrightarrow> sched_run as s = Inr s' \<Longrightarrow> \<not> sd_running s' \<and> sd_calibrations s' = sd_calibrations s"
proof (induction as arbitrary: s)
  case (Cons a as)
  then obtain t where "sched_step a s = Inr t" "sched_run as t = Inr s'" by (auto simp: go_bind_Inr_iff)
  with Cons.IH[of t] sched_quiet_step[OF Cons.prems(1)] show ?case by metis
qed simp

lemma done_stays: "sched_step a s = Inr s' \<Longrightarrow> sd_done s \<or> a = CallCancel \<Longrightarrow> sd_done s'"
  by (cases a) (auto simp: sched_step_defs Let_def go_bind_Inr_iff split: if_splits)

lemma done_run: "sched_run as s = Inr s' \<Longrightarrow> sd_done s \<or> CallCancel \<in> set as \<Longrightarrow> sd_done s'"
proof (induction as arbitrary: s)
  case (Cons a as)
  then obtain t where t: "sched_step a s = Inr t" "sched_run as t = Inr s'" by (auto simp: go_bind_Inr_iff)
  have "sd_done t \<or> CallCancel \<in> set as" using Cons.prems(2) done_stays[OF t(1)] by auto
  then show ?case by (rule Cons.IH[OF t(2)])
qed simp

lemma ctx_stays: "sched_step a s = Inr s' \<Longrightarrow> sd_ctxDone s \<or> a = EndContext \<Longrightarrow> sd_ctxDone s'"
  by (cases a) (auto simp: sched_step_defs Let_def go_bind_Inr_iff split: if_splits)

lemma ctx_run: "sched_run as s = Inr s' \<Longrightarrow> sd_ctxDone s \<or> EndContext \<in> set as \<Longrightarrow> sd_ctxDone s'"
proof (induction as arbitrary: s)
  case (Cons a as)
  then obtain t where t: "sched_step a s = Inr t" "sched_run as t = Inr s'" by (auto simp: go_bind_Inr_iff)
  have "sd_ctxDone t \<or> EndContext \<in> set as" using Cons.prems(2) ctx_stays[OF t(1)] by auto
  then show ?case by (rule Cons.IH[OF t(2)])
qed simp

lemma ctx_origin: "sched_run as s = Inr s' \<Longrightarrow> sd_ctxDone s' \<Longrightarrow> sd_ctxDone s \<or> EndContext \<in> set as"
proof (induction as arbitrary: s)
  case (Cons a as)
  then obtain t where t: "sched_step a s = Inr t" "sched_run as t = Inr s'" by (auto simp: go_bind_Inr_iff)
  have "sd_ctxDone t \<Longrightarrow> sd_ctxDone s \<or> a = EndContext"
    using t(1) by (cases a) (auto simp: sched_step_defs Let_def go_bind_Inr_iff split: if_splits)
  then show ?case using Cons.IH[OF t(2) Cons.prems(2)] by auto
qed simp

lemma done_origin: "sched_run as s = Inr s' \<Longrightarrow> sd_done s' \<Longrightarrow> sd_done s \<or> CallCancel \<in> set as"
proof (induction as arbitrary: s)
  case (Cons a as)
  then obtain t where t: "sched_step a s = Inr t" "sched_run as t = Inr s'" by (auto simp: go_bind_Inr_iff)
  have "sd_done t \<Longrightarrow> sd_done s \<or> a = CallCancel"
    using t(1) by (cases a) (auto simp: sched_step_defs Let_def go_bind_Inr_iff split: if_splits)
  then show ?case using Cons.IH[OF t(2) Cons.prems(2)] by auto
qed simp

text \<open>
  C40. The calibrations that \<^verbatim>\<open>ScheduleCalibrations\<close> makes are at most one for every interval since it was called. Its goroutine ends only when the context
  is done or the cancel function was called, and once it ended there are no more calibrations. After the end of the context, or a call of the cancel function, whatever happens then, the
  goroutine's \<^verbatim>\<open>select\<close> is ready for this case and ends it. A second call of the cancel function panics, whatever happened since the first.
\<close>

theorem scheduled_calibrations:
  assumes "ScheduleCalibrations ctxDone interval start p = Inr s" "sched_run as s = Inr s1" "sched_run bs s1 = Inr s2"
  shows "int (sd_calibrations s1) * interval \<le> sd_now s1 - start
    \<and> (\<not> sd_running s1 \<longrightarrow> (ctxDone \<or> EndContext \<in> set as \<or> CallCancel \<in> set as) \<and> \<not> sd_running s2 \<and> sd_calibrations s2 = sd_calibrations s1)
    \<and> (ctxDone \<or> EndContext \<in> set as \<longrightarrow> (\<exists>t. sched_run (as @ bs @ [SelectCtxDone]) s = Inr t \<and> \<not> sd_running t \<and> sd_calibrations t = sd_calibrations s2))
    \<and> (CallCancel \<in> set as \<longrightarrow> (\<exists>t. sched_run (as @ bs @ [SelectDone]) s = Inr t \<and> \<not> sd_running t \<and> sd_calibrations t = sd_calibrations s2)
        \<and> sched_run (as @ bs @ [CallCancel]) s = Inl (Panic ''close of closed channel''))"
proof -
  have inv: "sched_inv start interval s1" by (rule sched_inv_run[OF sched_inv_start[OF assms(1)] assms(2)])
  then have "int (sd_calibrations s1) * interval \<le> sd_now s1 - start"
    by (auto simp: sched_inv_def distrib_right split: if_splits)
  moreover have "ctxDone \<or> EndContext \<in> set as" if "sd_ctxDone s1" using that assms(1) ctx_origin[OF assms(2)] by (auto simp: ScheduleCalibrations_def split: if_splits)
  moreover have "CallCancel \<in> set as" if "sd_done s1" using that assms(1) done_origin[OF assms(2)] by (auto simp: ScheduleCalibrations_def split: if_splits)
  moreover have "\<exists>t. sched_run (as @ bs @ [SelectCtxDone]) s = Inr t \<and> \<not> sd_running t \<and> sd_calibrations t = sd_calibrations s2" if "ctxDone \<or> EndContext \<in> set as"
  proof -
    have "sd_ctxDone s1" using that assms(1) ctx_run[OF assms(2)] by (auto simp: ScheduleCalibrations_def split: if_splits)
    then have "sd_ctxDone s2" using ctx_run[OF assms(3)] by blast
    then show ?thesis using assms(2,3) by (simp add: sched_run_append select_ctx_done_def)
  qed
  moreover have "\<exists>t. sched_run (as @ bs @ [SelectDone]) s = Inr t \<and> \<not> sd_running t \<and> sd_calibrations t = sd_calibrations s2" if "CallCancel \<in> set as"
  proof -
    have "sd_done s2" using done_run[OF assms(3)] done_run[OF assms(2)] that by blast
    then show ?thesis using assms(2,3) by (simp add: sched_run_append select_done_def)
  qed
  moreover have "sched_run (as @ bs @ [CallCancel]) s = Inl (Panic ''close of closed channel'')" if "CallCancel \<in> set as"
  proof -
    have "sd_done s2" using done_run[OF assms(3)] done_run[OF assms(2)] that by blast
    then show ?thesis using assms(2,3) by (simp add: sched_run_append stop_calibrations_def)
  qed
  ultimately show ?thesis using inv sched_quiet[OF _ assms(3)] unfolding sched_inv_def by blast
qed

definition idle_prioritizer :: "(unit, unit) BasePrioritizer" where
  "idle_prioritizer = (case prioritizer_Build (new_BasePrioritizerConfig \<lparr>CombineStats = (\<lambda>_. ()), ComputeRejectionRate = (\<lambda>_. Some 0)\<rparr>) of Inr p \<Rightarrow> p)"

theorem scheduled_calibrations_witness:
  "\<exists>s s1. ScheduleCalibrations False 10 0 idle_prioritizer = Inr s \<and> sched_run [Elapse 35, SelectTick () [], CallCancel, SelectDone] s = Inr s1
    \<and> sd_calibrations s1 = 1 \<and> sd_nextTick s1 = 40 \<and> \<not> sd_running s1
    \<and> (\<exists>t. sched_run ([Elapse 35, SelectTick () [], CallCancel, SelectDone] @ [Elapse 10] @ [SelectDone]) s = Inr t \<and> \<not> sd_running t)
    \<and> sched_run ([Elapse 35, SelectTick () [], CallCancel, SelectDone] @ [Elapse 10] @ [CallCancel]) s = Inl (Panic ''close of closed channel'')"
proof -
  let ?s = "\<lparr>sd_prioritizer = idle_prioritizer, sd_interval = 10, sd_now = 0, sd_nextTick = 10, sd_tick = False, sd_ctxDone = False,
                sd_done = False, sd_running = True, sd_calibrations = 0\<rparr>"
  have s: "ScheduleCalibrations False 10 0 idle_prioritizer = Inr ?s" by (simp add: ScheduleCalibrations_def)
  have p: "prioritizer_Calibrate () t order idle_prioritizer = Inr idle_prioritizer" for t order
    by (simp add: idle_prioritizer_def prioritizer_Calibrate_def prioritizer_Build_def new_BasePrioritizerConfig_def NewLevelTracker_def Assert_def Let_def)
  obtain s1 where s1: "sched_run [Elapse 35, SelectTick () [], CallCancel, SelectDone] ?s = Inr s1"
      "sd_calibrations s1 = 1" "sd_nextTick s1 = 40" "\<not> sd_running s1" "sched_run [Elapse 10] s1 = Inr (s1\<lparr>sd_now := 45\<rparr>)"
    using p by (simp add: sched_step_defs Let_def)
  show ?thesis using scheduled_calibrations[OF s s1(1,5)] s s1 by auto
qed

end
