(* ===== verification/Contexts.thy ===== *)
theory Contexts
  imports Priority Execution
begin

text \<open>
  Merged contexts: \<^verbatim>\<open>MergeContexts\<close> and \<^verbatim>\<open>mergedContext\<close> of src/internal/util/util.go, on the contexts of package \<^verbatim>\<open>context\<close> that
  they are made of. A context is its chain of nodes; a node that can be canceled has a number, under which \<open>cs_done\<close> holds the error and the
  cause once it is, so the equality of two contexts is that of their pointers. The goroutines of \<^verbatim>\<open>MergeContexts\<close> that still wait are a list; the end of a wait,
  calls of cancel functions and deadlines are the steps of \<open>ctx_run\<close>.
\<close>

section \<open>Contexts\<close>

datatype go_context =
    Background
  | CancelCtx nat go_context
  | DeadlineCtx nat nanotime go_context
  | ValueCtx nat ctx_key ctx_any go_context
  | MergedCtx nat go_context go_context

text \<open>\<open>cs_merged\<close> holds the ends of the contexts that \<^verbatim>\<open>MergeContexts\<close> makes, \<open>cs_done\<close> those of the others.\<close>

record 'r ctx_state =
  cs_done :: "nat \<Rightarrow> ('r error \<times> 'r error) option"
  cs_merged :: "nat \<Rightarrow> ('r error \<times> 'r error) option"
  cs_next :: nat
  cs_waiting :: "(nat \<times> go_context \<times> go_context) list"




text \<open>\<^verbatim>\<open>mergedContext.Value\<close> and the \<^verbatim>\<open>Value\<close> methods of the other contexts.\<close>

fun context_Value :: "go_context \<Rightarrow> ctx_key \<Rightarrow> ctx_any option" where
  "context_Value Background key = None"
| "context_Value (CancelCtx n parent) key = context_Value parent key"
| "context_Value (DeadlineCtx n d parent) key = context_Value parent key"
| "context_Value (ValueCtx n k v parent) key = (if k = key then Some v else context_Value parent key)"
| "context_Value (MergedCtx n ctx1 ctx2) key =
     (case context_Value ctx1 key of Some val \<Rightarrow> Some val | None \<Rightarrow> context_Value ctx2 key)"



text \<open>The values of a context as the list that package \<^verbatim>\<open>priority\<close> reads.\<close>

fun ctx_values_of :: "go_context \<Rightarrow> ctx_values" where
  "ctx_values_of Background = []"
| "ctx_values_of (CancelCtx n parent) = ctx_values_of parent"
| "ctx_values_of (DeadlineCtx n d parent) = ctx_values_of parent"
| "ctx_values_of (ValueCtx n k v parent) = WithValue (ctx_values_of parent) k v"
| "ctx_values_of (MergedCtx n ctx1 ctx2) = ctx_values_of ctx1 @ ctx_values_of ctx2"

section \<open>Merging and canceling\<close>


text \<open>The \<^verbatim>\<open>CancelCauseFunc\<close> of merged context \<open>n\<close>; without a cause, the cause is the error of a canceled context.\<close>

definition cancel_merged :: "nat \<Rightarrow> 'r error option \<Rightarrow> 'r ctx_state \<Rightarrow> 'r ctx_state" where
  "cancel_merged n cause \<sigma> =
     (if cs_merged \<sigma> n \<noteq> None then \<sigma>
      else \<sigma>\<lparr>cs_merged := (cs_merged \<sigma>)(n \<mapsto> (context_Canceled, case cause of Some e \<Rightarrow> e | None \<Rightarrow> context_Canceled))\<rparr>)"


definition call_cancel :: "nat option \<Rightarrow> 'r error option \<Rightarrow> 'r ctx_state \<Rightarrow> 'r ctx_state" where
  "call_cancel cancel cause \<sigma> = (case cancel of None \<Rightarrow> \<sigma> | Some n \<Rightarrow> cancel_merged n cause \<sigma>)"


section \<open>Runs\<close>




section \<open>Lemmas\<close>

lemma context_Value_values: "context_Value ctx key = map_of (ctx_values_of ctx) key"
  by (induction ctx) (auto simp: WithValue_def map_add_def split: option.split)

















section \<open>Properties\<close>





end
