(* ===== verification/Http_Levels.thy ===== *)
theory Http_Levels
  imports Contexts Adaptive_Throttler
begin

text \<open>
  Levels and priorities in the headers of requests: \<^verbatim>\<open>NewRoundTripperWithLevel\<close> of src/failsafehttp/client.go, \<^verbatim>\<open>NewHandlerWithLevel\<close> of
  src/failsafehttp/server.go and the interceptors \<^verbatim>\<open>NewUnaryClientInterceptorWithLevel\<close> and \<^verbatim>\<open>NewUnaryServerInterceptorWithLevel\<close> of
  src/failsafegrpc, with \<^verbatim>\<open>strconv.Itoa\<close>, \<^verbatim>\<open>strconv.Atoi\<close> and the part of \<^verbatim>\<open>http.Header\<close> that they use. A request carries the chain of values of its
  context. Package \<^verbatim>\<open>metadata\<close> of gRPC is the record \<open>metadata_api\<close>, whose documented laws are the locale \<open>metadata_laws\<close>.
\<close>

section \<open>Decimal numbers\<close>

definition digit :: "nat \<Rightarrow> char" where
  "digit d = char_of (48 + d)"

text \<open>\<open>acc\<close> is what follows the digits of \<open>n\<close>.\<close>

fun digits_onto :: "nat \<Rightarrow> string \<Rightarrow> string" where
  "digits_onto n acc = (if n < 10 then digit n # acc else digits_onto (n div 10) (digit (n mod 10) # acc))"

declare digits_onto.simps [simp del]

definition Itoa :: "int \<Rightarrow> string" where
  "Itoa i = (if i < 0 then CHR ''-'' # digits_onto (nat (- i)) [] else digits_onto (nat i) [])"

fun digits_value :: "string \<Rightarrow> nat \<Rightarrow> nat option" where
  "digits_value [] v = Some v"
| "digits_value (c # cs) v =
     (if 48 \<le> (of_char c :: nat) \<and> (of_char c :: nat) \<le> 57 then digits_value cs (10 * v + (of_char c - 48)) else None)"

text \<open>An error, for a syntax error or a number out of range, is \<open>None\<close>.\<close>

definition Atoi :: "string \<Rightarrow> int option" where
  "Atoi s =
     (let (neg, ds) = (case s of [] \<Rightarrow> (False, s) | c # cs \<Rightarrow> if c = CHR ''-'' then (True, cs) else if c = CHR ''+'' then (False, cs) else (False, s))
      in if ds = [] then None
         else case digits_value ds 0 of
                None \<Rightarrow> None
              | Some v \<Rightarrow> let i = (if neg then - int v else int v) in if in_i64 i then Some i else None)"

section \<open>HTTP requests\<close>

text \<open>
  Keys are canonical and have a first value, as net/http makes them. The header of a request may be a nil map.
\<close>

type_synonym http_header = "string \<Rightarrow> (string \<times> string list) option"

record http_request =
  hq_ctx :: "nat list"
  hq_values :: ctx_values
  hq_Header :: "http_header option"

definition priorityHeaderKey :: string where "priorityHeaderKey = ''X-Failsafe-Priority''"
definition levelHeaderKey :: string where "levelHeaderKey = ''X-Failsafe-Level''"

definition header_values :: "string \<Rightarrow> http_header \<Rightarrow> string list" where
  "header_values k h = (case h k of None \<Rightarrow> [] | Some (v, vs) \<Rightarrow> v # vs)"

definition header_put :: "string \<Rightarrow> string \<Rightarrow> http_header \<Rightarrow> http_header" where
  "header_put k v h = h(k \<mapsto> (v, []))"

definition header_Get :: "string \<Rightarrow> http_header option \<Rightarrow> string" where
  "header_Get k h = (case h of None \<Rightarrow> [] | Some m \<Rightarrow> (case header_values k m of [] \<Rightarrow> [] | v # vs \<Rightarrow> v))"

definition header_Set :: "string \<Rightarrow> string \<Rightarrow> http_header option \<Rightarrow> http_header option go" where
  "header_Set k v h = (case h of None \<Rightarrow> Inl (Panic ''assignment to entry in nil map'') | Some m \<Rightarrow> Inr (Some (header_put k v m)))"

section \<open>Sending levels and priorities\<close>

text \<open>What both clients send of the values of a context: a value of another type under the level's key hides the priority.\<close>

datatype carried = CarriesLevel int | CarriesPriority Priority | CarriesNothing

definition carried_by :: "ctx_values \<Rightarrow> carried" where
  "carried_by ctx =
     (case map_of ctx LevelKey of
        Some (IntAny level) \<Rightarrow> CarriesLevel level
      | Some _ \<Rightarrow> CarriesNothing
      | None \<Rightarrow> (case map_of ctx PriorityKey of Some (PriorityAny p) \<Rightarrow> CarriesPriority p | _ \<Rightarrow> CarriesNothing))"

text \<open>\<open>next\<close> is the inner round tripper; the request it gets is a clone if a header is set.\<close>

definition level_RoundTrip :: "('x http_request_scheme \<Rightarrow> 'y go) \<Rightarrow> 'x http_request_scheme \<Rightarrow> 'y go" where
  "level_RoundTrip next req =
     go_bind (case carried_by (hq_values req) of
                CarriesLevel level \<Rightarrow> header_Set levelHeaderKey (Itoa level) (hq_Header req)
              | CarriesPriority p \<Rightarrow> header_Set priorityHeaderKey (Itoa p) (hq_Header req)
              | CarriesNothing \<Rightarrow> Inr (hq_Header req))
       (\<lambda>h. next (req\<lparr>hq_Header := h\<rparr>))"

definition NewRoundTripperWithLevel :: "('x http_request_scheme \<Rightarrow> 'y go) \<Rightarrow> ('x http_request_scheme \<Rightarrow> 'y go) option
    \<Rightarrow> 'x http_request_scheme \<Rightarrow> 'y go" where
  "NewRoundTripperWithLevel defaultTransport innerRoundTripper =
     level_RoundTrip (case innerRoundTripper of None \<Rightarrow> defaultTransport | Some next \<Rightarrow> next)"

section \<open>Receiving levels and priorities\<close>

definition context_with_priority :: "bool \<Rightarrow> (int \<Rightarrow> int) \<Rightarrow> Priority \<Rightarrow> ctx_values \<Rightarrow> ctx_values" where
  "context_with_priority ensureLevel intn p ctx = (if ensureLevel then ContextWithLevel ctx (RandomLevel intn p) else AddTo p ctx)"

definition NewHandlerWithLevel :: "(int \<Rightarrow> int) \<Rightarrow> ('x http_request_scheme \<Rightarrow> 'y) \<Rightarrow> bool \<Rightarrow> 'x http_request_scheme \<Rightarrow> 'y" where
  "NewHandlerWithLevel intn innerHandler ensureLevel r =
     innerHandler
       (let levelStr = header_Get levelHeaderKey (hq_Header r); priorityStr = header_Get priorityHeaderKey (hq_Header r) in
        if levelStr \<noteq> [] then
          (case Atoi levelStr of Some level \<Rightarrow> r\<lparr>hq_values := ContextWithLevel (hq_values r) level\<rparr> | None \<Rightarrow> r)
        else if priorityStr \<noteq> [] then
          (case Atoi priorityStr of Some p \<Rightarrow> r\<lparr>hq_values := context_with_priority ensureLevel intn p (hq_values r)\<rparr> | None \<Rightarrow> r)
        else r)"

section \<open>gRPC metadata\<close>

text \<open>The context of a call, of which package \<^verbatim>\<open>metadata\<close> uses a part of its own.\<close>

record call_ctx =
  cc_values :: ctx_values

record ('x, 'm) metadata_api =
  md_FromOutgoingContext :: "'x call_ctx_scheme \<Rightarrow> 'm option"
  md_NewOutgoingContext :: "'x call_ctx_scheme \<Rightarrow> 'm option \<Rightarrow> 'x call_ctx_scheme"
  md_FromIncomingContext :: "'x call_ctx_scheme \<Rightarrow> 'm option"
  md_New :: 'm
  md_Copy :: "'m \<Rightarrow> 'm"
  md_Get :: "string \<Rightarrow> 'm \<Rightarrow> string list"
  md_Set :: "string \<Rightarrow> string \<Rightarrow> 'm \<Rightarrow> 'm"

definition priorityMetadataKey :: string where "priorityMetadataKey = ''x-failsafe-priority''"
definition levelMetadataKey :: string where "levelMetadataKey = ''x-failsafe-level''"

definition lazyMd :: "('x, 'm) metadata_api \<Rightarrow> 'm option \<Rightarrow> 'm" where
  "lazyMd api md = (case md of None \<Rightarrow> md_New api | Some m \<Rightarrow> md_Copy api m)"

definition NewUnaryClientInterceptorWithLevel :: "('x, 'm) metadata_api \<Rightarrow> ('x call_ctx_scheme \<Rightarrow> 'y) \<Rightarrow> 'x call_ctx_scheme \<Rightarrow> 'y" where
  "NewUnaryClientInterceptorWithLevel api invoker ctx =
     (let md = md_FromOutgoingContext api ctx;
          md' = (case carried_by (cc_values ctx) of
                   CarriesLevel level \<Rightarrow> Some (md_Set api levelMetadataKey (Itoa level) (lazyMd api md))
                 | CarriesPriority p \<Rightarrow> Some (md_Set api priorityMetadataKey (Itoa p) (lazyMd api md))
                 | CarriesNothing \<Rightarrow> md)
      in invoker (md_NewOutgoingContext api ctx md'))"

definition first_int :: "string list \<Rightarrow> int option" where
  "first_int vs = (case vs of [] \<Rightarrow> None | v # _ \<Rightarrow> Atoi v)"

definition NewUnaryServerInterceptorWithLevel :: "('x, 'm) metadata_api \<Rightarrow> (int \<Rightarrow> int) \<Rightarrow> bool \<Rightarrow> ('x call_ctx_scheme \<Rightarrow> 'y)
    \<Rightarrow> 'x call_ctx_scheme \<Rightarrow> 'y" where
  "NewUnaryServerInterceptorWithLevel api intn ensureLevel handler ctx =
     handler (case md_FromIncomingContext api ctx of
        None \<Rightarrow> ctx
      | Some md \<Rightarrow>
          (case first_int (md_Get api levelMetadataKey md) of
             Some level \<Rightarrow> ctx\<lparr>cc_values := ContextWithLevel (cc_values ctx) level\<rparr>
           | None \<Rightarrow>
               (case first_int (md_Get api priorityMetadataKey md) of
                  Some p \<Rightarrow> ctx\<lparr>cc_values := context_with_priority ensureLevel intn p (cc_values ctx)\<rparr>
                | None \<Rightarrow> ctx)))"

section \<open>Numbers are read back\<close>

lemma digit_code: "d < 10 \<Longrightarrow> (of_char (digit d) :: nat) = 48 + d"
  by (simp add: digit_def)

lemma digits_value_onto: "digits_value (digits_onto n acc) 0 = digits_value acc n"
proof (induction n acc rule: digits_onto.induct)
  case (1 n acc)
  show ?case
  proof (cases "n < 10")
    case True
    then show ?thesis by (simp add: digits_onto.simps digit_code)
  next
    case False
    have "n mod 10 \<le> 9" using mod_less_divisor[of 10 n] by linarith
    then show ?thesis using 1[OF False] False by (simp add: digits_onto.simps[of n acc] digit_code)
  qed
qed

lemma digits_onto_Cons: "\<exists>d ds. digits_onto n acc = digit d # ds \<and> d < 10"
proof (induction n acc rule: digits_onto.induct)
  case (1 n acc)
  show ?case using 1 by (cases "n < 10") (auto simp: digits_onto.simps[of n acc])
qed

lemma Atoi_Itoa [simp]:
  assumes "in_i64 i"
  shows "Atoi (Itoa i) = Some i"
proof (cases "i < 0")
  case True
  obtain d ds where "digits_onto (nat (- i)) [] = digit d # ds" using digits_onto_Cons by blast
  moreover have "digits_value (digits_onto (nat (- i)) []) 0 = Some (nat (- i))" by (simp add: digits_value_onto)
  ultimately show ?thesis using True assms by (simp add: Atoi_def Itoa_def)
next
  case False
  obtain d ds where d: "digits_onto (nat i) [] = digit d # ds" "d < 10" using digits_onto_Cons by blast
  moreover have "digits_value (digits_onto (nat i) []) 0 = Some (nat i)" by (simp add: digits_value_onto)
  moreover have "digit d \<noteq> CHR ''-''" "digit d \<noteq> CHR ''+''" using digit_code[OF d(2)] by auto
  ultimately show ?thesis using False assms by (simp add: Atoi_def Itoa_def)
qed

lemma Itoa_nonempty [simp]: "Itoa i \<noteq> []"
  using digits_onto_Cons[of "nat i" "[]"] by (auto simp: Itoa_def)

section \<open>The interface of headers\<close>

text \<open>What sending levels needs of a store of header values: a value that is set is the only one of its key.\<close>

locale header_store =
  fixes get :: "string \<Rightarrow> 'h \<Rightarrow> string list"
    and put :: "string \<Rightarrow> string \<Rightarrow> 'h \<Rightarrow> 'h"
  assumes get_put: "get k (put k v h) = [v]"
    and get_other: "k \<noteq> k' \<Longrightarrow> get k' (put k v h) = get k' h"
begin

lemma first_int_put: "in_i64 i \<Longrightarrow> first_int (get k (put k (Itoa i) h)) = Some i"
  by (simp add: get_put first_int_def)

lemma first_int_other: "k \<noteq> k' \<Longrightarrow> first_int (get k' (put k v h)) = first_int (get k' h)"
  by (simp add: get_other)

end

interpretation http_header: header_store header_values header_put
  by unfold_locales (simp_all add: header_values_def header_put_def)

lemma header_Get_put [simp]: "header_Get k (Some (header_put k' v m)) = (if k = k' then v else header_Get k (Some m))"
  by (auto simp: header_Get_def http_header.get_put http_header.get_other)

lemma header_Get_none: "m k = None \<Longrightarrow> header_Get k (Some m) = []"
  by (simp add: header_Get_def header_values_def)

locale metadata_laws =
  fixes api :: "('x, 'm) metadata_api"
  assumes md_get_set: "md_Get api k (md_Set api k v m) = [v]"
    and md_get_other: "k \<noteq> k' \<Longrightarrow> md_Get api k' (md_Set api k v m) = md_Get api k' m"
    and md_copy: "md_Get api k (md_Copy api m) = md_Get api k m"
    and md_new: "md_Get api k (md_New api) = []"
    and md_outgoing: "\<exists>m'. md_FromOutgoingContext api (md_NewOutgoingContext api ctx (Some m)) = Some m' \<and> (\<forall>k. md_Get api k m' = md_Get api k m)"

sublocale metadata_laws \<subseteq> header_store "md_Get api" "md_Set api"
  by unfold_locales (simp_all add: md_get_set md_get_other)

context metadata_laws begin

text \<open>The values of \<open>k\<close> among what the context of an outgoing call carries.\<close>

lemma lazyMd_get: "md_Get api k (lazyMd api md) = (case md of None \<Rightarrow> [] | Some m \<Rightarrow> md_Get api k m)"
  by (simp add: lazyMd_def md_copy md_new split: option.split)

lemma client_sends:
  assumes "carried_by (cc_values ctx) = CarriesLevel l \<and> c = Some (levelMetadataKey, l)
    \<or> carried_by (cc_values ctx) = CarriesPriority l \<and> c = Some (priorityMetadataKey, l)"
  shows "\<exists>m. md_FromOutgoingContext api (NewUnaryClientInterceptorWithLevel api id ctx) = Some m
    \<and> (\<forall>k. md_Get api k m = (if k = fst (the c) then [Itoa l] else case md_FromOutgoingContext api ctx of None \<Rightarrow> [] | Some m \<Rightarrow> md_Get api k m))"
proof -
  have "NewUnaryClientInterceptorWithLevel api id ctx
      = md_NewOutgoingContext api ctx (Some (md_Set api (fst (the c)) (Itoa l) (lazyMd api (md_FromOutgoingContext api ctx))))"
    using assms by (auto simp: NewUnaryClientInterceptorWithLevel_def)
  moreover obtain m' where "md_FromOutgoingContext api (md_NewOutgoingContext api ctx (Some (md_Set api (fst (the c)) (Itoa l) (lazyMd api (md_FromOutgoingContext api ctx))))) = Some m'"
      "\<And>k. md_Get api k m' = md_Get api k (md_Set api (fst (the c)) (Itoa l) (lazyMd api (md_FromOutgoingContext api ctx)))"
    using md_outgoing by blast
  ultimately show ?thesis using md_get_set md_get_other[of "fst (the c)"] lazyMd_get by (intro exI[of _ m']) simp
qed

end

text \<open>Metadata as a map from keys to values, with the outgoing and the incoming one in fields of the context.\<close>

record 'm md_ctx = call_ctx +
  mc_outgoing :: "'m option"
  mc_incoming :: "'m option"

definition map_metadata :: "((string \<Rightarrow> string list, unit) md_ctx_ext, string \<Rightarrow> string list) metadata_api" where
  "map_metadata =
     \<lparr>md_FromOutgoingContext = mc_outgoing, md_NewOutgoingContext = (\<lambda>ctx m. ctx\<lparr>mc_outgoing := m\<rparr>), md_FromIncomingContext = mc_incoming,
      md_New = (\<lambda>_. []), md_Copy = (\<lambda>m. m), md_Get = (\<lambda>k m. m k), md_Set = (\<lambda>k v m. m(k := [v]))\<rparr>"

interpretation map_metadata: metadata_laws map_metadata
  by unfold_locales (simp_all add: map_metadata_def)

section \<open>Properties\<close>

lemma context_reads [simp]:
  "LevelFromContext intn (ContextWithLevel ctx l) = l" "FromContext (AddTo p ctx) = p"
  by (simp_all add: LevelFromContext_def FromContext_def ContextWithLevel_def ContextWithPriority_def AddTo_def WithValue_def)

lemma level_key_other [simp]: "levelHeaderKey \<noteq> priorityHeaderKey" "priorityHeaderKey \<noteq> levelHeaderKey"
    "levelMetadataKey \<noteq> priorityMetadataKey" "priorityMetadataKey \<noteq> levelMetadataKey"
  by (simp_all add: levelHeaderKey_def priorityHeaderKey_def levelMetadataKey_def priorityMetadataKey_def)

text \<open>
  C20. A level in the context of an HTTP request is the level of the context that the server's handler gets, whatever else the client's header
  has. Without one, a valid priority arrives as the priority, or as a level of its range if levels are ensured, provided that the client's header had no level of its own.
  A request with neither arrives with the context it had.
\<close>

theorem http_levels_propagate:
  fixes req :: "'x http_request_scheme" and r :: "'y http_request_scheme"
  assumes "hq_Header req = Some h" and "level_RoundTrip Inr req = Inr sent"
    and same: "\<forall>k \<in> {levelHeaderKey, priorityHeaderKey}. header_Get k (hq_Header r) = header_Get k (hq_Header sent)"
    and intn: "\<forall>n > 0. 0 \<le> intn n \<and> intn n < n"
  shows "case carried_by (hq_values req) of
      CarriesLevel l \<Rightarrow> in_i64 l \<longrightarrow> LevelFromContext intn (hq_values (NewHandlerWithLevel intn id ensure r)) = l
    | CarriesPriority p \<Rightarrow> h levelHeaderKey = None \<and> p \<in> {0..4} \<longrightarrow>
        (if ensure then LevelFromContext intn (hq_values (NewHandlerWithLevel intn id ensure r)) div 100 = p
         else FromContext (hq_values (NewHandlerWithLevel intn id ensure r)) = p)
    | CarriesNothing \<Rightarrow> h levelHeaderKey = None \<and> h priorityHeaderKey = None \<longrightarrow> NewHandlerWithLevel intn id ensure r = r"
proof (cases "carried_by (hq_values req)")
  case (CarriesLevel l)
  have "header_Get levelHeaderKey (hq_Header r) = Itoa l"
    using assms(1,2) same CarriesLevel by (auto simp: level_RoundTrip_def header_Set_def)
  then show ?thesis using CarriesLevel by (simp add: NewHandlerWithLevel_def)
next
  case (CarriesPriority p)
  have "header_Get priorityHeaderKey (hq_Header r) = Itoa p" "h levelHeaderKey = None \<Longrightarrow> header_Get levelHeaderKey (hq_Header r) = []"
    using assms(1,2) same CarriesPriority
    by (auto simp: level_RoundTrip_def header_Set_def header_Get_none)
  moreover have "in_i64 p" if "p \<in> {0..4}" using that by (auto simp: in_i64_def)
  moreover have "RandomLevel intn p div 100 = p" if "p \<in> {0..4}"
  proof -
    have "RandomLevel intn p = intn 100 + 100 * p" using range_of_priority[OF that] by (simp add: RandomLevel_def Let_def MinLevel_def MaxLevel_def)
    moreover have "0 \<le> intn 100" "intn 100 < 100" using intn by auto
    ultimately show ?thesis by simp
  qed
  ultimately show ?thesis using CarriesPriority by (simp add: NewHandlerWithLevel_def context_with_priority_def)
next
  case CarriesNothing
  have "header_Get k (hq_Header r) = []" if "h k = None" "k \<in> {levelHeaderKey, priorityHeaderKey}" for k
    using assms(1,2) same CarriesNothing that by (auto simp: level_RoundTrip_def header_Get_none)
  then show ?thesis using CarriesNothing by (auto simp: NewHandlerWithLevel_def)
qed

definition sample_request :: "ctx_values \<Rightarrow> http_request" where
  "sample_request vs = \<lparr>hq_ctx = [], hq_values = vs, hq_Header = Some (\<lambda>_. None)\<rparr>"

theorem http_levels_propagate_witness:
  "\<exists>sent. level_RoundTrip Inr (sample_request (AddTo 3 [])) = Inr sent
    \<and> FromContext (hq_values (NewHandlerWithLevel (\<lambda>n. 0) id False (sample_request []\<lparr>hq_Header := hq_Header sent\<rparr>))) = 3"
proof -
  let ?req = "sample_request (AddTo 3 [])"
  have c: "carried_by (hq_values ?req) = CarriesPriority 3"
    by (simp add: sample_request_def carried_by_def AddTo_def ContextWithPriority_def WithValue_def LevelKey_def PriorityKey_def)
  then obtain sent where sent: "level_RoundTrip Inr ?req = Inr sent"
    by (simp add: level_RoundTrip_def header_Set_def sample_request_def)
  show ?thesis
    using http_levels_propagate[of ?req "\<lambda>_. None" sent "sample_request []\<lparr>hq_Header := hq_Header sent\<rparr>" "\<lambda>n. 0" False] sent c
    by (simp add: sample_request_def)
qed

text \<open>
  The gRPC interceptors pass on levels and priorities in the same way, if the metadata of the incoming call has the values of these keys that
  the outgoing call had: levels are read back as they were, and priorities if no level was among the metadata of the client's own.
\<close>

theorem grpc_levels_propagate:
  fixes api :: "('x, 'm) metadata_api" and ctx sctx :: "'x call_ctx_scheme"
  assumes laws: "metadata_laws api"
    and sent: "md_FromOutgoingContext api (NewUnaryClientInterceptorWithLevel api id ctx) = Some m"
    and received: "md_FromIncomingContext api sctx = Some m'" "\<forall>k \<in> {levelMetadataKey, priorityMetadataKey}. md_Get api k m' = md_Get api k m"
  shows "case carried_by (cc_values ctx) of
      CarriesLevel l \<Rightarrow> in_i64 l \<longrightarrow> LevelFromContext intn (cc_values (NewUnaryServerInterceptorWithLevel api intn ensure id sctx)) = l
    | CarriesPriority p \<Rightarrow> in_i64 p \<and> (\<forall>m0. md_FromOutgoingContext api ctx = Some m0 \<longrightarrow> md_Get api levelMetadataKey m0 = []) \<longrightarrow>
        (if ensure then LevelFromContext intn (cc_values (NewUnaryServerInterceptorWithLevel api intn ensure id sctx)) = RandomLevel intn p
         else FromContext (cc_values (NewUnaryServerInterceptorWithLevel api intn ensure id sctx)) = p)
    | CarriesNothing \<Rightarrow> True"
proof (cases "carried_by (cc_values ctx)")
  case (CarriesLevel l)
  then have "md_Get api levelMetadataKey m = [Itoa l]" using metadata_laws.client_sends[OF laws, of ctx l "Some (levelMetadataKey, l)"] sent by auto
  then show ?thesis using CarriesLevel received by (simp add: NewUnaryServerInterceptorWithLevel_def first_int_def)
next
  case (CarriesPriority p)
  have m: "md_Get api k m = (if k = priorityMetadataKey then [Itoa p] else case md_FromOutgoingContext api ctx of None \<Rightarrow> [] | Some m \<Rightarrow> md_Get api k m)" for k
    using CarriesPriority metadata_laws.client_sends[OF laws, of ctx p "Some (priorityMetadataKey, p)"] sent by auto
  then show ?thesis using CarriesPriority received
    by (auto simp: NewUnaryServerInterceptorWithLevel_def first_int_def context_with_priority_def split: option.splits)
qed simp

theorem grpc_levels_propagate_witness:
  "let ctx = \<lparr>cc_values = ContextWithLevel [] 250, mc_outgoing = None, mc_incoming = None\<rparr>;
       m = md_FromOutgoingContext map_metadata (NewUnaryClientInterceptorWithLevel map_metadata id ctx);
       sctx = \<lparr>cc_values = [], mc_outgoing = None, mc_incoming = m\<rparr>
   in LevelFromContext (\<lambda>n. 0) (cc_values (NewUnaryServerInterceptorWithLevel map_metadata (\<lambda>n. 0) False id sctx)) = 250"
proof -
  let ?ctx = "\<lparr>cc_values = ContextWithLevel [] 250, mc_outgoing = None, mc_incoming = None\<rparr>"
  have c: "carried_by (cc_values ?ctx) = CarriesLevel 250" by (simp add: carried_by_def ContextWithLevel_def WithValue_def)
  obtain m where m: "md_FromOutgoingContext map_metadata (NewUnaryClientInterceptorWithLevel map_metadata id ?ctx) = Some m"
    using map_metadata.client_sends[of ?ctx 250 "Some (levelMetadataKey, 250)"] c by auto
  show ?thesis
    using grpc_levels_propagate[OF map_metadata.metadata_laws_axioms m, of "\<lparr>cc_values = [], mc_outgoing = None, mc_incoming = Some m\<rparr>" m "\<lambda>n. 0" False] c m
    by (simp add: map_metadata_def in_i64_def Let_def)
qed

section \<open>Levels that are out of range\<close>

text \<open>
  \<^verbatim>\<open>RecordLevel\<close> with the tracker that it leaves behind when it panics, which the next call finds after the panic is recovered.
\<close>

definition RecordLevel_leaves :: "int \<Rightarrow> windowedLevelTracker \<Rightarrow> go_panic option \<times> windowedLevelTracker" where
  "RecordLevel_leaves level lt =
     (case slice_index (lt_window lt) (int (lt_head lt)) of
        Inl p \<Rightarrow> (Some p, lt)
      | Inr h \<Rightarrow>
          (case (if lt_filled lt then add_count (lt_window lt ! h) (- 1) lt else Inr lt) of
             Inl p \<Rightarrow> (Some p, lt)
           | Inr lt1 \<Rightarrow>
               let lt2 = lt1\<lparr>lt_window := (lt_window lt1)[h := level]\<rparr> in
               (case add_count level 1 lt2 of
                  Inl p \<Rightarrow> (Some p, lt2)
                | Inr lt3 \<Rightarrow> (None, if lt_head lt3 + 1 \<ge> length (lt_window lt3) then lt3\<lparr>lt_head := 0, lt_filled := True\<rparr>
                                  else lt3\<lparr>lt_head := lt_head lt3 + 1\<rparr>))))"

lemma RecordLevel_leaves_iff:
  "RecordLevel level lt = (case RecordLevel_leaves level lt of (Some p, lt') \<Rightarrow> Inl p | (None, lt') \<Rightarrow> Inr lt')"
proof (cases "lt_head lt < length (lt_window lt)")
  case True
  then show ?thesis
    by (cases "lt_filled lt"; cases "add_count (lt_window lt ! lt_head lt) (- 1) lt")
      (auto simp: RecordLevel_def RecordLevel_leaves_def Let_def split: sum.split)
qed (simp add: RecordLevel_def RecordLevel_leaves_def slice_index_def)

definition leaves_after :: "int list \<Rightarrow> windowedLevelTracker \<Rightarrow> windowedLevelTracker" where
  "leaves_after levels lt = fold (\<lambda>l lt. snd (RecordLevel_leaves l lt)) levels lt"

text \<open>The oldest recorded level, which the next call takes out of the counts, has no count.\<close>

definition poisoned :: "windowedLevelTracker \<Rightarrow> bool" where
  "poisoned lt \<longleftrightarrow> lt_filled lt \<and> lt_head lt < length (lt_window lt) \<and> length (lt_levelCounts lt) = totalLevels
     \<and> \<not> valid_level (lt_window lt ! lt_head lt)"

lemma poisoned_stays:
  assumes "poisoned lt"
  shows "RecordLevel_leaves l lt = (Some IndexOutOfRange, lt)"
  using assms by (auto simp: poisoned_def RecordLevel_leaves_def add_count_def slice_index_def)

lemma leaves_after_poisoned: "poisoned lt \<Longrightarrow> leaves_after ls lt = lt"
  by (induction ls) (simp_all add: leaves_after_def poisoned_stays)

lemma bad_level_poisons:
  assumes "0 < n" "tracker_inv n ls lt" "n \<le> length ls" "\<forall>l' \<in> set ls. valid_level l'" "\<not> valid_level l"
  shows "fst (RecordLevel_leaves l lt) = Some IndexOutOfRange \<and> poisoned (snd (RecordLevel_leaves l lt))"
proof -
  have r: "ring n ls (lt_window lt) (lt_head lt)" and f: "lt_filled lt" and c: "lt_levelCounts lt = level_counts (last_n n ls)"
    using assms(2,3) by (auto simp: tracker_inv_def)
  have h: "lt_head lt < length (lt_window lt)" using r assms(1) by (auto simp: ring_def)
  have cnt: "length (lt_levelCounts lt) = totalLevels" using c by (simp add: level_counts_def)
  obtain l0 where "RecordLevel 0 lt = Inr l0" using RecordLevel_step[OF assms(1) _ assms(4,2), of 0] by (auto simp: totalLevels_def)
  then obtain lt1 where lt1: "add_count (lt_window lt ! lt_head lt) (- 1) lt = Inr lt1"
    using f h by (cases "add_count (lt_window lt ! lt_head lt) (- 1) lt") (simp_all add: RecordLevel_def)
  then have k: "lt_window lt1 = lt_window lt" "lt_head lt1 = lt_head lt" "lt_filled lt1" "length (lt_levelCounts lt1) = totalLevels"
    using f cnt by (auto simp: add_count_def go_bind_Inr_iff)
  have "add_count l 1 (lt1\<lparr>lt_window := (lt_window lt1)[lt_head lt := l]\<rparr>) = Inl IndexOutOfRange"
    using assms(5) k(4) by (auto simp: add_count_def slice_index_def)
  then have "RecordLevel_leaves l lt = (Some IndexOutOfRange, lt1\<lparr>lt_window := (lt_window lt1)[lt_head lt := l]\<rparr>)"
    using f h lt1 k by (simp add: RecordLevel_leaves_def Let_def)
  then show ?thesis using assms(5) h k by (simp add: poisoned_def)
qed

lemma bad_level_unfilled:
  assumes "0 < n" "tracker_inv n ls lt" "length ls < n" "\<not> valid_level l"
  shows "fst (RecordLevel_leaves l lt) = Some IndexOutOfRange \<and> tracker_inv n ls (snd (RecordLevel_leaves l lt))"
proof -
  have r: "ring n ls (lt_window lt) (lt_head lt)" and f: "\<not> lt_filled lt" and c: "lt_levelCounts lt = level_counts (last_n n ls)"
    using assms(2,3) by (auto simp: tracker_inv_def)
  have h: "lt_head lt = length ls" "length (lt_window lt) = n" using r assms(3) by (auto simp: ring_def)
  have "length (lt_levelCounts lt) = totalLevels" using c by (simp add: level_counts_def)
  then have "add_count l 1 (lt\<lparr>lt_window := (lt_window lt)[lt_head lt := l]\<rparr>) = Inl IndexOutOfRange"
    using assms(4) by (auto simp: add_count_def slice_index_def)
  then have a: "RecordLevel_leaves l lt = (Some IndexOutOfRange, lt\<lparr>lt_window := (lt_window lt)[lt_head lt := l]\<rparr>)"
    using f h assms(3) by (simp add: RecordLevel_leaves_def slice_index_def)
  have "ring n ls ((lt_window lt)[lt_head lt := l]) (lt_head lt)" using r h assms(3) by (simp add: ring_def)
  then show ?thesis using assms(2) by (simp add: a tracker_inv_def)
qed

lemma out_of_range_panics:
  assumes "RejectionThreshold (pt_prioritizer t) \<le> l" "fst (RecordLevel_leaves l (bp_LevelTracker (pt_prioritizer t))) = Some IndexOutOfRange"
  shows "pt_AcquirePermitWithLevel rnd l t = Inl IndexOutOfRange"
  using assms by (auto simp: pt_AcquirePermitWithLevel_def record_level_def RecordLevel_leaves_iff split: prod.splits)

text \<open>
  C37. A request whose level header holds a number of 500 or more makes a prioritized throttler that admits its level panic when it handles the request with
  the context of \<open>NewHandlerWithLevel\<close>, which does not check the level, whatever levels were recorded before. If the window of recent levels is full, every later recording of a
  level, also of a valid one, panics as well; while it is not, the next valid level is recorded as if nothing had happened.
\<close>

theorem remote_level_breaks_throttler:
  fixes r :: "'x http_request_scheme" and t :: "'r priorityThrottler"
  assumes header: "Atoi (header_Get levelHeaderKey (hq_Header r)) = Some l" "500 \<le> l"
    and tracker: "0 < n" "tracker_inv n ls (bp_LevelTracker (pt_prioritizer t))" "\<forall>l' \<in> set ls. valid_level l'"
    and "RejectionThreshold (pt_prioritizer t) < 500"
  defines "lt \<equiv> snd (RecordLevel_leaves l (bp_LevelTracker (pt_prioritizer t)))"
  shows "pt_AcquirePermit intn rnd (hq_values (NewHandlerWithLevel intn id ensure r)) t = Inl IndexOutOfRange
    \<and> (if n \<le> length ls then RecordLevel l' (leaves_after later lt) = Inl IndexOutOfRange
       else valid_level l' \<longrightarrow> (\<exists>lt'. RecordLevel l' lt = Inr lt' \<and> tracker_inv n (ls @ [l']) lt'))"
proof -
  have "header_Get levelHeaderKey (hq_Header r) \<noteq> []" using header(1) by (auto simp: Atoi_def)
  then have "LevelFromContext intn (hq_values (NewHandlerWithLevel intn id ensure r)) = l"
    using header(1) by (simp add: NewHandlerWithLevel_def)
  moreover have l: "\<not> valid_level l" using header(2) by (simp add: totalLevels_def)
  note full = bad_level_poisons[OF tracker(1,2) _ tracker(3) l] and short = bad_level_unfilled[OF tracker(1,2) _ l]
  have "fst (RecordLevel_leaves l (bp_LevelTracker (pt_prioritizer t))) = Some IndexOutOfRange"
    using full short by (cases "n \<le> length ls") simp_all
  ultimately have "pt_AcquirePermit intn rnd (hq_values (NewHandlerWithLevel intn id ensure r)) t = Inl IndexOutOfRange"
    using out_of_range_panics[of t l rnd] assms(6) header(2) by (simp add: pt_AcquirePermit_def)
  moreover have "RecordLevel l' (leaves_after later lt) = Inl IndexOutOfRange" if "n \<le> length ls"
    using full[OF that] by (simp add: lt_def leaves_after_poisoned RecordLevel_leaves_iff poisoned_stays)
  moreover have "\<exists>lt'. RecordLevel l' lt = Inr lt' \<and> tracker_inv n (ls @ [l']) lt'" if "\<not> n \<le> length ls" "valid_level l'"
    using short that RecordLevel_step[OF tracker(1) that(2) tracker(3)] by (simp add: lt_def)
  ultimately show ?thesis by simp
qed

theorem remote_level_breaks_throttler_witness:
  "\<exists>t :: int priorityThrottler. RecordLevel 0 (bp_LevelTracker (pt_prioritizer t)) \<noteq> Inl IndexOutOfRange
    \<and> (let r = NewHandlerWithLevel (\<lambda>n. 0) id False (sample_request []\<lparr>hq_Header := Some [levelHeaderKey \<mapsto> (''500'', [])]\<rparr>)
       in pt_AcquirePermit (\<lambda>n. 0) 0 (hq_values r) t = Inl IndexOutOfRange)
    \<and> RecordLevel 0 (leaves_after [1, 2] (snd (RecordLevel_leaves 500 (bp_LevelTracker (pt_prioritizer t))))) = Inl IndexOutOfRange"
proof -
  obtain lt where lt: "tracker_inv 1 [0] lt"
    using NewLevelTracker_inv[of 1] RecordLevel_step[of 1 0 "[]"] by (auto simp: totalLevels_def)
  obtain p0 :: "(nat \<Rightarrow> int adaptiveThrottler, throttlerStats option) BasePrioritizer"
    where p0: "prioritizer_Build (WithLevelTracker lt th_NewPrioritizerBuilder) = Inr p0" "bp_LevelTracker p0 = lt" "RejectionThreshold p0 = 0"
    by (simp add: prioritizer_Build_def WithLevelTracker_def RejectionThreshold_def)
  let ?t = "\<lparr>pt_throttler = failing_throttler, pt_prioritizer = p0\<rparr>"
  let ?r = "sample_request []\<lparr>hq_Header := Some [levelHeaderKey \<mapsto> (''500'', [])]\<rparr>"
  have r: "Atoi (header_Get levelHeaderKey (hq_Header ?r)) = Some 500"
    by (simp add: header_Get_def header_values_def Atoi_def in_i64_def)
  obtain lt' where "RecordLevel 0 lt = Inr lt'" using RecordLevel_step[of 1 0 "[0]" lt] lt by (auto simp: totalLevels_def)
  then show ?thesis
    using remote_level_breaks_throttler[OF r _ _ , of 1 "[0]" ?t "\<lambda>n. 0" 0 False 0 "[1, 2]"] lt p0
    by (intro exI[of _ ?t]) (simp add: totalLevels_def)
qed

end
