(* ===== verification/Http_Policy.thy ===== *)
theory Http_Policy
  imports Http_Levels Retry_Policy
begin

text \<open>
  The retry policies for HTTP and gRPC, src/failsafehttp/policy.go and src/failsafegrpc/policy.go. A response that is nil is \<open>None\<close>. What the
  code sees of errors of other packages are arguments: \<open>msg\<close> for \<^verbatim>\<open>err.Error()\<close>, \<open>unknownAuthority\<close> for the assertion of
  \<^verbatim>\<open>x509.UnknownAuthorityError\<close> and \<open>fromError\<close> for \<^verbatim>\<open>status.FromError\<close>; a \<^verbatim>\<open>*url.Error\<close> is a \<open>Wrap\<close> of that name.
\<close>

section \<open>Responses\<close>

record 'b http_response =
  rs_StatusCode :: int
  rs_Header :: http_header
  rs_Body :: 'b

definition StatusTooManyRequests :: int where "StatusTooManyRequests = 429"
definition StatusInternalServerError :: int where "StatusInternalServerError = 500"
definition StatusNotImplemented :: int where "StatusNotImplemented = 501"
definition StatusServiceUnavailable :: int where "StatusServiceUnavailable = 503"

lemmas status_defs = StatusTooManyRequests_def StatusInternalServerError_def StatusNotImplemented_def StatusServiceUnavailable_def

section \<open>Regular expressions\<close>

text \<open>A match of the three expressions at the start of a string, and \<^verbatim>\<open>MatchString\<close>, a match at any place.\<close>

fun matches_anywhere :: "(string \<Rightarrow> bool) \<Rightarrow> string \<Rightarrow> bool" where
  "matches_anywhere m [] \<longleftrightarrow> m []"
| "matches_anywhere m (c # cs) \<longleftrightarrow> m (c # cs) \<or> matches_anywhere m cs"

definition literal :: "string \<Rightarrow> string \<Rightarrow> bool" where
  "literal pat s \<longleftrightarrow> take (length pat) s = pat"

definition is_digit :: "char \<Rightarrow> bool" where
  "is_digit c \<longleftrightarrow> 48 \<le> (of_char c :: nat) \<and> (of_char c :: nat) \<le> 57"

definition unsupportedScheme :: "string \<Rightarrow> bool" where
  "unsupportedScheme = matches_anywhere (literal ''unsupported protocol scheme'')"

definition certNotTrusted :: "string \<Rightarrow> bool" where
  "certNotTrusted = matches_anywhere (literal ''certificate is not trusted'')"

definition stoppedAfterRedirects :: "string \<Rightarrow> bool" where
  "stoppedAfterRedirects = matches_anywhere (\<lambda>s. literal ''stopped after '' s \<and>
     (let rest = drop (length ''stopped after '') s in takeWhile is_digit rest \<noteq> [] \<and> dropWhile is_digit rest = '' redirects''))"

section \<open>The HTTP retry policy\<close>

fun url_Error :: "'r error \<Rightarrow> 'r error option option" where
  "url_Error (Wrap n e) = (if n = ''url.Error'' then Some e else None)"
| "url_Error _ = None"

definition retryHandleFunc :: "('b http_response option error \<Rightarrow> string) \<Rightarrow> ('b http_response option error \<Rightarrow> bool) \<Rightarrow> 'b http_response option condition" where
  "retryHandleFunc msg unknownAuthority resp err =
     (case err of
        Some e \<Rightarrow>
          if unsupportedScheme (msg e) then False
          else (case url_Error e of
                  None \<Rightarrow> True
                | Some inner \<Rightarrow>
                    if certNotTrusted (msg e) \<or> stoppedAfterRedirects (msg e) then False
                    else (case inner of Some i \<Rightarrow> \<not> unknownAuthority i | None \<Rightarrow> True))
      | None \<Rightarrow>
          (case resp of
             None \<Rightarrow> False
           | Some r \<Rightarrow>
               if rs_StatusCode r = StatusTooManyRequests then True
               else rs_StatusCode r \<ge> 500 \<and> rs_StatusCode r \<noteq> StatusNotImplemented))"

definition http_DelayFunc :: "'b http_response option exec_info \<Rightarrow> duration" where
  "http_DelayFunc exec =
     (case e_lastResult (info_execution exec) of
        None \<Rightarrow> - 1
      | Some resp \<Rightarrow>
          if rs_StatusCode resp = StatusTooManyRequests \<or> rs_StatusCode resp = StatusServiceUnavailable
          then (case rs_Header resp ''Retry-After'' of
                  Some (v, vs) \<Rightarrow> (case Atoi v of Some seconds \<Rightarrow> i64 (10 ^ 9 * seconds) | None \<Rightarrow> - 1)
                | None \<Rightarrow> - 1)
          else - 1)"

definition http_NewRetryPolicyBuilder :: "('b http_response option error \<Rightarrow> string) \<Rightarrow> ('b http_response option error \<Rightarrow> bool)
    \<Rightarrow> ('b http_response option, 's) rp_config" where
  "http_NewRetryPolicyBuilder msg unknownAuthority =
     rp_WithDelayFunc (Some http_DelayFunc)
       (rp_AbortOnErrors [Some context_Canceled] (rp_HandleIf (retryHandleFunc msg unknownAuthority) rp_NewBuilder))"

section \<open>The gRPC retry policy\<close>

datatype grpc_code = Unavailable | DeadlineExceeded | ResourceExhausted | OtherCode nat

definition grpc_retryable :: "('r error \<Rightarrow> grpc_code option) \<Rightarrow> 'r condition" where
  "grpc_retryable fromError r err =
     (case err of
        None \<Rightarrow> False
      | Some e \<Rightarrow>
          (case fromError e of
             None \<Rightarrow> False
           | Some code \<Rightarrow> (case code of Unavailable \<Rightarrow> True | DeadlineExceeded \<Rightarrow> True | ResourceExhausted \<Rightarrow> True | OtherCode n \<Rightarrow> False)))"

definition grpc_NewRetryPolicyBuilder :: "('r error \<Rightarrow> grpc_code option) \<Rightarrow> ('r, 's) rp_config" where
  "grpc_NewRetryPolicyBuilder fromError = rp_HandleIf (grpc_retryable fromError) rp_NewBuilder"

section \<open>Which results are retried, and when\<close>

lemmas rp_build_simps = rp_WithDelayFunc_def rp_AbortOnErrors_def rp_HandleIf_def rp_NewBuilder_def WithDelayFunc_def AbortOnErrors_def HandleIf_def
  new_BaseFailurePolicy_def

lemma http_failures:
  "IsFailure (rp_failurePolicy (http_NewRetryPolicyBuilder msg unknown :: ('b http_response option, 's) rp_config)) resp err \<longleftrightarrow> retryHandleFunc msg unknown resp err"
  by (simp add: http_NewRetryPolicyBuilder_def rp_build_simps IsFailure_def)

lemma grpc_failures: "IsFailure (rp_failurePolicy (grpc_NewRetryPolicyBuilder fromError :: ('r, 's) rp_config)) r err \<longleftrightarrow> grpc_retryable fromError r err"
  by (simp add: grpc_NewRetryPolicyBuilder_def rp_build_simps IsFailure_def)

lemma i64_even:
  assumes "even x"
  shows "i64 x \<noteq> - 1"
proof
  assume "i64 x = - 1"
  then have "(x + 2 ^ 63) mod 2 ^ 64 = 2 ^ 63 - 1" by (simp add: i64_def)
  moreover have "even ((x + 2 ^ 63) mod 2 ^ 64)" using assms by (simp add: dvd_mod_iff)
  ultimately show False by simp
qed

text \<open>
  The HTTP retry policy retries responses with status 429 or, apart from 501, from 500 on. After a response with status 429 or 503 whose
  \<^verbatim>\<open>Retry-After\<close> header is a number of seconds, it waits that long, as far as the number of nanoseconds fits into a duration; then it wraps, and a negative
  delay is none.
\<close>

theorem http_retry_after:
  fixes w :: "('b http_response option, 's) world"
  assumes c: "c = http_NewRetryPolicyBuilder msg unknown"
    and w: "LastResult x w = Some resp" "rs_StatusCode resp \<in> {429, 503}" "rs_Header resp ''Retry-After'' = Some (Itoa n, vs)" "in_i64 n"
  shows "(IsFailure (rp_failurePolicy c) (Some r) None \<longleftrightarrow> rs_StatusCode r = 429 \<or> (500 \<le> rs_StatusCode r \<and> rs_StatusCode r \<noteq> 501))
    \<and> fst (getDelay rt c i x w) = max 0 (i64 (10 ^ 9 * n))
    \<and> (0 \<le> n \<and> n \<le> 9223372036 \<longrightarrow> fst (getDelay rt c i x w) = 10 ^ 9 * n)"
proof -
  have "http_DelayFunc (exec_info_of x w) = i64 (10 ^ 9 * n)"
    using w by (auto simp: http_DelayFunc_def exec_info_of_def LastResult_def get_exec_def status_defs)
  moreover have "i64 (10 ^ 9 * n) \<noteq> - 1" by (rule i64_even) simp
  ultimately have d: "fst (getDelay rt c i x w) = max 0 (i64 (10 ^ 9 * n))"
    by (simp add: c getDelay_def http_NewRetryPolicyBuilder_def rp_build_simps ComputeDelay_def adjustForJitter_def adjustForMaxDuration_def Let_def)
  moreover have "i64 (10 ^ 9 * n) = 10 ^ 9 * n" if "0 \<le> n \<and> n \<le> 9223372036"
    by (rule i64_id) (use that in \<open>simp add: in_i64_def\<close>)
  ultimately show ?thesis by (auto simp: c http_failures retryHandleFunc_def status_defs)
qed

definition unavailable :: "unit http_response" where
  "unavailable = \<lparr>rs_StatusCode = 503, rs_Header = [''Retry-After'' \<mapsto> (''9223372037'', [])], rs_Body = ()\<rparr>"

text \<open>A server that asks for a wait of 9223372037 seconds is called again at once.\<close>

theorem http_retry_after_witness:
  "\<forall>rt msg unknown. fst (getDelay rt (http_NewRetryPolicyBuilder msg unknown :: (unit http_response option, nat) rp_config) 0 0
      (newExecution (Some unavailable) [] \<lparr>clock = 0, ctx_errs = (\<lambda>_. None), objs = 0\<rparr>)) = 0"
proof -
  let ?w = "newExecution (Some unavailable) [] \<lparr>clock = 0, ctx_errs = (\<lambda>_. None), objs = 0\<rparr> :: (unit http_response option, nat) world"
  have "Itoa 9223372037 = ''9223372037''" by (simp add: Itoa_def digits_onto.simps digit_def char_of_def bit_0)
  then have "rs_Header unavailable ''Retry-After'' = Some (Itoa 9223372037, [])" "rs_StatusCode unavailable \<in> {429, 503}" by (simp_all add: unavailable_def)
  moreover have "LastResult 0 ?w = Some unavailable" by (simp add: LastResult_def newExecution_def get_exec_def)
  ultimately show ?thesis
    using http_retry_after[OF refl, of 0 ?w unavailable 9223372037 "[]"] by (simp add: in_i64_def i64_def)
qed

end
