(* ===== verification/Http_Client.thy ===== *)
theory Http_Client
  imports Http_Policy
begin

text \<open>
  The HTTP client: \<^verbatim>\<open>doRequest\<close>, \<^verbatim>\<open>bodyReader\<close>, \<^verbatim>\<open>bodyWithCancel\<close> and the types that use them, src/failsafehttp/client.go. The function of an
  execution is \<open>http_attempt\<close>, an innermost function of its own, since it works on the execution and not only on what user code sees of it. The
  context of an execution is a list of numbers as in \<open>Execution\<close>, and so is that of a request and the context merged from it and the executor's; the contexts
  merged for the attempts, which only the request function gets, are numbered by \<open>hs_next\<close>; \<open>hs_parents\<close> are the two contexts that each is merged from, and \<open>hs_canceled\<close> are those
  whose cancel function was called. Such a context is done (\<open>merged_done\<close>) when it was canceled or when one of its parents is done, for which the goroutine of \<^verbatim>\<open>MergeContexts\<close>
  waits (internal/util/util.go); the theory \<open>Contexts\<close> has this goroutine as a machine. The end of the context merged for the request is the
  environment's choice, as that of all contexts of \<open>ctx_errs\<close>. The contexts here are those that can be canceled, so that \<open>[]\<close> is the background. The request
  function, \<^verbatim>\<open>RoundTrip\<close> or \<^verbatim>\<open>Client.Do\<close>, acts on the environment.
\<close>

section \<open>State of the client\<close>

text \<open>\<open>hs_cursor\<close> is the position in a request's body that can seek.\<close>

record http_state =
  hs_next :: nat
  hs_parents :: "nat \<Rightarrow> nat list \<times> nat list"
  hs_canceled :: "nat list"
  hs_cursor :: nat

datatype attempt_ctx = OneCtx "nat list" | BothCtx nat "nat list" "nat list"

text \<open>\<^verbatim>\<open>MergeContexts\<close> for the executor and for an attempt, with what its cancel function cancels.\<close>

definition outer_merge :: "nat list \<Rightarrow> nat list \<Rightarrow> ('r, 's) env \<Rightarrow> nat list \<times> nat list option \<times> ('r, 's) env" where
  "outer_merge ctx1 ctx2 v =
     (if ctx1 = ctx2 then (ctx1, None, v)
      else if ctx1 = [] then (ctx2, None, v)
      else if ctx2 = [] then (ctx1, None, v)
      else let k = Suc (Max (set (ctx1 @ ctx2))) in ([k], Some [k], v\<lparr>ctx_errs := (ctx_errs v)(k := None)\<rparr>))"

definition inner_merge :: "('s, http_state) ref \<Rightarrow> nat list \<Rightarrow> nat list \<Rightarrow> ('r, 's) env \<Rightarrow> attempt_ctx \<times> nat option \<times> ('r, 's) env" where
  "inner_merge q ctx1 ctx2 v =
     (if ctx1 = ctx2 then (OneCtx ctx1, None, v)
      else if ctx1 = [] then (OneCtx ctx2, None, v)
      else if ctx2 = [] then (OneCtx ctx1, None, v)
      else let h = ref_get q (objs v); j = hs_next h
           in (BothCtx j ctx1 ctx2, Some j, v\<lparr>objs := ref_put q (h\<lparr>hs_next := Suc j, hs_parents := (hs_parents h)(j := (ctx1, ctx2))\<rparr>) (objs v)\<rparr>))"

definition ctx_ended :: "nat list \<Rightarrow> ('r, 's) env \<Rightarrow> bool" where
  "ctx_ended ctx v \<longleftrightarrow> ctx_Err (ctx_errs v) ctx \<noteq> None"

text \<open>When a context merged for an attempt is done: its cancel function was called, or the goroutine of \<^verbatim>\<open>MergeContexts\<close> has canceled it because a parent is done.\<close>

definition merged_done :: "http_state \<Rightarrow> ('r, 's) env \<Rightarrow> nat \<Rightarrow> bool" where
  "merged_done h v j \<longleftrightarrow> j \<in> set (hs_canceled h) \<or> ctx_ended (fst (hs_parents h j)) v \<or> ctx_ended (snd (hs_parents h j)) v"

definition cancel_outer :: "nat list option \<Rightarrow> ('r, 's) env \<Rightarrow> ('r, 's) env" where
  "cancel_outer cancel v = (case cancel of None \<Rightarrow> v | Some ctx \<Rightarrow> cancel_ctx ctx v)"

definition cancel_inner :: "('s, http_state) ref \<Rightarrow> nat option \<Rightarrow> ('r, 's) env \<Rightarrow> ('r, 's) env" where
  "cancel_inner q cancel v =
     (case cancel of
        None \<Rightarrow> v
      | Some j \<Rightarrow> let h = ref_get q (objs v) in v\<lparr>objs := ref_put q (h\<lparr>hs_canceled := j # hs_canceled h\<rparr>) (objs v)\<rparr>)"

section \<open>Bodies of requests\<close>

type_synonym bytes = "8 word list"

text \<open>
  A body by its dynamic type, with the bytes that are left in it and the error that reading all of it, or seeking its start, ends with. A \<^verbatim>\<open>bytes.Reader\<close>
  is read without errors.
\<close>

datatype 'r request_body =
    NilBody
  | BufferBody bytes
  | BytesReaderBody bytes
  | SeekerBody bytes "'r error option"
  | ReaderBody bytes "'r error option"
  | UnsupportedBody string

text \<open>The functions that \<^verbatim>\<open>bodyReader\<close> returns.\<close>

datatype 'r body_func = BufferFunc bytes | SeekFunc bytes "'r error option" | ReadFunc bytes

definition bodyReader :: "'r request_body \<Rightarrow> 'r error + 'r body_func option" where
  "bodyReader untypedBody =
     (case untypedBody of
        NilBody \<Rightarrow> Inr None
      | BufferBody b \<Rightarrow> Inr (Some (BufferFunc b))
      | BytesReaderBody buf \<Rightarrow> Inr (Some (BufferFunc buf))
      | SeekerBody b err \<Rightarrow> Inr (Some (SeekFunc b err))
      | ReaderBody buf err \<Rightarrow> (case err of Some e \<Rightarrow> Inl e | None \<Rightarrow> Inr (Some (ReadFunc buf)))
      | UnsupportedBody t \<Rightarrow> Inl (Err (''unsupported body type '' @ t)))"

text \<open>What an attempt sends: a reader with a position of its own, the shared body that can seek, or \<^verbatim>\<open>http.NoBody\<close>.\<close>

datatype reader = OwnReader bytes | SharedSeeker bytes | NoBody

definition call_body :: "'r body_func \<Rightarrow> http_state \<Rightarrow> ('r error + reader) \<times> http_state" where
  "call_body f h =
     (case f of
        BufferFunc b \<Rightarrow> (Inr (OwnReader b), h)
      | SeekFunc b err \<Rightarrow>
          (case err of None \<Rightarrow> (Inr (SharedSeeker b), h\<lparr>hs_cursor := 0\<rparr>) | Some e \<Rightarrow> (Inl e, h))
      | ReadFunc buf \<Rightarrow> (Inr (if length buf = 0 then NoBody else OwnReader buf), h))"

text \<open>What the transport reads from a reader on which nothing was read but by others through a shared position.\<close>

definition unread :: "reader \<Rightarrow> http_state \<Rightarrow> bytes" where
  "unread r h = (case r of OwnReader b \<Rightarrow> b | SharedSeeker b \<Rightarrow> drop (hs_cursor h) b | NoBody \<Rightarrow> [])"

section \<open>Requests and responses\<close>

text \<open>A response's body is the one of the network with its number, or the one that cancels contexts and a deferred execution when it is closed.\<close>

datatype resp_body = NetBody nat | bodyWithCancel (body_ReadCloser: resp_body) (body_cancelOuter: "nat list option") (body_cancelInner: "nat option") (body_cancelFn: nat)

type_synonym http_result = "resp_body http_response option"

record client_request = http_request +
  cr_Body :: "http_result request_body"

record sent_request =
  sr_ctx :: attempt_ctx
  sr_values :: ctx_values
  sr_Header :: "http_header option"
  sr_Body :: "reader option"

type_synonym 's request_fn = "sent_request \<Rightarrow> (http_result, 's) env \<Rightarrow> (http_result \<times> http_result error option) \<times> (http_result, 's) env"

definition is_bodyWithCancel :: "resp_body \<Rightarrow> bool" where
  "is_bodyWithCancel b = (case b of bodyWithCancel r co ci cf \<Rightarrow> True | NetBody i \<Rightarrow> False)"

text \<open>Whether \<^verbatim>\<open>cancelOnNoResponse\<close> leaves the context to the response's body.\<close>

definition has_response :: "http_result \<Rightarrow> bool" where
  "has_response r = (case r of None \<Rightarrow> False | Some resp \<Rightarrow> is_bodyWithCancel (rs_Body resp))"

section \<open>An attempt\<close>

text \<open>The body of an attempt; \<open>None\<close> is the one the request has.\<close>

definition attempt_body :: "('s, http_state) ref \<Rightarrow> http_result body_func option \<Rightarrow> (http_result, 's) env
    \<Rightarrow> (http_result error + reader option) \<times> (http_result, 's) env" where
  "attempt_body q bodyFunc v =
     (case bodyFunc of
        None \<Rightarrow> (Inr None, v)
      | Some f \<Rightarrow>
          (case call_body f (ref_get q (objs v)) of
             (Inl err, h) \<Rightarrow> (Inl err, v\<lparr>objs := ref_put q h (objs v)\<rparr>)
           | (Inr body, h) \<Rightarrow> (Inr (Some body), v\<lparr>objs := ref_put q h (objs v)\<rparr>)))"

definition attempt_response :: "(http_result, 's) runtime \<Rightarrow> 's request_fn \<Rightarrow> nat list option \<Rightarrow> nat option \<Rightarrow> nat \<Rightarrow> sent_request
    \<Rightarrow> (http_result, 's) world \<Rightarrow> ((http_result \<times> http_result error option) \<times> (http_result, 's) world) run" where
  "attempt_response rt reqFn cancelOuter cancelInner c req w =
     (let ((r, e), v) = reqFn req (w_env w); w1 = fire_timers rt (w\<lparr>w_env := v\<rparr>) in
      if e \<noteq> None then run_return ((r, e), w1)
      else case r of
             None \<Rightarrow> Some (Inl NilDereference)
           | Some resp \<Rightarrow>
               run_return ((Some (resp\<lparr>rs_Body := bodyWithCancel (rs_Body resp) cancelOuter cancelInner c\<rparr>), None), DeferCancel w1))"

text \<open>The function that \<^verbatim>\<open>doRequest\<close> passes to the executor, as the innermost function of \<^verbatim>\<open>execute\<close>, with the deferred \<^verbatim>\<open>cancelOnNoResponse\<close>.\<close>

definition http_attempt :: "(http_result, 's) runtime \<Rightarrow> ('s, http_state) ref \<Rightarrow> 's request_fn \<Rightarrow> http_result body_func option \<Rightarrow> nat list option
    \<Rightarrow> client_request \<Rightarrow> (http_result, 's) inner_fn" where
  "http_attempt rt q reqFn bodyFunc cancelOuter request x w =
     (let (c, w1) = exec_copy x w;
          (ctxInner, cancelInner, v1) = inner_merge q (hq_ctx request) (Context c w1) (w_env w1);
          (body, v2) = attempt_body q bodyFunc v1; w2 = w1\<lparr>w_env := v2\<rparr>
      in run_bind (case body of
           Inl err \<Rightarrow> run_return ((None, Some err), w2)
         | Inr b \<Rightarrow> attempt_response rt reqFn cancelOuter cancelInner c
             \<lparr>sr_ctx = ctxInner, sr_values = hq_values request, sr_Header = hq_Header request, sr_Body = b\<rparr> w2)
         (\<lambda>((r, e), w3).
           let w4 = (if has_response r then w3 else set_env (cancel_inner q cancelInner) w3)
           in run_return (\<lparr>Result = r, Error = e, Done = True, Success = True, SuccessAll = True\<rparr>, exec_record w4)))"

section \<open>A request\<close>

text \<open>\<^verbatim>\<open>execute\<close> for an innermost function of its own.\<close>

definition execute_inner :: "('r, 's) executor \<Rightarrow> ('r, 's) inner_fn \<Rightarrow> ('r, 's) world \<Rightarrow> ('r PolicyResult \<times> ('r, 's) world) run" where
  "execute_inner e inner w =
     run_bind (compose_from 0 (ex_policies e) inner 0 w) (\<lambda>(er, w1).
     let w2 = (if ex_onSuccess e \<and> SuccessAll er then log_event ''executor.onSuccess'' er w1
               else if ex_onFailure e \<and> \<not> SuccessAll er then log_event ''executor.onFailure'' er w1 else w1);
         w3 = (if ex_onDone e then log_event ''executor.onDone'' er w2 else w2)
     in run_return (er, w3))"

lemma execute_is_inner: "execute rt e fn withExec w = execute_inner e (call_fn rt fn withExec) w"
  by (simp add: execute_def execute_inner_def)

text \<open>The world is that of the execution, if there was one, in which the response's body may be closed.\<close>

definition doRequest :: "(http_result, 's) runtime \<Rightarrow> ('s, http_state) ref \<Rightarrow> client_request \<Rightarrow> (http_result, 's) executor \<Rightarrow> 's request_fn \<Rightarrow> (http_result, 's) env
    \<Rightarrow> ((http_result \<times> http_result error option) \<times> (http_result, 's) world option) run" where
  "doRequest rt q request executor reqFn v =
     (case bodyReader (cr_Body request) of
        Inl err \<Rightarrow> run_return ((None, Some err), None)
      | Inr bodyFunc \<Rightarrow>
          let (ctxOuter, cancelOuter, v1) = outer_merge (hq_ctx request) (ex_ctx executor) v;
              e = (if ctxOuter \<noteq> ex_ctx executor then WithContext (Some ctxOuter) executor else executor)
          in run_bind (execute_inner e (http_attempt rt q reqFn bodyFunc cancelOuter request) (newExecution (rt_zero rt) (ex_ctx e) v1)) (\<lambda>(er, w).
             run_return ((Result er, Error er), Some (if has_response (Result er) then w else set_env (cancel_outer cancelOuter) w))))"

text \<open>\<^verbatim>\<open>bodyWithCancel.Close\<close>; \<open>closeNet\<close> closes a body of the network.\<close>

fun body_Close :: "'r \<Rightarrow> (nat \<Rightarrow> ('r, 's) env \<Rightarrow> 'r error option \<times> ('r, 's) env) \<Rightarrow> ('s, http_state) ref \<Rightarrow> resp_body \<Rightarrow> ('r, 's) world
    \<Rightarrow> 'r error option \<times> ('r, 's) world" where
  "body_Close zero closeNet q (NetBody i) w = (let (err, v) = closeNet i (w_env w) in (err, w\<lparr>w_env := v\<rparr>))"
| "body_Close zero closeNet q (bodyWithCancel b cancelOuter cancelInner c) w =
     (let (err, w1) = body_Close zero closeNet q b w
      in (err, run_deferred_cancel zero c (set_env (cancel_inner q cancelInner) (set_env (cancel_outer cancelOuter) w1))))"

record 's roundTripper =
  rt_next :: "'s request_fn"
  rt_executor :: "(http_result, 's) executor"

definition NewRoundTripperWithExecutor :: "'s request_fn \<Rightarrow> 's request_fn option \<Rightarrow> (http_result, 's) executor \<Rightarrow> 's roundTripper" where
  "NewRoundTripperWithExecutor defaultTransport innerRoundTripper executor =
     \<lparr>rt_next = (case innerRoundTripper of None \<Rightarrow> defaultTransport | Some next \<Rightarrow> next), rt_executor = executor\<rparr>"

definition NewRoundTripper :: "'s request_fn \<Rightarrow> 's request_fn option \<Rightarrow> (http_result, 's) policy list \<Rightarrow> 's roundTripper" where
  "NewRoundTripper defaultTransport innerRoundTripper policies =
     NewRoundTripperWithExecutor defaultTransport innerRoundTripper (executor_With policies)"

definition RoundTrip :: "(http_result, 's) runtime \<Rightarrow> ('s, http_state) ref \<Rightarrow> 's roundTripper \<Rightarrow> client_request \<Rightarrow> (http_result, 's) env
    \<Rightarrow> ((http_result \<times> http_result error option) \<times> (http_result, 's) world option) run" where
  "RoundTrip rt q r request v = doRequest rt q request (rt_executor r) (rt_next r) v"

record 's Request =
  rq_executor :: "(http_result, 's) executor"
  rq_request :: client_request
  rq_client :: "'s request_fn"

definition NewRequestWithExecutor :: "client_request \<Rightarrow> 's request_fn \<Rightarrow> (http_result, 's) executor \<Rightarrow> 's Request" where
  "NewRequestWithExecutor request client executor = \<lparr>rq_executor = executor, rq_request = request, rq_client = client\<rparr>"

definition NewRequest :: "client_request \<Rightarrow> 's request_fn \<Rightarrow> (http_result, 's) policy list \<Rightarrow> 's Request" where
  "NewRequest request client policies = NewRequestWithExecutor request client (executor_With policies)"

definition Request_Do :: "(http_result, 's) runtime \<Rightarrow> ('s, http_state) ref \<Rightarrow> 's Request \<Rightarrow> (http_result, 's) env
    \<Rightarrow> ((http_result \<times> http_result error option) \<times> (http_result, 's) world option) run" where
  "Request_Do rt q r v = doRequest rt q (rq_request r) (rq_executor r) (rq_client r) v"

section \<open>Contexts of attempts\<close>

text \<open>The contexts merged for attempts whose cancel functions were not called, and that nothing else touches them.\<close>

definition uncanceled :: "http_state \<Rightarrow> nat set" where
  "uncanceled h = {j. j < hs_next h \<and> j \<notin> set (hs_canceled h)}"

definition same_ctxs :: "http_state \<Rightarrow> http_state \<Rightarrow> bool" where
  "same_ctxs h h' \<longleftrightarrow> hs_next h' = hs_next h \<and> hs_parents h' = hs_parents h \<and> hs_canceled h' = hs_canceled h"

definition numbered :: "http_state \<Rightarrow> bool" where
  "numbered h \<longleftrightarrow> (\<forall>j \<in> set (hs_canceled h). j < hs_next h)"

abbreviation client_state :: "('s, http_state) ref \<Rightarrow> ('r, 's) world \<Rightarrow> http_state" where
  "client_state q w \<equiv> ref_get q (objs (w_env w))"

lemma objs_set_last [simp]: "w_env (set_last x r w) = w_env w"
  by (cases r) (simp_all add: set_last_def set_exec_def)

lemma objs_exec_Cancel [simp]: "objs (w_env (exec_Cancel zero x r w)) = objs (w_env w)"
  by (cases r) (auto simp: exec_Cancel_def set_env_def cancel_ctx_def Let_def split: list.split)

lemma objs_fire_timer [simp]: "objs (w_env (fire_timer rt i w)) = objs (w_env w)"
  by (simp add: fire_timer_def Let_def log_event_def)

lemma objs_fire_timers [simp]: "objs (w_env (fire_timers rt w)) = objs (w_env w)"
proof -
  have "objs (w_env (fold (fire_timer rt) is w)) = objs (w_env w)" for "is" by (induction "is" arbitrary: w) simp_all
  then show ?thesis by (simp add: fire_timers_def)
qed

lemma exec_record_env [simp]: "w_env (exec_record w) = w_env w"
  by (simp add: exec_record_def)

lemma exec_copy_env: "exec_copy x w = (c, w1) \<Longrightarrow> w_env w1 = w_env w \<and> Context c w1 = Context x w"
  by (auto simp: exec_copy_def set_exec_def Context_def get_exec_def)

text \<open>The request function leaves the contexts alone and returns responses of the network.\<close>

definition plain_requests :: "('s, http_state) ref \<Rightarrow> 's request_fn \<Rightarrow> bool" where
  "plain_requests q reqFn \<longleftrightarrow>
     (\<forall>sr u. same_ctxs (ref_get q (objs u)) (ref_get q (objs (snd (reqFn sr u)))) \<and> \<not> has_response (fst (fst (reqFn sr u))))"

lemma call_body_same: "same_ctxs h (snd (call_body f h))"
  by (auto simp: call_body_def same_ctxs_def split: body_func.split option.split)

lemma attempt_body_same:
  assumes ref: "\<And>obj s. ref_get q (ref_put q obj s) = obj" and "attempt_body q bodyFunc v = (b, v')"
  shows "same_ctxs (ref_get q (objs v)) (ref_get q (objs v'))"
proof (cases bodyFunc)
  case None
  then show ?thesis using assms(2) by (simp add: attempt_body_def same_ctxs_def)
next
  case (Some f)
  obtain b0 h where bh: "call_body f (ref_get q (objs v)) = (b0, h)" by (cases "call_body f (ref_get q (objs v))")
  then have "v' = v\<lparr>objs := ref_put q h (objs v)\<rparr>" using assms(2) Some by (cases b0) (simp_all add: attempt_body_def)
  then show ?thesis using call_body_same[of "ref_get q (objs v)" f] bh ref by simp
qed

lemma attempt_response_cases:
  assumes "plain_requests q reqFn" "attempt_response rt reqFn co ci c req w = Some (Inr ((r, e), w'))"
  shows "same_ctxs (client_state q w) (client_state q w')"
    and "if e = None then \<exists>resp. r = Some resp \<and> body_cancelInner (rs_Body resp) = ci \<and> body_cancelOuter (rs_Body resp) = co \<and> has_response r \<and> w_deferCancel w' \<and> \<not> is_bodyWithCancel (body_ReadCloser (rs_Body resp)) else \<not> has_response r"
proof -
  obtain r0 e0 v where f: "reqFn req (w_env w) = ((r0, e0), v)" by (metis prod.collapse)
  then have p: "same_ctxs (client_state q w) (ref_get q (objs v))" "\<not> has_response r0"
    using assms(1) unfolding plain_requests_def by (metis fst_conv snd_conv)+
  show "same_ctxs (client_state q w) (client_state q w')"
    and "if e = None then \<exists>resp. r = Some resp \<and> body_cancelInner (rs_Body resp) = ci \<and> body_cancelOuter (rs_Body resp) = co \<and> has_response r \<and> w_deferCancel w' \<and> \<not> is_bodyWithCancel (body_ReadCloser (rs_Body resp)) else \<not> has_response r"
    using assms(2) f p
    by (auto simp: attempt_response_def DeferCancel_def run_return_def has_response_def is_bodyWithCancel_def Let_def split: if_splits option.splits)
qed

text \<open>
  Every attempt of a request merges its contexts into a new one. If it ends with an error, this context has been
  canceled; else it is not canceled and left to the body of the response it returns, which also holds back the cancellation of the execution. No other context changes.
\<close>

theorem http_attempt_contexts:
  fixes w w' :: "(http_result, 's) world"
  assumes ref: "\<And>obj s. ref_get q (ref_put q obj s) = obj" and fn: "plain_requests q reqFn" and "numbered (client_state q w)"
    and ctx: "hq_ctx request \<noteq> []" "Context x w \<noteq> []" "hq_ctx request \<noteq> Context x w"
    and run: "http_attempt rt q reqFn bodyFunc cancelOuter request x w = Some (Inr (er, w'))"
  defines "j \<equiv> hs_next (client_state q w)"
  shows "numbered (client_state q w') \<and> hs_next (client_state q w') = Suc j
    \<and> hs_parents (client_state q w') = (hs_parents (client_state q w))(j := (hq_ctx request, Context x w)) \<and> (Error er = None \<longleftrightarrow> has_response (Result er))
    \<and> uncanceled (client_state q w') = uncanceled (client_state q w) \<union> (if Error er = None then {j} else {})
    \<and> (Error er = None \<longrightarrow> w_deferCancel w' \<and> \<not> is_bodyWithCancel (body_ReadCloser (rs_Body (the (Result er)))) \<and> body_cancelInner (rs_Body (the (Result er))) = Some j
        \<and> body_cancelOuter (rs_Body (the (Result er))) = cancelOuter)"
proof -
  obtain c w1 where c: "exec_copy x w = (c, w1)" by (cases "exec_copy x w")
  note c' = exec_copy_env[OF c]
  define v1 where "v1 = (w_env w)\<lparr>objs := ref_put q ((client_state q w)\<lparr>hs_next := Suc j, hs_parents := (hs_parents (client_state q w))(j := (hq_ctx request, Context x w))\<rparr>) (objs (w_env w))\<rparr>"
  have im: "inner_merge q (hq_ctx request) (Context c w1) (w_env w1) = (BothCtx j (hq_ctx request) (Context x w), Some j, v1)"
    using ctx c' by (simp add: inner_merge_def v1_def j_def Let_def)
  have h1: "ref_get q (objs v1) = (client_state q w)\<lparr>hs_next := Suc j, hs_parents := (hs_parents (client_state q w))(j := (hq_ctx request, Context x w))\<rparr>" by (simp add: v1_def ref)
  obtain b v2 where b: "attempt_body q bodyFunc v1 = (b, v2)" by (cases "attempt_body q bodyFunc v1")
  define w2 where "w2 = w1\<lparr>w_env := v2\<rparr>"
  have h2: "same_ctxs (ref_get q (objs v1)) (client_state q w2)" using attempt_body_same[OF ref b] by (simp add: w2_def)
  obtain r e w3 where w3: "er = \<lparr>Result = r, Error = e, Done = True, Success = True, SuccessAll = True\<rparr>"
      "w' = exec_record (if has_response r then w3 else set_env (cancel_inner q (Some j)) w3)"
    and m: "(case b of Inl err \<Rightarrow> run_return ((None, Some err), w2)
         | Inr b \<Rightarrow> attempt_response rt reqFn cancelOuter (Some j) c
             \<lparr>sr_ctx = BothCtx j (hq_ctx request) (Context x w), sr_values = hq_values request, sr_Header = hq_Header request, sr_Body = b\<rparr> w2)
      = Some (Inr ((r, e), w3))"
    unfolding w2_def using run by (auto simp: http_attempt_def c im b run_bind_cases Let_def)
  have a: "same_ctxs (client_state q w2) (client_state q w3) \<and>
      (if e = None then \<exists>resp. r = Some resp \<and> body_cancelInner (rs_Body resp) = Some j \<and> body_cancelOuter (rs_Body resp) = cancelOuter
         \<and> has_response r \<and> w_deferCancel w3 \<and> \<not> is_bodyWithCancel (body_ReadCloser (rs_Body resp)) else \<not> has_response r)"
  proof (cases b)
    case (Inl err)
    then show ?thesis using m by (auto simp: same_ctxs_def has_response_def)
  next
    case (Inr b')
    then have "attempt_response rt reqFn cancelOuter (Some j) c
        \<lparr>sr_ctx = BothCtx j (hq_ctx request) (Context x w), sr_values = hq_values request, sr_Header = hq_Header request, sr_Body = b'\<rparr> w2 = Some (Inr ((r, e), w3))"
      using m by simp
    from attempt_response_cases[OF fn this] show ?thesis by blast
  qed
  then have h3: "hs_next (client_state q w3) = Suc j" "hs_parents (client_state q w3) = (hs_parents (client_state q w))(j := (hq_ctx request, Context x w))"
      "hs_canceled (client_state q w3) = hs_canceled (client_state q w)"
    using h1 h2 by (simp_all add: same_ctxs_def)
  show ?thesis
  proof (cases "e = None")
    case True
    then have "w' = exec_record w3" using a w3 by auto
    moreover have "w_deferCancel (exec_record w3) = w_deferCancel w3" by (simp add: exec_record_def)
    ultimately show ?thesis using True a h3 assms(3) w3(1) by (auto simp: uncanceled_def numbered_def j_def less_Suc_eq)
  next
    case False
    then have "w_env w' = cancel_inner q (Some j) (w_env w3)" using a w3(2) by (simp add: set_env_def)
    then have "client_state q w' = (client_state q w3)\<lparr>hs_canceled := j # hs_canceled (client_state q w3)\<rparr>" by (simp add: cancel_inner_def ref Let_def)
    then show ?thesis using False a h3 assms(3) w3(1) by (auto simp: uncanceled_def numbered_def j_def less_Suc_eq)
  qed
qed

lemma context_open: "is_bodyWithCancel b \<Longrightarrow> \<exists>b' co ci c. b = bodyWithCancel b' co ci c"
  by (cases b) (simp_all add: is_bodyWithCancel_def)

lemma ctx_ended_cong: "ctx_errs v = ctx_errs u \<Longrightarrow> ctx_ended ctx v = ctx_ended ctx u"
  by (simp add: ctx_ended_def)

lemma ctx_ended_cancel [simp]: "ctx_ended [k] (cancel_ctx [k] v)"
  by (simp add: cancel_ctx_def ctx_ended_def)

lemma ctx_Err_upd: "ctx_Err errs ctx \<noteq> None \<Longrightarrow> ctx_Err (errs(c := Some e)) ctx \<noteq> None"
  by (induction ctx) (auto split: option.splits)

lemma cancel_ctx_keeps_ended: "ctx_ended ctx v \<Longrightarrow> ctx_ended ctx (cancel_ctx c v)"
  using ctx_Err_upd[where errs = "ctx_errs v" and ctx = ctx] by (simp add: ctx_ended_def cancel_ctx_def del: ctx_Err.simps split: list.split)

lemma exec_Cancel_keeps_ended: "ctx_ended ctx (w_env w) \<Longrightarrow> ctx_ended ctx (w_env (exec_Cancel zero x r w))"
  using cancel_ctx_keeps_ended[where v = "w_env w" and ctx = ctx] by (cases r) (simp_all add: exec_Cancel_def set_env_def Let_def)

text \<open>What closing a response's body does to the contexts.\<close>

lemma body_Close_contexts:
  assumes ref: "\<And>obj s. ref_get q (ref_put q obj s) = obj"
    and net: "\<And>i u. same_ctxs (ref_get q (objs u)) (ref_get q (objs (snd (closeNet i u))))"
    and close: "body_Close zero closeNet q (bodyWithCancel (NetBody i) (Some [k]) (Some j) c) w = (err, w')"
  shows "uncanceled (client_state q w') = uncanceled (client_state q w) - {j} \<and> ctx_ended [k] (w_env w')"
proof -
  obtain err0 v where v: "closeNet i (w_env w) = (err0, v)" by (cases "closeNet i (w_env w)")
  define u where "u = cancel_inner q (Some j) (cancel_outer (Some [k]) v)"
  have w': "w' = run_deferred_cancel zero c (w\<lparr>w_env := u\<rparr>)" using close v by (simp add: set_env_def u_def)
  have "same_ctxs (client_state q w) (ref_get q (objs v))" using net[of "w_env w" i] v by simp
  then have "uncanceled (ref_get q (objs u)) = uncanceled (client_state q w) - {j}"
    by (auto simp: u_def cancel_inner_def cancel_outer_def cancel_ctx_def ref Let_def uncanceled_def same_ctxs_def)
  moreover have "ctx_errs u = ctx_errs (cancel_ctx [k] v)" by (simp add: u_def cancel_inner_def cancel_outer_def Let_def)
  then have "ctx_ended [k] u" using ctx_ended_cong[where v = u and u = "cancel_ctx [k] v"] by simp
  ultimately show ?thesis
    using exec_Cancel_keeps_ended[where w = "w\<lparr>w_env := u, w_deferCancel := False\<rparr>" and ctx = "[k]"] by (simp add: w' run_deferred_cancel_def)
qed

text \<open>
  C17. A request without policies, whose context and whose executor's are different and can be canceled, leaves no context behind: after an error the
  contexts merged for the request and for its attempt have been canceled; with a response they are left to the response's body, and the attempt's is done only if the
  request's context, or the one merged for the request, is done; closing the body cancels both.
\<close>

theorem http_request_releases_contexts:
  fixes request :: client_request and e :: "(http_result, 's) executor"
  assumes ref: "\<And>obj s. ref_get q (ref_put q obj s) = obj" and fn: "plain_requests q reqFn" and "numbered (ref_get q (objs v))"
    and net: "\<And>i u. same_ctxs (ref_get q (objs u)) (ref_get q (objs (snd (closeNet i u))))"
    and ctx: "hq_ctx request \<noteq> []" "ex_ctx e \<noteq> []" "hq_ctx request \<noteq> ex_ctx e" and "ex_policies e = []"
    and k: "k = Suc (Max (set (hq_ctx request @ ex_ctx e)))"
    and run: "doRequest rt q request e reqFn v = Some (Inr ((r, err), Some w))"
  shows "if err = None
    then \<exists>resp. r = Some resp \<and> hs_next (ref_get q (objs v)) \<in> uncanceled (client_state q w)
       \<and> (merged_done (client_state q w) (w_env w) (hs_next (ref_get q (objs v))) \<longleftrightarrow> ctx_ended (hq_ctx request) (w_env w) \<or> ctx_ended [k] (w_env w))
       \<and> (let w' = snd (body_Close (rt_zero rt) closeNet q (rs_Body resp) w)
          in uncanceled (client_state q w') = uncanceled (ref_get q (objs v)) \<and> ctx_ended [k] (w_env w'))
    else uncanceled (client_state q w) = uncanceled (ref_get q (objs v)) \<and> ctx_ended [k] (w_env w)"
proof -
  obtain bodyFunc where bodyFunc: "bodyReader (cr_Body request) = Inr bodyFunc"
    using run by (cases "bodyReader (cr_Body request)") (simp_all add: doRequest_def)
  define v1 where "v1 = v\<lparr>ctx_errs := (ctx_errs v)(k := None)\<rparr>"
  have om: "outer_merge (hq_ctx request) (ex_ctx e) v = ([k], Some [k], v1)" using ctx k by (simp add: outer_merge_def v1_def Let_def)
  define w0 where "w0 = newExecution (rt_zero rt) [k] v1"
  have w0: "client_state q w0 = ref_get q (objs v)" "Context 0 w0 = [k]" by (simp_all add: w0_def newExecution_def v1_def Context_def get_exec_def)
  have "\<forall>n \<in> set (hq_ctx request) \<union> set (ex_ctx e). n < k" using k by (simp add: less_Suc_eq_le)
  then have nk: "hq_ctx request \<noteq> [k]" "[k] \<noteq> ex_ctx e" by (metis Un_iff less_irrefl list.set_intros(1))+
  let ?log = "\<lambda>er w1. let w2 = (if ex_onSuccess e \<and> SuccessAll er then log_event ''executor.onSuccess'' er w1
               else if ex_onFailure e \<and> \<not> SuccessAll er then log_event ''executor.onFailure'' er w1 else w1)
             in if ex_onDone e then log_event ''executor.onDone'' er w2 else w2"
  obtain er w1 where a: "http_attempt rt q reqFn bodyFunc (Some [k]) request 0 w0 = Some (Inr (er, w1))" and out: "r = Result er" "err = Error er"
    and w: "w = (if has_response (Result er) then ?log er w1 else set_env (cancel_outer (Some [k])) (?log er w1))"
    using run bodyFunc nk \<open>ex_policies e = []\<close>
    by (auto simp: doRequest_def om execute_inner_def WithContext_def run_bind_cases Let_def w0_def)
  have log: "w_env (?log er w1) = w_env w1" by (simp add: log_event_def Let_def)
  note h = http_attempt_contexts[OF ref fn _ ctx(1) _ _ a, unfolded w0, OF assms(3) _ nk(1), simplified]
  show ?thesis
  proof (cases "err = None")
    case True
    then obtain resp where resp: "r = Some resp" "has_response r" using h out by (auto simp: has_response_def split: option.splits)
    then obtain b' c where b: "rs_Body resp = bodyWithCancel b' (Some [k]) (Some (hs_next (ref_get q (objs v)))) c" "\<not> is_bodyWithCancel b'"
      using h out True context_open[of "rs_Body resp"] by (auto simp: has_response_def)
    then obtain i where i: "b' = NetBody i" by (cases b') (simp_all add: is_bodyWithCancel_def)
    have cs: "client_state q w = client_state q w1" using w log resp out by simp
    obtain err' w' where close: "body_Close (rt_zero rt) closeNet q (rs_Body resp) w = (err', w')" by fastforce
    have "hs_next (ref_get q (objs v)) \<notin> uncanceled (ref_get q (objs v))" by (simp add: uncanceled_def)
    with body_Close_contexts[OF ref net close[unfolded b i]] h out True cs resp
    have "hs_next (ref_get q (objs v)) \<in> uncanceled (client_state q w)"
      "uncanceled (client_state q w') = uncanceled (ref_get q (objs v)) \<and> ctx_ended [k] (w_env w')" by auto
    moreover have "hs_parents (client_state q w) (hs_next (ref_get q (objs v))) = (hq_ctx request, [k])" using h cs by simp
    ultimately show ?thesis using True resp(1) close by (simp add: merged_done_def uncanceled_def)
  next
    case False
    then have "w_env w = cancel_ctx [k] (w_env w1)" using h out w log by (simp add: set_env_def cancel_outer_def)
    moreover have "objs (cancel_ctx [k] (w_env w1)) = objs (w_env w1)" by (simp add: cancel_ctx_def)
    ultimately show ?thesis using False h out by (cases "Error er") simp_all
  qed
qed

end
