(* ===== verification/Http_Retries.thy ===== *)
theory Http_Retries
  imports Http_Client
begin

text \<open>
  Requests of the HTTP client (src/failsafehttp/client.go) under the retry policy of src/failsafehttp/policy.go: the contexts of responses that are retried, and the
  bodies that attempts send, with a server that is unavailable on its first call as the instance.
\<close>

section \<open>Responses that are retried\<close>

lemma http_build_facts:
  "rp_budget (http_NewRetryPolicyBuilder m u) = None" "rp_maxDuration (http_NewRetryPolicyBuilder m u) = 0" "rp_maxRetries (http_NewRetryPolicyBuilder m u) = 2"
  "rp_jitter (http_NewRetryPolicyBuilder m u) = 0" "rp_jitterFactor (http_NewRetryPolicyBuilder m u) = 0" "\<not> rp_onRetry (http_NewRetryPolicyBuilder m u)"
  "\<not> rp_onAbort (http_NewRetryPolicyBuilder m u)" "\<not> rp_onRetryScheduled (http_NewRetryPolicyBuilder m u)"
  "ComputeDelay (rp_delayPolicy (http_NewRetryPolicyBuilder m u)) (Some x) = http_DelayFunc x" "Delay (rp_delayPolicy (http_NewRetryPolicyBuilder m u)) = 0"
  "rp_delayMin (http_NewRetryPolicyBuilder m u) = 0" "IsAbortable (rp_abortPolicy (http_NewRetryPolicyBuilder m u)) r None = False"
  "\<not> onFailure (rp_failurePolicy (http_NewRetryPolicyBuilder m u))" "\<not> onSuccess (rp_failurePolicy (http_NewRetryPolicyBuilder m u))"
  by (simp_all add: http_NewRetryPolicyBuilder_def rp_build_simps defaultMaxRetries_def ComputeDelay_def IsAbortable_def errors_Is_def)

text \<open>One round of the loop, on an attempt that returned a response in an execution that is not canceled.\<close>

lemma answered_round:
  fixes w w1 :: "(http_result, 's) world"
  assumes "f x w = Some (Inr (er, w1))" "er = \<lparr>Result = Some resp, Error = None, Done = True, Success = True, SuccessAll = True\<rparr>"
    and "exec_err x w1 = None" "\<not> retriesExceeded (w_retry w1 i)" "failedAttempts (w_retry w1 i) = int n" "n < 2" "w_timers w1 = []"
    and rt: "\<And>d ctx v. rt_pause rt d ctx v = v"
    and c: "c = http_NewRetryPolicyBuilder m u" and x: "x < w_next_exec w1"
  shows "if retryHandleFunc m u (Some resp) None
    then \<exists>w2. retry_loop (Suc k) rt c i f b x w = retry_loop k rt c i f True x w2 \<and> objs (w_env w2) = objs (w_env w1) \<and> ctx_errs (w_env w2) = ctx_errs (w_env w1)
      \<and> Context x w2 = Context x w1 \<and> e_cancelFunc (get_exec x w2) = e_cancelFunc (get_exec x w1) \<and> \<not> retriesExceeded (w_retry w2 i) \<and> failedAttempts (w_retry w2 i) = int (Suc n) \<and> w_timers w2 = [] \<and> x < w_next_exec w2
    else retry_loop (Suc k) rt c i f b x w = Some (Inr (er, w1))"
proof (cases "retryHandleFunc m u (Some resp) None")
  case True
  have e: "isCanceledWithResult z x w1 = None" for z using assms(3) by (simp add: isCanceledWithResult_def)
  define res where "res = WithDone (WithFailure er) False False"
  define w2 where "w2 = set_retry i ((w_retry w1 i)\<lparr>failedAttempts := int (Suc n), retriesExceeded := False\<rparr>) w1"
  have "i64 (int n + 1) = int n + 1" using assms(6) by (intro i64_id) (simp add: in_i64_def)
  then have onf: "retry_OnFailure rt c i x (WithFailure er) w1 = (res, w2)"
    using assms(2,5,6) by (simp add: retry_OnFailure_def base_OnFailure_def c http_build_facts call_listener_def allowsRetries_def res_def w2_def WithFailure_def Let_def add.commute)
  have w2: "exec_err x w2 = None" "w_timers w2 = []" "w_env w2 = w_env w1" "Context x w2 = Context x w1" "e_cancelFunc (get_exec x w2) = e_cancelFunc (get_exec x w1)" "w_retry w2 i = (w_retry w1 i)\<lparr>failedAttempts := int (Suc n), retriesExceeded := False\<rparr>" "w_next_exec w2 = w_next_exec w1"
    using assms(3,7) by (simp_all add: w2_def set_retry_def exec_err_def get_exec_def Context_def)
  have delay: "\<exists>d. getDelay rt c i x w' = (d, w')" for w'
    by (auto simp: getDelay_def c http_build_facts getFixedOrRandomDelay_def adjustForJitter_def Let_def)
  define w3 where "w3 = set_last x (Some res) w2"
  have w3: "exec_err x w3 = None" "w_timers w3 = []" "w_env w3 = w_env w2" "Context x w3 = Context x w2" "e_cancelFunc (get_exec x w3) = e_cancelFunc (get_exec x w2)" "w_retry w3 = w_retry w2" "w_next_exec w3 = w_next_exec w2"
    using w2(1,2) by (simp_all add: w3_def set_last_def set_exec_def exec_err_def get_exec_def Context_def)
  have pause: "pause rt d x w3 = w3" for d using w3(2) by (simp add: pause_def rt set_env_def fire_timers_def)
  obtain w4 where w4: "InitializeRetry (rt_zero rt) x w3 = (None, w4)" "w_env w4 = w_env w3" "Context x w4 = Context x w3" "e_cancelFunc (get_exec x w4) = e_cancelFunc (get_exec x w3)" "w_retry w4 = w_retry w3"
      "w_timers w4 = w_timers w3" "w_next_exec w4 = w_next_exec w3"
    using w3(1) by (auto simp: InitializeRetry_def isCanceledWithResult_def set_exec_def get_exec_def Context_def Let_def)
  have "prepare_retry rt c i x res w2 = (Inr (), w4)"
    using w2(1) w4(1) delay[of w3] pause
    by (auto simp: prepare_retry_def exec_RecordResult_def isCanceledWithResult_def c http_build_facts acquire_retry_def call_listener_def Let_def simp flip: w3_def)
  then have "retry_loop (Suc k) rt c i f b x w = retry_loop k rt c i f True x w4"
    using True assms(1,4) onf e
    by (simp add: update_budget_def c http_build_facts retry_PostExecute_def base_PostExecute_def base_IsFailure_def http_failures assms(2) res_def WithDone_def)
  then show ?thesis using True w2 w3 w4 x by (intro if_P[THEN iffD2]) auto
next
  case False
  have e: "isCanceledWithResult z x w1 = None" for z using assms(3) by (simp add: isCanceledWithResult_def)
  show ?thesis using False assms(1-4)
    by (simp add: e c http_build_facts update_budget_def retry_PostExecute_def base_PostExecute_def base_IsFailure_def http_failures base_OnSuccess_def call_listener_def
      WithDone_def run_return_def)
qed

text \<open>
  A request function whose \<open>n\<close>-th call returns the response \<open>out n\<close>, where \<open>served\<close> counts its calls, and what closing a body of the network does; \<open>shut\<close> are
  the bodies that were closed.
\<close>

definition answers :: "('s, http_state) ref \<Rightarrow> ('s \<Rightarrow> nat) \<Rightarrow> ('s \<Rightarrow> nat set) \<Rightarrow> (nat \<Rightarrow> resp_body http_response) \<Rightarrow> 's request_fn \<Rightarrow> bool" where
  "answers q served shut out reqFn \<longleftrightarrow>
     (\<forall>sr u. fst (reqFn sr u) = (Some (out (served (objs u))), None) \<and> served (objs (snd (reqFn sr u))) = Suc (served (objs u))
        \<and> shut (objs (snd (reqFn sr u))) = shut (objs u) \<and> ctx_errs (snd (reqFn sr u)) = ctx_errs u
        \<and> ref_get q (objs (snd (reqFn sr u))) = ref_get q (objs u))
     \<and> (\<forall>n. \<exists>i. rs_Body (out n) = NetBody i) \<and> (\<forall>h s. served (ref_put q h s) = served s \<and> shut (ref_put q h s) = shut s)"

definition closes :: "('s, http_state) ref \<Rightarrow> ('s \<Rightarrow> nat set) \<Rightarrow> (nat \<Rightarrow> ('r, 's) env \<Rightarrow> 'r error option \<times> ('r, 's) env) \<Rightarrow> bool" where
  "closes q shut closeNet \<longleftrightarrow>
     (\<forall>i u. shut (objs (snd (closeNet i u))) = insert i (shut (objs u)) \<and> ctx_errs (snd (closeNet i u)) = ctx_errs u
        \<and> same_ctxs (ref_get q (objs u)) (ref_get q (objs (snd (closeNet i u)))))"

text \<open>The cases in which \<^verbatim>\<open>MergeContexts\<close> makes a new context, and the client's state with it.\<close>

definition merges :: "nat list \<Rightarrow> nat list \<Rightarrow> bool" where
  "merges ctx1 ctx2 \<longleftrightarrow> ctx1 \<noteq> [] \<and> ctx2 \<noteq> [] \<and> ctx1 \<noteq> ctx2"

definition with_merged :: "nat list \<Rightarrow> nat list \<Rightarrow> http_state \<Rightarrow> http_state" where
  "with_merged ctx1 ctx2 h =
     (if merges ctx1 ctx2 then h\<lparr>hs_next := Suc (hs_next h), hs_parents := (hs_parents h)(hs_next h := (ctx1, ctx2))\<rparr> else h)"

lemma inner_merge_cases:
  "\<exists>ic. inner_merge q ctx1 ctx2 v =
     (ic, if merges ctx1 ctx2 then Some (hs_next (ref_get q (objs v))) else None,
      if merges ctx1 ctx2 then v\<lparr>objs := ref_put q (with_merged ctx1 ctx2 (ref_get q (objs v))) (objs v)\<rparr> else v)"
  by (auto simp: inner_merge_def merges_def with_merged_def Let_def)

lemma attempt_answered:
  fixes w :: "(http_result, 's) world"
  assumes ref: "\<And>obj s. ref_get q (ref_put q obj s) = obj" and fn: "answers q served shut out reqFn" and w: "w_timers w = []" "x < w_next_exec w"
  defines "h \<equiv> client_state q w" and "n \<equiv> served (objs (w_env w))"
  shows "\<exists>w1 c. http_attempt rt q reqFn None co request x w = Some (Inr (
      \<lparr>Result = Some ((out n)\<lparr>rs_Body := bodyWithCancel (rs_Body (out n)) co (if merges (hq_ctx request) (Context x w) then Some (hs_next h) else None) c\<rparr>),
        Error = None, Done = True, Success = True, SuccessAll = True\<rparr>, w1))
    \<and> ctx_errs (w_env w1) = ctx_errs (w_env w) \<and> Context x w1 = Context x w \<and> w_retry w1 = w_retry w \<and> w_timers w1 = [] \<and> x < w_next_exec w1
    \<and> served (objs (w_env w1)) = Suc n \<and> shut (objs (w_env w1)) = shut (objs (w_env w))
    \<and> client_state q w1 = with_merged (hq_ctx request) (Context x w) h
    \<and> e_cancelFunc (get_exec c w1) = e_cancelFunc (get_exec x w) \<and> e_cancelFunc (get_exec x w1) = e_cancelFunc (get_exec x w)"
proof -
  obtain c w1 where c: "exec_copy x w = (c, w1)" by (cases "exec_copy x w")
  then have w1: "w_env w1 = w_env w" "Context c w1 = Context x w" "Context x w1 = Context x w" "w_retry w1 = w_retry w" "w_timers w1 = []" "x < w_next_exec w1"
      "get_exec c w1 = get_exec x w" "get_exec x w1 = get_exec x w"
    using w by (auto simp: exec_copy_def set_exec_def Context_def get_exec_def)
  let ?m = "merges (hq_ctx request) (Context x w)" and ?h = "with_merged (hq_ctx request) (Context x w) h"
  obtain ic ci v where im: "inner_merge q (hq_ctx request) (Context c w1) (w_env w1) = (ic, ci, v)"
     and ci: "ci = (if ?m then Some (hs_next h) else None)" and v0: "v = (if ?m then (w_env w)\<lparr>objs := ref_put q ?h (objs (w_env w))\<rparr> else w_env w)"
    using inner_merge_cases[of q "hq_ctx request" "Context x w" "w_env w"] w1(1,2) unfolding h_def by auto
  have v: "served (objs v) = n" "shut (objs v) = shut (objs (w_env w))" "ctx_errs v = ctx_errs (w_env w)" "ref_get q (objs v) = ?h"
    using fn ref by (simp_all add: v0 answers_def n_def) (simp add: with_merged_def h_def)
  let ?sr = "\<lparr>sr_ctx = ic, sr_values = hq_values request, sr_Header = hq_Header request, sr_Body = None\<rparr>"
  let ?resp = "(out n)\<lparr>rs_Body := bodyWithCancel (rs_Body (out n)) co ci c\<rparr>"
  obtain u where u: "reqFn ?sr v = ((Some (out n), None), u)" "served (objs u) = Suc n" "shut (objs u) = shut (objs (w_env w))"
      "ctx_errs u = ctx_errs (w_env w)" "ref_get q (objs u) = ?h"
    using fn v unfolding answers_def by (metis prod.collapse)
  have "fire_timers rt (w1\<lparr>w_env := u\<rparr>) = w1\<lparr>w_env := u\<rparr>" using w1(5) by (simp add: fire_timers_def)
  then have "attempt_response rt reqFn co ci c ?sr (w1\<lparr>w_env := v\<rparr>) = run_return ((Some ?resp, None), DeferCancel (w1\<lparr>w_env := u\<rparr>))"
    using u(1) by (simp add: attempt_response_def)
  then have "http_attempt rt q reqFn None co request x w
      = Some (Inr (\<lparr>Result = Some ?resp, Error = None, Done = True, Success = True, SuccessAll = True\<rparr>, exec_record (DeferCancel (w1\<lparr>w_env := u\<rparr>))))"
    unfolding http_attempt_def c im prod.case Let_def attempt_body_def option.case sum.case
    by (simp add: has_response_def is_bodyWithCancel_def run_return_def)
  then show ?thesis
    using u w1 ci by (intro exI[of _ "exec_record (DeferCancel (w1\<lparr>w_env := u\<rparr>))"] exI[of _ c]) (simp add: DeferCancel_def exec_record_def Context_def get_exec_def)
qed

text \<open>The context of the request's execution.\<close>

definition outer_ctx :: "nat list \<Rightarrow> nat list \<Rightarrow> nat list" where
  "outer_ctx ctx1 ctx2 = (if merges ctx1 ctx2 then [Suc (Max (set (ctx1 @ ctx2)))] else if ctx1 = [] then ctx2 else ctx1)"

lemma outer_merge_cases:
  "outer_merge ctx1 ctx2 v = (outer_ctx ctx1 ctx2, if merges ctx1 ctx2 then Some (outer_ctx ctx1 ctx2) else None,
     if merges ctx1 ctx2 then v\<lparr>ctx_errs := (ctx_errs v)(Suc (Max (set (ctx1 @ ctx2))) := None)\<rparr> else v)"
  by (auto simp: outer_merge_def outer_ctx_def merges_def Let_def)

lemma merges_outer: "merges ctx1 (outer_ctx ctx1 ctx2) \<longleftrightarrow> merges ctx1 ctx2"
proof (cases "merges ctx1 ctx2")
  case True
  have "\<forall>n \<in> set (ctx1 @ ctx2). n < Suc (Max (set (ctx1 @ ctx2)))" by (simp add: less_Suc_eq_le)
  then have "ctx1 \<noteq> [Suc (Max (set (ctx1 @ ctx2)))]" by (metis in_set_conv_decomp append_Cons less_irrefl list.set_intros(1))
  then show ?thesis using True by (simp add: merges_def outer_ctx_def)
qed (auto simp: merges_def outer_ctx_def)

text \<open>The request makes two attempts; the body of the response it returns has the contexts of the second. No network body is closed and no context is canceled meanwhile.\<close>

lemma doRequest_retried:
  fixes e :: "(http_result, 's) executor"
  assumes ref: "\<And>obj s. ref_get q (ref_put q obj s) = obj" and fn: "answers q served shut out reqFn"
    and live: "\<not> ctx_ended (hq_ctx request) v" "\<not> ctx_ended (ex_ctx e) v" and body: "cr_Body request = NilBody"
    and e: "ex_policies e = [retry_Apply rt (http_NewRetryPolicyBuilder m u)]" and rt: "\<And>d ctx v. rt_pause rt d ctx v = v" "rt_fuel rt = Suc (Suc fuel)"
    and out: "served (objs v) = 0" "retryHandleFunc m u (Some (out 0)) None" "\<not> retryHandleFunc m u (Some (out 1)) None"
  defines "mg \<equiv> merges (hq_ctx request) (ex_ctx e)" and "ctx \<equiv> outer_ctx (hq_ctx request) (ex_ctx e)" and "h \<equiv> ref_get q (objs v)"
  shows "\<exists>c w. doRequest rt q request e reqFn v
      = Some (Inr ((Some ((out 1)\<lparr>rs_Body := bodyWithCancel (rs_Body (out 1)) (if mg then Some ctx else None) (if mg then Some (Suc (hs_next h)) else None) c\<rparr>), None), Some w))
    \<and> client_state q w = with_merged (hq_ctx request) ctx (with_merged (hq_ctx request) ctx h) \<and> shut (objs (w_env w)) = shut (objs v)
    \<and> ctx_errs (w_env w) = (if mg then (ctx_errs v)(hd ctx := None) else ctx_errs v) \<and> \<not> e_cancelFunc (get_exec c w)"
proof -
  let ?c = "http_NewRetryPolicyBuilder m u :: (http_result, 's) rp_config" and ?co = "if mg then Some ctx else None"
  define v1 where "v1 = (if mg then v\<lparr>ctx_errs := (ctx_errs v)(Suc (Max (set (hq_ctx request @ ex_ctx e))) := None)\<rparr> else v)"
  have om: "outer_merge (hq_ctx request) (ex_ctx e) v = (ctx, ?co, v1)" by (simp add: outer_merge_cases v1_def mg_def ctx_def)
  have mi: "merges (hq_ctx request) ctx \<longleftrightarrow> mg" by (simp add: mg_def ctx_def merges_outer)
  have v1: "ctx_errs v1 = (if mg then (ctx_errs v)(hd ctx := None) else ctx_errs v)" "objs v1 = objs v" by (simp_all add: v1_def ctx_def outer_ctx_def mg_def)
  have err: "ctx_Err (ctx_errs v1) ctx = None" using live by (simp add: v1 ctx_def outer_ctx_def mg_def ctx_ended_def)
  define f where "f = http_attempt rt q reqFn None ?co request"
  define w0 where "w0 = newExecution (rt_zero rt) ctx v1"
  have w0: "w_env w0 = v1" "client_state q w0 = h" "Context 0 w0 = ctx" "w_timers w0 = []" "0 < w_next_exec w0" "served (objs (w_env w0)) = 0"
      "\<not> retriesExceeded (w_retry w0 0)" "failedAttempts (w_retry w0 0) = int 0" "\<not> e_cancelFunc (get_exec 0 w0)"
    using out(1) by (simp_all add: w0_def newExecution_def v1(2) h_def Context_def get_exec_def)
  let ?ci = "\<lambda>j. if mg then Some j else None"
  let ?wrap = "\<lambda>r j c. r\<lparr>rs_Body := bodyWithCancel (rs_Body r) ?co (?ci j) c\<rparr>"
  have handle: "retryHandleFunc m u (Some (?wrap r j c)) None = retryHandleFunc m u (Some r) None" for r j c by (simp add: retryHandleFunc_def)
  note ans = attempt_answered[OF ref fn, where request = request and rt = rt and co = ?co and x = 0, folded f_def]
  obtain w1 c1 where a1: "f 0 w0 = Some (Inr (\<lparr>Result = Some (?wrap (out 0) (hs_next h) c1), Error = None, Done = True, Success = True, SuccessAll = True\<rparr>, w1))"
      "ctx_errs (w_env w1) = ctx_errs v1" "Context 0 w1 = ctx" "w_retry w1 = w_retry w0" "w_timers w1 = []" "0 < w_next_exec w1" "served (objs (w_env w1)) = 1"
      "shut (objs (w_env w1)) = shut (objs v)" "client_state q w1 = with_merged (hq_ctx request) ctx h" "\<not> e_cancelFunc (get_exec 0 w1)"
    using ans[OF w0(4,5)] w0 v1(2) mi by auto
  have err1: "exec_err 0 w1 = None" using a1(2,3) err by (simp add: exec_err_def Context_def)
  obtain w2 where w2: "retry_loop (Suc (Suc fuel)) rt ?c 0 f False 0 w0 = retry_loop (Suc fuel) rt ?c 0 f True 0 w2" "objs (w_env w2) = objs (w_env w1)"
      "ctx_errs (w_env w2) = ctx_errs (w_env w1)" "Context 0 w2 = ctx" "\<not> e_cancelFunc (get_exec 0 w2)" "\<not> retriesExceeded (w_retry w2 0)" "failedAttempts (w_retry w2 0) = int 1"
      "w_timers w2 = []" "0 < w_next_exec w2"
    using answered_round[where f = f and i = 0 and n = 0 and k = "Suc fuel" and b = False, OF a1(1) refl err1 _ _ _ a1(5) rt(1) refl a1(6), of m u] a1 w0(7,8) handle out(2) by auto
  have j: "mg \<Longrightarrow> hs_next (with_merged (hq_ctx request) ctx h) = Suc (hs_next h)" using mi by (simp add: with_merged_def)
  obtain w3 c3 where a3: "f 0 w2 = Some (Inr (\<lparr>Result = Some (?wrap (out 1) (Suc (hs_next h)) c3), Error = None, Done = True, Success = True, SuccessAll = True\<rparr>, w3))"
      "ctx_errs (w_env w3) = ctx_errs v1" "Context 0 w3 = ctx" "w_retry w3 = w_retry w2" "w_timers w3 = []" "0 < w_next_exec w3"
      "shut (objs (w_env w3)) = shut (objs v)" "client_state q w3 = with_merged (hq_ctx request) ctx (with_merged (hq_ctx request) ctx h)" "\<not> e_cancelFunc (get_exec c3 w3)"
    using ans[OF w2(8,9)] w2(2-5) a1(2,7,8,9) mi j by (cases mg) auto
  have err3: "exec_err 0 w3 = None" using a3(2,3) err by (simp add: exec_err_def Context_def)
  let ?resp = "?wrap (out 1) (Suc (hs_next h)) c3"
  have loop: "retry_loop (Suc (Suc fuel)) rt ?c 0 f False 0 w0
      = Some (Inr (\<lparr>Result = Some ?resp, Error = None, Done = True, Success = True, SuccessAll = True\<rparr>, w3))"
    using answered_round[where f = f and i = 0 and n = 1 and k = fuel and b = True, OF a3(1) refl err3 _ _ _ a3(5) rt(1) refl a3(6), of m u] a3 w2 handle out(3) by auto
  have retry: "retry_Apply rt ?c 0 f 0 w0 = Some (Inr (\<lparr>Result = Some ?resp, Error = None, Done = True, Success = True, SuccessAll = True\<rparr>, w3))"
    using loop by (simp add: retry_Apply_def rt(2) update_budget_def http_build_facts run_return_def del: retry_loop.simps)
  define e' where "e' = (if ctx \<noteq> ex_ctx e then WithContext (Some ctx) e else e)"
  have e': "ex_policies e' = [retry_Apply rt ?c]" "ex_ctx e' = ctx" using e by (simp_all add: e'_def WithContext_def)
  have env: "\<exists>w. execute_inner e' f w0 = Some (Inr (\<lparr>Result = Some ?resp, Error = None, Done = True, Success = True, SuccessAll = True\<rparr>, w)) \<and> w_env w = w_env w3 \<and> w_execs w = w_execs w3"
    using retry by (simp add: execute_inner_def e'(1) run_return_def log_event_def Let_def)
  then obtain w where w: "execute_inner e' f w0 = Some (Inr (\<lparr>Result = Some ?resp, Error = None, Done = True, Success = True, SuccessAll = True\<rparr>, w))"
      "w_env w = w_env w3" "w_execs w = w_execs w3" by blast
  have "doRequest rt q request e reqFn v = Some (Inr ((Some ?resp, None), Some w))"
    using w(1) by (simp add: doRequest_def body bodyReader_def om e'(2) has_response_def is_bodyWithCancel_def run_return_def flip: e'_def f_def w0_def)
  then show ?thesis using a3 w(2,3) v1(1) by (intro exI[of _ c3] exI[of _ w]) (simp add: get_exec_def)
qed

lemma ctx_Err_other: "k \<notin> set ctx \<Longrightarrow> ctx_Err (errs(k := x)) ctx = ctx_Err errs ctx"
  by (induction ctx) (auto split: option.split)

lemma Suc_Max_notin: "Suc (Max (set (ctx1 @ ctx2))) \<notin> set ctx1"
proof
  assume "Suc (Max (set (ctx1 @ ctx2))) \<in> set ctx1"
  then have "Suc (Max (set (ctx1 @ ctx2))) \<le> Max (set (ctx1 @ ctx2))" by (intro Max_ge) simp_all
  then show False by simp
qed

lemma close_parents:
  assumes ref: "\<And>obj s. ref_get q (ref_put q obj s) = obj" and "closes q shut closeNet"
  shows "hs_parents (client_state q (snd (body_Close zero closeNet q (bodyWithCancel (NetBody i) co ci c) w))) = hs_parents (client_state q w)"
  using assms by (simp add: split_beta closes_def same_ctxs_def cancel_outer_def cancel_inner_def set_env_def run_deferred_cancel_def cancel_ctx_def Let_def split: option.split list.split)

lemma close_ctx_errs:
  assumes "closes q shut closeNet" "\<not> e_cancelFunc (get_exec c w)"
  shows "ctx_errs (w_env (snd (body_Close zero closeNet q (bodyWithCancel (NetBody i) None None c) w))) = ctx_errs (w_env w)"
  using assms by (simp add: split_beta closes_def cancel_outer_def cancel_inner_def set_env_def run_deferred_cancel_def exec_Cancel_def get_exec_def Let_def)

lemma close_closed:
  assumes "closes q shut closeNet" "answers q served shut out reqFn"
  shows "shut (objs (w_env (snd (body_Close zero closeNet q (bodyWithCancel (NetBody i) co ci c) w)))) = insert i (shut (objs (w_env w)))"
  using assms by (simp add: split_beta closes_def answers_def cancel_outer_def cancel_inner_def set_env_def run_deferred_cancel_def cancel_ctx_def Let_def split: option.split list.split)

text \<open>
  C36. A client with the HTTP retry policy, whose first response is retried and whose second is not, returns the second one, and nothing ever closes the body of the first: not the
  client, and not the caller, who only has the second response and closes it. If the request's context and the executor's are different, the context merged for the first attempt
  stays open, not canceled, until the caller has closed the second response, which ends it by canceling its parent, the context merged for the request. If there is only one
  context, or none, closing the second response ends no context at all, so nothing but the request's own context can end what the first response holds.
\<close>

theorem retried_response_leaks:
  fixes e :: "(http_result, 's) executor"
  assumes ref: "\<And>obj s. ref_get q (ref_put q obj s) = obj" and fn: "answers q served shut out reqFn" and "numbered (ref_get q (objs v))" and net: "closes q shut closeNet"
    and live: "\<not> ctx_ended (hq_ctx request) v" "\<not> ctx_ended (ex_ctx e) v" and body: "cr_Body request = NilBody"
    and e: "ex_policies e = [retry_Apply rt (http_NewRetryPolicyBuilder m u)]" and rt: "\<And>d ctx v. rt_pause rt d ctx v = v" "rt_fuel rt = Suc (Suc fuel)"
    and out: "served (objs v) = 0" "retryHandleFunc m u (Some (out 0)) None" "\<not> retryHandleFunc m u (Some (out 1)) None"
    and bodies: "rs_Body (out 0) = NetBody i0" "rs_Body (out 1) = NetBody i1" "i0 \<noteq> i1" "i0 \<notin> shut (objs v)"
  defines "j \<equiv> hs_next (ref_get q (objs v))"
  shows "\<exists>resp w. doRequest rt q request e reqFn v = Some (Inr ((Some resp, None), Some w)) \<and> rs_StatusCode resp = rs_StatusCode (out 1)
    \<and> (let w' = snd (body_Close (rt_zero rt) closeNet q (rs_Body resp) w)
       in i1 \<in> shut (objs (w_env w')) \<and> i0 \<notin> shut (objs (w_env w'))
        \<and> (if merges (hq_ctx request) (ex_ctx e)
           then j < hs_next (client_state q w) \<and> \<not> merged_done (client_state q w) (w_env w) j
             \<and> j \<in> uncanceled (client_state q w') \<and> merged_done (client_state q w') (w_env w') j
           else ctx_errs (w_env w') = ctx_errs v))"
proof -
  let ?h = "ref_get q (objs v)" and ?mg = "merges (hq_ctx request) (ex_ctx e)" and ?ctx = "outer_ctx (hq_ctx request) (ex_ctx e)"
  let ?body = "\<lambda>c. bodyWithCancel (NetBody i1) (if ?mg then Some ?ctx else None) (if ?mg then Some (Suc j) else None) c"
  obtain c w where w: "doRequest rt q request e reqFn v = Some (Inr ((Some ((out 1)\<lparr>rs_Body := ?body c\<rparr>), None), Some w))"
      "client_state q w = with_merged (hq_ctx request) ?ctx (with_merged (hq_ctx request) ?ctx ?h)" "shut (objs (w_env w)) = shut (objs v)"
      "ctx_errs (w_env w) = (if ?mg then (ctx_errs v)(hd ?ctx := None) else ctx_errs v)" "\<not> e_cancelFunc (get_exec c w)"
    using doRequest_retried[OF ref fn live body e rt out] bodies(2) unfolding j_def by auto
  define w' where "w' = snd (body_Close (rt_zero rt) closeNet q (?body c) w)"
  have closed: "shut (objs (w_env w')) = insert i1 (shut (objs v))" using close_closed[OF net fn] w(3) by (simp add: w'_def)
  have "ctx_errs (w_env w') = ctx_errs v" if "\<not> ?mg" using close_ctx_errs[OF net w(5)] w(4) that by (simp add: w'_def)
  moreover have "j < hs_next (client_state q w) \<and> \<not> merged_done (client_state q w) (w_env w) j \<and> j \<in> uncanceled (client_state q w') \<and> merged_done (client_state q w') (w_env w') j"
    if mg: ?mg
  proof -
    obtain k where k: "?ctx = [k]" "k = Suc (Max (set (hq_ctx request @ ex_ctx e)))" using mg by (simp add: outer_ctx_def)
    have m: "merges (hq_ctx request) [k]" using mg merges_outer[of "hq_ctx request" "ex_ctx e"] k by simp
    have h: "hs_next (client_state q w) = Suc (Suc j)" "hs_parents (client_state q w) j = (hq_ctx request, [k])" "hs_canceled (client_state q w) = hs_canceled ?h"
      using w(2) m k(1) by (simp_all add: with_merged_def j_def)
    have j: "j \<notin> set (hs_canceled ?h)" using assms(3) by (auto simp: numbered_def j_def)
    have "\<not> ctx_ended (hq_ctx request) (w_env w)" using live(1) Suc_Max_notin[of "hq_ctx request" "ex_ctx e"] w(4) mg k ctx_Err_other[of k "hq_ctx request" "ctx_errs v" None] by (simp add: ctx_ended_def)
    moreover have "\<not> ctx_ended [k] (w_env w)" using w(4) mg k by (simp add: ctx_ended_def)
    ultimately have "\<not> merged_done (client_state q w) (w_env w) j" using h j by (simp add: merged_done_def)
    have same: "\<And>i u. same_ctxs (ref_get q (objs u)) (ref_get q (objs (snd (closeNet i u))))" using net by (simp add: closes_def)
    obtain err' where close: "body_Close (rt_zero rt) closeNet q (bodyWithCancel (NetBody i1) (Some [k]) (Some (Suc j)) c) w = (err', w')"
      using mg k(1) by (simp add: w'_def prod_eq_iff)
    have "j \<in> uncanceled (client_state q w')" "ctx_ended [k] (w_env w')"
      using body_Close_contexts[OF ref same close] h j by (auto simp: uncanceled_def)
    moreover have "hs_parents (client_state q w') j = (hq_ctx request, [k])" using close_parents[OF ref net, where w = w and zero = "rt_zero rt" and i = i1 and co = "Some [k]" and ci = "Some (Suc j)" and c = c] close h by simp
    ultimately show ?thesis using h \<open>\<not> merged_done (client_state q w) (w_env w) j\<close> by (simp add: merged_done_def)
  qed
  ultimately show ?thesis
    using w(1) closed bodies(3,4) by (intro exI[of _ "(out 1)\<lparr>rs_Body := ?body c\<rparr>"] exI[of _ w]) (simp add: Let_def del: body_Close.simps flip: w'_def)
qed

section \<open>A client\<close>

text \<open>A server that is unavailable on its first call, the state of a client with it, and a request with different contexts.\<close>

record server_state =
  ss_calls :: nat
  ss_closed :: "nat set"
  ss_client :: http_state

definition client_ref :: "(server_state, http_state) ref" where
  "client_ref = \<lparr>ref_get = ss_client, ref_put = (\<lambda>h s. s\<lparr>ss_client := h\<rparr>)\<rparr>"

definition server_answer :: "nat \<Rightarrow> resp_body http_response" where
  "server_answer n = \<lparr>rs_StatusCode = (if n = 0 then 503 else 200), rs_Header = (\<lambda>_. None), rs_Body = NetBody n\<rparr>"

definition flaky_server :: "server_state request_fn" where
  "flaky_server sr v =
     ((Some (server_answer (ss_calls (objs v))), None), v\<lparr>objs := (objs v)\<lparr>ss_calls := Suc (ss_calls (objs v))\<rparr>\<rparr>)"

definition http_runtime :: "(http_result, server_state) runtime" where
  "http_runtime = \<lparr>rt_zero = None, rt_pause = (\<lambda>d ctx v. v), rt_rand = (\<lambda>v. (0, v)), rt_fires = (\<lambda>_ _. False),
     rt_selects_ctx = (\<lambda>_. True), rt_selects_timer = (\<lambda>_. False), rt_fuel = 3\<rparr>"

definition get_request :: client_request where
  "get_request = \<lparr>hq_ctx = [0], hq_values = [], hq_Header = Some (\<lambda>_. None), cr_Body = NilBody\<rparr>"

definition http_executor :: "(http_result, server_state) policy list \<Rightarrow> (http_result, server_state) executor" where
  "http_executor policies = WithContext (Some [1]) (executor_With policies)"

definition fresh_env :: "(http_result, server_state) env" where
  "fresh_env = \<lparr>clock = 0, ctx_errs = (\<lambda>_. None), objs = \<lparr>ss_calls = 0, ss_closed = {}, ss_client = \<lparr>hs_next = 0, hs_parents = (\<lambda>_. ([], [])), hs_canceled = [], hs_cursor = 0\<rparr>\<rparr>\<rparr>"

lemma client_ref_laws: "ref_get client_ref (ref_put client_ref h s) = h" "ref_get client_ref (objs fresh_env) = \<lparr>hs_next = 0, hs_parents = (\<lambda>_. ([], [])), hs_canceled = [], hs_cursor = 0\<rparr>"
    "same_ctxs (ref_get client_ref (objs u)) (ref_get client_ref (objs (snd ((\<lambda>i u. (None, u)) i u))))"
  by (simp_all add: client_ref_def fresh_env_def same_ctxs_def)

definition net_Close :: "nat \<Rightarrow> (http_result, server_state) env \<Rightarrow> http_result error option \<times> (http_result, server_state) env" where
  "net_Close i v = (None, v\<lparr>objs := (objs v)\<lparr>ss_closed := insert i (ss_closed (objs v))\<rparr>\<rparr>)"

lemma flaky_server_answers: "answers client_ref ss_calls ss_closed server_answer flaky_server"
  by (simp add: answers_def flaky_server_def server_answer_def client_ref_def)

lemma net_closes: "closes client_ref ss_closed net_Close"
  by (simp add: closes_def net_Close_def client_ref_def same_ctxs_def)

lemma flaky_server_plain: "plain_requests client_ref flaky_server"
  by (simp add: plain_requests_def flaky_server_def server_answer_def client_ref_def same_ctxs_def has_response_def is_bodyWithCancel_def)

lemma fresh_numbered: "numbered (ref_get client_ref (objs fresh_env))"
  by (simp add: client_ref_laws numbered_def)

lemma http_request_runs:
  "\<exists>r w. doRequest http_runtime client_ref get_request (http_executor []) flaky_server fresh_env = Some (Inr ((r, None), Some w))"
proof -
  define w0 where "w0 = (newExecution None [2] (fresh_env\<lparr>ctx_errs := (ctx_errs fresh_env)(2 := None)\<rparr>) :: (http_result, server_state) world)"
  have "w_timers w0 = []" "0 < w_next_exec w0" "Context 0 w0 = [2]" by (simp_all add: w0_def newExecution_def Context_def get_exec_def)
  then obtain r w1 where a: "http_attempt http_runtime client_ref flaky_server None (Some [2]) get_request 0 w0
      = Some (Inr (\<lparr>Result = Some r, Error = None, Done = True, Success = True, SuccessAll = True\<rparr>, w1))"
    using attempt_answered[OF client_ref_laws(1) flaky_server_answers, where w = w0 and x = 0 and request = get_request and rt = http_runtime and co = "Some [2]"] by auto
  have om: "outer_merge [0] [Suc 0] fresh_env = ([2], Some [2], fresh_env\<lparr>ctx_errs := (ctx_errs fresh_env)(2 := None)\<rparr>)"
    by (simp add: outer_merge_def Let_def numeral_2_eq_2)
  have e: "http_executor [] = \<lparr>ex_policies = [], ex_ctx = [Suc 0], ex_onDone = False, ex_onSuccess = False, ex_onFailure = False\<rparr>"
    by (simp add: http_executor_def WithContext_def executor_With_def)
  have q: "hq_ctx get_request = [0]" "bodyReader (cr_Body get_request) = Inr None" "rt_zero http_runtime = None"
    by (simp_all add: get_request_def bodyReader_def http_runtime_def)
  show ?thesis
    using a by (simp add: doRequest_def om q e execute_inner_def WithContext_def run_return_def flip: w0_def)
qed

theorem http_request_releases_contexts_witness:
  "\<exists>resp w. doRequest http_runtime client_ref get_request (http_executor []) flaky_server fresh_env = Some (Inr ((Some resp, None), Some w))
    \<and> (let w' = snd (body_Close None (\<lambda>i u. (None, u)) client_ref (rs_Body resp) w) in uncanceled (client_state client_ref w') = {} \<and> ctx_ended [2] (w_env w'))"
proof -
  obtain r w where run: "doRequest http_runtime client_ref get_request (http_executor []) flaky_server fresh_env = Some (Inr ((r, None), Some w))"
    using http_request_runs by blast
  have k: "2 = Suc (Max (set (hq_ctx get_request @ ex_ctx (http_executor []))))"
    and c: "hq_ctx get_request \<noteq> []" "ex_ctx (http_executor []) \<noteq> []"
      "hq_ctx get_request \<noteq> ex_ctx (http_executor [])" "ex_policies (http_executor []) = []" "rt_zero http_runtime = None"
    by (simp_all add: get_request_def http_executor_def WithContext_def executor_With_def http_runtime_def)
  from http_request_releases_contexts[where closeNet = "\<lambda>i u. (None, u)", OF client_ref_laws(1) flaky_server_plain fresh_numbered client_ref_laws(3) c(1-4) k run]
  obtain resp where "r = Some resp" "uncanceled (client_state client_ref (snd (body_Close None (\<lambda>i u. (None, u)) client_ref (rs_Body resp) w))) = {}"
      "ctx_ended [2] (w_env (snd (body_Close None (\<lambda>i u. (None, u)) client_ref (rs_Body resp) w)))"
    using c(5) unfolding Let_def by (auto simp: client_ref_laws uncanceled_def)
  with run show ?thesis unfolding Let_def by blast
qed

text \<open>A request without a context through an executor without one, whose first response nothing can end, and one with two different contexts.\<close>

theorem retried_response_leaks_witness:
  "(\<exists>resp w. doRequest http_runtime client_ref (get_request\<lparr>hq_ctx := []\<rparr>) (executor_With [retry_Apply http_runtime (http_NewRetryPolicyBuilder (\<lambda>_. []) (\<lambda>_. False))])
        flaky_server fresh_env = Some (Inr ((Some resp, None), Some w)) \<and> rs_StatusCode resp = 200
      \<and> (let w' = snd (body_Close None net_Close client_ref (rs_Body resp) w)
         in 0 \<notin> ss_closed (objs (w_env w')) \<and> 1 \<in> ss_closed (objs (w_env w')) \<and> ctx_errs (w_env w') = (\<lambda>_. None)))
   \<and> (\<exists>resp w. doRequest http_runtime client_ref get_request (http_executor [retry_Apply http_runtime (http_NewRetryPolicyBuilder (\<lambda>_. []) (\<lambda>_. False))])
        flaky_server fresh_env = Some (Inr ((Some resp, None), Some w)) \<and> \<not> merged_done (client_state client_ref w) (w_env w) 0
      \<and> 0 \<notin> ss_closed (objs (w_env (snd (body_Close None net_Close client_ref (rs_Body resp) w)))))"
proof -
  let ?p = "retry_Apply http_runtime (http_NewRetryPolicyBuilder (\<lambda>_. []) (\<lambda>_. False)) :: (http_result, server_state) policy"
  let ?q = "get_request\<lparr>hq_ctx := []\<rparr>"
  have f: "cr_Body get_request = NilBody" "cr_Body ?q = NilBody" "hq_ctx get_request = [0]" "ex_policies (http_executor [?p]) = [?p]" "ex_ctx (http_executor [?p]) = [1]"
      "ex_policies (executor_With [?p]) = [?p]" "ex_ctx (executor_With [?p]) = []"
      "\<And>d ctx v. rt_pause http_runtime d ctx v = v" "rt_fuel http_runtime = Suc (Suc 1)" "ss_calls (objs fresh_env) = 0" "rt_zero http_runtime = None"
      "ss_closed (objs fresh_env) = {}" "ctx_errs fresh_env = (\<lambda>_. None)" "hs_next (ref_get client_ref (objs fresh_env)) = 0"
    by (simp_all add: get_request_def http_executor_def WithContext_def executor_With_def http_runtime_def fresh_env_def client_ref_def)
  have a: "retryHandleFunc (\<lambda>_. []) (\<lambda>_. False) (Some (server_answer 0)) None" "\<not> retryHandleFunc (\<lambda>_. []) (\<lambda>_. False) (Some (server_answer 1)) None"
      "rs_StatusCode (server_answer 1) = 200" "rs_Body (server_answer 0) = NetBody 0" "rs_Body (server_answer 1) = NetBody 1"
    by (simp_all add: retryHandleFunc_def server_answer_def status_defs)
  have live: "\<not> ctx_ended ctx fresh_env" for ctx by (induction ctx) (simp_all add: ctx_ended_def f(13))
  have n: "(0 :: nat) \<noteq> 1" "0 \<notin> ss_closed (objs fresh_env)" using f(12) by simp_all
  note leak = retried_response_leaks[OF client_ref_laws(1) flaky_server_answers fresh_numbered net_closes live live]
  from leak[OF f(2,6,8,9,10) a(1,2,4,5) n] leak[OF f(1,4,8,9,10) a(1,2,4,5) n] show ?thesis
    using f a(3) by (simp add: merges_def Let_def) blast
qed

section \<open>Bodies of requests\<close>

text \<open>What every attempt sends of a body.\<close>

definition body_bytes :: "'r request_body \<Rightarrow> bytes" where
  "body_bytes b = (case b of BufferBody b \<Rightarrow> b | BytesReaderBody b \<Rightarrow> b | SeekerBody b err \<Rightarrow> b | ReaderBody b err \<Rightarrow> b | _ \<Rightarrow> [])"

text \<open>
  Each attempt of a request finds all bytes of the request's body, whatever the attempts before it read, or the request fails before any attempt
  or with the error of seeking. An attempt whose body cannot seek is not disturbed by other attempts; attempts on a body that can share its position, so one that starts
  while another one is sending makes that one send from the start again.
\<close>

theorem request_body_replayed:
  assumes "bodyReader b = Inr (Some f)" "call_body f h = (Inr r, h')"
  shows "unread r h' = body_bytes b
    \<and> ((\<forall>bs e. b \<noteq> SeekerBody bs e) \<longrightarrow> (\<forall>h''. unread r h'' = body_bytes b))
    \<and> (\<forall>bs e n. b = SeekerBody bs e \<longrightarrow> unread r (h'\<lparr>hs_cursor := n\<rparr>) = drop n bs \<and> unread r (snd (call_body f (h'\<lparr>hs_cursor := n\<rparr>))) = bs)"
  using assms
  by (auto simp: bodyReader_def call_body_def unread_def body_bytes_def split: request_body.splits option.splits if_splits)

theorem request_body_replayed_witness:
  "\<exists>f r h. bodyReader (ReaderBody [1, 2] None :: int request_body) = Inr (Some f) \<and> call_body f \<lparr>hs_next = 0, hs_parents = (\<lambda>_. ([], [])), hs_canceled = [], hs_cursor = 7\<rparr> = (Inr r, h) \<and> unread r h = [1, 2]"
  using request_body_replayed[of "ReaderBody [1, 2] None :: int request_body"] by (auto simp: bodyReader_def call_body_def body_bytes_def)

text \<open>
  An attempt's request with all bytes of the body still to be read, and, if the body cannot seek, with a reader that nobody else can move, whatever happens to the client's state.
\<close>

definition whole_body :: "('s, http_state) ref \<Rightarrow> client_request \<Rightarrow> sent_request \<Rightarrow> (http_result, 's) env \<Rightarrow> bool" where
  "whole_body q request sr u \<longleftrightarrow>
     (case sr_Body sr of
        None \<Rightarrow> cr_Body request = NilBody
      | Some r \<Rightarrow> cr_Body request \<noteq> NilBody \<and> unread r (ref_get q (objs u)) = body_bytes (cr_Body request)
          \<and> ((\<nexists>bs err. cr_Body request = SeekerBody bs err) \<longrightarrow> (\<forall>h. unread r h = body_bytes (cr_Body request))))"

lemma bodyReader_none: "bodyReader b = Inr None \<longleftrightarrow> b = NilBody"
  by (cases b) (simp_all add: bodyReader_def split: option.splits)

lemma attempt_body_whole:
  assumes ref: "\<And>obj s. ref_get q (ref_put q obj s) = obj" and f: "bodyReader (cr_Body request) = Inr bodyFunc"
    and run: "attempt_body q bodyFunc v = (Inr b, v')"
  shows "whole_body q request \<lparr>sr_ctx = c, sr_values = vs, sr_Header = h, sr_Body = b\<rparr> v'"
proof (cases bodyFunc)
  case None
  with run f show ?thesis by (simp add: attempt_body_def whole_body_def bodyReader_none)
next
  case (Some g)
  then obtain r h' where r: "call_body g (ref_get q (objs v)) = (Inr r, h')" "b = Some r" "ref_get q (objs v') = h'"
    using run ref by (auto simp: attempt_body_def split: prod.splits sum.splits)
  have "unread r h' = body_bytes (cr_Body request)" "cr_Body request \<noteq> NilBody"
      "(\<nexists>bs err. cr_Body request = SeekerBody bs err) \<longrightarrow> (\<forall>h. unread r h = body_bytes (cr_Body request))" using r(1) f Some
    by (auto simp: bodyReader_def call_body_def unread_def body_bytes_def split: request_body.splits option.splits if_splits)
  with r show ?thesis by (simp add: whole_body_def)
qed

lemma http_attempt_cong:
  fixes q :: "('s, http_state) ref"
  assumes ref: "\<And>obj s. ref_get q (ref_put q obj s) = obj" and f: "bodyReader (cr_Body request) = Inr bodyFunc"
    and agree: "\<And>sr u. whole_body q request sr u \<Longrightarrow> reqFn sr u = reqFn' sr u"
  shows "http_attempt rt q reqFn bodyFunc cancelOuter request = http_attempt rt q reqFn' bodyFunc cancelOuter request"
proof (intro ext)
  fix x and w :: "(http_result, 's) world"
  obtain c w1 where c: "exec_copy x w = (c, w1)" by (cases "exec_copy x w")
  obtain ctxInner ci v1 where m: "inner_merge q (hq_ctx request) (Context c w1) (w_env w1) = (ctxInner, ci, v1)"
    by (cases "inner_merge q (hq_ctx request) (Context c w1) (w_env w1)")
  obtain b v2 where b: "attempt_body q bodyFunc v1 = (b, v2)" by (cases "attempt_body q bodyFunc v1")
  show "http_attempt rt q reqFn bodyFunc cancelOuter request x w = http_attempt rt q reqFn' bodyFunc cancelOuter request x w"
  proof (cases b)
    case (Inr b')
    let ?sr = "\<lparr>sr_ctx = ctxInner, sr_values = hq_values request, sr_Header = hq_Header request, sr_Body = b'\<rparr>"
    have "reqFn ?sr v2 = reqFn' ?sr v2" by (rule agree[OF attempt_body_whole[OF ref f b[unfolded Inr]]])
    then have "attempt_response rt reqFn co ci' c ?sr (w1\<lparr>w_env := v2\<rparr>) = attempt_response rt reqFn' co ci' c ?sr (w1\<lparr>w_env := v2\<rparr>)" for co ci'
      by (simp add: attempt_response_def)
    with c m b Inr show ?thesis by (simp add: http_attempt_def)
  qed (simp add: http_attempt_def c m b)
qed

text \<open>
  C18. Whatever policies a request goes through that call the inner function one call after another (all but hedge policies), and whatever its earlier attempts have read, each
  attempt that reaches the request function finds all bytes of the request's body, and no body only if the request has none: what the request function would do with
  anything else does not matter for the run. If the body cannot seek, the attempt's reader is its own, so that even attempts at the same time, as those of a hedge policy, could not disturb
  it; a body that can seek is shared by all attempts and is only safe one attempt after another.
\<close>

theorem attempts_send_whole_body:
  assumes ref: "\<And>obj s. ref_get q (ref_put q obj s) = obj" and agree: "\<And>sr u. whole_body q request sr u \<Longrightarrow> reqFn sr u = reqFn' sr u"
  shows "doRequest rt q request e reqFn v = doRequest rt q request e reqFn' v"
proof (cases "bodyReader (cr_Body request)")
  case (Inr bodyFunc)
  from http_attempt_cong[OF ref Inr agree] show ?thesis by (simp add: doRequest_def Inr split_beta)
qed (simp add: doRequest_def)

text \<open>A server that reads all there is, and is unavailable if the body is whole; the request's body can seek, and is sent again when it is retried.\<close>

definition checking_server :: "server_state request_fn" where
  "checking_server sr v =
     (let h = ss_client (objs v); ok = (case sr_Body sr of Some r \<Rightarrow> unread r h = [1, 2] | None \<Rightarrow> False)
      in ((Some \<lparr>rs_StatusCode = (if ok then 503 else 200), rs_Header = (\<lambda>_. None), rs_Body = NetBody (ss_calls (objs v))\<rparr>, None),
          v\<lparr>objs := \<lparr>ss_calls = Suc (ss_calls (objs v)), ss_closed = ss_closed (objs v), ss_client = h\<lparr>hs_cursor := 2\<rparr>\<rparr>\<rparr>))"

definition down_server :: "server_state request_fn" where
  "down_server sr v =
     ((Some \<lparr>rs_StatusCode = 503, rs_Header = (\<lambda>_. None), rs_Body = NetBody (ss_calls (objs v))\<rparr>, None),
      v\<lparr>objs := \<lparr>ss_calls = Suc (ss_calls (objs v)), ss_closed = ss_closed (objs v), ss_client = (ss_client (objs v))\<lparr>hs_cursor := 2\<rparr>\<rparr>\<rparr>)"

theorem attempts_send_whole_body_witness:
  "doRequest http_runtime client_ref (get_request\<lparr>cr_Body := SeekerBody [1, 2] None\<rparr>)
       (http_executor [retry_Apply http_runtime (http_NewRetryPolicyBuilder (\<lambda>_. []) (\<lambda>_. False))]) checking_server fresh_env
     = doRequest http_runtime client_ref (get_request\<lparr>cr_Body := SeekerBody [1, 2] None\<rparr>)
       (http_executor [retry_Apply http_runtime (http_NewRetryPolicyBuilder (\<lambda>_. []) (\<lambda>_. False))]) down_server fresh_env"
  by (rule attempts_send_whole_body[OF client_ref_laws(1)])
    (auto simp: whole_body_def checking_server_def down_server_def body_bytes_def get_request_def client_ref_def Let_def split: option.splits)

section \<open>Attempts of a request\<close>

lemma http_attempt_counts:
  fixes w :: "(http_result, 's) world"
  assumes "http_attempt rt q reqFn bodyFunc cancelOuter request x w = Some (Inr (r, w'))"
  shows "w_executions w' = w_executions w + 1 \<and> w_retry w' = w_retry w"
proof -
  obtain c w1 where c: "exec_copy x w = (c, w1)" by (cases "exec_copy x w")
  obtain ctxInner ci v1 where m: "inner_merge q (hq_ctx request) (Context c w1) (w_env w1) = (ctxInner, ci, v1)"
    by (cases "inner_merge q (hq_ctx request) (Context c w1) (w_env w1)")
  obtain b v2 where b: "attempt_body q bodyFunc v1 = (b, v2)" by (cases "attempt_body q bodyFunc v1")
  have s1: "same_run w (w1\<lparr>w_env := v2\<rparr>)" using frame_exec_copy[of w x] c by (simp add: same_run_def)
  have resp: "same_run w3 w4" if "attempt_response rt reqFn co ci' c sr w3 = Some (Inr (re, w4))" for co ci' sr re and w3 w4 :: "(http_result, 's) world"
  proof -
    obtain r e v where f: "reqFn sr (w_env w3) = ((r, e), v)" by (metis prod.collapse)
    have "same_run w3 (fire_timers rt (w3\<lparr>w_env := v\<rparr>))" using frame_fire_timers[of "w3\<lparr>w_env := v\<rparr>" rt] by (simp add: same_run_def)
    then show ?thesis using that f by (auto simp: attempt_response_def DeferCancel_def run_return_def same_run_def Let_def split: if_splits option.splits)
  qed
  have fin: "w_executions (exec_record w4) = w_executions w4 + 1 \<and> w_retry (exec_record w4) = w_retry w4"
    "same_run w4 (set_env g w4)" for w4 :: "(http_result, 's) world" and g
    by (simp_all add: exec_record_def set_env_def same_run_def)
  show ?thesis
  proof (cases b)
    case (Inl err)
    then show ?thesis using assms s1 fin by (auto simp: http_attempt_def c m b run_bind_cases run_return_def Let_def same_run_def)
  next
    case (Inr b')
    then show ?thesis using assms s1 fin resp by (fastforce simp: http_attempt_def c m b run_bind_cases run_return_def Let_def same_run_def split: if_splits)
  qed
qed

end
