(* ===== verification/Http_Server.thy ===== *)
theory Http_Server
  imports Http_Retries Bulkhead Breaker_Executor Limiter_Executor Queueing_Limiter
begin

text \<open>
  Executors around HTTP handlers and gRPC calls: \<^verbatim>\<open>NewHandlerWithExecutor\<close> of src/failsafehttp/server.go, the interceptors with an executor of
  src/failsafegrpc/client.go and server.go and \<^verbatim>\<open>NewServerInHandleWithExecutor\<close>. The handler, the invoker and the other parts of a call act on the
  environment; contexts are merged as by the HTTP client. An \<^verbatim>\<open>any\<close> value that may be asserted to be of the response type is \<open>None\<close> when it is not.
\<close>

section \<open>HTTP handlers\<close>

text \<open>The status of the response that \<^verbatim>\<open>http.Error\<close> writes for an error of the executor.\<close>

definition error_status :: "'r error \<Rightarrow> int" where
  "error_status err =
     (if errors_is err ErrFull \<or> errors_is err ErrOpen \<or> errors_is err rl_ErrExceeded \<or> errors_is err al_ErrExceeded \<or> errors_is err throttler_ErrExceeded
      then StatusTooManyRequests
      else if errors_is err timeout_ErrExceeded then StatusServiceUnavailable
      else StatusInternalServerError)"

definition info_ctx :: "'r exec_info option \<Rightarrow> nat list" where
  "info_ctx info = (case info of Some x \<Rightarrow> e_ctx (info_execution x) | None \<Rightarrow> [])"

text \<open>\<open>innerHandler\<close> gets the merged context with the request; the result is the status of the error that is written, if any.\<close>

definition NewHandlerWithExecutor :: "('r, 's) runtime \<Rightarrow> ('s, http_state) ref \<Rightarrow> (attempt_ctx \<Rightarrow> 'x http_request_scheme \<Rightarrow> ('r, 's) env \<Rightarrow> ('r, 's) env)
    \<Rightarrow> ('r, 's) executor \<Rightarrow> 'x http_request_scheme \<Rightarrow> ('r, 's) env \<Rightarrow> (int option \<times> ('r, 's) world) run" where
  "NewHandlerWithExecutor rt q innerHandler executor r v =
     run_bind (RunWithExecution rt (\<lambda>exec u.
         let (mergedCtx, cancel, u1) = inner_merge q (hq_ctx r) (info_ctx exec) u
         in (None, cancel_inner q cancel (innerHandler mergedCtx r u1))) executor v) (\<lambda>(err, w).
       run_return (map_option error_status err, w))"

definition NewHandler :: "('r, 's) runtime \<Rightarrow> ('s, http_state) ref \<Rightarrow> (attempt_ctx \<Rightarrow> 'x http_request_scheme \<Rightarrow> ('r, 's) env \<Rightarrow> ('r, 's) env)
    \<Rightarrow> ('r, 's) policy list \<Rightarrow> 'x http_request_scheme \<Rightarrow> ('r, 's) env \<Rightarrow> (int option \<times> ('r, 's) world) run" where
  "NewHandler rt q innerHandler policies = NewHandlerWithExecutor rt q innerHandler (executor_With policies)"

section \<open>gRPC clients\<close>

definition NewUnaryClientInterceptorWithExecutor :: "('r, 's) runtime \<Rightarrow> ('s, http_state) ref \<Rightarrow> ('r, 's) executor \<Rightarrow> nat list \<Rightarrow> 'r option
    \<Rightarrow> (attempt_ctx \<Rightarrow> ('r, 's) env \<Rightarrow> 'r error option \<times> ('r, 's) env) \<Rightarrow> ('r, 's) env \<Rightarrow> ('r error option \<times> ('r, 's) world) run" where
  "NewUnaryClientInterceptorWithExecutor rt q executor ctx reply invoker v =
     (let (mergedCtx, cancel, v1) = outer_merge ctx (ex_ctx executor) v;
          callExecutor = (if mergedCtx \<noteq> ex_ctx executor then WithContext (Some mergedCtx) executor else executor)
      in run_bind (GetWithExecution rt (\<lambda>exec u.
           let (innerCtx, innerCancel, u1) = inner_merge q mergedCtx (info_ctx exec) u;
               response = (case reply of Some r \<Rightarrow> r | None \<Rightarrow> rt_zero rt);
               (err, u2) = invoker innerCtx u1
           in ((response, err), cancel_inner q innerCancel u2)) callExecutor v1) (\<lambda>((_, err), w).
         run_return (err, set_env (cancel_outer cancel) w)))"

definition NewUnaryClientInterceptor :: "('r, 's) runtime \<Rightarrow> ('s, http_state) ref \<Rightarrow> ('r, 's) policy list \<Rightarrow> nat list \<Rightarrow> 'r option
    \<Rightarrow> (attempt_ctx \<Rightarrow> ('r, 's) env \<Rightarrow> 'r error option \<times> ('r, 's) env) \<Rightarrow> ('r, 's) env \<Rightarrow> ('r error option \<times> ('r, 's) world) run" where
  "NewUnaryClientInterceptor rt q policies = NewUnaryClientInterceptorWithExecutor rt q (executor_With policies)"

section \<open>gRPC servers\<close>

definition NewUnaryServerInterceptorWithExecutor :: "('r, 's) runtime \<Rightarrow> ('s, http_state) ref \<Rightarrow> ('r, 's) executor \<Rightarrow> nat list
    \<Rightarrow> (attempt_ctx \<Rightarrow> ('r, 's) env \<Rightarrow> ('r option \<times> 'r error option) \<times> ('r, 's) env) \<Rightarrow> ('r, 's) env
    \<Rightarrow> (('r \<times> 'r error option) \<times> ('r, 's) world) run" where
  "NewUnaryServerInterceptorWithExecutor rt q executor ctx handler v =
     GetWithExecution rt (\<lambda>exec u.
       let (mergedCtx, cancel, u1) = inner_merge q ctx (info_ctx exec) u;
           ((resp, err), u2) = handler mergedCtx u1;
           response = (case resp of Some r \<Rightarrow> r | None \<Rightarrow> rt_zero rt)
       in ((response, err), cancel_inner q cancel u2)) executor v"

definition NewUnaryServerInterceptor :: "('r, 's) runtime \<Rightarrow> ('s, http_state) ref \<Rightarrow> ('r, 's) policy list \<Rightarrow> nat list
    \<Rightarrow> (attempt_ctx \<Rightarrow> ('r, 's) env \<Rightarrow> ('r option \<times> 'r error option) \<times> ('r, 's) env) \<Rightarrow> ('r, 's) env
    \<Rightarrow> (('r \<times> 'r error option) \<times> ('r, 's) world) run" where
  "NewUnaryServerInterceptor rt q policies = NewUnaryServerInterceptorWithExecutor rt q (executor_With policies)"

text \<open>
  Whether a context has a value under \<^verbatim>\<open>policy.CheckOnlyKey\<close> is an argument of the policies that look for it, so the executor is a function of it; with the
  context of the handle it has.
\<close>

definition NewServerInHandleWithExecutor :: "('r, 's) runtime \<Rightarrow> ((nat list \<Rightarrow> bool) \<Rightarrow> ('r, 's) executor) \<Rightarrow> ('r, 's) env
    \<Rightarrow> ('r error option \<times> ('r, 's) world) run" where
  "NewServerInHandleWithExecutor rt executor v =
     (let execExecutor = executor (\<lambda>_. True)
      in executor_Run rt (\<lambda>u. (None, u)) (WithContext (Some (ex_ctx execExecutor)) execExecutor) v)"

definition NewServerInHandle :: "('r, 's) runtime \<Rightarrow> ((nat list \<Rightarrow> bool) \<Rightarrow> ('r, 's) policy list) \<Rightarrow> ('r, 's) env
    \<Rightarrow> ('r error option \<times> ('r, 's) world) run" where
  "NewServerInHandle rt policies = NewServerInHandleWithExecutor rt (\<lambda>checkOnly. executor_With (policies checkOnly))"

section \<open>Statuses\<close>

text \<open>The status of an error is that of the rejection that it wraps, also when retries were exceeded.\<close>

lemma error_status_wrapped [simp]:
  "error_status ErrFull = 429" "error_status ErrOpen = 429" "error_status rl_ErrExceeded = 429" "error_status al_ErrExceeded = 429"
  "error_status throttler_ErrExceeded = 429" "error_status timeout_ErrExceeded = 503" "error_status budget_ErrExceeded = 500"
  "error_status (ExceededError r (Some ErrFull)) = 429" "error_status (ExceededError r (Some timeout_ErrExceeded)) = 503" "error_status (FailureError r) = 500"
  by (simp_all add: error_status_def status_defs ErrFull_def ErrOpen_def rl_ErrExceeded_def al_ErrExceeded_def throttler_ErrExceeded_def timeout_ErrExceeded_def
      budget_ErrExceeded_def ExceededError_Is_def retry_ErrExceeded_def)

section \<open>What a handle does with its policies\<close>

lemma WithContext_same [simp]: "WithContext (Some (ex_ctx e)) e = e"
  by (simp add: WithContext_def)

lemma in_handle_Get:
  "NewServerInHandle rt policies v =
     run_bind (executor_Get rt (\<lambda>u. ((rt_zero rt, None), u)) (executor_With (policies (\<lambda>_. True))) v) (\<lambda>((_, err), w). run_return (err, w))"
  by (simp add: NewServerInHandle_def NewServerInHandleWithExecutor_def executor_Run_def executor_Get_def)

text \<open>\<open>n\<close> calls of the handle, each before a request that is handled afterwards.\<close>

fun in_handles :: "('r, 's) runtime \<Rightarrow> ((nat list \<Rightarrow> bool) \<Rightarrow> ('r, 's) policy list) \<Rightarrow> nat \<Rightarrow> ('r, 's) env \<Rightarrow> ('r error option list \<times> ('r, 's) env) run" where
  "in_handles rt policies 0 v = run_return ([], v)"
| "in_handles rt policies (Suc n) v =
     run_bind (NewServerInHandle rt policies v) (\<lambda>(err, w).
     run_bind (in_handles rt policies n (w_env w)) (\<lambda>(errs, v'). run_return (err # errs, v')))"

text \<open>
  A handle with a bulkhead, which gives its permit back before the request is handled, refuses none of any number of requests, although the bulkhead
  limits concurrency; only a bulkhead that is full for other reasons refuses.
\<close>

theorem in_handle_bulkhead_never_limits:
  fixes rt :: "('r, 's) runtime"
  assumes ref: "\<And>obj s. ref_get p (ref_put p obj s) = obj"
    and wait: "bh_maxWaitTime (bh_config (ref_get p (objs v))) = 0"
  shows "\<exists>v'. in_handles rt (\<lambda>_. [bulkhead_Apply rt p]) n v
      = Some (Inr (replicate n (if chan_free (ref_get p (objs v)) then None else Some ErrFull), v')) \<and> ref_get p (objs v') = ref_get p (objs v)"
  using wait
proof (induction n arbitrary: v)
  case (Suc n)
  obtain w where w: "NewServerInHandle rt (\<lambda>_. [bulkhead_Apply rt p]) v = Some (Inr (if chan_free (ref_get p (objs v)) then None else Some ErrFull, w))"
      "ref_get p (objs (w_env w)) = ref_get p (objs v)"
    using bulkhead_runs_iff_free[where fn = "\<lambda>u. ((rt_zero rt, None), u)" and rt = rt, OF ref _ Suc.prems refl] by (auto simp: in_handle_Get run_return_def)
  with Suc.IH[of "w_env w"] Suc.prems show ?case by (auto simp: run_return_def)
qed (simp add: run_return_def)

theorem in_handle_bulkhead_never_limits_witness:
  "\<exists>v'. in_handles bh_runtime (\<lambda>_. [bulkhead_Apply bh_runtime the_bulkhead]) 5 \<lparr>clock = 0, ctx_errs = (\<lambda>_. None), objs = bh_Build (bh_NewBuilder 1)\<rparr>
    = Some (Inr ([None, None, None, None, None], v'))"
  using in_handle_bulkhead_never_limits[of the_bulkhead "\<lparr>clock = 0, ctx_errs = (\<lambda>_. None), objs = bh_Build (bh_NewBuilder 1)\<rparr>" bh_runtime 5]
  by (auto simp: the_bulkhead_def bh_Build_def bh_NewBuilder_def chan_free_def numeral_eq_Suc)

text \<open>
  A handle with an adaptive limiter only looks at the limiter: it refuses a request exactly when the limiter would not give it a permit at once, and it takes
  no permit and records nothing.
\<close>

theorem in_handle_checks_limiter:
  fixes rt :: "('r, 's) runtime" and l :: "'d adaptiveLimiter"
  assumes rand: "snd (rt_rand rt v) = v" and l: "ref_get p (objs v) = l"
  shows "\<exists>w. NewServerInHandle rt (\<lambda>checkOnly. [adaptive_Apply rt D intn ctxValues checkOnly blocking_adaptive p]) v
      = Some (Inr (if al_CanAcquirePermit l then None else Some al_ErrExceeded, w)) \<and> objs (w_env w) = objs v"
proof -
  let ?rt0 = "rt_zero rt"
  define w0 where "w0 = newExecution ?rt0 [] v"
  note w0 = new_world[of ?rt0 "[]" v, folded w0_def]
  obtain rnd where rnd: "rt_rand rt v = (rnd, v)" using rand by (metis prod.collapse)
  have self: "w0\<lparr>w_env := v\<rparr> = w0" using w0(1) by simp
  have check: "check_only rt intn ctxValues blocking_adaptive p 0 w0 = (if al_CanAcquirePermit l then Inr None else Inl al_ErrExceeded, w0)"
    by (simp add: check_only_def w0 rnd self read_ref_def l blocking_adaptive_def)
  note unfolds = in_handle_Get executor_Get_def executeSync_def execute_def executor_With_def adaptive_Apply_def run_return_def Let_def
  show ?thesis
  proof (cases "al_CanAcquirePermit l")
    case False
    have "isCanceledWithResult ?rt0 0 w0 = None" using w0 by (simp add: isCanceledWithResult_def exec_err_def Context_def)
    with False check w0 show ?thesis
      by (auto simp: unfolds FailureResult_def simp flip: w0_def)
  next
    case True
    let ?w2 = "exec_record (w0\<lparr>w_env := v\<rparr>)"
    let ?r = "\<lparr>Result = ?rt0, Error = None, Done = True, Success = True, SuccessAll = True\<rparr> :: 'r PolicyResult"
    have call: "call_fn rt (\<lambda>_ u. ((?rt0, None), u)) False 0 w0 = Some (Inr (?r, ?w2))" using call_fn_no_timers[of w0 rt "\<lambda>u. ((?rt0, None), u)" 0] w0 by simp
    obtain r' where post: "base_PostExecute (base_IsFailure None) (\<lambda>x er w. run_return (base_OnSuccess None x er w)) (\<lambda>x er w. run_return (base_OnFailure None x er w)) 0 ?r
        ?w2 = Some (Inr (r', ?w2))" "Error r' = Error ?r"
      using plain_post by blast
    with True check w0 call show ?thesis
      by (simp add: unfolds exec_record_def flip: w0_def)
  qed
qed

end
