(* ===== verification/Spec2Isabelle.thy ===== *)
theory Spec2Isabelle
  imports Semaphore Nested_Retries Policy_Testing Budget_Callers Limiter_Listeners Fallback Any_Policies Cache_Policy Bulkhead Breaker_Executor Limiter_Executor Moving_Stats Adaptive_Throttler Queueing_Limiter Hedge_Policy Calibrations Http_Server
begin

text \<open>
  A verification of failsafe-go, a Go library that makes executions of functions resilient. Paths below are under src/.

  \<^bold>\<open>The program.\<close> An executor (executor.go) composes policies around a function: each policy turns an inner function, from executions to policy
  results, into an outer one (policy/policyexecutor.go). An execution (execution.go) is shared by all of them, with its counters, its context and its
  cancellation. A policy either lives for one execution (retry, fallback, timeout, hedge, cache) or admits executions by the state of an object that many
  executions share (circuit breaker, rate limiter, bulkhead, budget, adaptive limiter, adaptive throttler). The shared objects rest on the statistics and the
  semaphore of internal/util. A prioritizer (internal/prioritizer.go) turns what the limiters or throttlers that are registered with it report into a
  threshold of priority levels (priority/), which reach it from clients through HTTP headers or gRPC metadata (failsafehttp/, failsafegrpc/).

  \<^bold>\<open>Theories and sources.\<close>
  \<^item> \<open>Go_Prelude\<close>: integers, panics (\<open>'a go\<close> is a sum), division, slices and rounding of Go; the lemmas on lists and words the others share.
  \<^item> \<open>Policy_Base\<close>: errors, \<^verbatim>\<open>PolicyResult\<close>, the configuration of failures, delays and aborts (policy/policy.go, common/result.go, errors of internal/util/util.go).
  \<^item> \<open>Execution\<close>: executions as numbers into a heap, contexts, asynchronous results and events (execution.go, result.go, events.go). \<open>Executor\<close>: composition, sync and async runs, base of
    policy executors (executor.go, policy/policyexecutor.go); the locales \<open>single_shot\<close> and \<open>total_policy\<close> are what a composition needs of its policies,
    and every policy's theory interprets one of them. \<open>Any_Policies\<close>: \<^verbatim>\<open>WithAny\<close> and \<^verbatim>\<open>ComposeAny\<close> with their wrappers of policies and executions.
  \<^item> \<open>Bucketed_Window\<close>, \<open>Execution_Stats\<close>, \<open>Moving_Stats\<close>, \<open>Semaphore\<close>: internal/util (windows.go, stats.go, average.go, median.go, quantile.go, semaphore.go).
  \<^item> \<open>Circuit_Breaker\<close>, \<open>Breaker_Executor\<close>: circuitbreaker/. \<open>Rate_Limiter\<close>, \<open>Limiter_Executor\<close>: ratelimiter/. \<open>Bulkhead\<close>, \<open>Budget\<close>, \<open>Cache_Policy\<close>,
    \<open>Fallback\<close>, \<open>Timeout\<close>, \<open>Retry_Policy\<close>: the package of that name; \<open>Cache_Policy\<close> also has the cache of internal/policytesting/cache.go. \<open>Hedge_Policy\<close>: hedgepolicy/.
    \<open>Nested_Retries\<close>: the retry executor around any inner function, with its listeners. \<open>Budget_Callers\<close>: the callers of a budget as a machine. \<open>Policy_Testing\<close>: the
    statistics that internal/policytesting/ counts in listeners.
  \<^item> \<open>Priority\<close>: priority/. \<open>Prioritizer\<close> and \<open>Calibrations\<close>: internal/prioritizer.go. \<open>Adaptive_Throttler\<close>: adaptivethrottler/.
    \<open>Adaptive_Limiter\<close>: adaptivelimiter/adaptivelimiter.go; \<open>Limiter_Callers\<close>: its callers as a machine, \<open>Limiter_Listeners\<close>: with recordings that have
    given up the lock for a listener; \<open>Queueing_Limiter\<close>: the other limiters of adaptivelimiter/ and the executor.
  \<^item> \<open>Contexts\<close>: \<^verbatim>\<open>MergeContexts\<close> of internal/util/util.go. \<open>Http_Levels\<close>, \<open>Http_Policy\<close>, \<open>Http_Client\<close>, \<open>Http_Retries\<close>, \<open>Http_Server\<close>: failsafehttp/ and failsafegrpc/.
  \<^item> This theory: compositions of policies of different kinds.

  A struct is a record with its fields, an interface with few implementations a datatype or a record of functions, and a method one function on the record, which
  returns the new one; names are those of the source, with a prefix where they clash. The fields of the execution's shared cells are those of the record
  \<open>world\<close>, and everything that user code can see and change is its part \<open>env\<close>, in which a shared object is reached through a \<open>ref\<close>.

  \<^bold>\<open>How it is modelled.\<close>
  \<^item> \<^verbatim>\<open>float64\<close> is an exact real number, so rounding errors are outside the model; where the code computes 0/0, the value is \<open>None\<close>. Unsigned counters are
    words; \<open>i64\<close> and \<open>i32\<close> write the wrap-around of signed ones out where an operation can leave the range.
  \<^item> Every reading of the clock and every random number is an argument, or comes from the \<open>runtime\<close> of an execution.
  \<^item> A method that holds a mutex is one step. Where callers block or goroutines run side by side, the component is a machine with explicit steps
    (\<open>Semaphore\<close>, \<open>Bulkhead\<close>, \<open>Budget_Callers\<close>, \<open>Limiter_Callers\<close>, \<open>Limiter_Listeners\<close>, \<open>Hedge_Policy\<close>, \<open>Contexts\<close>, \<open>Calibrations\<close>), and the properties hold for all runs. A method with several critical
    sections is modelled for a caller that nobody interrupts, and, where others in between matter, with them: a budget's check (\<open>Budget_Callers\<close>), the update of a limit
    (\<open>Limiter_Listeners\<close>) and the check of a queue (\<open>ql_step\<close> in \<open>Queueing_Limiter\<close>). In an execution, the
    choices of \<^verbatim>\<open>select\<close>, the end of waits and the firing of timers are the runtime's, about which nothing is assumed unless a theorem says so.
  \<^item> Calls of listeners are logged events.
  \<^item> A run of an execution is \<open>None\<close> when the loop of a retry policy uses up \<open>rt_fuel\<close>. One round is one attempt, so fuel above the number of retries is
    enough for a policy with a limit; \<open>nested_execution_ends\<close> and the theorems that an execution returns prove that. Other loops are structural, or \<open>function\<close>s with a measure.
  \<^item> Packages that are not part of the repository are parameters: the bit set (\<open>bitset_laws\<close>), the t-digest (\<open>tdigest_laws\<close>), gRPC metadata (\<open>metadata_laws\<close>), a cache
    (\<open>cache_backend\<close>); each set of laws is interpreted on a concrete implementation. Transport, handlers and invokers act on the environment.

  \<^bold>\<open>What the lemmas show.\<close>
  \<^item> Statistics: windows hold exactly the results of their last entries or time slots; maxima, quantiles and medians are those of the samples (refinement, equivalence).
  \<^item> Breaker: an invariant under which no operation panics, exact conditions of every transition, bounds of half-open trials. Rate limiters: spacing and limits per period.
  \<^item> Semaphore, bulkhead, adaptive limiter: permits are neither lost nor duplicated, waiters are woken in order, limits stay in their bounds,
    also while recordings are in listeners, which can lose updates. A budget counts its callers, and its check and its count can be separated by other callers.
  \<^item> Retries refine a specification of retrying; the retries of nested retry policies, without hedges, add up, and such executions return; hedged executions are bounded and end.
    The statistics that listeners count are those of the execution.
  \<^item> Throttlers, limiters and prioritizers: what is shed is the share that the statistics ask for, and no lower threshold would do.
  \<^item> HTTP and gRPC: levels and priorities survive the way from client to server; the contexts merged for a request are released; every attempt that is not hedged sends the
    whole body, and the attempts of a request are bounded by its retry policies.
  \<^item> Behaviour that the documentation rules out is stated as theorems, too, such as the leak of retried responses, levels out of range, a bulkhead in an in-handle,
    timeouts that are composed with \<^verbatim>\<open>ComposeAny\<close> and an initial limit of 0.

  \<^bold>\<open>Not modelled.\<close> Loggers and debug logs; what a listener does, apart from counting; the mutexes themselves and data races; files with declarations only; the fluent builder of
  tests in internal/policytesting, the tests with their helpers (test/, internal/testutil) and the examples.
\<close>

section \<open>Compositions of policies\<close>

text \<open>The policies that make at most one attempt each, by their configuration or the shared object they use, and such policies for any result type.\<close>

datatype ('r, 's, 'b, 'd) single_policy =
    FallbackPolicy "('r, 's) fb_config"
  | TimeoutPolicy to_config
  | CachePolicy "nat list \<Rightarrow> ctx_value option" "('r, 's) cache_config"
  | BulkheadPolicy "('s, bulkhead) ref"
  | BreakerPolicy "'b bitset_api" "('s, ('b, 'r) breaker) ref"
  | LimiterPolicy "('s, rateLimiter) ref"
  | ThrottlerPolicy "('s, 'r adaptiveThrottler) ref"
  | PriorityThrottlerPolicy "nat list \<Rightarrow> ctx_values" "int \<Rightarrow> int" "('s, 'r priorityThrottler) ref"
  | AdaptivePolicy "'d tdigest_api" "nat list \<Rightarrow> bool" "('s, 'd adaptiveLimiter) ref"
  | QueueingPolicy "'d tdigest_api" "nat list \<Rightarrow> bool" "('s, 'd adaptiveLimiter) ref"
  | PriorityLimiterPolicy "'d tdigest_api" "int \<Rightarrow> int" "nat list \<Rightarrow> ctx_values" "nat list \<Rightarrow> bool" "('s, 'd priorityLimiter) ref"
  | AnyPolicy "('r, 's, 'b, 'd) single_policy"

fun single_Apply :: "('r, 's) runtime \<Rightarrow> ('r, 's, 'b, 'd) single_policy \<Rightarrow> ('r, 's) policy" where
  "single_Apply rt (FallbackPolicy c) = fallback_Apply rt c"
| "single_Apply rt (TimeoutPolicy c) = timeout_Apply rt c"
| "single_Apply rt (CachePolicy ctxValue c) = cache_Apply ctxValue c"
| "single_Apply rt (BulkheadPolicy p) = bulkhead_Apply rt p"
| "single_Apply rt (BreakerPolicy B p) = breaker_Apply rt B p"
| "single_Apply rt (LimiterPolicy p) = limiter_Apply rt p"
| "single_Apply rt (ThrottlerPolicy p) = throttler_Apply rt p"
| "single_Apply rt (PriorityThrottlerPolicy ctxValues intn p) = priority_Apply rt ctxValues intn p"
| "single_Apply rt (AdaptivePolicy D checkOnly p) = adaptive_Apply rt D (\<lambda>_. 0) (\<lambda>_. []) checkOnly blocking_adaptive p"
| "single_Apply rt (QueueingPolicy D checkOnly p) = adaptive_Apply rt D (\<lambda>_. 0) (\<lambda>_. []) checkOnly blocking_queueing p"
| "single_Apply rt (PriorityLimiterPolicy D intn ctxValues checkOnly p) = adaptive_Apply rt D intn ctxValues checkOnly blocking_priority p"
| "single_Apply rt (AnyPolicy p) = policyAnyWrapper (single_Apply rt p)"

text \<open>The policies that neither block on a shared object nor can panic in it.\<close>

fun shares_nothing :: "('r, 's, 'b, 'd) single_policy \<Rightarrow> bool" where
  "shares_nothing (FallbackPolicy c) \<longleftrightarrow> True"
| "shares_nothing (TimeoutPolicy c) \<longleftrightarrow> True"
| "shares_nothing (CachePolicy ctxValue c) \<longleftrightarrow> True"
| "shares_nothing (AnyPolicy p) \<longleftrightarrow> shares_nothing p"
| "shares_nothing _ \<longleftrightarrow> False"

lemma single_shots: "single_shot (single_Apply rt p i)"
  by (induction p arbitrary: i) (simp_all add: wrapped_single_shot fallback.single_shot_axioms timeout.single_shot_axioms cache_policy.single_shot_axioms
      bulkhead.single_shot_axioms breaker.single_shot_axioms limiter.single_shot_axioms throttler.single_shot_axioms priority.single_shot_axioms adaptive.single_shot_axioms)

lemma total_policies: "shares_nothing p \<Longrightarrow> total_policy (single_Apply rt p i)"
  by (induction p arbitrary: i) (simp_all add: wrapped_total fallback.total_policy_axioms timeout.total_policy_axioms cache_policy.total_policy_axioms)

lemma compose_append: "compose_from i (ps @ qs) f = compose_from i ps (compose_from (i + length ps) qs f)"
  by (induction ps arbitrary: i) simp_all

lemma new_retry: "fresh_retry i (w_retry (newExecution zero ctx v))"
  by (simp add: newExecution_def)

lemma executor_Get_composed:
  "executor_Get rt fn (executor_With ps) v = Some (Inr (out, w)) \<longleftrightarrow>
     (\<exists>r. compose_from 0 ps (call_fn rt (\<lambda>_. fn) False) 0 (newExecution (rt_zero rt) [] v) = Some (Inr (r, w)) \<and> out = (Result r, Error r))"
  by (auto simp: executor_Get_def executeSync_def execute_def executor_With_def run_bind_cases Let_def)

lemma adds_calls: "adds n (newExecution zero ctx v) w \<Longrightarrow> unat (w_executions w) \<le> n"
proof -
  assume "adds n (newExecution zero ctx v) w"
  then obtain k where k: "k \<le> n" "w_executions w = of_nat k" by (auto simp: adds_def newExecution_def)
  have "unat (of_nat k :: uint32) \<le> k" by (simp add: unat_of_nat)
  with k show ?thesis by simp
qed

lemma inner_bounds:
  fixes rt :: "('r, 's) runtime"
  assumes "f = compose_from j (map (single_Apply rt) inner) (call_fn rt (\<lambda>_. fn) False)"
  shows "keeps_retry f" "bounded P 1 f"
proof -
  have "single_shot (compose_from j (map (single_Apply rt) inner))"
    by (rule compose_single_shot) (auto simp: single_shots)
  then show "keeps_retry f" "bounded P 1 f"
    using call_fn_keeps call_fn_bounded unfolding assms single_shot_def by blast+
qed

lemma composed_returns:
  fixes rt :: "('r, 's) runtime" and outer inner :: "('r, 's, 'b, 'd) single_policy list"
  assumes "rp_maxRetries c = int m" "int m < 2 ^ 63 - 1" "m < rt_fuel rt"
    and "\<forall>p \<in> set (outer @ inner). shares_nothing p"
  shows "\<exists>out w. executor_Get rt fn (executor_With (map (single_Apply rt) outer @ retry_Apply rt c # map (single_Apply rt) inner)) v
      = Some (Inr (out, w))"
proof -
  let ?i = "length outer"
  define f where "f = compose_from (Suc ?i) (map (single_Apply rt) inner) (call_fn rt (\<lambda>_. fn) False)"
  have "total_policy (compose_from (Suc ?i) (map (single_Apply rt) inner))"
    by (rule compose_total) (use assms(4) total_policies in auto)
  then have "returns (\<lambda>_. True) f"
    unfolding f_def total_policy_def total_policy_axioms_def using call_fn_returns by blast
  then have f: "\<exists>r w'. f x w = Some (Inr (r, w')) \<and> w_retry w' ?i = w_retry w ?i \<and> adds 1 w w'" for x w
  proof -
    obtain r w' where r: "f x w = Some (Inr (r, w'))" using \<open>returns (\<lambda>_. True) f\<close> unfolding returns_def by blast
    have "w_retry w' = w_retry w" using inner_bounds(1)[OF f_def] r unfolding keeps_retry_def by blast
    moreover have "adds 1 w w'" using inner_bounds(2)[OF f_def, of "\<lambda>_. True"] r unfolding bounded_def by blast
    ultimately show ?thesis using r by simp
  qed
  have "returns (fresh_retry ?i) (retry_Apply rt c ?i f)"
    unfolding returns_def using retry_Apply_ends[where f = f, OF f assms(1-3)] by blast
  moreover have "total_policy (compose_from 0 (map (single_Apply rt) outer))"
    by (rule compose_total) (use assms(4) total_policies in auto)
  ultimately have "returns (fresh_retry ?i) (compose_from 0 (map (single_Apply rt) outer) (retry_Apply rt c ?i f))"
    unfolding total_policy_def total_policy_axioms_def by blast
  then obtain r w where "compose_from 0 (map (single_Apply rt) outer) (retry_Apply rt c ?i f) 0 (newExecution (rt_zero rt) [] v) = Some (Inr (r, w))"
    unfolding returns_def using new_retry[of "rt_zero rt" "[]" v ?i] by blast
  then show ?thesis by (auto simp: executor_Get_composed compose_append simp flip: f_def)
qed

text \<open>
  An executor with one retry policy of at most \<open>m\<close> retries among any other policies of these kinds,
  in any order, calls the function of an execution that returns at most \<open>m + 1\<close> times.
\<close>

theorem composed_calls_bounded:
  fixes rt :: "('r, 's) runtime" and outer inner :: "('r, 's, 'b, 'd) single_policy list"
  assumes "rp_maxRetries c = int m" "int m < 2 ^ 63 - 1"
    and run: "executor_Get rt fn (executor_With (map (single_Apply rt) outer @ retry_Apply rt c # map (single_Apply rt) inner)) v
      = Some (Inr (out, w))"
  shows "unat (w_executions w) \<le> m + 1"
proof -
  let ?i = "length outer"
  define f where "f = compose_from (Suc ?i) (map (single_Apply rt) inner) (call_fn rt (\<lambda>_. fn) False)"
  have "bounded (fresh_retry ?i) ((m + 1) * 1) (retry_Apply rt c ?i f)"
    by (rule retry_Apply_bounded[OF inner_bounds[OF f_def] assms(1,2)])
  moreover have "single_shot (compose_from 0 (map (single_Apply rt) outer))"
    by (rule compose_single_shot) (auto simp: single_shots)
  ultimately have "bounded (fresh_retry ?i) (m + 1) (compose_from 0 (map (single_Apply rt) outer) (retry_Apply rt c ?i f))"
    unfolding single_shot_def by simp
  moreover obtain r where "compose_from 0 (map (single_Apply rt) outer) (retry_Apply rt c ?i f) 0 (newExecution (rt_zero rt) [] v) = Some (Inr (r, w))"
    using run by (auto simp: executor_Get_composed compose_append simp flip: f_def)
  ultimately have "adds (m + 1) (newExecution (rt_zero rt) [] v) w"
    unfolding bounded_def using new_retry[of "rt_zero rt" "[]" v ?i] by blast
  then show ?thesis by (rule adds_calls)
qed

text \<open>
  If the other policies are fallbacks, timeouts and caches, an execution returns, whatever the
  function returns, the clock, cancellations and timers do, and however waits end.
\<close>

theorem composed_execution_ends:
  fixes rt :: "('r, 's) runtime" and outer inner :: "('r, 's, 'b, 'd) single_policy list"
  assumes "rp_maxRetries c = int m" "int m < 2 ^ 63 - 1" "m < rt_fuel rt"
    and "\<forall>p \<in> set (outer @ inner). shares_nothing p"
  shows "\<exists>out w. executor_Get rt fn (executor_With (map (single_Apply rt) outer @ retry_Apply rt c # map (single_Apply rt) inner)) v
      = Some (Inr (out, w))"
  using assms by (rule composed_returns)

text \<open>A function that always fails, under a fallback, one retry and a timeout per attempt.\<close>

definition failing :: "(int, nat) env \<Rightarrow> (int \<times> int error option) \<times> (int, nat) env" where
  "failing v = ((0, Some (Err ''io'')), v\<lparr>clock := clock v + 10, objs := objs v + 1\<rparr>)"

definition sample_outer :: "(int, nat, bool list, float64 list) single_policy list" where
  "sample_outer = [FallbackPolicy (NewBuilderWithResult 9)]"

definition sample_inner :: "(int, nat, bool list, float64 list) single_policy list" where
  "sample_inner = [TimeoutPolicy (timeout_NewBuilder 50)]"

theorem composed_calls_bounded_witness:
  "\<exists>out w. executor_Get still_runtime failing (executor_With (map (single_Apply still_runtime) sample_outer
        @ retry_Apply still_runtime (WithMaxRetries 1 rp_NewBuilder) # map (single_Apply still_runtime) sample_inner)) start_env
      = Some (Inr (out, w)) \<and> unat (w_executions w) \<le> 1 + 1"
proof -
  let ?run = "executor_Get still_runtime failing (executor_With (map (single_Apply still_runtime) sample_outer
        @ retry_Apply still_runtime (WithMaxRetries 1 rp_NewBuilder) # map (single_Apply still_runtime) sample_inner)) start_env"
  obtain out w where w: "?run = Some (Inr (out, w))"
    using composed_returns[of "WithMaxRetries 1 rp_NewBuilder" 1 still_runtime sample_outer sample_inner failing start_env]
    by (auto simp: WithMaxRetries_def still_runtime_def sample_outer_def sample_inner_def)
  have "rp_maxRetries (WithMaxRetries 1 rp_NewBuilder :: (int, nat) rp_config) = int 1" by (simp add: WithMaxRetries_def)
  from composed_calls_bounded[OF this _ w] show ?thesis using w by auto
qed

theorem composed_execution_ends_witness:
  "\<exists>out w. executor_Get still_runtime failing (executor_With (map (single_Apply still_runtime) sample_outer
        @ retry_Apply still_runtime (WithMaxRetries 1 rp_NewBuilder) # map (single_Apply still_runtime) sample_inner)) start_env
      = Some (Inr (out, w))"
  by (rule composed_execution_ends[of _ 1])
    (simp_all add: WithMaxRetries_def still_runtime_def sample_outer_def sample_inner_def)

section \<open>Several retry policies\<close>

text \<open>
  The policies of a composition, from the outermost to the innermost, with their limits at their positions and the sum of their retries: policies that call their inner function at
  most once, and retry policies. Hedge policies, which run attempts side by side, are not among them; they are the machine of \<open>Hedge_Policy\<close>.
\<close>

datatype ('r, 's, 'b, 'd) layer = Single "('r, 's, 'b, 'd) single_policy" | Retrying "('r, 's) rp_config"

fun layer_Apply :: "('r, 's) runtime \<Rightarrow> ('r, 's, 'b, 'd) layer \<Rightarrow> ('r, 's) policy" where
  "layer_Apply rt (Single p) = single_Apply rt p"
| "layer_Apply rt (Retrying c) = retry_Apply rt c"

fun layer_limits :: "nat \<Rightarrow> ('r, 's, 'b, 'd) layer list \<Rightarrow> limits" where
  "layer_limits i [] = (\<lambda>_. None)"
| "layer_limits i (Single p # ls) = layer_limits (Suc i) ls"
| "layer_limits i (Retrying c # ls) = (layer_limits (Suc i) ls)(i \<mapsto> nat (rp_maxRetries c))"

fun all_retries :: "('r, 's, 'b, 'd) layer list \<Rightarrow> nat" where
  "all_retries [] = 0"
| "all_retries (Single p # ls) = all_retries ls"
| "all_retries (Retrying c # ls) = nat (rp_maxRetries c) + all_retries ls"

definition limited :: "('r, 's, 'b, 'd) layer list \<Rightarrow> bool" where
  "limited ls \<longleftrightarrow> (\<forall>c. Retrying c \<in> set ls \<longrightarrow> 0 \<le> rp_maxRetries c \<and> rp_maxRetries c < 2 ^ 63 - 1)"

lemma single_one_call: "one_call (single_Apply rt p i)"
proof (induction p arbitrary: i)
  case (AnyPolicy p)
  then show ?case unfolding single_Apply.simps policyAnyWrapper_def policyExecutorAnyWrapper_Apply_def one_call_def by blast
qed (simp_all add: fallback_one_call timeout_one_call limiter_one_call adaptive_one_call cache_Apply_def bulkhead_Apply_def breaker_Apply_def throttler_Apply_def priority_Apply_def
    base_Apply_one_call[OF cache_pre_quiet cache_post_quiet] base_Apply_one_call[OF bh_pre_quiet bh_post_quiet] base_Apply_one_call[OF breaker_pre_quiet breaker_post_quiet]
    base_Apply_one_call[OF throttler_pre_quiet throttler_post_quiet] base_Apply_one_call[OF priority_pre_quiet throttler_post_quiet])

lemma layer_limits_dom: "finite (dom (layer_limits i ls)) \<and> (\<forall>j < i. layer_limits i ls j = None)"
proof (induction i ls rule: layer_limits.induct)
  case (3 i c ls)
  have d: "dom (layer_limits i (Retrying c # ls)) = insert i (dom (layer_limits (Suc i) ls))" unfolding layer_limits.simps by (rule dom_fun_upd[THEN trans]) simp
  have "finite (dom (layer_limits i (Retrying c # ls)))" unfolding d using 3 by blast
  moreover have "layer_limits i (Retrying c # ls) j = None" if "j < i" for j using 3 that by simp
  ultimately show ?case by blast
qed auto

lemmas layer_limits_facts = layer_limits_dom[THEN conjunct1] layer_limits_dom[THEN conjunct2, rule_format, OF lessI]

lemma used_bounded: "used_retries (layer_limits i ls) st \<le> all_retries ls"
proof (induction i ls rule: layer_limits.induct)
  case (3 i c ls)
  have "used_state (nat (rp_maxRetries c)) (st i) \<le> nat (rp_maxRetries c)" by (simp add: used_state_def)
  then show ?case unfolding layer_limits.simps used_retries_add[OF layer_limits_facts] all_retries.simps using 3 by (rule add_mono)
qed (simp_all add: used_retries_def)

lemma layers_metered:
  assumes "counts_one f" "limited ls"
  shows "metered (layer_limits i ls) (compose_from i (map (layer_Apply rt) ls) f)"
  using assms(2)
proof (induction i ls rule: layer_limits.induct)
  case (1 i)
  show ?case using counts_one_metered[OF assms(1)] by simp
next
  case (2 i p ls)
  then have "metered (layer_limits (Suc i) ls) (compose_from (Suc i) (map (layer_Apply rt) ls) f)" by (simp add: limited_def)
  then show ?case using one_call_metered[OF single_one_call] by simp
next
  case (3 i c ls)
  then have m: "metered (layer_limits (Suc i) ls) (compose_from (Suc i) (map (layer_Apply rt) ls) f)" "0 \<le> rp_maxRetries c" "rp_maxRetries c < 2 ^ 63 - 1"
    by (simp_all add: limited_def)
  have "rp_maxRetries c = int (nat (rp_maxRetries c))" "int (nat (rp_maxRetries c)) < 2 ^ 63 - 1" using m(2,3) by simp_all
  then show ?case unfolding layer_limits.simps list.map layer_Apply.simps compose_from.simps by (rule retry_metered[OF m(1) layer_limits_facts])
qed

lemma layers_return:
  assumes "counts_one f" "\<And>P. returns P f" "limited ls" "\<forall>p. Single p \<in> set ls \<longrightarrow> shares_nothing p" "\<forall>c. Retrying c \<in> set ls \<longrightarrow> nat (rp_maxRetries c) < rt_fuel rt"
  shows "returns (sound_retries (layer_limits i ls)) (compose_from i (map (layer_Apply rt) ls) f)"
  using assms(3-5)
proof (induction i ls rule: layer_limits.induct)
  case (1 i)
  show ?case using assms(2) by simp
next
  case (2 i p ls)
  then have "returns (sound_retries (layer_limits (Suc i) ls)) (compose_from (Suc i) (map (layer_Apply rt) ls) f)" by (simp add: limited_def)
  then show ?case using 2(3) by (auto intro!: total_policy.no_block[OF total_policies])
next
  case (3 i c ls)
  then have m: "returns (sound_retries (layer_limits (Suc i) ls)) (compose_from (Suc i) (map (layer_Apply rt) ls) f)" "limited ls"
    "0 \<le> rp_maxRetries c" "rp_maxRetries c < 2 ^ 63 - 1" "nat (rp_maxRetries c) < rt_fuel rt"
    by (simp_all add: limited_def)
  have "rp_maxRetries c = int (nat (rp_maxRetries c))" "int (nat (rp_maxRetries c)) < 2 ^ 63 - 1" using m(3,4) by simp_all
  then show ?case unfolding layer_limits.simps list.map layer_Apply.simps compose_from.simps
    by (rule retry_returns[OF layers_metered[OF assms(1) m(2)] m(1) layer_limits_facts _ _ m(5)])
qed

lemma new_sound: "sound_retries L (w_retry (newExecution zero ctx v))"
  by (simp add: sound_retries_def sound_state_def newExecution_def)

lemma meteredD: "metered L f \<Longrightarrow> sound_retries L (w_retry w) \<Longrightarrow> f x w = Some (Inr (r, w')) \<Longrightarrow> counts 1 L w w'"
  unfolding metered_def by blast

lemma layers_count:
  assumes "counts_one f" "limited ls" "compose_from 0 (map (layer_Apply rt) ls) f 0 (newExecution zero ctx v) = Some (Inr (r, w))"
  shows "unat (w_executions w) \<le> 1 + all_retries ls"
proof -
  let ?L = "layer_limits 0 ls"
  have "counts 1 ?L (newExecution zero ctx v) w"
    by (rule meteredD[OF layers_metered[OF assms(1,2)] new_sound assms(3)])
  then obtain k u where k: "w_executions w = of_nat k" "used_retries ?L (w_retry w) = used_retries ?L (w_retry (newExecution zero ctx v)) + u" "int k \<le> 1 + int u"
    by (auto simp: counts_def spends_def newExecution_def)
  then have "k \<le> 1 + all_retries ls" using used_bounded[of 0 ls "w_retry w"] by linarith
  moreover have "unat (of_nat k :: uint32) \<le> k" by (simp add: unat_of_nat)
  ultimately show ?thesis using k(1) by simp
qed

lemma nested_returns:
  assumes "limited ls" "\<forall>p. Single p \<in> set ls \<longrightarrow> shares_nothing p" "\<forall>c. Retrying c \<in> set ls \<longrightarrow> nat (rp_maxRetries c) < rt_fuel rt"
  shows "\<exists>out w. executor_Get rt fn (executor_With (map (layer_Apply rt) ls)) v = Some (Inr (out, w))"
proof -
  have "returns (sound_retries (layer_limits 0 ls)) (compose_from 0 (map (layer_Apply rt) ls) (call_fn rt (\<lambda>_. fn) False))"
    by (rule layers_return[OF call_fn_counts_one call_fn_returns assms])
  then obtain r w where "compose_from 0 (map (layer_Apply rt) ls) (call_fn rt (\<lambda>_. fn) False) 0 (newExecution (rt_zero rt) [] v) = Some (Inr (r, w))"
    unfolding returns_def using new_sound[of "layer_limits 0 ls" "rt_zero rt" "[]" v] by blast
  then show ?thesis by (auto simp: executor_Get_composed)
qed

text \<open>
  C13. The retries of the retry policies of a composition without hedge policies add up: with any number of them, each with a limit, among fallbacks, timeouts, caches,
  bulkheads, circuit breakers, rate limiters, throttlers and adaptive limiters, in any order, an execution that returns
  called its function at most once and once more for each retry that one of them allows, although an outer policy calls the inner ones again for each of its retries. A hedge policy
  calls its inner function several times, and is none of these policies.
\<close>

theorem nested_retries_add_up:
  fixes rt :: "('r, 's) runtime" and ls :: "('r, 's, 'b, 'd) layer list"
  assumes "limited ls" and "executor_Get rt fn (executor_With (map (layer_Apply rt) ls)) v = Some (Inr (out, w))"
  shows "unat (w_executions w) \<le> 1 + all_retries ls"
  using assms(2) layers_count[OF call_fn_counts_one assms(1)] unfolding executor_Get_composed by blast

text \<open>
  C14. If the other policies are fallbacks, timeouts and caches, an execution under any number of retry policies returns, whatever the function returns, the clock,
  cancellations and timers do, and however waits end.
\<close>

theorem nested_execution_ends:
  fixes rt :: "('r, 's) runtime" and ls :: "('r, 's, 'b, 'd) layer list"
  assumes "limited ls" "\<forall>p. Single p \<in> set ls \<longrightarrow> shares_nothing p" "\<forall>c. Retrying c \<in> set ls \<longrightarrow> nat (rp_maxRetries c) < rt_fuel rt"
  shows "\<exists>out w. executor_Get rt fn (executor_With (map (layer_Apply rt) ls)) v = Some (Inr (out, w))"
  using assms by (rule nested_returns)

text \<open>A function that always fails, under a fallback, two retry policies and a timeout per attempt.\<close>

definition sample_layers :: "(int, nat, bool list, float64 list) layer list" where
  "sample_layers = map Single sample_outer @ [Retrying (WithMaxRetries 1 rp_NewBuilder), Retrying (WithMaxRetries 2 rp_NewBuilder)] @ map Single sample_inner"

lemma sample_layers_facts:
  "limited sample_layers" "all_retries sample_layers = 3" "\<forall>p. Single p \<in> set sample_layers \<longrightarrow> shares_nothing p"
  "\<forall>c. Retrying c \<in> set sample_layers \<longrightarrow> nat (rp_maxRetries c) < rt_fuel still_runtime"
  by (auto simp: limited_def sample_layers_def sample_outer_def sample_inner_def WithMaxRetries_def still_runtime_def)

theorem nested_retries_add_up_witness:
  "\<exists>out w. executor_Get still_runtime failing (executor_With (map (layer_Apply still_runtime) sample_layers)) start_env = Some (Inr (out, w))
    \<and> unat (w_executions w) \<le> 1 + 3"
proof -
  obtain out w where "executor_Get still_runtime failing (executor_With (map (layer_Apply still_runtime) sample_layers)) start_env = Some (Inr (out, w))"
    using nested_returns[OF sample_layers_facts(1,3,4)] by blast
  with nested_retries_add_up[OF sample_layers_facts(1) this] show ?thesis by (auto simp: sample_layers_facts(2))
qed

theorem nested_execution_ends_witness:
  "\<exists>out w. executor_Get still_runtime failing (executor_With (map (layer_Apply still_runtime) sample_layers)) start_env = Some (Inr (out, w))"
  by (rule nested_execution_ends[OF sample_layers_facts(1,3,4)])

section \<open>Requests under policies\<close>

lemma http_attempt_counts_one: "counts_one (http_attempt rt q reqFn bodyFunc cancelOuter request)"
  unfolding counts_one_def using http_attempt_counts by blast

text \<open>
  C19. A request of the HTTP client, under an executor with any number of retry policies among policies of all other kinds but hedge policies, in any order, makes at most one attempt
  and one more for each retry that one of the policies allows.
\<close>

theorem http_requests_bounded:
  fixes rt :: "(http_result, 's) runtime" and ls :: "(http_result, 's, 'b, 'd) layer list"
  assumes "limited ls" and e: "ex_policies e = map (layer_Apply rt) ls"
    and run: "doRequest rt q request e reqFn v = Some (Inr (out, Some w))"
  shows "unat (w_executions w) \<le> 1 + all_retries ls"
proof -
  obtain bodyFunc where body: "bodyReader (cr_Body request) = Inr bodyFunc" using run by (cases "bodyReader (cr_Body request)") (simp_all add: doRequest_def)
  obtain ctx co v1 where om: "outer_merge (hq_ctx request) (ex_ctx e) v = (ctx, co, v1)" by (cases "outer_merge (hq_ctx request) (ex_ctx e) v")
  define e' where "e' = (if ctx \<noteq> ex_ctx e then WithContext (Some ctx) e else e)"
  define g where "g = http_attempt rt q reqFn bodyFunc co request"
  have "doRequest rt q request e reqFn v = run_bind (execute_inner e' g (newExecution (rt_zero rt) (ex_ctx e') v1)) (\<lambda>(er, w).
      run_return ((Result er, Error er), Some (if has_response (Result er) then w else set_env (cancel_outer co) w)))"
    unfolding doRequest_def body sum.case om Let_def prod.case g_def e'_def ..
  with run obtain er w2 where i: "execute_inner e' g (newExecution (rt_zero rt) (ex_ctx e') v1) = Some (Inr (er, w2))" and w2: "w_executions w = w_executions w2"
    by (auto simp: run_bind_cases run_return_def set_env_def split: if_splits)
  have "w_executions (log_event n er u) = w_executions u" for n and u :: "(http_result, 's) world" by (simp add: log_event_def)
  with i w2 obtain w1 where r: "compose_from 0 (ex_policies e') g 0 (newExecution (rt_zero rt) (ex_ctx e') v1) = Some (Inr (er, w1))"
      "w_executions w = w_executions w1"
    unfolding execute_inner_def by (auto simp: run_bind_cases run_return_def Let_def split: if_splits)
  have "ex_policies e' = map (layer_Apply rt) ls" using e by (simp add: e'_def WithContext_def)
  with r layers_count[OF http_attempt_counts_one assms(1)] show ?thesis unfolding g_def by metis
qed

text \<open>A server that is unavailable once, under the HTTP retry policy.\<close>

theorem http_requests_bounded_witness:
  "\<exists>out w. doRequest http_runtime client_ref get_request (http_executor [retry_Apply http_runtime (http_NewRetryPolicyBuilder (\<lambda>_. []) (\<lambda>_. False))])
      flaky_server fresh_env = Some (Inr (out, Some w)) \<and> unat (w_executions w) \<le> 1 + 2"
proof -
  let ?c = "http_NewRetryPolicyBuilder (\<lambda>_. []) (\<lambda>_. False) :: (http_result, server_state) rp_config"
  let ?e = "http_executor [retry_Apply http_runtime ?c]"
  have live: "\<not> ctx_ended ctx (fresh_env :: (http_result, server_state) env)" for ctx by (induction ctx) (simp_all add: ctx_ended_def fresh_env_def)
  have c: "cr_Body get_request = NilBody" "ex_policies ?e = [retry_Apply http_runtime ?c]"
    and r: "\<And>d ctx v. rt_pause http_runtime d ctx v = v" "rt_fuel http_runtime = Suc (Suc 1)" "ss_calls (objs fresh_env) = 0"
    by (simp_all add: get_request_def http_executor_def WithContext_def executor_With_def http_runtime_def fresh_env_def)
  have a: "retryHandleFunc (\<lambda>_. []) (\<lambda>_. False) (Some (server_answer 0)) None" "\<not> retryHandleFunc (\<lambda>_. []) (\<lambda>_. False) (Some (server_answer 1)) None"
    by (simp_all add: retryHandleFunc_def server_answer_def status_defs)
  obtain out w where w: "doRequest http_runtime client_ref get_request ?e flaky_server fresh_env = Some (Inr (out, Some w))"
    using doRequest_retried[OF client_ref_laws(1) flaky_server_answers live live c r a] by blast
  have "limited [Retrying ?c :: (http_result, server_state, bool list, float64 list) layer]" by (simp add: limited_def http_build_facts)
  from http_requests_bounded[OF this _ w] c(2) have "unat (w_executions w) \<le> 1 + 2" by (simp add: http_build_facts)
  with w show ?thesis by blast
qed

end
